(* ===== verification/Prelude.thy ===== *)
theory Prelude
  imports Main "HOL-Library.Word" "HOL-Library.Monad_Syntax"
begin

text \<open>
  The prelude of the tinierOS development: the machine types of the ATmega328P that every
  component uses, the fact collections the component theories fill and use, and the generic
  lemmas on lists, functions, options and words that their proofs share.

  On the AVR an \<open>int\<close>, an \<open>unsigned int\<close>, a \<open>size_t\<close> and a pointer are
  16 bits wide, a \<open>char\<close> is 8 bits and a \<open>TimerDuration\<close> (\<open>uint32_t\<close>)
  is 32 bits. A call that does not return (an endless loop, or a failed \<open>assert\<close>, which
  calls \<open>abort\<close>, whose body is \<open>while(1);\<close>) is the value \<open>None\<close>.
\<close>

type_synonym u8 = "8 word"
type_synonym u16 = "16 word"
type_synonym u32 = "32 word"

text \<open>
  \<open>kernel_defs\<close> holds the definitions a component unfolds in its own proofs,
  \<open>ring_facts\<close> the facts about circular lists, \<open>frame_simps\<close> the
  "this field is not touched" equations.
\<close>

named_theorems kernel_defs "definitions unfolded by the proofs of a component"
named_theorems ring_facts "facts on circular doubly linked lists"
named_theorems frame_simps "fields an operation leaves alone"

section \<open>Lists\<close>

lemma hd_append_singleton: "hd (xs @ [a]) = (if xs = [] then a else hd xs)"
  by (cases xs) auto

lemma tl_append_singleton: "xs \<noteq> [] \<Longrightarrow> tl (xs @ [a]) = tl xs @ [a]"
  by (cases xs) auto

lemma set_tl_subset: "set (tl xs) \<subseteq> set xs"
  by (cases xs) auto

lemma distinct_hd_notin_tl: "distinct xs \<Longrightarrow> xs \<noteq> [] \<Longrightarrow> hd xs \<notin> set (tl xs)"
  by (cases xs) auto

lemma filter_eq_single:
  "distinct xs \<Longrightarrow> x \<in> set xs \<Longrightarrow> filter (\<lambda>y. y = x) xs = [x]"
  by (induction xs) (auto simp: filter_empty_conv)

lemma snoc_cases: obtains (Nil) "xs = []" | (snoc) ys y where "xs = ys @ [y]"
  by (cases xs rule: rev_cases) auto

lemma distinct_concat_map_upt:
  assumes "distinct (concat (map q [0..<n]))" and "i < n"
  shows "distinct (q i)"
  using assms by (induction n) (auto simp: less_Suc_eq)

lemma mem_concat_map_upt: "x \<in> set (concat (map q [0..<n])) \<longleftrightarrow> (\<exists>i<n. x \<in> set (q i))"
  by auto

section \<open>The first index of a range that satisfies a predicate\<close>

text \<open>
  The search loop \<open>for (i = 0; i < n; i++) if (p(i)) \<dots> break;\<close>, which the kernel writes
  out in every allocator: the first index from \<open>i\<close> up to \<open>n\<close> that satisfies
  \<open>p\<close>.
\<close>

function first_from :: "(nat \<Rightarrow> bool) \<Rightarrow> nat \<Rightarrow> nat \<Rightarrow> nat option" where
  "first_from p i n = (if i < n then (if p i then Some i else first_from p (Suc i) n) else None)"
  by pat_completeness auto
termination
  by (relation "measure (\<lambda>(p, i, n). n - i)") auto

declare first_from.simps [simp del]

lemma first_from_SomeD:
  "first_from p i n = Some k \<Longrightarrow> i \<le> k \<and> k < n \<and> p k \<and> (\<forall>j. i \<le> j \<and> j < k \<longrightarrow> \<not> p j)"
proof (induction p i n rule: first_from.induct)
  case (1 p i n)
  show ?case
  proof (cases "i < n \<and> \<not> p i")
    case True
    with "1.prems" have "first_from p (Suc i) n = Some k"
      by (simp add: first_from.simps [of p i n])
    with True "1.IH" have "Suc i \<le> k \<and> k < n \<and> p k \<and> (\<forall>j. Suc i \<le> j \<and> j < k \<longrightarrow> \<not> p j)"
      by simp
    with True show ?thesis by (metis Suc_leD Suc_leI le_neq_implies_less)
  next
    case False
    with "1.prems" show ?thesis by (auto simp: first_from.simps [of p i n] split: if_splits)
  qed
qed

lemma first_from_None_iff: "first_from p i n = None \<longleftrightarrow> (\<forall>j. i \<le> j \<and> j < n \<longrightarrow> \<not> p j)"
proof (induction p i n rule: first_from.induct)
  case (1 p i n)
  show ?case
  proof (cases "i < n \<and> \<not> p i")
    case True
    with "1.IH" have "first_from p i n = None \<longleftrightarrow> (\<forall>j. Suc i \<le> j \<and> j < n \<longrightarrow> \<not> p j)"
      by (simp add: first_from.simps [of p i n])
    with True show ?thesis by (metis Suc_leD Suc_leI le_neq_implies_less)
  next
    case False
    then show ?thesis by (auto simp: first_from.simps [of p i n])
  qed
qed

lemma first_from_eqI:
  assumes "i \<le> k" "k < n" "p k" "\<And>j. i \<le> j \<Longrightarrow> j < k \<Longrightarrow> \<not> p j"
  shows "first_from p i n = Some k"
proof -
  from assms have "first_from p i n \<noteq> None"
    by (auto simp: first_from_None_iff)
  then obtain m where m: "first_from p i n = Some m"
    by blast
  note D = first_from_SomeD [OF m]
  have "m = k"
  proof (rule linorder_cases [of m k])
    assume "m < k"
    with D assms(4) [of m] show ?thesis by simp
  next
    assume "k < m"
    with D assms(1,3) show ?thesis by simp
  qed simp
  with m show ?thesis by simp
qed

lemma filter_upt_first_from:
  "filter p [i..<n] = (case first_from p i n of None \<Rightarrow> [] | Some k \<Rightarrow> k # filter p [Suc k..<n])"
proof (induction p i n rule: first_from.induct)
  case (1 p i n)
  then show ?case by (cases "i < n") (auto simp: upt_conv_Cons first_from.simps [of p i n])
qed

section \<open>Loops over a known range whose body may not return\<close>

fun for_each :: "('a \<Rightarrow> 's \<Rightarrow> 's option) \<Rightarrow> 'a list \<Rightarrow> 's \<Rightarrow> 's option" where
  "for_each f [] s = Some s"
| "for_each f (x # xs) s = do { s' \<leftarrow> f x s; for_each f xs s' }"

lemma for_each_append:
  "for_each f (xs @ ys) s = do { s' \<leftarrow> for_each f xs s; for_each f ys s' }"
  by (induction xs arbitrary: s) (auto split: Option.bind_splits)

text \<open>A field no step of a fold touches.\<close>

lemma fold_frame: "(\<And>x s. g (f x s) = g s) \<Longrightarrow> g (fold f xs s) = g s"
  by (induction xs arbitrary: s) auto

section \<open>Words\<close>

lemma word_minus_one_lt: "n \<noteq> 0 \<Longrightarrow> unat (n - 1) < unat (n :: 'a::len word)"
  by (simp add: unat_minus_one unat_gt_0)

lemma word_dec_less:
  assumes "x \<noteq> 0" and "n \<noteq> (0 :: 'a::len word)"
  shows "unat (x - 1) < unat (n - 1) \<longleftrightarrow> unat x < unat n"
proof -
  have "unat x \<noteq> 0" "unat n \<noteq> 0" using assms by (simp_all add: unat_eq_zero)
  then show ?thesis using assms by (simp add: unat_minus_one) arith
qed

lemma unat_minus_one_eq: "n \<noteq> 0 \<Longrightarrow> unat (n - 1) = unat (n :: 'a::len word) - 1"
  by (rule unat_minus_one)

lemma unat_Suc_below:
  assumes "x < (n :: 'a::len word)"
  shows "unat (x + 1) = unat x + 1"
proof -
  have "unat n < 2 ^ LENGTH('a)" by (rule unsigned_less)
  then have "unat x + 1 < 2 ^ LENGTH('a)" using assms unfolding word_less_nat_alt by linarith
  then show ?thesis by (simp add: unat_word_ariths(1))
qed

section \<open>Interfaces\<close>

text \<open>A system that moves by steps and a condition every step keeps: the condition holds in every
  state reached from one in which it holds.\<close>

locale invariant_system =
  fixes step :: "'s \<Rightarrow> 's \<Rightarrow> bool"
    and inv :: "'s \<Rightarrow> bool"
  assumes step_keeps: "step s s' \<Longrightarrow> inv s \<Longrightarrow> inv s'"
begin

lemma reachable_keeps: "step\<^sup>*\<^sup>* s s' \<Longrightarrow> inv s \<Longrightarrow> inv s'"
  by (induction rule: rtranclp_induct) (auto dest: step_keeps)

lemma reachable_if:
  assumes "step\<^sup>*\<^sup>* s s'" and "inv s" and "\<And>x. inv x \<Longrightarrow> P x"
  shows "P s'"
  using assms reachable_keeps by blast

end

text \<open>A table of \<open>size\<close> slots with a flag each, an allocation that takes a free slot, and a
  release. The kernel has three of them: the thread pool, the PTCB pool and the process table.\<close>

locale slot_allocator =
  fixes used :: "'s \<Rightarrow> nat \<Rightarrow> bool"
    and size :: nat
    and alloc :: "'s \<Rightarrow> 's \<times> nat option"
    and release :: "nat \<Rightarrow> 's \<Rightarrow> 's"
  assumes alloc_some: "alloc s = (s', Some i) \<Longrightarrow> i < size \<and> \<not> used s i \<and> used s' = (used s)(i := True)"
    and alloc_none: "alloc s = (s', None) \<Longrightarrow> s' = s \<and> (\<forall>i < size. used s i)"
    and release_used: "i < size \<Longrightarrow> used (release i s) = (used s)(i := False)"
begin

lemma alloc_succeeds_iff: "(\<exists>i. snd (alloc s) = Some i) \<longleftrightarrow> (\<exists>i < size. \<not> used s i)"
proof (cases "alloc s")
  case (Pair s' r)
  then show ?thesis using alloc_some [of s s'] alloc_none [of s s'] by (cases r) auto
qed

lemma alloc_after_release: "i < size \<Longrightarrow> \<exists>j. snd (alloc (release i s)) = Some j"
  using alloc_succeeds_iff [of "release i s"] release_used [of i s] by auto

text \<open>Each allocation takes exactly one slot, until none is left.\<close>

lemma alloc_count:
  "card {i. i < size \<and> \<not> used (fst (alloc s)) i} = card {i. i < size \<and> \<not> used s i} - 1"
proof (cases "alloc s")
  case (Pair s' r)
  show ?thesis
  proof (cases r)
    case None
    with Pair alloc_none [of s s'] have "s' = s" "\<forall>i < size. used s i" by auto
    then have "{i. i < size \<and> \<not> used s' i} = {}" "{i. i < size \<and> \<not> used s i} = {}" by auto
    then show ?thesis unfolding Pair fst_conv by (simp only: card.empty)
  next
    case (Some i)
    then have "i < size" "\<not> used s i" "used s' = (used s)(i := True)" using Pair alloc_some [of s s' i] by auto
    moreover from this have "{j. j < size \<and> \<not> used s' j} = {j. j < size \<and> \<not> used s j} - {i}" by auto
    ultimately show ?thesis by (simp add: Pair)
  qed
qed

lemma allocs_count:
  "card {i. i < size \<and> \<not> used (((\<lambda>s. fst (alloc s)) ^^ n) s) i} = card {i. i < size \<and> \<not> used s i} - n"
  by (induction n) (simp_all add: alloc_count)

lemma allocs_exhaust:
  assumes "card {i. i < size \<and> \<not> used s i} \<le> n"
  shows "snd (alloc (((\<lambda>s. fst (alloc s)) ^^ n) s)) = None"
proof -
  have "finite {i. i < size \<and> \<not> used (((\<lambda>s. fst (alloc s)) ^^ n) s) i}" by simp
  with allocs_count [of n s] assms have "{i. i < size \<and> \<not> used (((\<lambda>s. fst (alloc s)) ^^ n) s) i} = {}"
    by (metis card_eq_0_iff diff_is_0_eq)
  then show ?thesis using alloc_succeeds_iff [of "((\<lambda>s. fst (alloc s)) ^^ n) s"] by auto
qed

end

text \<open>A pool of free objects kept in a first-in first-out list: \<open>holds s xs R\<close> says that \<open>xs\<close>
  are the free objects, in order, and \<open>R\<close> the objects that have been taken and are in nobody's
  hands but the caller's. The file tables of both kernels are such pools.\<close>

locale free_pool =
  fixes holds :: "'s \<Rightarrow> 'i list \<Rightarrow> 'i set \<Rightarrow> bool"
    and acquire :: "'s \<Rightarrow> ('s \<times> 'i option) option"
    and release :: "'i \<Rightarrow> 's \<Rightarrow> 's"
  assumes acquire_empty: "holds s [] R \<Longrightarrow> acquire s = Some (s, None)"
    and acquire_next: "holds s (x # xs) R \<Longrightarrow> \<exists>s'. acquire s = Some (s', Some x) \<and> holds s' xs (insert x R)"
    and release_back: "holds s xs R \<Longrightarrow> i \<in> R \<Longrightarrow> holds (release i s) (xs @ [i]) (R - {i})"
    and apart: "holds s xs R \<Longrightarrow> distinct xs \<and> set xs \<inter> R = {}"
begin

lemma acquire_succeeds_iff: "holds s xs R \<Longrightarrow> (\<exists>s' x. acquire s = Some (s', Some x)) \<longleftrightarrow> xs \<noteq> []"
proof (cases xs)
  case Nil
  assume "holds s xs R"
  then show ?thesis using Nil acquire_empty by simp
next
  case (Cons y ys)
  assume "holds s xs R"
  then show ?thesis using Cons acquire_next by blast
qed

lemma release_all:
  "holds s xs R \<Longrightarrow> distinct ys \<Longrightarrow> set ys \<subseteq> R \<Longrightarrow> holds (fold release ys s) (xs @ ys) (R - set ys)"
proof (induction ys arbitrary: s xs R)
  case (Cons y ys)
  have "holds (release y s) (xs @ [y]) (R - {y})" using Cons.prems by (intro release_back) auto
  from Cons.IH [OF this] Cons.prems show ?case by (auto simp: Diff_insert2 [symmetric])
qed simp

text \<open>What is released is acquired again after everything that was free before.\<close>

lemma release_then_acquire:
  assumes "holds s xs R" and "i \<in> R"
  shows "\<exists>s'. acquire (release i s) = Some (s', Some (hd (xs @ [i])))"
proof -
  have "xs @ [i] = hd (xs @ [i]) # tl (xs @ [i])" by simp
  then have "holds (release i s) (hd (xs @ [i]) # tl (xs @ [i])) (R - {i})" using release_back [OF assms] by simp
  then show ?thesis using acquire_next by blast
qed

end

end
