(* ===== verification/Cstring.thy ===== *)
theory Cstring
  imports Prelude
begin

text \<open>
  The C library of the kernel (\<open>src/lib/string.c\<close>) and the argument vectors of
  \<open>include/util.h\<close>, over the byte memory of the ATmega328P: 16-bit addresses that wrap
  around, one byte per address. The scanning loops (\<open>strlen\<close>, the inner loops of
  \<open>argvpack\<close> and \<open>argvunpack\<close>) stop only at a zero byte and are
  \<open>partial_function (option)\<close>.
\<close>

type_synonym memory = "u16 \<Rightarrow> u8"

section \<open>\<open>src/lib/string.c\<close>\<close>

text \<open>\<open>memset\<close> and \<open>memcpy\<close> return their first argument; the model returns the memory.\<close>

function memset_loop :: "memory \<Rightarrow> u16 \<Rightarrow> u8 \<Rightarrow> u16 \<Rightarrow> memory" where
  "memset_loop m p c n = (if n = 0 then m else memset_loop (m(p := c)) (p + 1) c (n - 1))"
  by pat_completeness auto
termination
  by (relation "measure (\<lambda>(m, p, c, n). unat n)") (auto simp: word_minus_one_lt)

definition memset :: "memory \<Rightarrow> u16 \<Rightarrow> u16 \<Rightarrow> u16 \<Rightarrow> memory" where
  "memset m s c n = memset_loop m s (ucast c) n"

function memcpy :: "memory \<Rightarrow> u16 \<Rightarrow> u16 \<Rightarrow> u16 \<Rightarrow> memory" where
  "memcpy m d s n = (if n = 0 then m else memcpy (m(d := m s)) (d + 1) (s + 1) (n - 1))"
  by pat_completeness auto
termination
  by (relation "measure (\<lambda>(m, d, s, n). unat n)") (auto simp: word_minus_one_lt)

partial_function (option) strlen_loop :: "memory \<Rightarrow> u16 \<Rightarrow> u16 \<Rightarrow> u16 option" where
  "strlen_loop m s len = (if m (s + len) \<noteq> 0 then strlen_loop m s (len + 1) else Some len)"

definition strlen :: "memory \<Rightarrow> u16 \<Rightarrow> u16 option" where
  "strlen m s = strlen_loop m s 0"

declare memset_loop.simps [simp del] memcpy.simps [simp del]

section \<open>The argument vectors of \<open>include/util.h\<close>\<close>

text \<open>A pair \<open>(argc, argv)\<close> is the list of the \<open>argc\<close> string pointers.\<close>

fun argvlen_loop :: "memory \<Rightarrow> u16 list \<Rightarrow> u16 \<Rightarrow> u16 option" where
  "argvlen_loop m [] l = Some l"
| "argvlen_loop m (a # argv) l =
     do { n \<leftarrow> strlen m a; argvlen_loop m argv (l + (n + 1)) }"

definition argvlen :: "memory \<Rightarrow> u16 list \<Rightarrow> u16 option" where
  "argvlen m argv = argvlen_loop m argv 0"

text \<open>\<open>while ((*pos++ = *s++)) argl++;\<close>\<close>

partial_function (option) pack_string ::
    "memory \<Rightarrow> u16 \<Rightarrow> u16 \<Rightarrow> u16 \<Rightarrow> (memory \<times> u16 \<times> u16) option" where
  "pack_string m pos s argl =
     (let c = m s; m' = m(pos := c)
      in if c \<noteq> 0 then pack_string m' (pos + 1) (s + 1) (argl + 1)
         else Some (m', pos + 1, argl))"

fun argvpack_loop :: "memory \<Rightarrow> u16 \<Rightarrow> u16 list \<Rightarrow> u16 \<Rightarrow> (memory \<times> u16) option" where
  "argvpack_loop m pos [] argl = Some (m, argl)"
| "argvpack_loop m pos (s # argv) argl =
     do { (m', pos', argl') \<leftarrow> pack_string m pos s argl; argvpack_loop m' pos' argv argl' }"

definition argvpack :: "memory \<Rightarrow> u16 \<Rightarrow> u16 list \<Rightarrow> (memory \<times> u16) option" where
  "argvpack m args argv =
     do { (m', argl) \<leftarrow> argvpack_loop m args argv 0;
          Some (m', argl + of_nat (length argv)) }"

text \<open>\<open>argscount(argl, args)\<close>: \<open>argl\<close> and \<open>i\<close> are of type \<open>int\<close>, so a negative
  length counts nothing.\<close>

function argscount_loop :: "memory \<Rightarrow> u16 \<Rightarrow> int \<Rightarrow> int \<Rightarrow> int \<Rightarrow> int" where
  "argscount_loop m a i argl n =
     (if i < argl then argscount_loop m a (i + 1) argl (if m (a + of_int i) = 0 then n + 1 else n)
      else n)"
  by pat_completeness auto
termination
  by (relation "measure (\<lambda>(m, a, i, argl, n). nat (argl - i))") auto

declare argscount_loop.simps [simp del]

definition argscount :: "memory \<Rightarrow> int \<Rightarrow> u16 \<Rightarrow> u16" where
  "argscount m argl args = of_int (argscount_loop m args 0 argl 0)"

text \<open>\<open>while (*a++);\<close>\<close>

partial_function (option) skip_string :: "memory \<Rightarrow> u16 \<Rightarrow> u16 option" where
  "skip_string m a = (if m a \<noteq> 0 then skip_string m (a + 1) else Some (a + 1))"

fun argvunpack :: "memory \<Rightarrow> nat \<Rightarrow> u16 \<Rightarrow> (u16 list \<times> u16) option" where
  "argvunpack m 0 a = Some ([], a)"
| "argvunpack m (Suc argc) a =
     do { a' \<leftarrow> skip_string m a; (argv, e) \<leftarrow> argvunpack m argc a'; Some (a # argv, e) }"

section \<open>Filling and copying memory\<close>

lemma memset_loop_eq:
  "memset_loop m p c n a = (if unat (a - p) < unat n then c else m a)"
proof (induction m p c n rule: memset_loop.induct)
  case (1 m p c n)
  show ?case
  proof (cases "n = 0")
    case False
    have eq: "a - (p + 1) = (a - p) - 1" by simp
    note ih = "1.IH" [OF False]
    show ?thesis
    proof (cases "a = p")
      case True
      with False show ?thesis
        by (subst memset_loop.simps) (simp add: ih [unfolded True] unat_gt_0)
    next
      case ne: False
      then have "unat (a - (p + 1)) < unat (n - 1) \<longleftrightarrow> unat (a - p) < unat n"
        unfolding eq using False by (simp add: word_dec_less)
      with False ne show ?thesis
        by (subst memset_loop.simps) (simp add: ih)
    qed
  qed (simp add: memset_loop.simps)
qed

lemma memset_eq: "memset m s c n a = (if unat (a - s) < unat n then ucast c else m a)"
  by (simp add: memset_def memset_loop_eq)

text \<open>A forward copy is right unless the destination starts inside the source.\<close>

lemma memcpy_eq:
  "d = s \<or> unat n \<le> unat (d - s) \<Longrightarrow>
   memcpy m d s n a = (if unat (a - d) < unat n then m (s + (a - d)) else m a)"
proof (induction m d s n rule: memcpy.induct)
  case (1 m d s n)
  show ?case
  proof (cases "n = 0")
    case False
    let ?m = "m(d := m s)"
    have pre: "d + 1 = s + 1 \<or> unat (n - 1) \<le> unat (d + 1 - (s + 1))"
      using "1.prems" False by (auto simp: unat_minus_one)
    have ih: "memcpy ?m (d + 1) (s + 1) (n - 1) a =
        (if unat (a - (d + 1)) < unat (n - 1) then ?m (s + 1 + (a - (d + 1))) else ?m a)"
      using "1.IH" [OF False pre] .
    have eq: "a - (d + 1) = (a - d) - 1" "s + 1 + (a - (d + 1)) = s + (a - d)" by simp_all
    show ?thesis
    proof (cases "a = d")
      case True
      have "s + (d - d) = s" by simp
      with True False ih show ?thesis
        by (subst memcpy.simps) (simp add: unat_gt_0)
    next
      case ne: False
      then have lt: "unat (a - (d + 1)) < unat (n - 1) \<longleftrightarrow> unat (a - d) < unat n"
        unfolding eq using False by (simp add: word_dec_less)
      have "s + (a - d) \<noteq> d" if "unat (a - d) < unat n"
      proof
        assume "s + (a - d) = d"
        then have "a - d = d - s" by (simp add: algebra_simps)
        with that ne "1.prems" show False by auto
      qed
      with False ne ih lt show ?thesis
        unfolding eq by (subst memcpy.simps) simp
    qed
  qed (simp add: memcpy.simps)
qed

section \<open>Byte ranges and strings in memory\<close>

fun bytes_at :: "memory \<Rightarrow> u16 \<Rightarrow> u8 list \<Rightarrow> bool" where
  "bytes_at m a [] \<longleftrightarrow> True"
| "bytes_at m a (b # bs) \<longleftrightarrow> m a = b \<and> bytes_at m (a + 1) bs"

fun write_bytes :: "memory \<Rightarrow> u16 \<Rightarrow> u8 list \<Rightarrow> memory" where
  "write_bytes m a [] = m"
| "write_bytes m a (b # bs) = write_bytes (m(a := b)) (a + 1) bs"

fun region :: "u16 \<Rightarrow> nat \<Rightarrow> u16 set" where
  "region a 0 = {}"
| "region a (Suc n) = insert a (region (a + 1) n)"

text \<open>A zero-terminated string.\<close>

definition cstr :: "memory \<Rightarrow> u16 \<Rightarrow> u8 list \<Rightarrow> bool" where
  "cstr m a cs \<longleftrightarrow> bytes_at m a (cs @ [0]) \<and> 0 \<notin> set cs"

text \<open>The contents of an argument buffer: the strings, each with its terminating zero.\<close>

definition packed :: "u8 list list \<Rightarrow> u8 list" where
  "packed css = concat (map (\<lambda>cs. cs @ [0]) css)"

lemma packed_simps [simp]: "packed [] = []" "packed (cs # css) = cs @ 0 # packed css"
  by (simp_all add: packed_def)

lemma bytes_at_append:
  "bytes_at m a (xs @ ys) \<longleftrightarrow> bytes_at m a xs \<and> bytes_at m (a + of_nat (length xs)) ys"
  by (induction xs arbitrary: a) (auto simp: algebra_simps)

lemma bytes_at_nth: "bytes_at m a bs \<longleftrightarrow> (\<forall>i<length bs. m (a + of_nat i) = bs ! i)"
  by (induction bs arbitrary: a) (simp_all add: All_less_Suc2 add.assoc)

lemma write_bytes_append:
  "write_bytes m a (xs @ ys) = write_bytes (write_bytes m a xs) (a + of_nat (length xs)) ys"
  by (induction xs arbitrary: m a) (auto simp: algebra_simps)

lemma mem_region: "x \<in> region a n \<longleftrightarrow> (\<exists>i<n. x = a + of_nat i)"
proof (induction n arbitrary: a)
  case (Suc n)
  have "(\<exists>i<Suc n. x = a + of_nat i) \<longleftrightarrow> x = a \<or> (\<exists>i<n. x = a + of_nat (Suc i))"
    by (simp add: Ex_less_Suc2)
  also have "\<dots> \<longleftrightarrow> x \<in> region a (Suc n)"
    by (simp add: Suc add.assoc)
  finally show ?case by simp
qed simp

lemma region_append: "region a (k + n) = region a k \<union> region (a + of_nat k) n"
proof (induction k arbitrary: a)
  case (Suc k)
  show ?case by (simp add: Suc add.assoc)
qed simp

lemma bytes_at_cong:
  "(\<And>x. x \<in> region a (length bs) \<Longrightarrow> m' x = m x) \<Longrightarrow> bytes_at m' a bs = bytes_at m a bs"
  by (induction bs arbitrary: a) auto

lemma write_bytes_frame: "x \<notin> region a (length bs) \<Longrightarrow> write_bytes m a bs x = m x"
  by (induction bs arbitrary: m a) auto

lemma notin_region_Suc: "n < 2 ^ 16 \<Longrightarrow> a \<notin> region (a + 1) n"
proof
  assume n: "n < 2 ^ 16" and "a \<in> region (a + 1) n"
  then obtain i where i: "i < n" "a = a + 1 + of_nat i" by (auto simp: mem_region)
  then have "a + of_nat (Suc i) = a + 0" by (simp add: algebra_simps)
  then have "(of_nat (Suc i) :: u16) = 0" by (simp only: add_left_cancel)
  moreover have "Suc i < 2 ^ 16" using n i by simp
  then have "unat (of_nat (Suc i) :: u16) = Suc i"
    by (simp add: unat_of_nat del: of_nat_Suc)
  ultimately show False by simp
qed

lemma bytes_at_write: "length bs \<le> 2 ^ 16 \<Longrightarrow> bytes_at (write_bytes m a bs) a bs"
  by (induction bs arbitrary: m a) (auto simp: write_bytes_frame notin_region_Suc)

section \<open>\<open>strlen\<close>\<close>

lemma strlen_loop_eq:
  "bytes_at m (s + len) (cs @ [0]) \<Longrightarrow> 0 \<notin> set cs \<Longrightarrow> strlen_loop m s len = Some (len + of_nat (length cs))"
proof (induction cs arbitrary: len)
  case (Cons c cs)
  then have "strlen_loop m s (len + 1) = Some (len + 1 + of_nat (length cs))"
    by (intro Cons.IH) (auto simp: algebra_simps)
  with Cons.prems show ?case by (subst strlen_loop.simps) (simp add: algebra_simps)
qed (simp add: strlen_loop.simps)

lemma strlen_eq: "cstr m s cs \<Longrightarrow> strlen m s = Some (of_nat (length cs))"
  using strlen_loop_eq [of m s 0 cs] by (simp add: strlen_def cstr_def)

lemma argvlen_loop_eq:
  "list_all2 (cstr m) argv css \<Longrightarrow> argvlen_loop m argv l = Some (l + of_nat (length (packed css)))"
  by (induction argv css arbitrary: l rule: list_all2_induct) (auto simp: strlen_eq algebra_simps)

lemma argvlen_eq: "list_all2 (cstr m) argv css \<Longrightarrow> argvlen m argv = Some (of_nat (length (packed css)))"
  by (simp add: argvlen_def argvlen_loop_eq)

section \<open>Packing and unpacking\<close>

lemma pack_string_eq:
  assumes "bytes_at m s (cs @ [0])" "0 \<notin> set cs"
    "region s (Suc (length cs)) \<inter> region pos (Suc (length cs)) = {}"
  shows "pack_string m pos s argl =
    Some (write_bytes m pos (cs @ [0]), pos + of_nat (Suc (length cs)), argl + of_nat (length cs))"
  using assms
proof (induction cs arbitrary: m pos s argl)
  case Nil
  then show ?case by (subst pack_string.simps) simp
next
  case (Cons c cs)
  let ?m = "m(pos := c)"
  have b: "bytes_at ?m (s + 1) (cs @ [0])" 
    using Cons.prems by (subst bytes_at_cong [of _ _ _ m]) auto
  have d: "region (s+1) (Suc (length cs)) \<inter> region (pos+1) (Suc (length cs)) = {}"
     using Cons.prems(3) by auto
  have z: "0 \<notin> set cs" using Cons.prems by simp
  have "pack_string ?m (pos + 1) (s + 1) (argl + 1) =
      Some (write_bytes ?m (pos + 1) (cs @ [0]), pos + 1 + of_nat (Suc (length cs)), argl + 1 + of_nat (length cs))"
     by (rule Cons.IH [OF b z d])
  with Cons.prems show ?case
    by (subst pack_string.simps) (simp add: add_ac)
qed

text \<open>Where the packed strings start.\<close>

fun offsets :: "u16 \<Rightarrow> u8 list list \<Rightarrow> u16 list" where
  "offsets a [] = []"
| "offsets a (cs # css) = a # offsets (a + of_nat (Suc (length cs))) css"

lemma argvpack_loop_eq:
  assumes "list_all2 (cstr m) argv css"
    "\<And>i. i < length argv \<Longrightarrow>
      region (argv ! i) (Suc (length (css ! i))) \<inter> region pos (length (packed css)) = {}"
  shows "argvpack_loop m pos argv argl =
    Some (write_bytes m pos (packed css), argl + of_nat (length (concat css)))"
  using assms
proof (induction argv arbitrary: css m pos argl)
  case Nil
  then show ?case by simp
next
  case (Cons s argv css0)
  then obtain cs css where css0: "css0 = cs # css" and s: "cstr m s cs" and rest: "list_all2 (cstr m) argv css"
    by (auto simp: list_all2_Cons1)
  note prems = Cons.prems(2) [unfolded css0]
  let ?m = "write_bytes m pos (cs @ [0])" and ?pos = "pos + of_nat (Suc (length cs))"
  have reg: "region pos (length (packed (cs # css)))
      = region pos (Suc (length cs)) \<union> region ?pos (length (packed css))"
    using region_append [of pos "Suc (length cs)" "length (packed css)"] by simp
  have "region s (Suc (length cs)) \<inter> region pos (Suc (length cs)) = {}"
    using prems [of 0] unfolding reg by auto
  then have p: "pack_string m pos s argl = Some (?m, ?pos, argl + of_nat (length cs))"
    using s unfolding cstr_def by (intro pack_string_eq) auto
  have dis: "region (argv ! i) (Suc (length (css ! i))) \<inter> region pos (Suc (length cs)) = {}"
    "region (argv ! i) (Suc (length (css ! i))) \<inter> region ?pos (length (packed css)) = {}"
    if "i < length argv" for i
    using prems [of "Suc i"] that unfolding reg by auto
  have "list_all2 (cstr ?m) argv css"
  proof (rule list_all2_all_nthI)
    show len: "length argv = length css" using rest by (rule list_all2_lengthD)
    fix i assume i: "i < length argv"
    have "bytes_at ?m (argv ! i) (css ! i @ [0]) = bytes_at m (argv ! i) (css ! i @ [0])"
      using dis(1) [OF i] by (intro bytes_at_cong write_bytes_frame) auto
    with list_all2_nthD [OF rest i] show "cstr ?m (argv ! i) (css ! i)"
      by (simp add: cstr_def)
  qed
  then have "argvpack_loop ?m ?pos argv (argl + of_nat (length cs)) =
      Some (write_bytes ?m ?pos (packed css), argl + of_nat (length cs) + of_nat (length (concat css)))"
    using dis(2) by (intro Cons.IH) auto
  with p show ?case
    using write_bytes_append [of m pos "cs @ [0]" "packed css"] by (simp add: css0 add_ac)
qed

lemma length_packed: "length (packed css) = length (concat css) + length css"
  by (induction css) auto

lemma argvpack_eq:
  assumes "list_all2 (cstr m) argv css"
    "\<And>i. i < length argv \<Longrightarrow>
      region (argv ! i) (Suc (length (css ! i))) \<inter> region args (length (packed css)) = {}"
  shows "argvpack m args argv = Some (write_bytes m args (packed css), of_nat (length (packed css)))"
proof -
  have "length argv = length css" using assms(1) by (rule list_all2_lengthD)
  with argvpack_loop_eq [of m argv css args 0] assms show ?thesis
    by (simp add: argvpack_def length_packed)
qed

lemma skip_string_eq:
  "bytes_at m a (cs @ [0]) \<Longrightarrow> 0 \<notin> set cs \<Longrightarrow> skip_string m a = Some (a + of_nat (Suc (length cs)))"
proof (induction cs arbitrary: a)
  case (Cons c cs)
  then have "skip_string m (a + 1) = Some (a + 1 + of_nat (Suc (length cs)))"
    by (intro Cons.IH) auto
  with Cons.prems show ?case by (subst skip_string.simps) (simp add: algebra_simps)
qed (simp add: skip_string.simps)

lemma argvunpack_eq:
  assumes "bytes_at m a (packed css)" "\<And>cs. cs \<in> set css \<Longrightarrow> 0 \<notin> set cs"
  shows "argvunpack m (length css) a = Some (offsets a css, a + of_nat (length (packed css)))
    \<and> list_all2 (cstr m) (offsets a css) css"
  using assms
proof (induction css arbitrary: a)
  case (Cons cs css)
  let ?a = "a + of_nat (Suc (length cs))"
  have b: "bytes_at m a (cs @ [0])" "bytes_at m ?a (packed css)"
    using Cons.prems(1) bytes_at_append [of m a "cs @ [0]" "packed css"] by auto
  have "argvunpack m (length css) ?a = Some (offsets ?a css, ?a + of_nat (length (packed css)))
      \<and> list_all2 (cstr m) (offsets ?a css) css"
    using b(2) Cons.prems(2) by (intro Cons.IH) auto
  moreover have "skip_string m a = Some ?a"
    using b(1) Cons.prems(2) by (intro skip_string_eq) auto
  moreover have "cstr m a cs" using b(1) Cons.prems(2) by (simp add: cstr_def)
  ultimately show ?case by (simp add: add_ac)
qed simp

lemma argscount_loop_eq:
  "bytes_at m (a + of_int i) bs \<Longrightarrow> argl = i + int (length bs) \<Longrightarrow>
   argscount_loop m a i argl n = n + int (length (filter (\<lambda>b. b = 0) bs))"
proof (induction bs arbitrary: i n)
  case (Cons b bs)
  have "argscount_loop m a (i + 1) argl n' = n' + int (length (filter (\<lambda>b. b = 0) bs))" for n'
    using Cons.prems by (intro Cons.IH) (auto simp: algebra_simps)
  with Cons.prems show ?case
    by (subst argscount_loop.simps) auto
qed (simp add: argscount_loop.simps)

lemma zeros_packed:
  "(\<And>cs. cs \<in> set css \<Longrightarrow> 0 \<notin> set cs) \<Longrightarrow> length (filter (\<lambda>b. b = 0) (packed css)) = length css"
proof (induction css)
  case (Cons cs css)
  then have "filter (\<lambda>b. b = 0) cs = []" by (auto simp: filter_empty_conv)
  with Cons show ?case by simp
qed simp

lemma argscount_eq:
  assumes "bytes_at m a (packed css)" "\<And>cs. cs \<in> set css \<Longrightarrow> 0 \<notin> set cs"
  shows "argscount m (int (length (packed css))) a = of_nat (length css)"
  using argscount_loop_eq [of m a 0 "packed css" "int (length (packed css))" 0] assms zeros_packed [of css]
  by (simp add: argscount_def)

section \<open>Properties\<close>

text \<open>\<open>memset\<close> fills exactly the \<open>n\<close> bytes from \<open>s\<close> and \<open>memcpy\<close> moves exactly the \<open>n\<close> bytes from
  the source to the destination, for every \<open>n\<close> and also when the range wraps around the address
  space, as long as the destination does not start inside the source.\<close>

theorem memset_memcpy_correct:
  assumes "d = s \<or> unat n \<le> unat (d - s)"
  shows "memcpy m d s n a = (if unat (a - d) < unat n then m (s + (a - d)) else m a)
    \<and> memset m d c n a = (if unat (a - d) < unat n then ucast c else m a)"
  using assms by (simp add: memcpy_eq memset_eq)

theorem memset_memcpy_correct_witness:
  "memcpy (\<lambda>a. ucast a) 0xFFFE 0x10 4 0x0001 = (0x13 :: u8)
   \<and> memset (\<lambda>a. ucast a) 0xFFFE 0x141 4 0x0001 = (0x41 :: u8)"
  using memset_memcpy_correct [of "0xFFFE" "0x10" 4 "\<lambda>a. ucast a" 1 "0x141"] by simp

text \<open>C40. Packing an argument vector with \<open>argvpack\<close> into a buffer that does not overlap the strings
  writes as many bytes as \<open>argvlen\<close> says, and the buffer unpacks with \<open>argscount\<close> and
  \<open>argvunpack\<close> to as many pointers, which point to the same strings in the same order.\<close>

theorem argv_roundtrip:
  assumes "list_all2 (cstr m) argv css" and "length (packed css) \<le> 2 ^ 15 - 1"
    and "\<And>i. i < length argv \<Longrightarrow>
      region (argv ! i) (Suc (length (css ! i))) \<inter> region args (length (packed css)) = {}"
  shows "\<exists>m' argl argv'. argvpack m args argv = Some (m', argl) \<and> argvlen m argv = Some argl
    \<and> argscount m' (uint argl) args = of_nat (length argv)
    \<and> argvunpack m' (length argv) args = Some (argv', args + argl)
    \<and> list_all2 (cstr m') argv' css"
proof -
  let ?m = "write_bytes m args (packed css)" and ?n = "length (packed css)"
  have len: "length argv = length css" using assms(1) by (rule list_all2_lengthD)
  have z: "0 \<notin> set cs" if "cs \<in> set css" for cs
    using assms(1) that by (auto simp: list_all2_conv_all_nth in_set_conv_nth cstr_def)
  have b: "bytes_at ?m args (packed css)" using assms(2) by (intro bytes_at_write) simp
  have "uint (of_nat ?n :: u16) = int ?n"
    using assms(2) by (simp add: uint_word_of_int_eq take_bit_eq_mod unsigned_of_nat take_bit_nat_eq_self_iff)
  with argvpack_eq [OF assms(1,3)] argvlen_eq [OF assms(1)] argscount_eq [OF b z] argvunpack_eq [OF b z]
  show ?thesis by (auto simp: len)
qed

theorem argv_roundtrip_witness:
  "\<exists>m' argl argv'. argvpack (write_bytes (\<lambda>_. 0) 0x100 [0x61, 0x62]) 0x200 [0x100] = Some (m', argl)
    \<and> argvunpack m' 1 0x200 = Some (argv', 0x200 + argl) \<and> list_all2 (cstr m') argv' [[0x61, 0x62]]"
proof -
  have "list_all2 (cstr (write_bytes (\<lambda>_. 0) 0x100 [0x61, 0x62])) [0x100] [[0x61, 0x62]]"
    by (simp add: cstr_def)
  then show ?thesis
    using argv_roundtrip [of "write_bytes (\<lambda>_. 0) 0x100 [0x61, 0x62]" "[0x100]" "[[0x61, 0x62]]" "0x200"]
    by (simp add: numeral_3_eq_3) blast
qed

end
