(* ===== verification/Cpu.thy ===== *)
theory Cpu
  imports Cstring
begin

text \<open>
  The hardware abstraction layer, \<open>src/arch/avr/cpu.c\<close> with \<open>include/arch/avr/cpu.h\<close>:
  the interrupt flag, the interrupt handler table, Timer 1 as alarm and clock, the UART, and the
  initial stack frame of a thread.

  The special function registers are cells of the data memory, read and written at the addresses
  the file defines. What the hardware itself does to them (the UART raising a status bit, a byte
  arriving in the data register) is input of the operations that poll them: \<open>uart_poll\<close> is what
  one poll finds. Bytes written to \<open>UDR0\<close> are kept, in order, in \<open>uart_out\<close>.
\<close>

unbundle bit_operations_syntax

section \<open>State\<close>

datatype Interrupt = ICI | ALARM | SERIAL_RX_READY | SERIAL_TX_READY | MAX_INTERRUPT

text \<open>The functions the kernel installs as interrupt handlers.\<close>

datatype handler = yield_handler_fn | ici_handler_fn | serial_rx_handler_fn

fun interrupt_no :: "Interrupt \<Rightarrow> nat" where
  "interrupt_no ICI = 0"
| "interrupt_no ALARM = 1"
| "interrupt_no SERIAL_RX_READY = 2"
| "interrupt_no SERIAL_TX_READY = 3"
| "interrupt_no MAX_INTERRUPT = 4"

record cpu =
  dmem :: memory
  interrupt_handlers :: "Interrupt \<Rightarrow> handler option"
  system_clock_overflows :: u32
  uart_out :: "u8 list"

definition SREG :: u16 where "SREG = 0x5F"
definition TCCR1A :: u16 where "TCCR1A = 0x80"
definition TCCR1B :: u16 where "TCCR1B = 0x81"
definition TIMSK1 :: u16 where "TIMSK1 = 0x6F"
definition TCNT1_L :: u16 where "TCNT1_L = 0x84"
definition TCNT1_H :: u16 where "TCNT1_H = 0x85"
definition OCR1A_L :: u16 where "OCR1A_L = 0x88"
definition OCR1A_H :: u16 where "OCR1A_H = 0x89"
definition UCSR0A :: u16 where "UCSR0A = 0xC0"
definition UCSR0B :: u16 where "UCSR0B = 0xC1"
definition UCSR0C :: u16 where "UCSR0C = 0xC2"
definition UBRR0L :: u16 where "UBRR0L = 0xC4"
definition UBRR0H :: u16 where "UBRR0H = 0xC5"
definition UDR0 :: u16 where "UDR0 = 0xC6"

lemmas register_defs = SREG_def TCCR1A_def TCCR1B_def TIMSK1_def TCNT1_L_def TCNT1_H_def
  OCR1A_L_def OCR1A_H_def UCSR0A_def UCSR0B_def UCSR0C_def UBRR0L_def UBRR0H_def UDR0_def

definition WGM12 :: nat where "WGM12 = 3"
definition CS11 :: nat where "CS11 = 1"
definition CS10 :: nat where "CS10 = 0"
definition OCIE1A :: nat where "OCIE1A = 1"
definition TOIE1 :: nat where "TOIE1 = 0"
definition RXEN0 :: nat where "RXEN0 = 4"
definition TXEN0 :: nat where "TXEN0 = 3"
definition RXCIE0 :: nat where "RXCIE0 = 7"
definition UCSZ01 :: nat where "UCSZ01 = 2"
definition UCSZ00 :: nat where "UCSZ00 = 1"
definition RXC0 :: nat where "RXC0 = 7"
definition UDRE0 :: nat where "UDRE0 = 5"

lemmas register_bits = WGM12_def CS11_def CS10_def OCIE1A_def TOIE1_def RXEN0_def TXEN0_def
  RXCIE0_def UCSZ01_def UCSZ00_def RXC0_def UDRE0_def

text \<open>Reading and writing a register; \<open>bitmask n\<close> is \<open>1 << n\<close>.\<close>

definition reg :: "cpu \<Rightarrow> u16 \<Rightarrow> u8" where
  "reg c a = dmem c a"

definition set_reg :: "u16 \<Rightarrow> u8 \<Rightarrow> cpu \<Rightarrow> cpu" where
  "set_reg a v c = c\<lparr>dmem := (dmem c)(a := v)\<rparr>"

definition bitmask :: "nat \<Rightarrow> u8" where
  "bitmask n = push_bit n 1"

section \<open>Interrupts\<close>

definition cpu_core_id :: nat where "cpu_core_id = 0"

definition cpu_cores :: nat where "cpu_cores = 1"

definition sei :: "cpu \<Rightarrow> cpu" where
  "sei c = set_reg SREG (reg c SREG OR 0x80) c"

definition cli :: "cpu \<Rightarrow> cpu" where
  "cli c = set_reg SREG (reg c SREG AND NOT 0x80) c"

definition cpu_disable_interrupts :: "cpu \<Rightarrow> cpu \<times> bool" where
  "cpu_disable_interrupts c = (let enabled = (reg c SREG AND 0x80 \<noteq> 0) in (cli c, enabled))"

definition cpu_interrupts_enabled :: "cpu \<Rightarrow> bool" where
  "cpu_interrupts_enabled c \<longleftrightarrow> reg c SREG AND 0x80 \<noteq> 0"

definition cpu_enable_interrupts :: "cpu \<Rightarrow> cpu" where
  "cpu_enable_interrupts c = sei c"

text \<open>\<open>cpu_core_halt\<close>: select idle mode in SMCR (I/O address 0x33, data address 0x53), enable
  interrupts, sleep until one arrives.\<close>

definition cpu_core_halt :: "cpu \<Rightarrow> cpu" where
  "cpu_core_halt c = sei (set_reg 0x53 0x01 c)"

definition cpu_interrupt_handler :: "Interrupt \<Rightarrow> handler option \<Rightarrow> cpu \<Rightarrow> cpu" where
  "cpu_interrupt_handler i f c =
     (if interrupt_no i < interrupt_no MAX_INTERRUPT
      then c\<lparr>interrupt_handlers := (interrupt_handlers c)(i := f)\<rparr> else c)"

text \<open>The interrupt service routines return the handler they call, if one is installed.\<close>

definition TIMER1_COMPA_vect :: "cpu \<Rightarrow> handler option" where
  "TIMER1_COMPA_vect c = interrupt_handlers c ALARM"

definition TIMER1_OVF_vect :: "cpu \<Rightarrow> cpu" where
  "TIMER1_OVF_vect c = c\<lparr>system_clock_overflows := system_clock_overflows c + 1\<rparr>"

text \<open>\<open>USART_RX_vect\<close> reads \<open>UDR0\<close> into a dummy before it looks for a handler: the second
  component is the byte it takes from the receiver.\<close>

definition USART_RX_vect :: "cpu \<Rightarrow> handler option \<times> u8" where
  "USART_RX_vect c = (let dummy = reg c UDR0 in (interrupt_handlers c SERIAL_RX_READY, dummy))"

definition USART_UDRE_vect :: "cpu \<Rightarrow> handler option" where
  "USART_UDRE_vect c = interrupt_handlers c SERIAL_TX_READY"

section \<open>The initial stack frame of a thread\<close>

text \<open>\<open>*stack-- = v\<close>\<close>

definition stack_push :: "u8 \<Rightarrow> memory \<times> u16 \<Rightarrow> memory \<times> u16" where
  "stack_push v ms = (case ms of (m, stack) \<Rightarrow> (m(stack := v), stack - 1))"

text \<open>\<open>ctx->sp\<close> is returned: the context of a thread is its stack pointer.\<close>

definition cpu_initialize_context :: "u16 \<Rightarrow> u16 \<Rightarrow> u16 \<Rightarrow> memory \<Rightarrow> memory \<times> u16" where
  "cpu_initialize_context ss_sp ss_size func m =
     (let stack = ss_sp + ss_size - 1;
          pc = func;
          ms1 = stack_push (ucast (pc AND 0xFF)) (m, stack);
          ms2 = stack_push (ucast (drop_bit 8 pc AND 0xFF)) ms1;
          ms3 = stack_push 0x00 ms2;
          ms4 = stack_push 0x80 ms3
      in fold (\<lambda>i ms. stack_push 0x00 ms) [1..<32] ms4)"

section \<open>Timer 1\<close>

definition write_OCR1A :: "u16 \<Rightarrow> cpu \<Rightarrow> cpu" where
  "write_OCR1A v c = set_reg OCR1A_L (ucast (v AND 0xFF)) (set_reg OCR1A_H (ucast (drop_bit 8 v)) c)"

definition read16 :: "cpu \<Rightarrow> u16 \<Rightarrow> u16 \<Rightarrow> u16" where
  "read16 c lo hi = ucast (reg c lo) OR push_bit 8 (ucast (reg c hi))"

definition bios_set_timer :: "u32 \<Rightarrow> cpu \<Rightarrow> cpu \<times> u32" where
  "bios_set_timer usec c =
     (let ticks0 = ucast (drop_bit 2 usec) :: u16;
          ticks = (if ticks0 = 0 then 1 else ticks0);
          c1 = write_OCR1A ticks c;
          c2 = set_reg TCNT1_L 0 (set_reg TCNT1_H 0 c1)
      in (c2, usec))"

definition bios_cancel_timer :: "cpu \<Rightarrow> cpu \<times> u32" where
  "bios_cancel_timer c =
     (let current_tcnt = read16 c TCNT1_L TCNT1_H;
          current_ocr = read16 c OCR1A_L OCR1A_H
      in if current_tcnt \<ge> current_ocr then (c, 0)
         else let remaining_ticks = current_ocr - current_tcnt;
                  c1 = set_reg OCR1A_L 0xFF (set_reg OCR1A_H 0xFF c)
              in (c1, push_bit 2 (ucast remaining_ticks)))"

definition bios_clock :: "cpu \<Rightarrow> u32" where
  "bios_clock c = push_bit 8 (system_clock_overflows c)"

section \<open>The UART\<close>

record uart_poll =
  status :: u8
  data :: u8

text \<open>What a poll finds: the status and data registers at that moment.\<close>

definition uart_latch :: "uart_poll \<Rightarrow> cpu \<Rightarrow> cpu" where
  "uart_latch p c = set_reg UDR0 (data p) (set_reg UCSR0A (status p) c)"

definition bios_serial_ports :: nat where "bios_serial_ports = 1"

definition bios_read_serial :: "nat \<Rightarrow> cpu \<Rightarrow> u8 option" where
  "bios_read_serial serial c =
     (if serial \<noteq> 0 then None
      else if reg c UCSR0A AND bitmask RXC0 = 0 then None
      else Some (reg c UDR0))"

definition bios_write_serial :: "nat \<Rightarrow> u8 \<Rightarrow> cpu \<Rightarrow> cpu \<times> bool" where
  "bios_write_serial serial v c =
     (if serial \<noteq> 0 then (c, False)
      else if reg c UCSR0A AND bitmask UDRE0 = 0 then (c, False)
      else (c\<lparr>uart_out := uart_out c @ [v]\<rparr>, True))"

text \<open>\<open>while (!(UCSR0A & (1 << UDRE0))); UDR0 = v;\<close> over the polls to come. The result is the
  remaining polls; \<open>None\<close> when the polls run out before the transmitter is ready.\<close>

fun put_blocking :: "u8 \<Rightarrow> uart_poll list \<Rightarrow> cpu \<Rightarrow> (cpu \<times> uart_poll list) option" where
  "put_blocking v [] c = None"
| "put_blocking v (p # ps) c =
     (let c' = uart_latch p c
      in if reg c' UCSR0A AND bitmask UDRE0 = 0 then put_blocking v ps c'
         else Some (c'\<lparr>uart_out := uart_out c' @ [v]\<rparr>, ps))"

fun puts_blocking :: "u8 list \<Rightarrow> uart_poll list \<Rightarrow> cpu \<Rightarrow> (cpu \<times> uart_poll list) option" where
  "puts_blocking [] ps c = Some (c, ps)"
| "puts_blocking (v # vs) ps c =
     do { (c', ps') \<leftarrow> put_blocking v ps c; puts_blocking vs ps' c' }"

definition bios_init_registers :: "cpu \<Rightarrow> cpu" where
  "bios_init_registers c =
     (let c = set_reg TCCR1A 0 c;
          c = set_reg TCCR1B (bitmask WGM12 OR bitmask CS11 OR bitmask CS10) c;
          c = set_reg TIMSK1 (reg c TIMSK1 OR bitmask OCIE1A) c;
          c = set_reg TIMSK1 (reg c TIMSK1 OR bitmask TOIE1) c;
          c = set_reg UCSR0A 0 c;
          c = set_reg UBRR0H 0 c;
          c = set_reg UBRR0L 103 c;
          c = set_reg UCSR0B (bitmask RXEN0 OR bitmask TXEN0 OR bitmask RXCIE0) c;
          c = set_reg UCSR0C (bitmask UCSZ01 OR bitmask UCSZ00) c
      in write_OCR1A 2500 c)"

text \<open>The boot message \<open>TOS>\<close>.\<close>

definition boot_message :: "u8 list" where
  "boot_message = map (\<lambda>ch. of_nat (of_char ch)) ''TOS>''"

definition bios_init :: "nat \<Rightarrow> uart_poll list \<Rightarrow> cpu \<Rightarrow> (cpu \<times> uart_poll list) option" where
  "bios_init serialno ps c = puts_blocking boot_message ps (bios_init_registers c)"

section \<open>Registers\<close>

lemma reg_set_reg: "reg (set_reg a v c) b = (if b = a then v else reg c b)"
  by (simp add: reg_def set_reg_def)

lemma set_reg_other [simp]:
  "interrupt_handlers (set_reg a v c) = interrupt_handlers c"
  "system_clock_overflows (set_reg a v c) = system_clock_overflows c"
  "uart_out (set_reg a v c) = uart_out c"
  by (simp_all add: set_reg_def)

lemma set_reg_id: "reg c a = v \<Longrightarrow> set_reg a v c = c"
  by (simp add: set_reg_def reg_def fun_upd_idem)

lemma set_reg_twice: "set_reg a v (set_reg a w c) = set_reg a v c"
  by (simp add: set_reg_def)

lemma registers_distinct [simp]:
  "OCR1A_L \<noteq> OCR1A_H" "TCNT1_L \<noteq> TCNT1_H" "TCNT1_L \<noteq> OCR1A_L" "TCNT1_L \<noteq> OCR1A_H"
  "TCNT1_H \<noteq> OCR1A_L" "TCNT1_H \<noteq> OCR1A_H" "UCSR0A \<noteq> UDR0"
  "OCR1A_H \<noteq> OCR1A_L" "TCNT1_H \<noteq> TCNT1_L" "OCR1A_L \<noteq> TCNT1_L" "OCR1A_H \<noteq> TCNT1_L"
  "OCR1A_L \<noteq> TCNT1_H" "OCR1A_H \<noteq> TCNT1_H" "UDR0 \<noteq> UCSR0A"
  by (simp_all add: register_defs)

lemma sreg_distinct [simp]:
  "SREG \<noteq> OCR1A_L" "SREG \<noteq> OCR1A_H" "SREG \<noteq> TCNT1_L" "SREG \<noteq> TCNT1_H" "SREG \<noteq> UCSR0A" "SREG \<noteq> UDR0"
  "OCR1A_L \<noteq> SREG" "OCR1A_H \<noteq> SREG" "TCNT1_L \<noteq> SREG" "TCNT1_H \<noteq> SREG" "UCSR0A \<noteq> SREG" "UDR0 \<noteq> SREG"
  by (simp_all add: register_defs)

section \<open>The interrupt flag\<close>

lemma and_0x80: "(x :: u8) AND 0x80 \<noteq> 0 \<longleftrightarrow> bit x 7"
proof -
  have "(0x80 :: u8) = push_bit 7 1" by simp
  then show ?thesis by (simp only: bit_iff_and_push_bit_not_eq_0)
qed

lemma bit_0x80: "bit (0x80 :: u8) n \<longleftrightarrow> n = 7"
proof -
  have "(0x80 :: u8) = push_bit 7 1" by simp
  then have "bit (0x80 :: u8) n \<longleftrightarrow> bit (push_bit 7 1 :: u8) n" by (simp only:)
  also have "\<dots> \<longleftrightarrow> n = 7" unfolding bit_push_bit_iff bit_1_iff by auto
  finally show ?thesis .
qed

lemma clear_set_bit:
  fixes x m :: u8
  assumes "\<And>n. bit m n \<longleftrightarrow> n = 7" and "bit x 7"
  shows "(x AND NOT m) OR m = x"
  by (rule bit_word_eqI) (use assms in \<open>auto simp: bit_or_iff bit_and_iff bit_not_iff\<close>)

lemma clear_clear_bit:
  fixes x m :: u8
  assumes "\<And>n. bit m n \<longleftrightarrow> n = 7" and "\<not> bit x 7"
  shows "x AND NOT m = x"
  by (rule bit_word_eqI) (use assms in \<open>auto simp: bit_and_iff bit_not_iff\<close>)

lemma interrupts_enabled_iff: "cpu_interrupts_enabled c \<longleftrightarrow> bit (reg c SREG) 7"
  by (simp add: cpu_interrupts_enabled_def and_0x80)

lemma enabled_sei [simp]: "cpu_interrupts_enabled (sei c)"
  by (simp add: interrupts_enabled_iff sei_def reg_set_reg bit_or_iff bit_0x80)

lemma enabled_cli [simp]: "\<not> cpu_interrupts_enabled (cli c)"
  by (simp add: interrupts_enabled_iff cli_def reg_set_reg bit_and_iff bit_not_iff bit_0x80)

lemma cpu_disable_interrupts_eq:
  "cpu_disable_interrupts c = (cli c, cpu_interrupts_enabled c)"
  by (simp add: cpu_disable_interrupts_def cpu_interrupts_enabled_def)

text \<open>A bracket \<open>pre = preempt_off; \<dots> if (pre) preempt_on;\<close> gives the flag back.\<close>

lemma sei_cli_enabled: "cpu_interrupts_enabled c \<Longrightarrow> sei (cli c) = c"
proof -
  assume "cpu_interrupts_enabled c"
  then have "(reg c SREG AND NOT 0x80) OR 0x80 = reg c SREG"
    by (intro clear_set_bit) (simp_all only: interrupts_enabled_iff bit_0x80)
  then show ?thesis
    by (simp add: sei_def cli_def reg_set_reg set_reg_twice set_reg_id)
qed

lemma cli_disabled: "\<not> cpu_interrupts_enabled c \<Longrightarrow> cli c = c"
proof -
  assume "\<not> cpu_interrupts_enabled c"
  then have "reg c SREG AND NOT 0x80 = reg c SREG"
    by (intro clear_clear_bit) (simp_all only: interrupts_enabled_iff bit_0x80 not_False_eq_True)
  then show ?thesis by (simp add: cli_def set_reg_id)
qed

lemma cli_cli [simp]: "cli (cli c) = cli c"
  by (simp add: cli_disabled)

section \<open>The alarm\<close>

lemma bit_0xFF: "bit (0xFF :: u16) n \<longleftrightarrow> n < 8"
proof -
  have "(0xFF :: u16) = mask 8" by (simp add: mask_eq_exp_minus_1)
  then have "bit (0xFF :: u16) n \<longleftrightarrow> bit (mask 8 :: u16) n" by (simp only:)
  also have "\<dots> \<longleftrightarrow> n < 8" unfolding bit_mask_iff by auto
  finally show ?thesis .
qed

lemma join_bytes_mask:
  fixes v m :: u16
  assumes "\<And>n. bit m n \<longleftrightarrow> n < 8"
  shows "ucast (ucast (v AND m) :: u8) OR push_bit 8 (ucast (ucast (drop_bit 8 v) :: u8)) = v"
  by (rule bit_word_eqI)
    (auto simp: assms bit_or_iff bit_and_iff bit_push_bit_iff bit_drop_bit_eq bit_unsigned_iff not_less)

lemmas join_bytes = join_bytes_mask [of "0xFF", OF bit_0xFF]

lemma read16_write_OCR1A [simp]: "read16 (write_OCR1A v c) OCR1A_L OCR1A_H = v"
  by (simp add: read16_def write_OCR1A_def reg_set_reg join_bytes)

lemma read16_set_reg: "a \<noteq> lo \<Longrightarrow> a \<noteq> hi \<Longrightarrow> read16 (set_reg a v c) lo hi = read16 c lo hi"
  by (simp add: read16_def reg_set_reg)

lemma bios_set_timer_regs:
  "read16 (fst (bios_set_timer usec c)) TCNT1_L TCNT1_H = 0"
  "read16 (fst (bios_set_timer usec c)) OCR1A_L OCR1A_H
     = (if ucast (drop_bit 2 usec) = (0 :: u16) then 1 else ucast (drop_bit 2 usec))"
proof -
  show "read16 (fst (bios_set_timer usec c)) TCNT1_L TCNT1_H = 0"
    by (simp add: bios_set_timer_def Let_def read16_def reg_set_reg)
  show "read16 (fst (bios_set_timer usec c)) OCR1A_L OCR1A_H
     = (if ucast (drop_bit 2 usec) = (0 :: u16) then 1 else ucast (drop_bit 2 usec))"
    by (simp add: bios_set_timer_def Let_def read16_set_reg)
qed

lemma unat_ticks:
  assumes "unat (usec :: u32) < 2 ^ 18"
  shows "unat (ucast (drop_bit 2 usec) :: u16) = unat usec div 4"
  using assms by (simp add: unsigned_ucast_eq unat_div drop_bit_eq_div take_bit_eq_mod)

text \<open>An alarm cancelled before it ticks gives back the microseconds it was set to, rounded down
  to the 4 microseconds of one tick.\<close>

lemma cancel_set_timer:
  assumes "4 \<le> unat usec" and "unat usec < 2 ^ 18"
  shows "unat (snd (bios_cancel_timer (fst (bios_set_timer usec c)))) = 4 * (unat usec div 4)"
proof -
  let ?t = "ucast (drop_bit 2 usec) :: u16"
  have t: "unat ?t = unat usec div 4" using assms(2) by (rule unat_ticks)
  have nz: "?t \<noteq> 0" using t assms(1) by (metis div_greater_zero_iff not_less0 unat_0 zero_less_numeral)
  have "snd (bios_cancel_timer (fst (bios_set_timer usec c))) = push_bit 2 (ucast ?t)"
    using nz by (simp add: bios_cancel_timer_def bios_set_timer_regs Let_def)
  moreover have "unat (push_bit 2 (ucast ?t) :: u32) = 4 * unat ?t"
    using t assms(2) by (simp add: push_bit_eq_mult unat_word_ariths unsigned_ucast_eq take_bit_eq_mod)
  ultimately show ?thesis using t by simp
qed

text \<open>An alarm that has expired reports 0 and leaves the registers alone.\<close>

lemma cancel_expired:
  "read16 c OCR1A_L OCR1A_H \<le> read16 c TCNT1_L TCNT1_H \<Longrightarrow> bios_cancel_timer c = (c, 0)"
  by (simp add: bios_cancel_timer_def)

section \<open>The initial stack frame\<close>

lemma stack_push_pair: "stack_push v (m, sp) = (m(sp := v), sp - 1)"
  by (simp add: stack_push_def)

lemma fold_stack_push:
  "fold (\<lambda>i ms. stack_push v ms) is (m, sp)
     = (\<lambda>a. if unat (sp - a) < length is then v else m a, sp - of_nat (length is))"
proof (induction "is" arbitrary: m sp)
  case (Cons i "is")
  have "(if unat (sp - 1 - a) < length is then v else (m(sp := v)) a)
      = (if unat (sp - a) < length (i # is) then v else m a)" for a
  proof (cases "a = sp")
    case False
    have "sp - 1 - a = (sp - a) - 1" by simp
    then have "unat (sp - 1 - a) = unat (sp - a) - 1"
      using False by (simp only: unat_minus_one right_minus_eq not_sym)
    moreover have "unat (sp - a) \<noteq> 0" using False by (simp add: unat_eq_zero)
    ultimately have "unat (sp - 1 - a) < length is \<longleftrightarrow> unat (sp - a) < length (i # is)"
      by simp arith
    with False show ?thesis by simp
  qed simp
  then show ?case
    by (simp add: stack_push_pair Cons.IH fun_eq_iff)
qed simp

lemma small_difference: "unat (d - 4 :: u16) < 31 \<longleftrightarrow> 4 \<le> unat d \<and> unat d < 35"
  by unat_arith (auto simp: less_diff_conv)

text \<open>Reading the frame from its top: low byte and high byte of the entry point, \<open>R0\<close>, \<open>SREG\<close>
  with the interrupt flag set, \<open>R1\<close> to \<open>R31\<close>.\<close>

lemma cpu_initialize_context_eq:
  fixes ss_sp ss_size func :: u16
  defines "hi \<equiv> ss_sp + ss_size - 1"
  shows "snd (cpu_initialize_context ss_sp ss_size func m) = hi - 35"
    and "fst (cpu_initialize_context ss_sp ss_size func m) (hi - d) =
      (if d = 0 then ucast (func AND 0xFF) else if d = 1 then ucast (drop_bit 8 func AND 0xFF)
       else if d = 3 then 0x80 else if unat d < 35 then 0 else m (hi - d))"
proof -
  show "snd (cpu_initialize_context ss_sp ss_size func m) = hi - 35"
    by (simp add: cpu_initialize_context_def Let_def stack_push_pair fold_stack_push hi_def)
  have lt: "hi - 4 - (hi - d) = d - 4" by simp
  have ne: "hi - d = hi \<longleftrightarrow> d = 0" "hi - d = hi - 1 \<longleftrightarrow> d = 1" "hi - d = hi - 2 \<longleftrightarrow> d = 2"
    "hi - d = hi - 3 \<longleftrightarrow> d = 3"
    by (auto simp: algebra_simps)
  have "unat d < 4 \<Longrightarrow> d = 0 \<or> d = 1 \<or> d = 2 \<or> d = 3" by unat_arith
  moreover have "fst (cpu_initialize_context ss_sp ss_size func m) (hi - d) =
    (if unat (d - 4) < 31 then 0 else if d = 3 then 0x80 else if d = 2 then 0
     else if d = 1 then ucast (drop_bit 8 func AND 0xFF) else if d = 0 then ucast (func AND 0xFF)
     else m (hi - d))"
    unfolding cpu_initialize_context_def Let_def stack_push_pair fold_stack_push hi_def [symmetric]
    by (simp add: lt ne)
  ultimately show "fst (cpu_initialize_context ss_sp ss_size func m) (hi - d) =
      (if d = 0 then ucast (func AND 0xFF) else if d = 1 then ucast (drop_bit 8 func AND 0xFF)
       else if d = 3 then 0x80 else if unat d < 35 then 0 else m (hi - d))"
    unfolding small_difference by auto
qed

section \<open>The UART\<close>

lemma reg_uart_latch:
  "reg (uart_latch p c) UCSR0A = status p" "reg (uart_latch p c) UDR0 = data p"
  by (simp_all add: uart_latch_def reg_set_reg)

lemma uart_latch_other [simp]:
  "interrupt_handlers (uart_latch p c) = interrupt_handlers c"
  "system_clock_overflows (uart_latch p c) = system_clock_overflows c"
  "uart_out (uart_latch p c) = uart_out c"
  by (simp_all add: uart_latch_def)

definition rx_ready :: "uart_poll \<Rightarrow> bool" where
  "rx_ready p \<longleftrightarrow> bit (status p) RXC0"

definition tx_ready :: "uart_poll \<Rightarrow> bool" where
  "tx_ready p \<longleftrightarrow> bit (status p) UDRE0"

lemma and_bitmask: "x AND bitmask n = 0 \<longleftrightarrow> \<not> bit x n"
  unfolding bitmask_def by (simp add: bit_iff_and_push_bit_not_eq_0)

lemma bios_read_serial_latch:
  "bios_read_serial 0 (uart_latch p c) = (if rx_ready p then Some (data p) else None)"
  by (simp add: bios_read_serial_def reg_uart_latch and_bitmask rx_ready_def)

lemma bios_write_serial_latch:
  "bios_write_serial 0 v (uart_latch p c) =
     (if tx_ready p then ((uart_latch p c)\<lparr>uart_out := uart_out c @ [v]\<rparr>, True)
      else (uart_latch p c, False))"
  by (simp add: bios_write_serial_def reg_uart_latch and_bitmask tx_ready_def)

text \<open>The blocking writes of the boot send every byte in order as soon as the transmitter has
  been ready often enough.\<close>

lemma put_blocking_ready:
  assumes "\<exists>p\<in>set ps. tx_ready p"
  shows "\<exists>c'. put_blocking v ps c = Some (c', tl (dropWhile (\<lambda>p. \<not> tx_ready p) ps))
           \<and> uart_out c' = uart_out c @ [v]"
  using assms
proof (induction ps arbitrary: c)
  case (Cons p ps)
  show ?case
  proof (cases "tx_ready p")
    case True
    then show ?thesis
      by (simp add: reg_uart_latch and_bitmask tx_ready_def)
  next
    case False
    then have "\<exists>p\<in>set ps. tx_ready p" using Cons.prems by auto
    from Cons.IH [OF this, of "uart_latch p c"] False show ?thesis
      by (simp add: reg_uart_latch and_bitmask tx_ready_def Let_def)
  qed
qed simp

lemma puts_blocking_ready:
  assumes "length vs \<le> length (filter tx_ready ps)"
  shows "\<exists>c' ps'. puts_blocking vs ps c = Some (c', ps') \<and> uart_out c' = uart_out c @ vs"
  using assms
proof (induction vs arbitrary: ps c)
  case (Cons v vs)
  let ?ps = "tl (dropWhile (\<lambda>p. \<not> tx_ready p) ps)"
  have "\<exists>p\<in>set ps. tx_ready p"
    using Cons.prems by (cases "filter tx_ready ps = []") (auto simp: filter_empty_conv)
  then obtain c1 where c1: "put_blocking v ps c = Some (c1, ?ps)" "uart_out c1 = uart_out c @ [v]"
    using put_blocking_ready by blast
  have "length (filter tx_ready ps) = length (filter tx_ready (takeWhile (\<lambda>p. \<not> tx_ready p) ps))
      + length (filter tx_ready (dropWhile (\<lambda>p. \<not> tx_ready p) ps))"
    by (metis filter_append length_append takeWhile_dropWhile_id)
  moreover have "filter tx_ready (takeWhile (\<lambda>p. \<not> tx_ready p) ps) = []"
    by (auto simp: filter_empty_conv dest: set_takeWhileD)
  moreover have "length (filter tx_ready qs) \<le> Suc (length (filter tx_ready (tl qs)))" for qs
    by (cases qs) auto
  then have "length (filter tx_ready (dropWhile (\<lambda>p. \<not> tx_ready p) ps)) \<le> Suc (length (filter tx_ready ?ps))" .
  ultimately have "length vs \<le> length (filter tx_ready ?ps)" using Cons.prems by simp
  from Cons.IH [OF this, of c1] show ?case by (auto simp: c1)
qed simp

section \<open>Properties\<close>

text \<open>Setting the alarm and cancelling it before the timer has ticked returns the time set,
  rounded down to the 4 microseconds of a tick, for every duration the 16-bit timer can hold; an
  alarm that has run out reports 0.\<close>

theorem alarm_roundtrip:
  "(4 \<le> unat usec \<and> unat usec < 2 ^ 18 \<longrightarrow>
      unat (snd (bios_cancel_timer (fst (bios_set_timer usec c)))) = 4 * (unat usec div 4))
   \<and> (read16 c OCR1A_L OCR1A_H \<le> read16 c TCNT1_L TCNT1_H \<longrightarrow> bios_cancel_timer c = (c, 0))"
  using cancel_set_timer [of usec c] cancel_expired [of c] by blast

theorem alarm_roundtrip_witness:
  "unat (snd (bios_cancel_timer (fst (bios_set_timer 10003
     \<lparr>dmem = (\<lambda>_. 0), interrupt_handlers = (\<lambda>_. None), system_clock_overflows = 0, uart_out = []\<rparr>)))) = 10000"
  using alarm_roundtrip [of 10003] by simp

text \<open>The boot sends the four bytes of its message, in order and nothing else, as soon as the
  transmitter has been found ready four times, however long it waits in between.\<close>

theorem bios_init_sends_message:
  assumes "4 \<le> length (filter tx_ready ps)"
  shows "\<exists>c' ps'. bios_init 1 ps c = Some (c', ps')
    \<and> uart_out c' = uart_out c @ [0x54, 0x4F, 0x53, 0x3E]"
proof -
  have m: "boot_message = [0x54, 0x4F, 0x53, 0x3E]" by (simp add: boot_message_def)
  have "uart_out (bios_init_registers c) = uart_out c"
    by (simp add: bios_init_registers_def Let_def write_OCR1A_def)
  with puts_blocking_ready [of boot_message ps "bios_init_registers c"] assms show ?thesis
    by (simp add: bios_init_def m)
qed

theorem bios_init_sends_message_witness:
  "\<exists>c' ps'. bios_init 1 (replicate 4 \<lparr>status = 0x20, data = 0\<rparr>)
      \<lparr>dmem = (\<lambda>_. 0), interrupt_handlers = (\<lambda>_. None), system_clock_overflows = 0, uart_out = []\<rparr> = Some (c', ps')
    \<and> uart_out c' = [0x54, 0x4F, 0x53, 0x3E]"
proof -
  have "tx_ready \<lparr>status = 0x20, data = 0\<rparr>" by code_simp
  then show ?thesis
    using bios_init_sends_message [of "replicate 4 \<lparr>status = 0x20, data = 0\<rparr>"
      "\<lparr>dmem = (\<lambda>_. 0), interrupt_handlers = (\<lambda>_. None), system_clock_overflows = 0, uart_out = []\<rparr>"]
    by simp
qed

end
