(* ===== verification/Context.thy ===== *)
theory Context
  imports Cpu
begin

text \<open>
  The context switch, \<open>src/arch/avr/context.S\<close>, over the registers and the data memory of the
  AVR core, instruction by instruction: \<open>push\<close> stores at the stack pointer and then
  decrements it, \<open>pop\<close> increments and then loads, \<open>ret\<close> pops the high byte of the program
  counter and then the low byte (the AVR core's documented order).

  The lemmas show the two facts the scheduler needs of a switch: the first switch to a thread
  enters its start function on the frame that \<open>cpu_initialize_context\<close> built, and a thread that
  is switched out and later switched back in finds every register, the status register, the
  stack pointer and the return address as it left them.
\<close>

section \<open>The core and the instructions\<close>

record avr =
  R :: "nat \<Rightarrow> u8"
  sreg :: u8
  SP :: u16
  PC :: u16
  ram :: memory

definition push :: "u8 \<Rightarrow> avr \<Rightarrow> avr" where
  "push v s = s\<lparr>ram := (ram s)(SP s := v), SP := SP s - 1\<rparr>"

definition push_r :: "nat \<Rightarrow> avr \<Rightarrow> avr" where
  "push_r i s = push (R s i) s"

definition pop :: "avr \<Rightarrow> avr \<times> u8" where
  "pop s = (s\<lparr>SP := SP s + 1\<rparr>, ram s (SP s + 1))"

definition set_r :: "nat \<Rightarrow> u8 \<Rightarrow> avr \<Rightarrow> avr" where
  "set_r i v s = s\<lparr>R := (R s)(i := v)\<rparr>"

definition pop_r :: "nat \<Rightarrow> avr \<Rightarrow> avr" where
  "pop_r i s = (case pop s of (s', v) \<Rightarrow> set_r i v s')"

text \<open>A register pair as a 16-bit pointer, and \<open>movw\<close>.\<close>

definition pair :: "avr \<Rightarrow> nat \<Rightarrow> u16" where
  "pair s i = ucast (R s i) OR push_bit 8 (ucast (R s (Suc i)))"

definition set_pair :: "nat \<Rightarrow> u16 \<Rightarrow> avr \<Rightarrow> avr" where
  "set_pair i w s = set_r (Suc i) (ucast (drop_bit 8 w)) (set_r i (ucast (w AND 0xFF)) s)"

definition movw :: "nat \<Rightarrow> nat \<Rightarrow> avr \<Rightarrow> avr" where
  "movw d r s = set_r (Suc d) (R s (Suc r)) (set_r d (R s r) s)"

definition in_SREG :: "avr \<Rightarrow> avr" where "in_SREG s = set_r 0 (sreg s) s"
definition out_SREG :: "avr \<Rightarrow> avr" where "out_SREG s = s\<lparr>sreg := R s 0\<rparr>"
definition in_SPL :: "avr \<Rightarrow> avr" where "in_SPL s = set_r 0 (ucast (SP s AND 0xFF)) s"
definition in_SPH :: "avr \<Rightarrow> avr" where "in_SPH s = set_r 0 (ucast (drop_bit 8 (SP s))) s"
definition out_SPL :: "avr \<Rightarrow> avr" where
  "out_SPL s = s\<lparr>SP := push_bit 8 (drop_bit 8 (SP s)) OR ucast (R s 0)\<rparr>"
definition out_SPH :: "avr \<Rightarrow> avr" where
  "out_SPH s = s\<lparr>SP := push_bit 8 (ucast (R s 0)) OR (SP s AND 0xFF)\<rparr>"

text \<open>\<open>st Z, r0\<close>, \<open>ld r0, Z\<close> and the post-increment of \<open>Z\<close> (the pair r31:r30).\<close>

definition st_Z :: "avr \<Rightarrow> avr" where "st_Z s = s\<lparr>ram := (ram s)(pair s 30 := R s 0)\<rparr>"
definition ld_Z :: "avr \<Rightarrow> avr" where "ld_Z s = set_r 0 (ram s (pair s 30)) s"
definition inc_Z :: "avr \<Rightarrow> avr" where "inc_Z s = set_pair 30 (pair s 30 + 1) s"

definition ret :: "avr \<Rightarrow> avr" where
  "ret s = (case pop s of (s1, pch) \<Rightarrow> case pop s1 of (s2, pcl) \<Rightarrow>
     s2\<lparr>PC := ucast pcl OR push_bit 8 (ucast pch)\<rparr>)"

section \<open>\<open>cpu_swap_context\<close>\<close>

text \<open>Steps 1 and 2: push the registers, then store the stack pointer through r25:r24.\<close>

definition push_all :: "avr \<Rightarrow> avr" where
  "push_all s = fold push_r [1..<32] (push_r 0 (in_SREG (push_r 0 s)))"

definition save_context :: "avr \<Rightarrow> avr" where
  "save_context s =
     (let s = push_all s;
          s = movw 30 24 s;
          s = inc_Z (st_Z (in_SPL s))
      in st_Z (in_SPH s))"

text \<open>Steps 3 to 5: load the stack pointer through r23:r22, pop the registers, return.\<close>

definition pop_all :: "avr \<Rightarrow> avr" where
  "pop_all s = pop_r 0 (out_SREG (pop_r 0 (fold pop_r (rev [1..<32]) s)))"

definition load_context :: "avr \<Rightarrow> avr" where
  "load_context s =
     (let s = movw 30 22 s;
          s = out_SPL (inc_Z (ld_Z s));
          s = out_SPH (ld_Z s)
      in ret (pop_all s))"

definition cpu_swap_context :: "avr \<Rightarrow> avr" where
  "cpu_swap_context s = load_context (save_context s)"

section \<open>Pointers in register pairs\<close>

lemma set_r_fields [simp]:
  "R (set_r i v s) = (R s)(i := v)" "sreg (set_r i v s) = sreg s" "SP (set_r i v s) = SP s"
  "PC (set_r i v s) = PC s" "ram (set_r i v s) = ram s"
  by (simp_all add: set_r_def)

lemma pair_set_pair [simp]: "pair (set_pair i w s) i = w"
  by (simp add: pair_def set_pair_def join_bytes)

lemma set_pair_fields [simp]:
  "sreg (set_pair i w s) = sreg s" "SP (set_pair i w s) = SP s" "ram (set_pair i w s) = ram s"
  "j \<noteq> i \<Longrightarrow> j \<noteq> Suc i \<Longrightarrow> R (set_pair i w s) j = R s j"
  by (simp_all add: set_pair_def)

lemma pair_movw: "d \<noteq> Suc r \<Longrightarrow> pair (movw d r s) d = pair s r"
  by (simp add: pair_def movw_def)

lemma join_split_bytes:
  "push_bit 8 (ucast (h :: u8)) OR ((push_bit 8 (drop_bit 8 x) OR ucast (l :: u8)) AND 0xFF)
     = (ucast l OR push_bit 8 (ucast h) :: u16)"
proof -
  have "push_bit 8 (ucast h) OR ((push_bit 8 (drop_bit 8 x) OR ucast l) AND m)
      = (ucast l OR push_bit 8 (ucast h) :: u16)" if "\<And>n. bit m n \<longleftrightarrow> n < 8" for m
    by (rule bit_word_eqI)
      (auto simp: that bit_or_iff bit_and_iff bit_push_bit_iff bit_drop_bit_eq bit_unsigned_iff
        dest: bit_imp_le_length)
  then show ?thesis using bit_0xFF by blast
qed

section \<open>Popping a frame\<close>

text \<open>Popping registers takes them from consecutive addresses above the stack pointer.\<close>

lemma pop_r_fields [simp]:
  "R (pop_r i s) = (R s)(i := ram s (SP s + 1))" "SP (pop_r i s) = SP s + 1"
  "sreg (pop_r i s) = sreg s" "ram (pop_r i s) = ram s"
  by (simp_all add: pop_r_def pop_def)

lemma fold_pop_r:
  assumes "bytes_at (ram s) (SP s + 1) vs" "length vs = length is"
  shows "SP (fold pop_r is s) = SP s + of_nat (length is)" and "sreg (fold pop_r is s) = sreg s"
    and "ram (fold pop_r is s) = ram s"
  using assms
proof (induction "is" arbitrary: s vs)
  case (Cons i "is")
  {
    case 1
    then show ?case using Cons.IH(1) [of "pop_r i s" "tl vs"] by (cases vs) (auto simp: add_ac)
  next
    case 2
    then show ?case using Cons.IH(2) [of "pop_r i s" "tl vs"] by (cases vs) auto
  next
    case 3
    then show ?case using Cons.IH(3) [of "pop_r i s" "tl vs"] by (cases vs) auto
  }
qed simp_all

lemma fold_pop_r_other: "r \<notin> set is \<Longrightarrow> R (fold pop_r is s) r = R s r"
  by (induction "is" arbitrary: s) auto

lemma fold_pop_r_nth:
  assumes "bytes_at (ram s) (SP s + 1) vs" "length vs = length is" "distinct is" "j < length is"
  shows "R (fold pop_r is s) (is ! j) = vs ! j"
  using assms
proof (induction "is" arbitrary: s vs j)
  case (Cons i "is")
  then obtain v vs' where vs: "vs = v # vs'" by (cases vs) auto
  show ?case
  proof (cases j)
    case 0
    with Cons.prems show ?thesis by (simp add: vs fold_pop_r_other)
  next
    case (Suc k)
    with Cons.prems Cons.IH [of "pop_r i s" vs' k] show ?thesis by (simp add: vs add_ac)
  qed
qed simp

text \<open>A saved context, from the stack pointer upwards: \<open>R31\<close> to \<open>R1\<close>, \<open>SREG\<close>, \<open>R0\<close>, and the
  return address, high byte first.\<close>

definition frame_bytes :: "(nat \<Rightarrow> u8) \<Rightarrow> u8 \<Rightarrow> u16 \<Rightarrow> u8 list" where
  "frame_bytes r st pc = map r (rev [1..<32]) @ [st, r 0, ucast (drop_bit 8 pc), ucast (pc AND 0xFF)]"

lemma length_frame_bytes [simp]: "length (frame_bytes r st pc) = 35"
  by (simp add: frame_bytes_def)

lemma pop_all_ret:
  assumes "bytes_at (ram s) (SP s + 1) (frame_bytes r st pc)"
  shows "R (ret (pop_all s)) i = (if i < 32 then r i else R s i)" and "sreg (ret (pop_all s)) = st"
    and "PC (ret (pop_all s)) = pc" and "SP (ret (pop_all s)) = SP s + 35"
    and "ram (ret (pop_all s)) = ram s"
proof -
  let ?is = "rev [1..<32 :: nat]"
  define s1 where "s1 = fold pop_r ?is s"
  have pa: "pop_all s = pop_r 0 (out_SREG (pop_r 0 s1))"
    by (simp only: pop_all_def s1_def)
  note A = assms [unfolded frame_bytes_def bytes_at_append]
  have b: "bytes_at (ram s) (SP s + 1) (map r ?is)" using A by blast
  have c: "bytes_at (ram s) (SP s + 32) [st, r 0, ucast (drop_bit 8 pc), ucast (pc AND 0xFF)]"
    using A by (simp add: add_ac)
  have f: "SP s1 = SP s + 31" "sreg s1 = sreg s" "ram s1 = ram s"
    using fold_pop_r [OF b] by (simp_all add: s1_def)
  have nth: "R s1 i = r i" if "0 < i" "i < 32"
  proof -
    have "?is ! (31 - i) = i" using that by (simp add: rev_nth)
    moreover have "R s1 (?is ! (31 - i)) = map r ?is ! (31 - i)"
      unfolding s1_def using that by (intro fold_pop_r_nth [OF b]) auto
    ultimately show ?thesis using that by (simp add: nth_map)
  qed
  have other: "R s1 i = R s i" if "\<not> i < 32"
    unfolding s1_def using that by (intro fold_pop_r_other) auto
  note D = ret_def pop_def out_SREG_def
  show "R (ret (pop_all s)) i = (if i < 32 then r i else R s i)"
    using nth other c by (simp add: pa D f add_ac)
  show "sreg (ret (pop_all s)) = st" "SP (ret (pop_all s)) = SP s + 35" "ram (ret (pop_all s)) = ram s"
    using c by (simp_all add: pa D f add_ac)
  show "PC (ret (pop_all s)) = pc"
    using c by (simp add: pa D f add_ac join_bytes)
qed

text \<open>The stack pointer a context cell holds, low byte first.\<close>

definition word_at :: "memory \<Rightarrow> u16 \<Rightarrow> u16" where
  "word_at m a = ucast (m a) OR push_bit 8 (ucast (m (a + 1)))"

text \<open>Loading a context whose cell points below a saved frame resumes that frame.\<close>

lemma load_context_eq:
  assumes "word_at (ram s) (pair s 22) = sp" "bytes_at (ram s) (sp + 1) (frame_bytes r st pc)"
  shows "(i < 32 \<longrightarrow> R (load_context s) i = r i) \<and> sreg (load_context s) = st
    \<and> PC (load_context s) = pc \<and> SP (load_context s) = sp + 35 \<and> ram (load_context s) = ram s"
proof -
  define s1 where "s1 = out_SPH (ld_Z (out_SPL (inc_Z (ld_Z (movw 30 22 s)))))"
  have z: "pair (movw 30 22 s) 30 = pair s 22" by (simp add: pair_movw)
  have z1: "pair (ld_Z (movw 30 22 s)) 30 = pair s 22"
    using z by (simp add: ld_Z_def pair_def)
  have z2: "pair (out_SPL (inc_Z (ld_Z (movw 30 22 s)))) 30 = pair s 22 + 1"
    using z1 by (simp add: out_SPL_def inc_Z_def pair_def set_pair_def join_bytes [unfolded pair_def])
  have m: "ram (movw 30 22 s) = ram s" by (simp add: movw_def)
  have "ram s1 = ram s"
    by (simp add: s1_def out_SPH_def ld_Z_def out_SPL_def inc_Z_def m)
  moreover have "SP s1 = sp"
    using assms(1) z z2
    by (simp add: s1_def out_SPH_def ld_Z_def out_SPL_def inc_Z_def m word_at_def join_split_bytes)
  ultimately have b: "bytes_at (ram s1) (SP s1 + 1) (frame_bytes r st pc)" using assms(2) by simp
  have "load_context s = ret (pop_all s1)"
    by (simp add: load_context_def s1_def Let_def)
  with pop_all_ret [OF b] \<open>ram s1 = ram s\<close> \<open>SP s1 = sp\<close> show ?thesis by simp
qed

section \<open>Pushing a frame\<close>

lemma push_fields [simp]:
  "R (push v s) = R s" "sreg (push v s) = sreg s" "SP (push v s) = SP s - 1"
  "ram (push v s) = (ram s)(SP s := v)"
  by (simp_all add: push_def)

lemma fold_push_fields:
  "R (fold push vs s) = R s" "sreg (fold push vs s) = sreg s"
  "SP (fold push vs s) = SP s - of_nat (length vs)"
  by (induction vs arbitrary: s) (simp_all add: diff_diff_eq)

lemma fold_push_frame:
  "x \<notin> region (SP s - of_nat (length vs) + 1) (length vs) \<Longrightarrow> ram (fold push vs s) x = ram s x"
proof (induction vs arbitrary: s)
  case (Cons v vs)
  have e: "SP s - of_nat (length (v # vs)) + 1 = SP s - 1 - of_nat (length vs) + 1" by simp
  have "region (SP s - of_nat (length (v # vs)) + 1) (length vs + 1)
      = region (SP s - 1 - of_nat (length vs) + 1) (length vs) \<union> {SP s}"
    unfolding e region_append by simp
  then have "x \<notin> region (SP (push v s) - of_nat (length vs) + 1) (length vs)" "x \<noteq> SP s"
    using Cons.prems by auto
  with Cons.IH [of "push v s"] show ?case by simp
qed simp

lemma fold_push_bytes:
  "length vs < 2 ^ 16 \<Longrightarrow> bytes_at (ram (fold push vs s)) (SP s - of_nat (length vs) + 1) (rev vs)"
proof (induction vs arbitrary: s)
  case (Cons v vs)
  let ?a = "SP s - 1 - of_nat (length vs) + 1"
  have "bytes_at (ram (fold push vs (push v s))) ?a (rev vs)"
    using Cons.IH [of "push v s"] Cons.prems by simp
  moreover have "SP s \<notin> region ?a (length vs)"
  proof
    assume "SP s \<in> region ?a (length vs)"
    then obtain i where i: "i < length vs" "SP s = ?a + of_nat i" by (auto simp: mem_region)
    then have "(of_nat (length vs) :: u16) = of_nat i" by (simp add: algebra_simps)
    then have "unat (of_nat (length vs) :: u16) = unat (of_nat i :: u16)" by simp
    then show False using i Cons.prems by (simp add: unat_of_nat)
  qed
  then have "ram (fold push vs (push v s)) (SP s) = v"
    using fold_push_frame [of "SP s" "push v s" vs] by simp
  ultimately show ?case by (simp add: bytes_at_append)
qed simp

lemma fold_push_r: "fold push_r is s = fold push (map (R s) is) s"
  by (induction "is" arbitrary: s) (simp_all add: push_r_def)

lemma fold_push_cong: "ram s = ram t \<Longrightarrow> SP s = SP t \<Longrightarrow> ram (fold push ws s) = ram (fold push ws t)"
  by (induction ws arbitrary: s t) simp_all

lemma push_all_eq:
  fixes s :: avr
  defines "vs \<equiv> R s 0 # sreg s # map (R s) [1..<32]"
  shows "ram (push_all s) = ram (fold push vs s)" "SP (push_all s) = SP s - 33"
    "R (push_all s) = (R s)(0 := sreg s)"
proof -
  define s2 where "s2 = push_r 0 (in_SREG (push_r 0 s))"
  have R2: "R s2 = (R s)(0 := sreg s)"
    by (simp add: s2_def push_r_def in_SREG_def)
  have m: "map (R s2) [1..<32] = map (R s) [1..<32]" by (simp add: R2)
  have pa: "push_all s = fold push (map (R s) [1..<32]) s2"
    unfolding push_all_def s2_def [symmetric] fold_push_r m ..
  have "ram (fold push ws s2) = ram (fold push ws (push (sreg s) (push (R s 0) s)))" for ws
    by (rule fold_push_cong) (simp_all add: s2_def push_r_def in_SREG_def)
  then show "ram (push_all s) = ram (fold push vs s)"
    by (simp add: pa vs_def)
  show "SP (push_all s) = SP s - 33" "R (push_all s) = (R s)(0 := sreg s)"
    by (simp_all add: pa fold_push_fields R2) (simp add: s2_def push_r_def in_SREG_def)
qed

text \<open>What a save leaves behind: the frame below the return address, its address in the context
  cell, and the rest of the memory untouched.\<close>

definition return_address :: "avr \<Rightarrow> u16 \<Rightarrow> bool" where
  "return_address s pc \<longleftrightarrow> bytes_at (ram s) (SP s + 1) [ucast (drop_bit 8 pc), ucast (pc AND 0xFF)]"

lemma save_context_ram:
  "ram (save_context s) = (ram (push_all s))(pair s 24 := ucast (SP s - 33 AND 0xFF),
     pair s 24 + 1 := ucast (drop_bit 8 (SP s - 33)))"
  and save_context_pair: "pair (save_context s) 22 = pair s 22"
proof -
  have R1: "R (push_all s) i = R s i" if "i \<noteq> 0" for i
    using that by (simp add: push_all_eq)
  define s1 where "s1 = in_SPL (movw 30 24 (push_all s))"
  have p1: "pair s1 30 = pair s 24"
    by (simp add: s1_def in_SPL_def pair_def movw_def R1)
  have f1: "ram s1 = ram (push_all s)" "SP s1 = SP s - 33" "R s1 0 = ucast (SP s - 33 AND 0xFF)"
    by (simp_all add: s1_def in_SPL_def movw_def push_all_eq)
  define s2 where "s2 = in_SPH (inc_Z (st_Z s1))"
  have "pair (st_Z s1) 30 = pair s 24"
    using p1 by (simp add: st_Z_def pair_def)
  then have "pair (inc_Z (st_Z s1)) 30 = pair s 24 + 1"
    by (simp add: inc_Z_def)
  then have p2: "pair s2 30 = pair s 24 + 1"
    by (simp add: s2_def in_SPH_def pair_def)
  have f2: "ram s2 = (ram (push_all s))(pair s 24 := ucast (SP s - 33 AND 0xFF))"
    "R s2 0 = ucast (drop_bit 8 (SP s - 33))"
    using p1 f1 by (simp_all add: s2_def in_SPH_def inc_Z_def st_Z_def)
  have sc: "save_context s = st_Z s2"
    by (simp add: save_context_def s1_def s2_def Let_def)
  show "ram (save_context s) = (ram (push_all s))(pair s 24 := ucast (SP s - 33 AND 0xFF),
     pair s 24 + 1 := ucast (drop_bit 8 (SP s - 33)))"
    unfolding sc st_Z_def using p2 f2 by simp
  have "R (save_context s) i = R s i" if "i = 22 \<or> i = 23" for i
    using that unfolding sc
    by (auto simp: st_Z_def s2_def in_SPH_def inc_Z_def s1_def in_SPL_def movw_def R1)
  then show "pair (save_context s) 22 = pair s 22" by (simp add: pair_def)
qed

lemma save_context_frame:
  assumes ra: "return_address s pc"
    and ctx: "{pair s 24, pair s 24 + 1} \<inter> region (SP s - 32) 35 = {}"
  shows "word_at (ram (save_context s)) (pair s 24) = SP s - 33"
    and "bytes_at (ram (save_context s)) (SP s - 32) (frame_bytes (R s) (sreg s) pc)"
    and "x \<notin> region (SP s - 32) 33 \<Longrightarrow> x \<notin> {pair s 24, pair s 24 + 1} \<Longrightarrow> ram (save_context s) x = ram s x"
proof -
  let ?vs = "R s 0 # sreg s # map (R s) [1..<32]"
  let ?m = "ram (fold push ?vs s)"
  have len: "length ?vs = 33" by simp
  have sv: "ram (save_context s) = ?m(pair s 24 := ucast (SP s - 33 AND 0xFF),
     pair s 24 + 1 := ucast (drop_bit 8 (SP s - 33)))"
    by (simp only: save_context_ram push_all_eq(1))
  show "word_at (ram (save_context s)) (pair s 24) = SP s - 33"
    unfolding sv word_at_def using join_bytes [of "SP s - 33"] by simp
  have fr: "?m x = ram s x" if "x \<notin> region (SP s - 32) 33" for x
  proof -
    have "x \<notin> region (SP s - of_nat (length ?vs) + 1) (length ?vs)"
      unfolding len using that by simp
    then show ?thesis by (rule fold_push_frame)
  qed
  then show "x \<notin> region (SP s - 32) 33 \<Longrightarrow> x \<notin> {pair s 24, pair s 24 + 1} \<Longrightarrow> ram (save_context s) x = ram s x"
    unfolding sv by simp
  have "bytes_at ?m (SP s - of_nat (length ?vs) + 1) (rev ?vs)"
    by (rule fold_push_bytes) (simp only: len, simp)
  then have b1: "bytes_at ?m (SP s - 32) (map (R s) (rev [1..<32]) @ [sreg s, R s 0])"
    unfolding len by (simp add: rev_map)
  have "region (SP s + 1) 2 \<inter> region (SP s - 32) 33 = {}"
  proof -
    have "x \<notin> region (SP s - 32) 33" if "x \<in> region (SP s + 1) 2" for x
    proof
      assume "x \<in> region (SP s - 32) 33"
      with that obtain i j where "i < 33" "j < 2" "SP s - 32 + of_nat i = SP s + 1 + of_nat j"
        by (auto simp: mem_region)
      then have "(of_nat i :: u16) = of_nat (33 + j)" by (simp add: algebra_simps)
      then have "unat (of_nat i :: u16) = unat (of_nat (33 + j) :: u16)" by simp
      then show False using \<open>i < 33\<close> \<open>j < 2\<close> by (simp add: unat_of_nat del: of_nat_add of_nat_numeral)
    qed
    then show ?thesis by blast
  qed
  then have "bytes_at ?m (SP s + 1) [ucast (drop_bit 8 pc), ucast (pc AND 0xFF)]"
    using ra fr unfolding return_address_def by (subst bytes_at_cong [of _ _ _ "ram s"]) (auto simp: numeral_2_eq_2)
  with b1 have "bytes_at ?m (SP s - 32) (frame_bytes (R s) (sreg s) pc)"
    by (simp add: frame_bytes_def bytes_at_append add_ac)
  moreover have "bytes_at (ram (save_context s)) (SP s - 32) (frame_bytes (R s) (sreg s) pc)
      = bytes_at ?m (SP s - 32) (frame_bytes (R s) (sreg s) pc)"
    unfolding sv by (rule bytes_at_cong) (use ctx in \<open>auto simp: fun_upd_def\<close>)
  ultimately show "bytes_at (ram (save_context s)) (SP s - 32) (frame_bytes (R s) (sreg s) pc)" by simp
qed

section \<open>The two switches\<close>

text \<open>The frame of a new thread is a saved context with all registers zero, interrupts enabled
  and the start function as return address.\<close>

lemma new_thread_frame:
  "bytes_at (fst (cpu_initialize_context ss_sp ss_size func m))
     (snd (cpu_initialize_context ss_sp ss_size func m) + 1) (frame_bytes (\<lambda>_. 0) 0x80 func)"
proof -
  let ?m = "fst (cpu_initialize_context ss_sp ss_size func m)" and ?top = "ss_sp + ss_size - 1"
  have hi: "drop_bit 8 func AND 0xFF = drop_bit 8 func"
  proof -
    have "drop_bit 8 func AND k = drop_bit 8 func" if "\<And>n. bit k n \<longleftrightarrow> n < 8" for k
      by (rule bit_word_eqI) (auto simp: that bit_and_iff bit_drop_bit_eq dest: bit_imp_le_length)
    then show ?thesis using bit_0xFF by blast
  qed
  have at: "?m (?top - of_nat k) = (if k = 0 then ucast (func AND 0xFF)
      else if k = 1 then ucast (drop_bit 8 func) else if k = 3 then 0x80 else 0)" if "k < 35" for k
  proof -
    have u: "unat (of_nat k :: u16) = k" using that by (simp add: unat_of_nat)
    have "(of_nat k :: u16) = 0 \<longleftrightarrow> k = 0" "(of_nat k :: u16) = 1 \<longleftrightarrow> k = 1" "(of_nat k :: u16) = 3 \<longleftrightarrow> k = 3"
      using u by (simp_all add: word_unat_eq_iff)
    then show ?thesis
      unfolding cpu_initialize_context_eq(2) using u that hi by simp
  qed
  have "?m (?top - 34 + of_nat i) = frame_bytes (\<lambda>_. 0) 0x80 func ! i" if "i < 35" for i
  proof -
    have e: "?top - 34 + of_nat i = ?top - of_nat (34 - i)"
      using that by (simp add: of_nat_diff)
    have "frame_bytes (\<lambda>_. 0) 0x80 func = replicate 31 0 @ [0x80, 0, ucast (drop_bit 8 func), ucast (func AND 0xFF)]"
      by (simp add: frame_bytes_def map_replicate_const)
    moreover have "34 - i = 0 \<longleftrightarrow> i = 34" "34 - i = 1 \<longleftrightarrow> i = 33" "34 - i = 3 \<longleftrightarrow> i = 31"
      using that by auto
    moreover have "i < 31 \<or> i = 31 \<or> i = 32 \<or> i = 33 \<or> i = 34" using that by auto
    ultimately show ?thesis
      unfolding e using at [of "34 - i"] by (auto simp: nth_append)
  qed
  then have "bytes_at ?m (?top - 34) (frame_bytes (\<lambda>_. 0) 0x80 func)"
    by (simp add: bytes_at_nth)
  moreover have "snd (cpu_initialize_context ss_sp ss_size func m) + 1 = ?top - 34"
    by (simp add: cpu_initialize_context_eq(1))
  ultimately show ?thesis by (simp only:)
qed

text \<open>The first switch to a thread.\<close>

lemma swap_to_new_thread:
  assumes new: "cpu_initialize_context ss_sp ss_size func m = (m', sp)"
    and old: "return_address s pc" "{pair s 24, pair s 24 + 1} \<inter> region (SP s - 32) 35 = {}"
    and cell: "word_at (ram s) (pair s 22) = sp"
    and frame: "\<And>a. a \<in> region (sp + 1) 35 \<Longrightarrow> ram s a = m' a"
    and apart: "(region (sp + 1) 35 \<union> {pair s 22, pair s 22 + 1})
      \<inter> (region (SP s - 32) 33 \<union> {pair s 24, pair s 24 + 1}) = {}"
  shows "(i < 32 \<longrightarrow> R (cpu_swap_context s) i = 0) \<and> sreg (cpu_swap_context s) = 0x80
    \<and> PC (cpu_swap_context s) = func \<and> SP (cpu_swap_context s) = ss_sp + ss_size - 1"
proof -
  let ?s = "save_context s"
  have keep: "ram ?s a = ram s a" if "a \<in> region (sp + 1) 35 \<union> {pair s 22, pair s 22 + 1}" for a
    using that apart by (intro save_context_frame(3) [OF old]) blast+
  have "word_at (ram ?s) (pair ?s 22) = sp"
    using cell keep by (simp add: word_at_def save_context_pair)
  moreover have "bytes_at (ram ?s) (sp + 1) (frame_bytes (\<lambda>_. 0) 0x80 func)
      = bytes_at m' (sp + 1) (frame_bytes (\<lambda>_. 0) 0x80 func)"
    by (rule bytes_at_cong) (use keep frame in auto)
  then have "bytes_at (ram ?s) (sp + 1) (frame_bytes (\<lambda>_. 0) 0x80 func)"
    using new_thread_frame [of ss_sp ss_size func m] new by simp
  moreover have "sp + 35 = ss_sp + ss_size - 1"
    using cpu_initialize_context_eq(1) [of ss_sp ss_size func m] new by simp
  ultimately show ?thesis
    unfolding cpu_swap_context_def using load_context_eq [of ?s sp "\<lambda>_. 0" "0x80" func i] by simp
qed

text \<open>Switching a thread out and later back in: \<open>s\<close> is the core when the thread calls the
  switch, \<open>t\<close> the core when another thread switches back to it, with the thread's frame and
  context cell as the save left them.\<close>

lemma swap_out_and_in:
  assumes old: "return_address s pc" "{pair s 24, pair s 24 + 1} \<inter> region (SP s - 32) 35 = {}"
    and cellt: "pair t 22 = pair s 24"
    and kept: "\<And>a. a \<in> region (SP s - 32) 35 \<union> {pair s 24, pair s 24 + 1} \<Longrightarrow>
      ram t a = ram (save_context s) a"
  shows "(i < 32 \<longrightarrow> R (load_context t) i = R s i) \<and> sreg (load_context t) = sreg s
    \<and> PC (load_context t) = pc \<and> SP (load_context t) = SP s + 2"
proof -
  have "word_at (ram t) (pair t 22) = SP s - 33"
    using save_context_frame(1) [OF old] kept by (simp add: cellt word_at_def)
  moreover have "bytes_at (ram t) (SP s - 32) (frame_bytes (R s) (sreg s) pc)
      = bytes_at (ram (save_context s)) (SP s - 32) (frame_bytes (R s) (sreg s) pc)"
    by (rule bytes_at_cong) (use kept in auto)
  then have "bytes_at (ram t) (SP s - 33 + 1) (frame_bytes (R s) (sreg s) pc)"
    using save_context_frame(2) [OF old] by simp
  ultimately show ?thesis
    using load_context_eq [of t "SP s - 33" "R s" "sreg s" pc i] by simp
qed

section \<open>Properties\<close>

text \<open>A core about to switch, for the first time, to a thread whose stack is the 256 bytes at 0x200,
  with its context cell at 0x510; the cell of the running thread is at 0x500.\<close>

definition switch_core :: avr where
  "switch_core = \<lparr>R = (\<lambda>_. 7)(24 := 0x00, 25 := 0x05, 22 := 0x10, 23 := 0x05), sreg = 0x02,
     SP = 0x7F0, PC = 0,
     ram = (fst (cpu_initialize_context 0x200 0x100 0x123 (\<lambda>_. 0xEE)))
       (0x510 := 0xDC, 0x511 := 0x02, 0x7F1 := 0x04, 0x7F2 := 0x56)\<rparr>"

text \<open>C35. The first switch to a thread starts it at the function given to \<open>cpu_initialize_context\<close>,
  with an empty stack, all registers zero and interrupts enabled.\<close>

theorem first_switch_enters_thread:
  assumes "cpu_initialize_context ss_sp ss_size func m = (m', sp)"
    and "return_address s pc" "{pair s 24, pair s 24 + 1} \<inter> region (SP s - 32) 35 = {}"
    and "word_at (ram s) (pair s 22) = sp"
    and "\<And>a. a \<in> region (sp + 1) 35 \<Longrightarrow> ram s a = m' a"
    and "(region (sp + 1) 35 \<union> {pair s 22, pair s 22 + 1})
      \<inter> (region (SP s - 32) 33 \<union> {pair s 24, pair s 24 + 1}) = {}"
  shows "PC (cpu_swap_context s) = func \<and> SP (cpu_swap_context s) = ss_sp + ss_size - 1
    \<and> sreg (cpu_swap_context s) = 0x80 \<and> (i < 32 \<longrightarrow> R (cpu_swap_context s) i = 0)"
  using swap_to_new_thread [OF assms, of i] by blast

theorem first_switch_enters_thread_witness:
  "PC (cpu_swap_context switch_core) = 0x123 \<and> SP (cpu_swap_context switch_core) = 0x2FF"
proof -
  let ?c = "cpu_initialize_context 0x200 0x100 0x123 (\<lambda>_. 0xEE)"
  have sp: "?c = (fst ?c, 0x2DC)"
    by (simp add: prod_eq_iff cpu_initialize_context_eq(1))
  have ra: "return_address switch_core 0x456" by code_simp
  have d: "{pair switch_core 24, pair switch_core 24 + 1} \<inter> region (SP switch_core - 32) 35 = {}" by code_simp
  have w: "word_at (ram switch_core) (pair switch_core 22) = 0x2DC" by code_simp
  have f: "\<forall>a \<in> region (0x2DC + 1) 35. ram switch_core a = fst ?c a" by code_simp
  have a: "(region (0x2DC + 1) 35 \<union> {pair switch_core 22, pair switch_core 22 + 1})
      \<inter> (region (SP switch_core - 32) 33 \<union> {pair switch_core 24, pair switch_core 24 + 1}) = {}"
    by code_simp
  show ?thesis
    using first_switch_enters_thread [OF sp ra d w bspec [OF f] a, of 0] by simp
qed

text \<open>C36. A thread that was switched out continues where it called the switch when another thread
  switches back to it: same registers, same status register, its return address as program counter
  and its stack pointer just above it, provided that its frame and its context cell were left
  alone in between.\<close>

theorem switch_out_and_back:
  assumes "return_address s pc" "{pair s 24, pair s 24 + 1} \<inter> region (SP s - 32) 35 = {}"
    and "pair t 22 = pair s 24"
    and "\<And>a. a \<in> region (SP s - 32) 35 \<union> {pair s 24, pair s 24 + 1} \<Longrightarrow>
      ram (save_context t) a = ram (save_context s) a"
  shows "PC (cpu_swap_context t) = pc \<and> SP (cpu_swap_context t) = SP s + 2
    \<and> sreg (cpu_swap_context t) = sreg s \<and> (i < 32 \<longrightarrow> R (cpu_swap_context t) i = R s i)"
  using swap_out_and_in [of s pc "save_context t" i] assms
  by (simp add: save_context_pair cpu_swap_context_def)

theorem switch_out_and_back_witness:
  "PC (cpu_swap_context \<lparr>R = (\<lambda>_. 9)(24 := 0x10, 25 := 0x05, 22 := 0x00, 23 := 0x05), sreg = 0,
       SP = 0x3F0, PC = 0, ram = ram (save_context switch_core)\<rparr>) = 0x456"
proof -
  let ?t = "\<lparr>R = (\<lambda>_. 9)(24 := 0x10, 25 := 0x05, 22 := 0x00, 23 := 0x05), sreg = 0,
       SP = 0x3F0, PC = 0, ram = ram (save_context switch_core)\<rparr>"
  have ra: "return_address switch_core 0x456" by code_simp
  have d: "{pair switch_core 24, pair switch_core 24 + 1} \<inter> region (SP switch_core - 32) 35 = {}" by code_simp
  have p: "pair ?t 22 = pair switch_core 24" by code_simp
  have k: "\<forall>a \<in> region (SP switch_core - 32) 35 \<union> {pair switch_core 24, pair switch_core 24 + 1}.
      ram (save_context ?t) a = ram (save_context switch_core) a" by code_simp
  show ?thesis
    using switch_out_and_back [OF ra d p bspec [OF k], of 0] by simp
qed

end
