(* ===== verification/Startup.thy ===== *)
theory Startup
  imports Context
begin

text \<open>
  The reset code, \<open>src/arch/avr/startup.S\<close>: the vector table, and \<open>_start\<close> instruction by instruction up to the call
  of \<open>main\<close>. Of the flags only Z is read there, and it is kept apart. The addresses of the sections come from the
  linker and are a parameter, \<open>link_map\<close>.
\<close>

section \<open>The core at reset\<close>

record reset_core =
  core :: avr
  flash :: memory
  zflag :: bool
  io_log :: "(u16 \<times> u8) list"

record link_map =
  RAMEND :: u16
  data_start_flash :: u16
  data_start_sram :: u16
  data_bytes_to_read :: u16
  bss_start_sram :: u16
  bss_bytes_to_clear :: u16
  main_addr :: u16
  halt_addr :: u16

definition upd_core :: "(avr \<Rightarrow> avr) \<Rightarrow> reset_core \<Rightarrow> reset_core" where
  "upd_core f s = s\<lparr>core := f (core s)\<rparr>"

definition clr :: "nat \<Rightarrow> reset_core \<Rightarrow> reset_core" where
  "clr d s = (upd_core (set_r d 0) s)\<lparr>zflag := True\<rparr>"

definition ldi :: "nat \<Rightarrow> u8 \<Rightarrow> reset_core \<Rightarrow> reset_core" where
  "ldi d k s = upd_core (set_r d k) s"

text \<open>The two halves of a 16-bit constant into a register pair.\<close>

definition ldi_pair :: "nat \<Rightarrow> u16 \<Rightarrow> reset_core \<Rightarrow> reset_core" where
  "ldi_pair d w s = ldi (Suc d) (ucast (drop_bit 8 w)) (ldi d (ucast (w AND 0xFF)) s)"

text \<open>A store to an I/O register, by its address in data memory; the order of these stores is kept in \<open>io_log\<close>.\<close>

definition store_io :: "u16 \<Rightarrow> nat \<Rightarrow> reset_core \<Rightarrow> reset_core" where
  "store_io a r s =
     (upd_core (\<lambda>c. c\<lparr>ram := (ram c)(a := R c r)\<rparr>) s)\<lparr>io_log := io_log s @ [(a, R (core s) r)]\<rparr>"

definition out_SP_high :: "nat \<Rightarrow> reset_core \<Rightarrow> reset_core" where
  "out_SP_high r s = upd_core (\<lambda>c. c\<lparr>SP := push_bit 8 (ucast (R c r)) OR (SP c AND 0xFF)\<rparr>) s"

definition out_SP_low :: "nat \<Rightarrow> reset_core \<Rightarrow> reset_core" where
  "out_SP_low r s = upd_core (\<lambda>c. c\<lparr>SP := push_bit 8 (drop_bit 8 (SP c)) OR ucast (R c r)\<rparr>) s"

text \<open>\<open>sbiw\<close> subtracts from a register pair and sets Z, \<open>lpm r, Z+\<close> loads from program memory, \<open>st X+, r\<close> stores to data
  memory.\<close>

definition sbiw :: "nat \<Rightarrow> u16 \<Rightarrow> reset_core \<Rightarrow> reset_core" where
  "sbiw d k s = (upd_core (\<lambda>c. set_pair d (pair c d - k) c) s)\<lparr>zflag := (pair (core s) d - k = 0)\<rparr>"

definition lpm_Z_inc :: "nat \<Rightarrow> reset_core \<Rightarrow> reset_core" where
  "lpm_Z_inc r s = upd_core (\<lambda>c. set_pair 30 (pair c 30 + 1) (set_r r (flash s (pair c 30)) c)) s"

definition st_X_inc :: "nat \<Rightarrow> reset_core \<Rightarrow> reset_core" where
  "st_X_inc r s = upd_core (\<lambda>c. set_pair 26 (pair c 26 + 1) (c\<lparr>ram := (ram c)(pair c 26 := R c r)\<rparr>)) s"

text \<open>\<open>call\<close> pushes the low byte of the return address and then the high byte.\<close>

definition call :: "u16 \<Rightarrow> u16 \<Rightarrow> reset_core \<Rightarrow> reset_core" where
  "call target back s =
     upd_core (\<lambda>c. (push (ucast (drop_bit 8 back)) (push (ucast (back AND 0xFF)) c))\<lparr>PC := target\<rparr>) s"

section \<open>The reset handler\<close>

text \<open>Jobs 0 to 2: watchdog, r1, stack pointer. \<open>MCUSR\<close> is at I/O address 0x34, which is data address 0x54.\<close>

definition disable_watchdog :: "reset_core \<Rightarrow> reset_core" where
  "disable_watchdog s =
     (let s = clr 16 s;
          s = store_io 0x54 16 s;
          s = ldi 17 0x18 s;
          s = store_io 0x60 17 s
      in store_io 0x60 16 s)"

definition set_stack :: "link_map \<Rightarrow> reset_core \<Rightarrow> reset_core" where
  "set_stack m s =
     (let s = out_SP_high 16 (ldi 16 (ucast (drop_bit 8 (RAMEND m))) s)
      in out_SP_low 16 (ldi 16 (ucast (RAMEND m AND 0xFF)) s))"

text \<open>Job 3: \<open>.L_data_copy\<close>, which tests its counter after the first turn.\<close>

partial_function (option) L_data_copy :: "reset_core \<Rightarrow> reset_core option" where
  "L_data_copy s =
     (let s = sbiw 24 1 (st_X_inc 0 (lpm_Z_inc 0 s))
      in if \<not> zflag s then L_data_copy s else Some s)"

definition copy_data :: "link_map \<Rightarrow> reset_core \<Rightarrow> reset_core option" where
  "copy_data m s =
     (let s = ldi_pair 30 (data_start_flash m) s;
          s = ldi_pair 26 (data_start_sram m) s;
          s = ldi_pair 24 (data_bytes_to_read m) s;
          s = sbiw 24 0 s
      in if zflag s then Some s else L_data_copy s)"

text \<open>Job 4: \<open>.L_bss_zero\<close>.\<close>

partial_function (option) L_bss_zero :: "reset_core \<Rightarrow> reset_core option" where
  "L_bss_zero s =
     (let s = sbiw 24 1 (st_X_inc 1 s)
      in if \<not> zflag s then L_bss_zero s else Some s)"

definition zero_bss :: "link_map \<Rightarrow> reset_core \<Rightarrow> reset_core option" where
  "zero_bss m s =
     (let s = ldi_pair 26 (bss_start_sram m) s;
          s = ldi_pair 24 (bss_bytes_to_clear m) s;
          s = sbiw 24 0 s
      in if zflag s then Some s else L_bss_zero s)"

text \<open>\<open>_start\<close> up to the first instruction of \<open>main\<close>.\<close>

definition reset_start :: "link_map \<Rightarrow> reset_core \<Rightarrow> reset_core option" where
  "reset_start m s = do {
     let s = disable_watchdog s;
     let s = clr 1 s;
     let s = set_stack m s;
     s \<leftarrow> copy_data m s;
     s \<leftarrow> zero_bss m s;
     Some (call (main_addr m) (halt_addr m) s) }"

section \<open>The loops\<close>

text \<open>A run of bytes written upwards from \<open>a\<close>.\<close>

fun write_run :: "u16 \<Rightarrow> u8 list \<Rightarrow> memory \<Rightarrow> memory" where
  "write_run a [] m = m"
| "write_run a (b # bs) m = write_run (a + 1) bs (m(a := b))"

lemma upd_core_simps [simp]:
  "core (upd_core f s) = f (core s)" "flash (upd_core f s) = flash s" "zflag (upd_core f s) = zflag s" "io_log (upd_core f s) = io_log s"
  by (simp_all add: upd_core_def)

lemma pair_other: "j \<noteq> i \<Longrightarrow> j \<noteq> Suc i \<Longrightarrow> Suc j \<noteq> i \<Longrightarrow> pair (set_pair i w c) j = pair c j"
  by (simp add: pair_def)

lemma pair_ram [simp]: "pair (c\<lparr>ram := x\<rparr>) j = pair c j"
  by (simp add: pair_def)

lemma pair_set_r: "j \<noteq> i \<Longrightarrow> Suc j \<noteq> i \<Longrightarrow> pair (set_r i v c) j = pair c j"
  by (simp add: pair_def)

text \<open>What the loops leave alone.\<close>

definition kept :: "reset_core \<Rightarrow> reset_core \<Rightarrow> bool" where
  "kept s t \<longleftrightarrow> flash t = flash s \<and> io_log t = io_log s \<and> SP (core t) = SP (core s) \<and> R (core t) 1 = R (core s) 1"

lemma kept_refl [simp]: "kept s s"
  by (simp add: kept_def)

lemma kept_trans: "kept s t \<Longrightarrow> kept t u \<Longrightarrow> kept s u"
  by (simp add: kept_def)

lemma last_turn: "unat w = Suc n \<Longrightarrow> w - 1 = 0 \<longleftrightarrow> n = 0" "unat w = Suc n \<Longrightarrow> unat (w - 1) = n" for w :: u16
proof -
  assume w: "unat w = Suc n"
  have "of_nat (unat w) = w" by simp
  then have e: "w - 1 = of_nat n" unfolding w by auto
  have "unat w < 2 ^ LENGTH(16)" by (rule unsigned_less)
  then have "n < 2 ^ 16" using w by simp
  then show u: "unat (w - 1) = n" unfolding e by (simp add: unat_of_nat take_bit_nat_eq_self)
  show "w - 1 = 0 \<longleftrightarrow> n = 0" using u by (metis unat_0 unat_eq_zero)
qed

lemma data_turn:
  fixes s :: reset_core
  defines "u \<equiv> sbiw 24 1 (st_X_inc 0 (lpm_Z_inc 0 s))"
  shows "pair (core u) 24 = pair (core s) 24 - 1" "pair (core u) 26 = pair (core s) 26 + 1" "pair (core u) 30 = pair (core s) 30 + 1"
    "ram (core u) = (ram (core s))(pair (core s) 26 := flash s (pair (core s) 30))" "zflag u = (pair (core s) 24 - 1 = 0)" "kept s u"
  by (simp_all add: u_def sbiw_def st_X_inc_def lpm_Z_inc_def pair_other pair_set_r kept_def)

lemma bss_turn:
  fixes s :: reset_core
  defines "u \<equiv> sbiw 24 1 (st_X_inc 1 s)"
  shows "pair (core u) 24 = pair (core s) 24 - 1" "pair (core u) 26 = pair (core s) 26 + 1"
    "ram (core u) = (ram (core s))(pair (core s) 26 := R (core s) 1)" "zflag u = (pair (core s) 24 - 1 = 0)" "kept s u"
  by (simp_all add: u_def sbiw_def st_X_inc_def pair_other pair_set_r kept_def)

lemma L_data_copy_runs:
  assumes "unat (pair (core s) 24) = Suc n"
  shows "\<exists>t. L_data_copy s = Some t \<and> kept s t
    \<and> ram (core t) = write_run (pair (core s) 26) (map (\<lambda>i. flash s (pair (core s) 30 + of_nat i)) [0..<Suc n]) (ram (core s))"
  using assms
proof (induction n arbitrary: s)
  case 0
  let ?u = "sbiw 24 1 (st_X_inc 0 (lpm_Z_inc 0 s))"
  have "L_data_copy s = Some ?u" using data_turn(5) [of s] last_turn(1) [OF 0] by (subst L_data_copy.simps) (simp add: Let_def)
  then show ?case using data_turn(4,6) [of s] by (simp add: fun_upd_def)
next
  case (Suc n)
  let ?u = "sbiw 24 1 (st_X_inc 0 (lpm_Z_inc 0 s))"
  note D = data_turn [of s]
  have step: "L_data_copy s = L_data_copy ?u" using D(5) last_turn(1) [OF Suc.prems] by (subst L_data_copy.simps) (simp add: Let_def)
  have "unat (pair (core ?u) 24) = Suc n" using D(1) last_turn(2) [OF Suc.prems] by simp
  from Suc.IH [OF this] obtain t where t: "L_data_copy ?u = Some t" "kept ?u t"
    "ram (core t) = write_run (pair (core ?u) 26) (map (\<lambda>i. flash ?u (pair (core ?u) 30 + of_nat i)) [0..<Suc n]) (ram (core ?u))" by blast
  have f: "flash ?u = flash s" using D(6) by (simp add: kept_def)
  have m: "map g [0..<Suc (Suc n)] = g 0 # map (\<lambda>i. g (Suc i)) [0..<Suc n]" for g :: "nat \<Rightarrow> u8"
    by (simp only: upt_conv_Cons [of 0 "Suc (Suc n)"] zero_less_Suc list.map map_Suc_upt [symmetric] map_map comp_def)
  show ?case unfolding step m using t kept_trans [OF D(6) t(2)] by (simp add: D f add.assoc add.commute [of 1] del: upt_Suc)
qed

lemma L_bss_zero_runs:
  assumes "unat (pair (core s) 24) = Suc n"
  shows "\<exists>t. L_bss_zero s = Some t \<and> kept s t
    \<and> ram (core t) = write_run (pair (core s) 26) (replicate (Suc n) (R (core s) 1)) (ram (core s))"
  using assms
proof (induction n arbitrary: s)
  case 0
  let ?u = "sbiw 24 1 (st_X_inc 1 s)"
  have "L_bss_zero s = Some ?u" using bss_turn(4) [of s] last_turn(1) [OF 0] by (subst L_bss_zero.simps) (simp add: Let_def)
  then show ?case using bss_turn(3,5) [of s] by (simp add: fun_upd_def)
next
  case (Suc n)
  let ?u = "sbiw 24 1 (st_X_inc 1 s)"
  note D = bss_turn [of s]
  have step: "L_bss_zero s = L_bss_zero ?u" using D(4) last_turn(1) [OF Suc.prems] by (subst L_bss_zero.simps) (simp add: Let_def)
  have "unat (pair (core ?u) 24) = Suc n" using D(1) last_turn(2) [OF Suc.prems] by simp
  from Suc.IH [OF this] obtain t where t: "L_bss_zero ?u = Some t" "kept ?u t"
    "ram (core t) = write_run (pair (core ?u) 26) (replicate (Suc n) (R (core ?u) 1)) (ram (core ?u))" by blast
  have e: "R (core ?u) 1 = R (core s) 1" using D(5) by (simp add: kept_def)
  have "ram (core t) = write_run (pair (core s) 26) (replicate (Suc (Suc n)) (R (core s) 1)) (ram (core s))"
    using t(3) unfolding D(2,3) e replicate_Suc [of "Suc n"] write_run.simps .
  then show ?case unfolding step using t(1) kept_trans [OF D(5) t(2)] by blast
qed

section \<open>Runs of bytes\<close>

lemma write_run_out: "(\<forall>i<length bs. x \<noteq> a + of_nat i) \<Longrightarrow> write_run a bs m x = m x"
proof (induction bs arbitrary: a m)
  case (Cons b bs)
  have "x \<noteq> a + 1 + of_nat i" if "i < length bs" for i using Cons.prems that by (auto dest: spec [of _ "Suc i"] simp: add.assoc)
  moreover have "x \<noteq> a" using Cons.prems by (auto dest: spec [of _ 0])
  ultimately show ?case using Cons.IH by simp
qed simp

lemma write_run_in:
  assumes "i < length bs" and "length bs \<le> 2 ^ 16"
  shows "write_run a bs m (a + of_nat i) = bs ! i"
  using assms
proof (induction bs arbitrary: a m i)
  case (Cons b bs)
  show ?case
  proof (cases i)
    case 0
    have "a \<noteq> a + 1 + of_nat j" if "j < length bs" for j
    proof
      assume "a = a + 1 + of_nat j"
      then have "(of_nat (Suc j) :: u16) = 0" by (simp add: add.assoc)
      then have "2 ^ LENGTH(16) dvd Suc j" by (simp only: word_of_nat_eq_0_iff)
      then show False using that Cons.prems(2) dvd_imp_le [of "2 ^ 16" "Suc j"] by simp
    qed
    then show ?thesis using 0 write_run_out [of bs a "a + 1"] by simp
  next
    case (Suc j)
    then show ?thesis using Cons.IH [of j "a + 1"] Cons.prems by (simp add: add.assoc)
  qed
qed simp

section \<open>What \<open>main\<close> finds\<close>

lemma ldi_pair_core: "core (ldi_pair d w s) = set_pair d w (core s)"
  by (simp add: ldi_pair_def ldi_def set_pair_def)

lemma ldi_pair_kept:
  "flash (ldi_pair d w s) = flash s" "io_log (ldi_pair d w s) = io_log s" "1 < d \<Longrightarrow> kept s (ldi_pair d w s)"
  by (simp_all add: ldi_pair_def ldi_def kept_def set_r_def)

lemma sbiw_zero: "kept s (sbiw 24 0 s)" "ram (core (sbiw 24 0 s)) = ram (core s)" "zflag (sbiw 24 0 s) = (pair (core s) 24 = 0)"
  "j = 24 \<or> j = 26 \<or> j = 30 \<Longrightarrow> pair (core (sbiw 24 0 s)) j = pair (core s) j"
  by (auto simp: sbiw_def kept_def pair_other)

text \<open>The two jobs on memory, for any size including 0.\<close>

lemma copy_data_runs:
  "\<exists>t. copy_data m s = Some t \<and> kept s t
    \<and> ram (core t) = write_run (data_start_sram m) (map (\<lambda>i. flash s (data_start_flash m + of_nat i)) [0..<unat (data_bytes_to_read m)]) (ram (core s))"
proof -
  define u where "u = ldi_pair 24 (data_bytes_to_read m) (ldi_pair 26 (data_start_sram m) (ldi_pair 30 (data_start_flash m) s))"
  let ?u = "sbiw 24 0 u"
  have k: "kept s u" unfolding u_def
    using kept_trans [OF ldi_pair_kept(3) [of 30 s] kept_trans [OF ldi_pair_kept(3) [of 26] ldi_pair_kept(3) [of 24]]] by simp
  have p: "pair (core u) 24 = data_bytes_to_read m" "pair (core u) 26 = data_start_sram m" "pair (core u) 30 = data_start_flash m"
    "ram (core u) = ram (core s)" by (simp_all add: u_def ldi_pair_core pair_other)
  have run: "copy_data m s = (if data_bytes_to_read m = 0 then Some ?u else L_data_copy ?u)"
    unfolding copy_data_def Let_def u_def [symmetric] sbiw_zero(3) p(1) ..
  show ?thesis
  proof (cases "unat (data_bytes_to_read m)")
    case 0
    then have "copy_data m s = Some ?u" using run by (simp add: unat_eq_zero)
    then show ?thesis using 0 kept_trans [OF k sbiw_zero(1)] sbiw_zero(2) p(4) by simp
  next
    case (Suc n)
    then have "copy_data m s = L_data_copy ?u" using run by auto
    moreover have "unat (pair (core ?u) 24) = Suc n" using Suc sbiw_zero(4) [of 24 u] p(1) by simp
    from L_data_copy_runs [OF this] obtain t where "L_data_copy ?u = Some t" "kept ?u t"
      "ram (core t) = write_run (pair (core ?u) 26) (map (\<lambda>i. flash ?u (pair (core ?u) 30 + of_nat i)) [0..<Suc n]) (ram (core ?u))" by blast
    moreover have "flash ?u = flash s" using kept_trans [OF k sbiw_zero(1)] by (simp add: kept_def)
    ultimately show ?thesis using kept_trans [OF kept_trans [OF k sbiw_zero(1)], of t] sbiw_zero(2,4) p Suc by simp
  qed
qed

lemma zero_bss_runs:
  "\<exists>t. zero_bss m s = Some t \<and> kept s t
    \<and> ram (core t) = write_run (bss_start_sram m) (replicate (unat (bss_bytes_to_clear m)) (R (core s) 1)) (ram (core s))"
proof -
  define u where "u = ldi_pair 24 (bss_bytes_to_clear m) (ldi_pair 26 (bss_start_sram m) s)"
  let ?u = "sbiw 24 0 u"
  have k: "kept s u" unfolding u_def using kept_trans [OF ldi_pair_kept(3) [of 26] ldi_pair_kept(3) [of 24]] by simp
  have p: "pair (core u) 24 = bss_bytes_to_clear m" "pair (core u) 26 = bss_start_sram m" "ram (core u) = ram (core s)"
    by (simp_all add: u_def ldi_pair_core pair_other)
  have run: "zero_bss m s = (if bss_bytes_to_clear m = 0 then Some ?u else L_bss_zero ?u)"
    unfolding zero_bss_def Let_def u_def [symmetric] sbiw_zero(3) p(1) ..
  show ?thesis
  proof (cases "unat (bss_bytes_to_clear m)")
    case 0
    then have "zero_bss m s = Some ?u" using run by (simp add: unat_eq_zero)
    then show ?thesis using 0 kept_trans [OF k sbiw_zero(1)] sbiw_zero(2) p(3) by simp
  next
    case (Suc n)
    then have "zero_bss m s = L_bss_zero ?u" using run by auto
    moreover have "unat (pair (core ?u) 24) = Suc n" using Suc sbiw_zero(4) [of 24 u] p(1) by simp
    from L_bss_zero_runs [OF this] obtain t where "L_bss_zero ?u = Some t" "kept ?u t"
      "ram (core t) = write_run (pair (core ?u) 26) (replicate (Suc n) (R (core ?u) 1)) (ram (core ?u))" by blast
    moreover have "R (core ?u) 1 = R (core s) 1" using kept_trans [OF k sbiw_zero(1)] by (simp add: kept_def)
    ultimately show ?thesis using kept_trans [OF kept_trans [OF k sbiw_zero(1)], of t] sbiw_zero(2,4) p Suc by simp
  qed
qed

text \<open>The state before the sections are set up.\<close>

lemma join_high_low:
  "push_bit 8 (drop_bit 8 (push_bit 8 (ucast (ucast (drop_bit 8 w) :: u8)) OR (x AND 0xFF))) OR ucast (ucast (w AND 0xFF) :: u8) = (w :: u16)"
proof -
  have "push_bit 8 (drop_bit 8 (push_bit 8 (ucast (ucast (drop_bit 8 w) :: u8)) OR (x AND m))) OR ucast (ucast (w AND m) :: u8) = w"
    if "\<And>n. bit m n \<longleftrightarrow> n < 8" for m :: u16
    by (rule bit_word_eqI)
      (auto simp: that bit_or_iff bit_and_iff bit_push_bit_iff bit_drop_bit_eq bit_unsigned_iff not_less)
  then show ?thesis using bit_0xFF by blast
qed

lemma join_high_only:
  "push_bit 8 (drop_bit 8 (push_bit 8 (ucast (ucast (drop_bit 8 w) :: u8)))) OR ucast (ucast (w AND 0xFF) :: u8) = (w :: u16)"
  using join_high_low [of w 0] by simp

lemma before_sections:
  fixes s :: reset_core and m :: link_map
  defines "t \<equiv> set_stack m (clr 1 (disable_watchdog s))"
  shows "SP (core t) = RAMEND m" "R (core t) 1 = 0" "flash t = flash s"
    "io_log t = io_log s @ [(0x54, 0), (0x60, 0x18), (0x60, 0)]" "ram (core t) = (ram (core s))(0x54 := 0, 0x60 := 0)"
  by (simp_all add: t_def set_stack_def clr_def disable_watchdog_def out_SP_high_def out_SP_low_def ldi_def store_io_def Let_def join_high_only)

text \<open>C34. The reset code prepares the machine for C. For any sections \<open>.data\<close> and \<open>.bss\<close>, empty ones included, that do not
  overlap each other or the two top bytes of the memory, \<open>_start\<close> gets to \<open>main\<close>: r1 is 0, the stack is empty but
  for the return address, which leads to the endless loop behind the call; every byte of \<open>.data\<close> has its value from program
  memory, every byte of \<open>.bss\<close> is 0, and all other memory is as it was but for the registers of the watchdog, which has been
  turned off with the sequence of writes that it asks for.\<close>

theorem reset_prepares_memory:
  assumes disj: "\<forall>i<unat (data_bytes_to_read m). \<forall>j<unat (bss_bytes_to_clear m). data_start_sram m + of_nat i \<noteq> bss_start_sram m + of_nat j"
    and data: "\<forall>i<unat (data_bytes_to_read m). data_start_sram m + of_nat i \<notin> {RAMEND m, RAMEND m - 1}"
    and bss: "\<forall>j<unat (bss_bytes_to_clear m). bss_start_sram m + of_nat j \<notin> {RAMEND m, RAMEND m - 1}"
  shows "\<exists>t. reset_start m s = Some t \<and> PC (core t) = main_addr m \<and> SP (core t) = RAMEND m - 2 \<and> PC (ret (core t)) = halt_addr m
    \<and> R (core t) 1 = 0 \<and> io_log t = io_log s @ [(0x54, 0), (0x60, 0x18), (0x60, 0)]
    \<and> (\<forall>i<unat (data_bytes_to_read m). ram (core t) (data_start_sram m + of_nat i) = flash s (data_start_flash m + of_nat i))
    \<and> (\<forall>j<unat (bss_bytes_to_clear m). ram (core t) (bss_start_sram m + of_nat j) = 0)
    \<and> (\<forall>x. x \<notin> {RAMEND m, RAMEND m - 1, 0x54, 0x60} \<and> (\<forall>i<unat (data_bytes_to_read m). x \<noteq> data_start_sram m + of_nat i)
          \<and> (\<forall>j<unat (bss_bytes_to_clear m). x \<noteq> bss_start_sram m + of_nat j) \<longrightarrow> ram (core t) x = ram (core s) x)"
proof -
  let ?d = "map (\<lambda>i. flash s (data_start_flash m + of_nat i)) [0..<unat (data_bytes_to_read m)]"
  let ?z = "replicate (unat (bss_bytes_to_clear m)) (0 :: u8)"
  define s0 where "s0 = set_stack m (clr 1 (disable_watchdog s))"
  note S = before_sections [of m s, folded s0_def]
  obtain s1 where s1: "copy_data m s0 = Some s1" "kept s0 s1" "ram (core s1) = write_run (data_start_sram m) ?d (ram (core s0))"
    using copy_data_runs [of m s0] S(3) by auto
  obtain s2 where s2: "zero_bss m s1 = Some s2" "kept s1 s2" "ram (core s2) = write_run (bss_start_sram m) ?z (ram (core s1))"
    using zero_bss_runs [of m s1] s1(2) S(2) by (auto simp: kept_def)
  let ?t = "call (main_addr m) (halt_addr m) s2"
  have run: "reset_start m s = Some ?t" using s1(1) s2(1) by (simp add: reset_start_def s0_def Let_def)
  have sp: "SP (core s2) = RAMEND m" "R (core s2) 1 = 0" "io_log s2 = io_log s @ [(0x54, 0), (0x60, 0x18), (0x60, 0)]"
    using S s1(2) s2(2) by (simp_all add: kept_def)
  have ne: "RAMEND m - 1 \<noteq> RAMEND m" by simp
  have tr: "ram (core ?t) = (ram (core s2))(RAMEND m := ucast (halt_addr m AND 0xFF), RAMEND m - 1 := ucast (drop_bit 8 (halt_addr m)))"
    by (simp add: call_def push_def sp)
  have tc: "PC (core ?t) = main_addr m" "SP (core ?t) = RAMEND m - 2" "R (core ?t) 1 = 0" "io_log ?t = io_log s2"
    using sp by (simp_all add: call_def push_def)
  have "PC (ret (core ?t)) = halt_addr m"
    using join_bytes [of "halt_addr m"] by (simp add: ret_def pop_def tc tr)
  moreover have "unat (data_bytes_to_read m) < 2 ^ LENGTH(16)" "unat (bss_bytes_to_clear m) < 2 ^ LENGTH(16)" by (rule unsigned_less)+
  then have lens: "length ?d \<le> 2 ^ 16" "length ?z \<le> 2 ^ 16" by simp_all
  have "ram (core ?t) (data_start_sram m + of_nat i) = flash s (data_start_flash m + of_nat i)" if i: "i < unat (data_bytes_to_read m)" for i
  proof -
    have "write_run (bss_start_sram m) ?z (ram (core s1)) (data_start_sram m + of_nat i) = ram (core s1) (data_start_sram m + of_nat i)"
      by (rule write_run_out) (use disj i in simp)
    then show ?thesis using data i s1(3) s2(3) write_run_in [of i ?d "data_start_sram m"] lens(1) by (simp add: tr)
  qed
  moreover have "ram (core ?t) (bss_start_sram m + of_nat j) = 0" if j: "j < unat (bss_bytes_to_clear m)" for j
    using bss j s2(3) write_run_in [of j ?z "bss_start_sram m"] lens(2) by (simp add: tr)
  moreover have "ram (core ?t) x = ram (core s) x"
    if "x \<notin> {RAMEND m, RAMEND m - 1, 0x54, 0x60}" "\<forall>i<unat (data_bytes_to_read m). x \<noteq> data_start_sram m + of_nat i"
      "\<forall>j<unat (bss_bytes_to_clear m). x \<noteq> bss_start_sram m + of_nat j" for x
    using that write_run_out [of ?z x "bss_start_sram m"] write_run_out [of ?d x "data_start_sram m"] s1(3) s2(3) S(5) by (simp add: tr)
  moreover have "io_log ?t = io_log s @ [(0x54, 0), (0x60, 0x18), (0x60, 0)]" using tc(4) sp(3) by simp
  ultimately show ?thesis using run tc(1-3) by (intro exI [of _ ?t]) blast
qed

text \<open>A map of sections as the linker script lays them out: \<open>.data\<close> at the start of the memory, \<open>.bss\<close> behind it.\<close>

definition small_map :: link_map where
  "small_map = \<lparr>RAMEND = 0x8FF, data_start_flash = 0x1000, data_start_sram = 0x100, data_bytes_to_read = 2,
     bss_start_sram = 0x102, bss_bytes_to_clear = 3, main_addr = 0x200, halt_addr = 0x7C\<rparr>"

theorem reset_prepares_memory_witness:
  "\<exists>t. reset_start small_map
       \<lparr>core = \<lparr>R = \<lambda>_. 0xAA, sreg = 0, SP = 0, PC = 0, ram = \<lambda>_. 0x55\<rparr>, flash = \<lambda>a. ucast a, zflag = False, io_log = []\<rparr> = Some t
     \<and> PC (core t) = 0x200 \<and> R (core t) 1 = 0 \<and> ram (core t) 0x101 = 1 \<and> ram (core t) 0x104 = 0 \<and> ram (core t) 0x105 = 0x55"
  (is "\<exists>t. reset_start small_map ?s = _ \<and> _")
proof -
  have two: "(\<forall>i<2. P i) \<longleftrightarrow> P 0 \<and> P 1" and three: "(\<forall>i<3. P i) \<longleftrightarrow> P 0 \<and> P 1 \<and> P 2" for P :: "nat \<Rightarrow> bool"
    by (auto simp: numeral_2_eq_2 numeral_3_eq_3 less_Suc_eq)
  obtain t where t: "reset_start small_map ?s = Some t" "PC (core t) = main_addr small_map" "R (core t) 1 = 0"
    "\<forall>i<2. ram (core t) (0x100 + of_nat i) = ucast (0x1000 + of_nat i :: u16)" "\<forall>j<3. ram (core t) (0x102 + of_nat j) = 0"
    "\<forall>x. x \<notin> {0x8FF, 0x8FE, 0x54, 0x60} \<and> (\<forall>i<2. x \<noteq> 0x100 + of_nat i) \<and> (\<forall>j<3. x \<noteq> 0x102 + of_nat j) \<longrightarrow> ram (core t) x = 0x55"
    using reset_prepares_memory [of small_map ?s] by (auto simp: small_map_def two three)
  have "ram (core t) 0x105 = 0x55" using t(6) [rule_format, of "0x105"] by (simp add: two three)
  then show ?thesis using t(1-5) by (intro exI [of _ t]) (simp add: two three small_map_def)
qed

section \<open>The vector table\<close>

text \<open>The 26 entries of \<open>__vectors\<close>. Each is an \<open>rjmp\<close> and takes one word of program memory.\<close>

datatype isr = START | BAD_INTERRUPT | VECTOR_11 | VECTOR_13 | VECTOR_18 | VECTOR_19

definition vectors :: "isr list" where
  "vectors =
     [START, BAD_INTERRUPT, BAD_INTERRUPT, BAD_INTERRUPT, BAD_INTERRUPT, BAD_INTERRUPT, BAD_INTERRUPT, BAD_INTERRUPT,
      BAD_INTERRUPT, BAD_INTERRUPT, BAD_INTERRUPT, VECTOR_11, BAD_INTERRUPT, VECTOR_13, BAD_INTERRUPT, BAD_INTERRUPT,
      BAD_INTERRUPT, BAD_INTERRUPT, VECTOR_18, VECTOR_19, BAD_INTERRUPT, BAD_INTERRUPT, BAD_INTERRUPT, BAD_INTERRUPT,
      BAD_INTERRUPT, BAD_INTERRUPT]"

text \<open>Interrupt \<open>n\<close> of a core whose vectors are \<open>words\<close> words apart starts at word \<open>words * n\<close> of program memory; the table
  starts at word 0, and what lies behind it is not a vector.\<close>

definition interrupt_enters :: "nat \<Rightarrow> nat \<Rightarrow> isr option" where
  "interrupt_enters words n = (if words * n < length vectors then Some (vectors ! (words * n)) else None)"

definition handler_of :: "nat \<Rightarrow> isr" where
  "handler_of n = (if n = 0 then START else if n = 11 then VECTOR_11 else if n = 13 then VECTOR_13
     else if n = 18 then VECTOR_18 else if n = 19 then VECTOR_19 else BAD_INTERRUPT)"

text \<open>The table is right for a core with vectors one word apart. On the ATmega328P they are two words apart: reset works, but
  the alarm of the scheduler ends in the endless loop \<open>__bad_interrupt\<close>, and the interrupts of the clock and the serial port start
  at words behind the table.\<close>

lemma vectors_one_word: "n < 26 \<Longrightarrow> interrupt_enters 1 n = Some (handler_of n)"
proof -
  have "\<forall>n\<in>set [0..<26]. interrupt_enters 1 n = Some (handler_of n)"
    by (simp add: upt_conv_Cons interrupt_enters_def vectors_def handler_of_def)
  then show "n < 26 \<Longrightarrow> ?thesis" by simp
qed

theorem vectors_two_words:
  "interrupt_enters 2 0 = Some START" "interrupt_enters 2 11 = Some BAD_INTERRUPT"
  "n \<in> {13, 18, 19} \<Longrightarrow> interrupt_enters 2 n = None"
  by (auto simp: interrupt_enters_def vectors_def)

end
