(* ===== verification/Rlist.thy ===== *)
theory Rlist
  imports Prelude
begin

text \<open>
  The resource lists of \<open>include/util.h\<close>: circular doubly linked lists of
  \<open>rlnode\<close> objects, on which every list operation is one or two calls of
  \<open>rl_splice\<close>.

  The nodes live in a store of type \<open>('a, 'k) rlheap\<close>: \<open>'a\<close> is the type of the
  addresses of the nodes, \<open>'k\<close> the type of their key (the union at the head of the
  struct; a list holds keys of one kind). The operations read and write the \<open>prev\<close> and
  \<open>next\<close> fields exactly as the C does, including the swap of two pointer cells through
  their addresses, so that aliasing (a node that is its own successor) is not assumed away.
  The loops are \<open>partial_function (option)\<close>: on a store that is not a ring they may never
  return.

  \<open>ring h xs\<close> says that the nodes \<open>xs\<close> form one ring in the order of the list,
  and \<open>rlist h L xs\<close> that the sentinel \<open>L\<close> represents the list \<open>xs\<close>.
  The lemmas show that the pointer operations are the list operations the header documents.
\<close>

section \<open>The store and the operations\<close>

record ('a, 'k) rlheap =
  nxt :: "'a \<Rightarrow> 'a"
  prv :: "'a \<Rightarrow> 'a"
  key :: "'a \<Rightarrow> 'k"

definition rlnode_new :: "('a, 'k) rlheap \<Rightarrow> 'a \<Rightarrow> ('a, 'k) rlheap" where
  "rlnode_new h p = h\<lparr>nxt := (nxt h)(p := p), prv := (prv h)(p := p)\<rparr>"

definition rlnode_init :: "('a, 'k) rlheap \<Rightarrow> 'a \<Rightarrow> 'k \<Rightarrow> ('a, 'k) rlheap" where
  "rlnode_init h p k = (let h' = rlnode_new h p in h'\<lparr>key := (key h')(p := k)\<rparr>)"

text \<open>The address of a pointer field of a node (\<open>rlnode_ptr *\<close>).\<close>

datatype 'a cell = PrevOf 'a | NextOf 'a

fun load_cell :: "('a, 'k) rlheap \<Rightarrow> 'a cell \<Rightarrow> 'a" where
  "load_cell h (PrevOf x) = prv h x"
| "load_cell h (NextOf x) = nxt h x"

fun store_cell :: "('a, 'k) rlheap \<Rightarrow> 'a cell \<Rightarrow> 'a \<Rightarrow> ('a, 'k) rlheap" where
  "store_cell h (PrevOf x) v = h\<lparr>prv := (prv h)(x := v)\<rparr>"
| "store_cell h (NextOf x) v = h\<lparr>nxt := (nxt h)(x := v)\<rparr>"

definition rlnode_swap :: "('a, 'k) rlheap \<Rightarrow> 'a cell \<Rightarrow> 'a cell \<Rightarrow> ('a, 'k) rlheap" where
  "rlnode_swap h p q =
     (let temp = load_cell h p;
          h1 = store_cell h p (load_cell h q)
      in store_cell h1 q temp)"

text \<open>\<open>rl_splice\<close> returns its second argument, so the model returns the store only.\<close>

definition rl_splice :: "('a, 'k) rlheap \<Rightarrow> 'a \<Rightarrow> 'a \<Rightarrow> ('a, 'k) rlheap" where
  "rl_splice h a b =
     (let h1 = rlnode_swap h (PrevOf (nxt h a)) (PrevOf (nxt h b))
      in rlnode_swap h1 (NextOf a) (NextOf b))"

definition rlist_remove :: "('a, 'k) rlheap \<Rightarrow> 'a \<Rightarrow> ('a, 'k) rlheap" where
  "rlist_remove h a = rl_splice h a (prv h a)"

definition is_rlist_empty :: "('a, 'k) rlheap \<Rightarrow> 'a \<Rightarrow> bool" where
  "is_rlist_empty h a \<longleftrightarrow> a = nxt h a"

definition rlist_push_front :: "('a, 'k) rlheap \<Rightarrow> 'a \<Rightarrow> 'a \<Rightarrow> ('a, 'k) rlheap" where
  "rlist_push_front h l n = rl_splice h l n"

definition rlist_push_back :: "('a, 'k) rlheap \<Rightarrow> 'a \<Rightarrow> 'a \<Rightarrow> ('a, 'k) rlheap" where
  "rlist_push_back h l n = rl_splice h (prv h l) n"

text \<open>The two pops return the node they unlink, the second argument of their splice.\<close>

definition rlist_pop_front :: "('a, 'k) rlheap \<Rightarrow> 'a \<Rightarrow> ('a, 'k) rlheap \<times> 'a" where
  "rlist_pop_front h l = (rl_splice h l (nxt h l), nxt h l)"

definition rlist_pop_back :: "('a, 'k) rlheap \<Rightarrow> 'a \<Rightarrow> ('a, 'k) rlheap \<times> 'a" where
  "rlist_pop_back h l = (rl_splice h l (prv h l), prv h l)"

partial_function (option) rlist_len_loop ::
    "('a, 'k) rlheap \<Rightarrow> 'a \<Rightarrow> 'a \<Rightarrow> u16 \<Rightarrow> u16 option" where
  "rlist_len_loop h l p count =
     (if p \<noteq> l then rlist_len_loop h l (nxt h p) (count + 1) else Some count)"

definition rlist_len :: "('a, 'k) rlheap \<Rightarrow> 'a \<Rightarrow> u16 option" where
  "rlist_len h l = rlist_len_loop h l (nxt h l) 0"

partial_function (option) rlist_equal_loop ::
    "('a, 'k) rlheap \<Rightarrow> 'a \<Rightarrow> 'a \<Rightarrow> 'a \<Rightarrow> 'a \<Rightarrow> bool option" where
  "rlist_equal_loop h l1 l2 i1 i2 =
     (if i1 \<noteq> l1 then
        (if i2 = l2 \<or> key h i1 \<noteq> key h i2 then Some False
         else rlist_equal_loop h l1 l2 (nxt h i1) (nxt h i2))
      else Some (i2 = l2))"

definition rlist_equal :: "('a, 'k) rlheap \<Rightarrow> 'a \<Rightarrow> 'a \<Rightarrow> bool option" where
  "rlist_equal h l1 l2 = rlist_equal_loop h l1 l2 (nxt h l1) (nxt h l2)"

definition rlist_append :: "('a, 'k) rlheap \<Rightarrow> 'a \<Rightarrow> 'a \<Rightarrow> ('a, 'k) rlheap" where
  "rlist_append h ldest lsrc = rlist_remove (rlist_push_back h ldest lsrc) lsrc"

definition rlist_prepend :: "('a, 'k) rlheap \<Rightarrow> 'a \<Rightarrow> 'a \<Rightarrow> ('a, 'k) rlheap" where
  "rlist_prepend h ldest lsrc = rlist_remove (rlist_push_front h ldest lsrc) lsrc"

text \<open>The \<open>do \<dots> while\<close> of \<open>rlist_reverse\<close>: one pass of the body from \<open>p\<close>,
  then again while \<open>p\<close> has not come back to \<open>l\<close>.\<close>

partial_function (option) rlist_reverse_loop ::
    "('a, 'k) rlheap \<Rightarrow> 'a \<Rightarrow> 'a \<Rightarrow> ('a, 'k) rlheap option" where
  "rlist_reverse_loop h l p =
     (let h' = rlnode_swap h (PrevOf p) (NextOf p); p' = nxt h' p
      in if p' \<noteq> l then rlist_reverse_loop h' l p' else Some h')"

definition rlist_reverse :: "('a, 'k) rlheap \<Rightarrow> 'a \<Rightarrow> ('a, 'k) rlheap option" where
  "rlist_reverse h l = rlist_reverse_loop h l l"

text \<open>The node pointer \<open>fail\<close> may be NULL, hence the inner option.\<close>

partial_function (option) rlist_find_loop ::
    "('a, 'k) rlheap \<Rightarrow> 'a \<Rightarrow> 'k \<Rightarrow> 'a option \<Rightarrow> 'a \<Rightarrow> 'a option option" where
  "rlist_find_loop h l k fail i =
     (if i \<noteq> l then (if key h i = k then Some (Some i) else rlist_find_loop h l k fail (nxt h i))
      else Some fail)"

definition rlist_find :: "('a, 'k) rlheap \<Rightarrow> 'a \<Rightarrow> 'k \<Rightarrow> 'a option \<Rightarrow> 'a option option" where
  "rlist_find h l k fail = rlist_find_loop h l k fail (nxt h l)"

partial_function (option) rlist_select_loop ::
    "('a, 'k) rlheap \<Rightarrow> 'a \<Rightarrow> 'a \<Rightarrow> ('a \<Rightarrow> bool) \<Rightarrow> 'a \<Rightarrow> ('a, 'k) rlheap option" where
  "rlist_select_loop h lsrc ldest pred i =
     (if nxt h i \<noteq> lsrc then
        (if pred (nxt h i) then
           (let p = nxt h i; h1 = rlist_remove h p
            in rlist_select_loop (rlist_push_back h1 ldest p) lsrc ldest pred i)
         else rlist_select_loop h lsrc ldest pred (nxt h i))
      else Some h)"

definition rlist_select ::
    "('a, 'k) rlheap \<Rightarrow> 'a \<Rightarrow> 'a \<Rightarrow> ('a \<Rightarrow> bool) \<Rightarrow> ('a, 'k) rlheap option" where
  "rlist_select h lsrc ldest pred = rlist_select_loop h lsrc ldest pred lsrc"

section \<open>What the primitive operations do to the fields\<close>

lemma nxt_rl_splice [simp]: "nxt (rl_splice h a b) = (nxt h)(a := nxt h b, b := nxt h a)"
  by (simp add: rl_splice_def rlnode_swap_def Let_def)

lemma prv_rl_splice [simp]:
  "prv (rl_splice h a b) = (prv h)(nxt h a := prv h (nxt h b), nxt h b := prv h (nxt h a))"
  by (simp add: rl_splice_def rlnode_swap_def Let_def)

lemma key_rl_splice [simp]: "key (rl_splice h a b) = key h"
  by (simp add: rl_splice_def rlnode_swap_def Let_def)

lemma rl_splice_self [simp]: "rl_splice h a a = h"
  by (rule rlheap.equality) auto

lemma rlnode_init_fields [simp]:
  "nxt (rlnode_init h p k) = (nxt h)(p := p)"
  "prv (rlnode_init h p k) = (prv h)(p := p)"
  "key (rlnode_init h p k) = (key h)(p := k)"
  by (simp_all add: rlnode_init_def rlnode_new_def Let_def)

lemma key_list_ops [simp]:
  "key (rlist_remove h a) = key h"
  "key (rlist_push_front h l n) = key h"
  "key (rlist_push_back h l n) = key h"
  "key (fst (rlist_pop_front h l)) = key h"
  "key (fst (rlist_pop_back h l)) = key h"
  by (simp_all add: rlist_remove_def rlist_push_front_def rlist_push_back_def
      rlist_pop_front_def rlist_pop_back_def)

section \<open>Rings\<close>

text \<open>\<open>linked h xs\<close>: each node of \<open>xs\<close> but the last points to the following one, and back.\<close>

fun linked :: "('a, 'k) rlheap \<Rightarrow> 'a list \<Rightarrow> bool" where
  "linked h (x # y # zs) \<longleftrightarrow> nxt h x = y \<and> prv h y = x \<and> linked h (y # zs)"
| "linked h _ \<longleftrightarrow> True"

fun ring :: "('a, 'k) rlheap \<Rightarrow> 'a list \<Rightarrow> bool" where
  "ring h [] \<longleftrightarrow> False"
| "ring h (x # xs) \<longleftrightarrow> distinct (x # xs) \<and> linked h (x # xs @ [x])"

declare ring.simps(2) [simp del]

definition rlist :: "('a, 'k) rlheap \<Rightarrow> 'a \<Rightarrow> 'a list \<Rightarrow> bool" where
  "rlist h l xs \<longleftrightarrow> ring h (l # xs)"

lemma linked_Cons:
  "ys \<noteq> [] \<Longrightarrow> linked h (x # ys) \<longleftrightarrow> nxt h x = hd ys \<and> prv h (hd ys) = x \<and> linked h ys"
  by (cases ys) auto

lemma linked_append:
  "linked h (xs @ y # zs) \<longleftrightarrow> linked h (xs @ [y]) \<and> linked h (y # zs)"
proof (induction xs)
  case (Cons x xs)
  then show ?case by (cases xs) (auto simp: linked_Cons)
qed simp

lemma linked_cong:
  assumes "\<And>x. x \<in> set (butlast xs) \<Longrightarrow> nxt h' x = nxt h x"
    and "\<And>x. x \<in> set (tl xs) \<Longrightarrow> prv h' x = prv h x"
  shows "linked h' xs = linked h xs"
  using assms
proof (induction h xs rule: linked.induct)
  case (1 h x y zs)
  then show ?case by (cases zs) auto
qed auto

lemma linked_mem_nxt: "linked h (xs @ [z]) \<Longrightarrow> x \<in> set xs \<Longrightarrow> nxt h x \<in> set (xs @ [z])"
proof (induction xs)
  case (Cons y ys)
  then show ?case by (cases ys) auto
qed simp

lemma ring_Cons:
  "ring h (a # xs) \<longleftrightarrow> distinct (a # xs) \<and> nxt h a = hd (xs @ [a]) \<and> prv h (hd (xs @ [a])) = a
     \<and> linked h (xs @ [a])"
  by (simp add: ring.simps(2) linked_Cons)

text \<open>The ring of two marked nodes \<open>a\<close> and \<open>b\<close>, cut into its two arcs.\<close>

lemma ring_two:
  "ring h (a # xs @ b # ys) \<longleftrightarrow> distinct (a # xs @ b # ys)
     \<and> nxt h a = hd (xs @ [b]) \<and> prv h (hd (xs @ [b])) = a \<and> linked h (xs @ [b])
     \<and> nxt h b = hd (ys @ [a]) \<and> prv h (hd (ys @ [a])) = b \<and> linked h (ys @ [a])"
proof -
  have "linked h (a # xs @ b # ys @ [a])
        \<longleftrightarrow> linked h (a # xs @ [b]) \<and> linked h (b # ys @ [a])"
    using linked_append [of h "a # xs" b "ys @ [a]"] by simp
  then show ?thesis
    by (auto simp: ring.simps(2) linked_Cons)
qed

lemma ring_distinct [ring_facts]: "ring h xs \<Longrightarrow> distinct xs"
  by (cases xs) (auto simp: ring.simps(2))

lemma ring_nonempty [ring_facts]: "ring h xs \<Longrightarrow> xs \<noteq> []"
  by auto

text \<open>The starting point of a ring does not matter.\<close>

lemma ring_rotate: "ring h (xs @ ys) \<longleftrightarrow> ring h (ys @ xs)"
proof (cases "xs = [] \<or> ys = []")
  case False
  then obtain a xs' b ys' where "xs = a # xs'" "ys = b # ys'"
    by (auto simp: neq_Nil_conv)
  then show ?thesis
    by (auto simp: ring_two)
qed auto

lemma ring_singleton: "ring h [a] \<longleftrightarrow> nxt h a = a \<and> prv h a = a"
  by (auto simp: ring.simps(2))

lemma ring_rlnode_init [ring_facts]: "ring (rlnode_init h p k) [p]"
  by (simp add: ring_singleton)

text \<open>A ring depends on the fields of its own nodes only.\<close>

lemma ring_cong:
  assumes "\<And>x. x \<in> set xs \<Longrightarrow> nxt h' x = nxt h x" and "\<And>x. x \<in> set xs \<Longrightarrow> prv h' x = prv h x"
  shows "ring h' xs = ring h xs"
proof (cases xs)
  case (Cons a ys)
  have "linked h' (a # ys @ [a]) = linked h (a # ys @ [a])"
  proof (rule linked_cong)
    fix x assume "x \<in> set (butlast (a # ys @ [a]))"
    then have "x \<in> set (butlast ((a # ys) @ [a]))" by simp
    then have "x \<in> set xs" unfolding Cons butlast_snoc by simp
    then show "nxt h' x = nxt h x" by (rule assms)
  next
    fix x assume "x \<in> set (tl (a # ys @ [a]))"
    then show "prv h' x = prv h x" using assms Cons by auto
  qed
  then show ?thesis by (simp add: Cons ring.simps(2))
qed simp

lemma ring_from:
  assumes "ring h xs" and "x \<in> set xs"
  obtains ys where "ring h (x # ys)" and "set xs = insert x (set ys)"
proof -
  from assms(2) obtain us zs where xs: "xs = us @ x # zs" by (auto simp: in_set_conv_decomp)
  have "ring h (x # zs @ us)" using assms(1) xs ring_rotate [of h us "x # zs"] by simp
  then show thesis by (rule that) (auto simp: xs)
qed

lemma ring_prv_last: "ring h (l # xs @ [z]) \<Longrightarrow> prv h l = z"
  using ring_two [of h l xs z "[]"] by simp

lemma ring_nxt_mem:
  assumes "ring h xs" and "x \<in> set xs"
  shows "nxt h x \<in> set xs"
proof -
  from assms obtain ys where "ring h (x # ys)" and S: "set xs = insert x (set ys)"
    by (rule ring_from)
  then have "nxt h x = hd (ys @ [x])" by (simp add: ring_Cons)
  then show ?thesis by (cases ys) (auto simp: S)
qed

lemma ring_prv_nxt: "ring h xs \<Longrightarrow> x \<in> set xs \<Longrightarrow> prv h (nxt h x) = x"
  by (erule ring_from) (auto simp: ring_Cons)

lemma ring_prv_mem:
  assumes "ring h xs" and "x \<in> set xs"
  shows "prv h x \<in> set xs"
proof -
  from assms obtain ys where r: "ring h (x # ys)" and S: "set xs = insert x (set ys)"
    by (rule ring_from)
  show ?thesis
  proof (cases ys rule: rev_cases)
    case Nil
    with r S show ?thesis by (simp add: ring_singleton)
  next
    case (snoc us z)
    with r S show ?thesis by (auto dest: ring_prv_last)
  qed
qed

section \<open>Splicing\<close>

text \<open>An arc that starts behind the two swapped pointers stays linked.\<close>

lemma linked_rl_splice:
  assumes "a \<notin> set xs" "b \<notin> set xs" "nxt h a \<notin> set (tl (xs @ [c]))" "nxt h b \<notin> set (tl (xs @ [c]))"
  shows "linked (rl_splice h a b) (xs @ [c]) = linked h (xs @ [c])"
  by (rule linked_cong) (use assms in auto)

lemma hd_snoc_notin_tl:
  "distinct (xs @ a # ys @ [b]) \<Longrightarrow> hd (xs @ [a]) \<notin> set (tl (xs @ [a])) \<and> hd (xs @ [a]) \<notin> set (tl (ys @ [b]))
     \<and> hd (ys @ [b]) \<notin> set (tl (xs @ [a])) \<and> hd (ys @ [b]) \<notin> set (tl (ys @ [b]))"
  by (cases xs; cases ys) auto

text \<open>Splicing nodes of two rings joins the rings: \<open>[a, x\<dots>] [b, y\<dots>] ==> [a, y\<dots>, b, x\<dots>]\<close>.\<close>

lemma splice_joins [ring_facts]:
  assumes a: "ring h (a # xs)" and b: "ring h (b # ys)" and dis: "set (a # xs) \<inter> set (b # ys) = {}"
  shows "ring (rl_splice h a b) (a # ys @ b # xs)"
proof -
  let ?h = "rl_splice h a b"
  note A = a [unfolded ring_Cons] and B = b [unfolded ring_Cons]
  from A B dis have d: "distinct (a # ys @ b # xs)" by auto
  have "distinct (xs @ a # ys @ [b])" using d by auto
  note H = hd_snoc_notin_tl [OF this]
  have "linked ?h (ys @ [b])" "linked ?h (xs @ [a])"
    using A B d H by (simp_all add: linked_rl_splice)
  moreover have "hd (xs @ [a]) \<noteq> hd (ys @ [b])"
    using d by (cases xs; cases ys) auto
  ultimately show ?thesis
    using A B d unfolding ring_two by auto
qed

text \<open>Splicing two nodes of one ring splits it: \<open>[a, x\<dots>, b, y\<dots>] ==> [a, y\<dots>] [b, x\<dots>]\<close>.\<close>

lemma splice_splits [ring_facts]:
  assumes r: "ring h (a # xs @ b # ys)"
  shows "ring (rl_splice h a b) (a # ys) \<and> ring (rl_splice h a b) (b # xs)"
proof -
  let ?h = "rl_splice h a b"
  note R = r [unfolded ring_two]
  then have d: "distinct (a # xs @ b # ys)" by simp
  have "distinct (xs @ b # ys @ [a])" using d by auto
  note H = hd_snoc_notin_tl [OF this]
  have "linked ?h (ys @ [a])" "linked ?h (xs @ [b])"
    using R d H by (simp_all add: linked_rl_splice)
  moreover have "hd (xs @ [b]) \<noteq> hd (ys @ [a])"
    using d by (cases xs; cases ys) auto
  ultimately show ?thesis
    using R d unfolding ring_Cons by auto
qed

text \<open>A ring that holds neither of the spliced nodes is left alone.\<close>

lemma splice_frame:
  assumes z: "ring h zs" and r: "ring h as" "ring h bs" and mem: "a \<in> set as" "b \<in> set bs"
    and dis: "set zs \<inter> set as = {}" "set zs \<inter> set bs = {}"
  shows "ring (rl_splice h a b) zs"
proof -
  have n: "nxt h a \<in> set as" "nxt h b \<in> set bs"
    using r mem by (auto intro: ring_nxt_mem)
  have "ring (rl_splice h a b) zs = ring h zs"
    by (rule ring_cong) (use mem n dis in auto)
  with z show ?thesis by simp
qed

text \<open>Splicing twice restores the store.\<close>

lemma splice_involution:
  assumes "ring h as" "ring h bs" "a \<in> set as" "b \<in> set bs"
  shows "rl_splice (rl_splice h a b) a b = h"
proof -
  have p: "prv h (nxt h a) = a" "prv h (nxt h b) = b"
    by (rule ring_prv_nxt; fact)+
  have "prv (rl_splice (rl_splice h a b) a b) x = prv h x" for x
  proof (cases "a = b")
    case False
    with p have "nxt h a \<noteq> nxt h b" by metis
    with p show ?thesis by simp
  qed simp
  then show ?thesis by (intro rlheap.equality) (auto simp: fun_eq_iff)
qed

section \<open>The list operations\<close>

text \<open>
  What each operation does to the list of its sentinel. The node that is pushed is a singleton
  ring, as \<open>rlnode_init\<close> and the pops leave it. The frame lemmas say that every other ring
  is left alone.
\<close>

lemma rlist_rlnode_init [ring_facts]: "rlist (rlnode_init h l k) l []"
  by (simp add: rlist_def ring_rlnode_init)

lemma ring_rlnode_init_frame:
  "ring h zs \<Longrightarrow> p \<notin> set zs \<Longrightarrow> ring (rlnode_init h p k) zs"
  by (subst ring_cong [of zs _ h]) auto

lemma is_rlist_empty_iff [ring_facts]: "rlist h l xs \<Longrightarrow> is_rlist_empty h l \<longleftrightarrow> xs = []"
  by (cases xs) (auto simp: rlist_def is_rlist_empty_def ring_Cons)

lemma rlist_distinct [ring_facts]: "rlist h l xs \<Longrightarrow> distinct (l # xs)"
  unfolding rlist_def by (rule ring_distinct)

lemma rlist_nxt: "rlist h l xs \<Longrightarrow> nxt h l = hd (xs @ [l])"
  by (simp add: rlist_def ring_Cons)

lemma rlist_push_front [ring_facts]:
  assumes "rlist h l xs" "ring h [n]" "n \<noteq> l" "n \<notin> set xs"
  shows "rlist (rlist_push_front h l n) l (n # xs)"
  using splice_joins [of h l xs n "[]"] assms by (simp add: rlist_def rlist_push_front_def)

text \<open>Pushing a whole ring \<open>[n, y\<dots>]\<close> at the back of a list.\<close>

lemma push_back_ring:
  assumes l: "rlist h l xs" and n: "ring h (n # ys)" and dis: "set (l # xs) \<inter> set (n # ys) = {}"
  shows "rlist (rlist_push_back h l n) l (xs @ ys @ [n])"
proof (cases xs rule: rev_cases)
  case Nil
  with l have "prv h l = l" by (simp add: rlist_def ring_singleton)
  with splice_joins [of h l "[]" n ys] l n dis Nil show ?thesis
    by (simp add: rlist_def rlist_push_back_def)
next
  case (snoc us z)
  with l have r: "ring h (l # us @ [z])" by (simp add: rlist_def)
  then have "prv h l = z" by (rule ring_prv_last)
  moreover have "ring h (z # l # us)"
    using r ring_rotate [of h "[z]" "l # us"] by simp
  then have "ring (rl_splice h z n) (z # ys @ n # l # us)"
    using splice_joins [of h z "l # us" n ys] n dis snoc by auto
  then have "ring (rl_splice h z n) ((l # us) @ z # ys @ [n])"
    using ring_rotate [of "rl_splice h z n" "z # ys @ [n]" "l # us"] by simp
  ultimately show ?thesis
    by (simp add: rlist_def rlist_push_back_def snoc)
qed

lemma rlist_push_back [ring_facts]:
  assumes "rlist h l xs" "ring h [n]" "n \<noteq> l" "n \<notin> set xs"
  shows "rlist (rlist_push_back h l n) l (xs @ [n])"
  using push_back_ring [of h l xs n "[]"] assms by auto

lemma rlist_pop_front [ring_facts]:
  assumes "rlist h l (x # xs)"
  shows "rlist (fst (rlist_pop_front h l)) l xs" "ring (fst (rlist_pop_front h l)) [x]"
    and "snd (rlist_pop_front h l) = x"
  using assms splice_splits [of h l "[]" x xs] rlist_nxt [OF assms]
  by (simp_all add: rlist_def rlist_pop_front_def)

text \<open>Popping an empty list returns the sentinel and changes nothing.\<close>

lemma rlist_pop_front_empty:
  assumes "rlist h l []"
  shows "rlist_pop_front h l = (h, l)"
proof -
  from assms have "nxt h l = l" by (simp add: rlist_def ring_singleton)
  then show ?thesis by (simp add: rlist_pop_front_def)
qed

lemma rlist_remove_ring [ring_facts]:
  assumes r: "ring h (xs @ a # ys)"
  shows "ring (rlist_remove h a) [a]" and "xs @ ys \<noteq> [] \<Longrightarrow> ring (rlist_remove h a) (xs @ ys)"
proof -
  from r have ra: "ring h (a # ys @ xs)" using ring_rotate [of h xs "a # ys"] by simp
  have "ring (rlist_remove h a) [a] \<and> (xs @ ys \<noteq> [] \<longrightarrow> ring (rlist_remove h a) (xs @ ys))"
  proof (cases "ys @ xs" rule: rev_cases)
    case Nil
    with ra have "prv h a = a" by (simp add: ring_singleton)
    with Nil ra show ?thesis by (simp add: rlist_remove_def)
  next
    case (snoc us z)
    with ra have "ring h (a # us @ [z])" by simp
    then have "prv h a = z" "ring (rl_splice h a z) [a] \<and> ring (rl_splice h a z) (z # us)"
      using ring_prv_last splice_splits [of h a us z "[]"] by auto
    moreover from this have "ring (rl_splice h a z) (xs @ ys)"
      using ring_rotate [of "rl_splice h a z" "[z]" us] ring_rotate [of "rl_splice h a z" xs ys] snoc by simp
    ultimately show ?thesis by (simp add: rlist_remove_def)
  qed
  then show "ring (rlist_remove h a) [a]" and "xs @ ys \<noteq> [] \<Longrightarrow> ring (rlist_remove h a) (xs @ ys)"
    by auto
qed

lemma rlist_remove_node [ring_facts]:
  assumes "rlist h l (xs @ a # ys)"
  shows "rlist (rlist_remove h a) l (xs @ ys)" and "ring (rlist_remove h a) [a]"
  using rlist_remove_ring [of h "l # xs" a ys] assms by (simp_all add: rlist_def)

text \<open>
  \<open>rlist_pop_back\<close> splices the sentinel with its predecessor, which is what
  \<open>rlist_remove\<close> does to the sentinel: it is the sentinel that leaves the ring.
\<close>

lemma rlist_pop_back_effect:
  assumes "rlist h l (xs @ [x])"
  shows "rlist (fst (rlist_pop_back h l)) l []"
    and "ring (fst (rlist_pop_back h l)) (x # xs)"
    and "snd (rlist_pop_back h l) = x"
proof -
  from assms have r: "ring h (l # xs @ [x])" by (simp add: rlist_def)
  then have p: "prv h l = x" by (rule ring_prv_last)
  have "ring (rl_splice h l x) [l] \<and> ring (rl_splice h l x) (x # xs)"
    using splice_splits [of h l xs x "[]"] r by simp
  then show "rlist (fst (rlist_pop_back h l)) l []" "ring (fst (rlist_pop_back h l)) (x # xs)"
    by (simp_all add: rlist_pop_back_def rlist_def p)
  show "snd (rlist_pop_back h l) = x" by (simp add: rlist_pop_back_def p)
qed

text \<open>Inserting a singleton node right before the node \<open>n\<close> (or the sentinel), as the
  timeout list does with \<open>rl_splice(n->prev, x)\<close>.\<close>

lemma rlist_insert_before [ring_facts]:
  assumes r: "rlist h l (xs @ ys)" and s: "ring h [a]" and new: "a \<noteq> l" "a \<notin> set (xs @ ys)"
    and n: "n = hd (ys @ [l])"
  shows "rlist (rl_splice h (prv h n) a) l (xs @ a # ys)"
proof (cases "xs = []")
  case True
  from r True have "prv h n = l"
    by (simp add: rlist_def ring_Cons n)
  with splice_joins [of h l ys a "[]"] r s new True show ?thesis by (simp add: rlist_def)
next
  case False
  then obtain us z where xs: "xs = us @ [z]" by (cases xs rule: rev_cases) auto
  have rz: "ring h (z # ys @ l # us)"
    using r ring_rotate [of h "l # us" "z # ys"] by (simp add: rlist_def xs)
  then have "prv h n = z"
    unfolding n by (cases ys) (auto simp: ring.simps(2))
  moreover have "ring (rl_splice h z a) (z # a # ys @ l # us)"
    using splice_joins [of h z "ys @ l # us" a "[]"] rz s new xs by auto
  ultimately show ?thesis
    using ring_rotate [of "rl_splice h z a" "z # a # ys" "l # us"] by (simp add: rlist_def xs)
qed

section \<open>Frames\<close>

lemma push_back_frame:
  assumes "rlist h l xs" "ring h (n # ys)" "ring h zs" "set zs \<inter> set (l # xs) = {}"
    "set zs \<inter> set (n # ys) = {}"
  shows "ring (rlist_push_back h l n) zs"
proof -
  have "ring h (l # xs)" using assms by (simp add: rlist_def)
  moreover from this have "prv h l \<in> set (l # xs)" by (rule ring_prv_mem) simp
  ultimately show ?thesis
    unfolding rlist_push_back_def using assms by (intro splice_frame [of h zs "l # xs" "n # ys"]) auto
qed

lemma push_front_frame:
  assumes "rlist h l xs" "ring h (n # ys)" "ring h zs" "set zs \<inter> set (l # xs) = {}"
    "set zs \<inter> set (n # ys) = {}"
  shows "ring (rlist_push_front h l n) zs"
  unfolding rlist_push_front_def
  using assms by (intro splice_frame [of h zs "l # xs" "n # ys"]) (auto simp: rlist_def)

lemma pop_front_frame:
  assumes "rlist h l xs" "ring h zs" "set zs \<inter> set (l # xs) = {}"
  shows "ring (fst (rlist_pop_front h l)) zs"
proof -
  have r: "ring h (l # xs)" using assms by (simp add: rlist_def)
  then have "nxt h l \<in> set (l # xs)" by (rule ring_nxt_mem) simp
  with r assms show ?thesis
    unfolding rlist_pop_front_def fst_conv
    by (intro splice_frame [of h zs "l # xs" "l # xs"]) auto
qed

lemma remove_frame:
  assumes "ring h xs" "a \<in> set xs" "ring h zs" "set zs \<inter> set xs = {}"
  shows "ring (rlist_remove h a) zs"
  unfolding rlist_remove_def
  using assms ring_prv_mem [OF assms(1,2)] by (intro splice_frame [of h zs xs xs]) auto

lemma insert_before_frame:
  assumes "rlist h l xs" "n \<in> set (l # xs)" "ring h [a]" "ring h zs" "set zs \<inter> set (l # xs) = {}" "a \<notin> set zs"
  shows "ring (rl_splice h (prv h n) a) zs"
proof -
  have r: "ring h (l # xs)" using assms by (simp add: rlist_def)
  then have "prv h n \<in> set (l # xs)" using assms(2) by (rule ring_prv_mem)
  with r assms show ?thesis by (intro splice_frame [of h zs "l # xs" "[a]"]) auto
qed

section \<open>The loops\<close>

lemma rlist_nxt_node:
  "rlist h l (us @ v # vs) \<Longrightarrow> nxt h v = hd (vs @ [l])" "rlist h l (us @ v # vs) \<Longrightarrow> v \<noteq> l"
  by (auto simp: rlist_def ring_two)

text \<open>The counter of \<open>rlist_len\<close> is an \<open>unsigned int\<close>: it wraps at \<open>2^16\<close>.\<close>

lemma rlist_len_loop_eq:
  "rlist h l (us @ vs) \<Longrightarrow> rlist_len_loop h l (hd (vs @ [l])) c = Some (c + of_nat (length vs))"
proof (induction vs arbitrary: us c)
  case Nil
  show ?case by (simp add: rlist_len_loop.simps)
next
  case (Cons v vs)
  have "rlist h l ((us @ [v]) @ vs)" using Cons.prems by simp
  from Cons.IH [OF this] show ?case
    using rlist_nxt_node [OF Cons.prems] by (simp add: rlist_len_loop.simps)
qed

lemma rlist_len_eq: "rlist h l xs \<Longrightarrow> rlist_len h l = Some (of_nat (length xs))"
  using rlist_len_loop_eq [of h l "[]" xs 0] by (simp add: rlist_len_def rlist_nxt)

lemma rlist_equal_loop_eq:
  "rlist h l1 (us @ xs) \<Longrightarrow> rlist h l2 (vs @ ys) \<Longrightarrow>
   rlist_equal_loop h l1 l2 (hd (xs @ [l1])) (hd (ys @ [l2])) = Some (map (key h) xs = map (key h) ys)"
proof (induction xs arbitrary: us vs ys)
  case Nil
  then show ?case
    by (cases ys) (auto simp: rlist_equal_loop.simps dest: rlist_nxt_node(2))
next
  case (Cons x xs)
  note X = rlist_nxt_node [OF Cons.prems(1)]
  show ?case
  proof (cases ys)
    case Nil
    with X show ?thesis by (simp add: rlist_equal_loop.simps)
  next
    case (Cons y ys')
    note Y = rlist_nxt_node [OF Cons.prems(2) [unfolded Cons]]
    have "rlist_equal_loop h l1 l2 (hd (xs @ [l1])) (hd (ys' @ [l2])) = Some (map (key h) xs = map (key h) ys')"
      using Cons.prems Cons.IH [of "us @ [x]" "vs @ [y]" ys'] Cons by simp
    with X Y Cons show ?thesis by (subst rlist_equal_loop.simps) auto
  qed
qed

lemma rlist_equal_eq:
  "rlist h l1 xs \<Longrightarrow> rlist h l2 ys \<Longrightarrow> rlist_equal h l1 l2 = Some (map (key h) xs = map (key h) ys)"
  using rlist_equal_loop_eq [of h l1 "[]" xs l2 "[]" ys] by (simp add: rlist_equal_def rlist_nxt)

lemma rlist_find_loop_eq:
  "rlist h l (us @ vs) \<Longrightarrow> rlist_find_loop h l k fail (hd (vs @ [l]))
     = Some (case find (\<lambda>x. key h x = k) vs of None \<Rightarrow> fail | Some x \<Rightarrow> Some x)"
proof (induction vs arbitrary: us)
  case Nil
  show ?case by (simp add: rlist_find_loop.simps)
next
  case (Cons v vs)
  have "rlist h l ((us @ [v]) @ vs)" using Cons.prems by simp
  from Cons.IH [OF this] show ?case
    using rlist_nxt_node [OF Cons.prems] by (subst rlist_find_loop.simps) auto
qed

lemma rlist_find_eq:
  "rlist h l xs \<Longrightarrow> rlist_find h l k fail
     = Some (case find (\<lambda>x. key h x = k) xs of None \<Rightarrow> fail | Some x \<Rightarrow> Some x)"
  using rlist_find_loop_eq [of h l "[]" xs] by (simp add: rlist_find_def rlist_nxt)

section \<open>Joining lists\<close>

lemma rlist_append_eq:
  assumes "rlist h d xs" "rlist h s ys" "set (d # xs) \<inter> set (s # ys) = {}"
  shows "rlist (rlist_append h d s) d (xs @ ys)" "rlist (rlist_append h d s) s []"
proof -
  have "rlist (rlist_push_back h d s) d ((xs @ ys) @ s # [])"
    using push_back_ring [of h d xs s ys] assms by (simp add: rlist_def)
  from rlist_remove_node [OF this] show "rlist (rlist_append h d s) d (xs @ ys)"
    and "rlist (rlist_append h d s) s []"
    by (simp_all add: rlist_append_def rlist_def)
qed

lemma rlist_prepend_eq:
  assumes "rlist h d xs" "rlist h s ys" "set (d # xs) \<inter> set (s # ys) = {}"
  shows "rlist (rlist_prepend h d s) d (ys @ xs)" "rlist (rlist_prepend h d s) s []"
proof -
  have "rlist (rlist_push_front h d s) d (ys @ s # xs)"
    using splice_joins [of h d xs s ys] assms by (simp add: rlist_def rlist_push_front_def)
  from rlist_remove_node [OF this] show "rlist (rlist_prepend h d s) d (ys @ xs)"
    and "rlist (rlist_prepend h d s) s []"
    by (simp_all add: rlist_prepend_def rlist_def)
qed

section \<open>Reversal\<close>

text \<open>The store in which the two pointers of the nodes of \<open>S\<close> are exchanged.\<close>

definition swapped :: "('a, 'k) rlheap \<Rightarrow> 'a set \<Rightarrow> ('a, 'k) rlheap" where
  "swapped h S = h\<lparr>nxt := (\<lambda>x. if x \<in> S then prv h x else nxt h x),
                  prv := (\<lambda>x. if x \<in> S then nxt h x else prv h x)\<rparr>"

lemma swapped_fields [simp]:
  "nxt (swapped h S) x = (if x \<in> S then prv h x else nxt h x)"
  "prv (swapped h S) x = (if x \<in> S then nxt h x else prv h x)"
  by (simp_all add: swapped_def)

lemma rlnode_swap_swapped:
  "p \<notin> S \<Longrightarrow> rlnode_swap (swapped h S) (PrevOf p) (NextOf p) = swapped h (insert p S)"
  by (auto simp: rlnode_swap_def swapped_def Let_def fun_eq_iff)

lemma linked_swapped: "linked h xs \<Longrightarrow> set xs \<subseteq> S \<Longrightarrow> linked (swapped h S) (rev xs)"
proof (induction h xs rule: linked.induct)
  case (1 h x y zs)
  then show ?case using linked_append [of "swapped h S" "rev zs" y "[x]"] by simp
qed auto

lemma rlist_reverse_loop_eq:
  "rlist h l (us @ p # vs) \<Longrightarrow>
   rlist_reverse_loop (swapped h (insert l (set vs))) l p = Some (swapped h (set (l # us @ p # vs)))"
proof (induction us arbitrary: p vs rule: rev_induct)
  case Nil
  then have "prv h p = l" "p \<notin> insert l (set vs)"
    by (auto simp: rlist_def ring_Cons)
  then show ?case
    by (subst rlist_reverse_loop.simps) (simp add: rlnode_swap_swapped insert_commute)
next
  case (snoc q us)
  have "rlist h l (us @ q # p # vs)" using snoc.prems by simp
  note IH = snoc.IH [OF this]
  have qp: "p \<notin> insert l (set vs)" "q \<noteq> l"
    using snoc.prems by (auto simp: rlist_def ring_Cons)
  have "linked h ((l # us) @ q # p # vs @ [l])"
    using snoc.prems by (simp add: rlist_def ring.simps(2))
  then have "linked h (q # p # vs @ [l])"
    using linked_append [of h "l # us" q "p # vs @ [l]"] by simp
  then have "prv h p = q" by simp
  with qp show ?case
    using IH by (subst rlist_reverse_loop.simps) (simp add: rlnode_swap_swapped insert_commute)
qed

lemma rlist_reverse_eq:
  assumes r: "rlist h l xs"
  shows "\<exists>h'. rlist_reverse h l = Some h' \<and> rlist h' l (rev xs)"
proof -
  let ?h = "swapped h (set (l # xs))"
  have base: "rlnode_swap h (PrevOf l) (NextOf l) = swapped h {l}"
    using rlnode_swap_swapped [of l "{}" h] by (simp add: swapped_def)
  have "rlist_reverse h l = Some ?h"
  proof (cases xs rule: rev_cases)
    case Nil
    with r base show ?thesis
      by (simp add: rlist_reverse_def rlist_reverse_loop.simps rlist_def ring_singleton)
  next
    case (snoc us p)
    then have "prv h l = p" "p \<noteq> l"
      using r ring_prv_last [of h l us p] by (auto simp: rlist_def dest: ring_distinct)
    with rlist_reverse_loop_eq [of h l us p "[]"] r snoc base show ?thesis
      unfolding rlist_reverse_def by (subst rlist_reverse_loop.simps) simp
  qed
  moreover have "rlist ?h l (rev xs)"
    using r linked_swapped [of h "l # xs @ [l]" "set (l # xs)"]
    by (auto simp: rlist_def ring.simps(2))
  ultimately show ?thesis by blast
qed

section \<open>Selection\<close>

lemma rlist_move_node:
  assumes s: "rlist h s (us @ v # vs)" and d: "rlist h d ys"
    and dis: "set (s # us @ v # vs) \<inter> set (d # ys) = {}"
  defines "h' \<equiv> rlist_push_back (rlist_remove h v) d v"
  shows "rlist h' s (us @ vs)" and "rlist h' d (ys @ [v])"
proof -
  let ?h = "rlist_remove h v"
  have s1: "rlist ?h s (us @ vs)" and v1: "ring ?h [v]"
    using rlist_remove_node [OF s] by auto
  have d1: "rlist ?h d ys"
    using remove_frame [of h "s # us @ v # vs" v "d # ys"] s d dis by (auto simp: rlist_def)
  have dist: "distinct (s # us @ v # vs)" using s by (rule rlist_distinct)
  show "rlist h' d (ys @ [v])"
    unfolding h'_def using rlist_push_back [OF d1 v1] dis by auto
  have "ring h' (s # us @ vs)"
    unfolding h'_def using s1 dis dist by (intro push_back_frame [OF d1 v1]) (auto simp: rlist_def)
  then show "rlist h' s (us @ vs)" by (simp add: rlist_def)
qed

lemma rlist_select_loop_eq:
  assumes "rlist h s (us @ vs)" "rlist h d ys" "set (s # us @ vs) \<inter> set (d # ys) = {}"
  shows "\<exists>h'. rlist_select_loop h s d pred (last (s # us)) = Some h'
           \<and> rlist h' s (us @ filter (\<lambda>x. \<not> pred x) vs) \<and> rlist h' d (ys @ filter pred vs)"
  using assms
proof (induction vs arbitrary: h us ys)
  case Nil
  have "nxt h (last (s # us)) = s"
    using Nil.prems(1) rlist_nxt_node(1) [of h s "butlast us" "last us" "[]"] rlist_nxt [of h s us]
    by (cases "us = []") auto
  with Nil show ?case by (subst rlist_select_loop.simps) auto
next
  case (Cons v vs)
  have n: "nxt h (last (s # us)) = v"
    using Cons.prems(1) rlist_nxt_node(1) [of h s "butlast us" "last us" "v # vs"]
      rlist_nxt [of h s "us @ v # vs"]
    by (cases us rule: rev_cases) auto
  have vs: "v \<noteq> s" using rlist_nxt_node(2) [OF Cons.prems(1)] .
  show ?case
  proof (cases "pred v")
    case True
    let ?h = "rlist_push_back (rlist_remove h v) d v"
    have "rlist ?h s (us @ vs)" "rlist ?h d (ys @ [v])"
      using rlist_move_node [OF Cons.prems(1,2)] Cons.prems(3) by auto
    moreover have "distinct (s # us @ v # vs)"
      using Cons.prems(1) by (rule rlist_distinct)
    ultimately have "\<exists>h'. rlist_select_loop ?h s d pred (last (s # us)) = Some h'
        \<and> rlist h' s (us @ filter (\<lambda>x. \<not> pred x) vs) \<and> rlist h' d ((ys @ [v]) @ filter pred vs)"
      using Cons.prems(3) by (intro Cons.IH) auto
    with True n vs show ?thesis
      by (subst rlist_select_loop.simps) (simp add: Let_def)
  next
    case False
    have "\<exists>h'. rlist_select_loop h s d pred (last (s # us @ [v])) = Some h'
        \<and> rlist h' s ((us @ [v]) @ filter (\<lambda>x. \<not> pred x) vs) \<and> rlist h' d (ys @ filter pred vs)"
      using Cons.prems by (intro Cons.IH) auto
    with False n vs show ?thesis
      by (subst rlist_select_loop.simps) simp
  qed
qed

lemma rlist_select_eq:
  assumes "rlist h s xs" "rlist h d ys" "set (s # xs) \<inter> set (d # ys) = {}"
  shows "\<exists>h'. rlist_select h s d pred = Some h'
           \<and> rlist h' s (filter (\<lambda>x. \<not> pred x) xs) \<and> rlist h' d (ys @ filter pred xs)"
  using rlist_select_loop_eq [of h s "[]" xs d ys pred] assms by (simp add: rlist_select_def)

section \<open>The interface the kernel uses\<close>

text \<open>
  The contract of an intrusive list, as the clients of \<open>util.h\<close> rely on it: \<open>lst h l xs\<close>
  (the sentinel \<open>l\<close> holds the nodes \<open>xs\<close>), \<open>free h n\<close> (the node \<open>n\<close> is in no list), and what
  initialising, appending and taking the head do to them and to everything else. The clients'
  loops (filling a free list, emptying one queue into another) are proved once from it.
\<close>

locale intrusive_list =
  fixes lst :: "'h \<Rightarrow> 'n \<Rightarrow> 'n list \<Rightarrow> bool"
    and free :: "'h \<Rightarrow> 'n \<Rightarrow> bool"
    and init :: "'h \<Rightarrow> 'n \<Rightarrow> 'k \<Rightarrow> 'h"
    and push :: "'h \<Rightarrow> 'n \<Rightarrow> 'n \<Rightarrow> 'h"
    and pop :: "'h \<Rightarrow> 'n \<Rightarrow> 'h \<times> 'n"
  assumes init_free: "free (init h n k) n"
    and init_lst: "lst h l xs \<Longrightarrow> n \<notin> set (l # xs) \<Longrightarrow> lst (init h n k) l xs"
    and push_lst: "lst h l xs \<Longrightarrow> free h n \<Longrightarrow> n \<notin> set (l # xs) \<Longrightarrow> lst (push h l n) l (xs @ [n])"
    and push_other: "lst h l xs \<Longrightarrow> free h n \<Longrightarrow> lst h l' ys \<Longrightarrow>
      set (l' # ys) \<inter> set (n # l # xs) = {} \<Longrightarrow> lst (push h l n) l' ys"
    and pop_lst: "lst h l (x # xs) \<Longrightarrow> lst (fst (pop h l)) l xs"
    and pop_free: "lst h l (x # xs) \<Longrightarrow> free (fst (pop h l)) x"
    and pop_val: "lst h l (x # xs) \<Longrightarrow> snd (pop h l) = x"
    and pop_other: "lst h l xs \<Longrightarrow> lst h l' ys \<Longrightarrow> set (l' # ys) \<inter> set (l # xs) = {} \<Longrightarrow>
      lst (fst (pop h l)) l' ys"
    and lst_distinct: "lst h l xs \<Longrightarrow> distinct (l # xs)"
begin

text \<open>Initialising and appending nodes one by one leaves them in the order they came.\<close>

lemma fill:
  "lst h l xs \<Longrightarrow> distinct ns \<Longrightarrow> set ns \<inter> set (l # xs) = {} \<Longrightarrow>
   lst (fold (\<lambda>n h. push (init h n (k n)) l n) ns h) l (xs @ ns)"
proof (induction ns arbitrary: h xs)
  case (Cons n ns)
  have "lst (push (init h n (k n)) l n) l (xs @ [n])"
    using Cons.prems by (intro push_lst init_lst init_free) auto
  with Cons.prems have "lst (fold (\<lambda>n h. push (init h n (k n)) l n) ns (push (init h n (k n)) l n)) l ((xs @ [n]) @ ns)"
    by (intro Cons.IH) auto
  then show ?case by simp
qed simp

text \<open>Moving the head of one list to the tail of another.\<close>

lemma move_head:
  assumes "lst h s (x # xs)" "lst h d ys" "set (s # x # xs) \<inter> set (d # ys) = {}"
  shows "lst (push (fst (pop h s)) d (snd (pop h s))) s xs"
    and "lst (push (fst (pop h s)) d (snd (pop h s))) d (ys @ [x])"
proof -
  note p = pop_lst [OF assms(1)] pop_free [OF assms(1)] pop_val [OF assms(1)]
  have d: "lst (fst (pop h s)) d ys"
    using assms by (intro pop_other [OF assms(1)]) auto
  have "distinct (s # x # xs)" using assms(1) by (rule lst_distinct)
  then show "lst (push (fst (pop h s)) d (snd (pop h s))) s xs"
    using assms(3) p by (intro push_other [OF d]) auto
  show "lst (push (fst (pop h s)) d (snd (pop h s))) d (ys @ [x])"
    using assms(3) p by (auto intro!: push_lst [OF d])
qed

text \<open>Moving as many heads as there are empties the source into the destination, in order.\<close>

lemma drain:
  "lst h s xs \<Longrightarrow> lst h d ys \<Longrightarrow> set (s # xs) \<inter> set (d # ys) = {} \<Longrightarrow>
   lst (((\<lambda>h. push (fst (pop h s)) d (snd (pop h s))) ^^ length xs) h) s []
   \<and> lst (((\<lambda>h. push (fst (pop h s)) d (snd (pop h s))) ^^ length xs) h) d (ys @ xs)"
proof (induction xs arbitrary: h ys)
  case (Cons x xs)
  let ?m = "\<lambda>h. push (fst (pop h s)) d (snd (pop h s))"
  have "distinct (s # x # xs)" using Cons.prems(1) by (rule lst_distinct)
  moreover have "lst (?m h) s xs" "lst (?m h) d (ys @ [x])"
    using move_head [OF Cons.prems] by auto
  ultimately have "lst ((?m ^^ length xs) (?m h)) s [] \<and> lst ((?m ^^ length xs) (?m h)) d ((ys @ [x]) @ xs)"
    using Cons.prems(3) by (intro Cons.IH) auto
  then show ?case by (simp add: funpow_Suc_right del: funpow.simps)
qed simp

end

interpretation rl: intrusive_list rlist "\<lambda>h n. ring h [n]" rlnode_init rlist_push_back rlist_pop_front
proof
  fix h :: "('a, 'b) rlheap" and l n k xs
  show "ring (rlnode_init h n k) [n]" by (rule ring_rlnode_init)
  show "rlist h l xs \<Longrightarrow> n \<notin> set (l # xs) \<Longrightarrow> rlist (rlnode_init h n k) l xs"
    by (simp add: rlist_def ring_rlnode_init_frame)
next
  fix h :: "('a, 'b) rlheap" and l n l' xs ys
  assume "rlist h l xs" "ring h [n]"
  then show "n \<notin> set (l # xs) \<Longrightarrow> rlist (rlist_push_back h l n) l (xs @ [n])"
    and "rlist h l' ys \<Longrightarrow> set (l' # ys) \<inter> set (n # l # xs) = {} \<Longrightarrow> rlist (rlist_push_back h l n) l' ys"
    using rlist_push_back [of h l xs n] push_back_frame [of h l xs n "[]" "l' # ys"]
    by (auto simp: rlist_def)
next
  fix h :: "('a, 'b) rlheap" and l x xs l' ys
  show "rlist h l (x # xs) \<Longrightarrow> rlist (fst (rlist_pop_front h l)) l xs"
    and "rlist h l (x # xs) \<Longrightarrow> ring (fst (rlist_pop_front h l)) [x]"
    and "rlist h l (x # xs) \<Longrightarrow> snd (rlist_pop_front h l) = x"
    by (rule rlist_pop_front; assumption)+
  show "rlist h l xs \<Longrightarrow> rlist h l' ys \<Longrightarrow> set (l' # ys) \<inter> set (l # xs) = {} \<Longrightarrow>
      rlist (fst (rlist_pop_front h l)) l' ys"
    using pop_front_frame [of h l xs "l' # ys"] by (simp add: rlist_def)
  show "rlist h l xs \<Longrightarrow> distinct (l # xs)"
    by (rule rlist_distinct)
qed

section \<open>Properties\<close>

text \<open>A store in which no node is linked to another, to build concrete lists in.\<close>

definition unlinked :: "(nat, nat) rlheap" where
  "unlinked = \<lparr>nxt = (\<lambda>n. n), prv = (\<lambda>n. n), key = (\<lambda>n. n)\<rparr>"

lemma unlinked_ring [simp]: "ring unlinked [a]" "rlist unlinked a []"
  by (simp_all add: unlinked_def ring_singleton rlist_def)

text \<open>C37. \<open>rl_splice\<close> on nodes of two different rings joins them into one ring, on two nodes of one
  ring cuts it in two, in the orders the comment of the code gives, and leaves every ring that holds
  neither node alone.\<close>

theorem rl_splice_correct:
  "(ring h (a # xs) \<and> ring h (b # ys) \<and> set (a # xs) \<inter> set (b # ys) = {} \<longrightarrow>
      ring (rl_splice h a b) (a # ys @ b # xs))
   \<and> (ring h (a # xs @ b # ys) \<longrightarrow>
      ring (rl_splice h a b) (a # ys) \<and> ring (rl_splice h a b) (b # xs))
   \<and> (ring h as \<and> ring h bs \<and> a \<in> set as \<and> b \<in> set bs \<and> ring h zs
        \<and> set zs \<inter> (set as \<union> set bs) = {} \<longrightarrow> ring (rl_splice h a b) zs)"
  using splice_joins [of h a xs b ys] splice_splits [of h a xs b ys]
    splice_frame [of h zs as bs a b]
  by blast

theorem rl_splice_correct_witness:
  "ring (rl_splice unlinked 1 2) [1, 2 :: nat] \<and> ring (rl_splice unlinked 1 2) [3]"
  using rl_splice_correct [of unlinked 1 "[]" 2 "[]" "[1]" "[2]" "[3]"] by simp

text \<open>Splicing the same two nodes again undoes the splice, as the comment of the code says,
  whether they are in one ring or in two.\<close>

theorem rl_splice_involution:
  assumes "ring h as" "ring h bs" "a \<in> set as" "b \<in> set bs"
  shows "rl_splice (rl_splice h a b) a b = h"
  using assms by (rule splice_involution)

theorem rl_splice_involution_witness:
  "rl_splice (rl_splice unlinked 1 2) 1 2 = unlinked"
  using rl_splice_involution [of unlinked "[1]" "[2]" 1 2] by simp

text \<open>C38. On a list that represents a sequence, the push, pop and remove operations of \<open>util.h\<close> do
  what they say to the sequence: appending at either end, taking the head, and taking out a node
  from any place, with the node that leaves alone in its own ring.\<close>

theorem rlist_operations:
  assumes "rlist h l xs"
  shows "is_rlist_empty h l = (xs = [])
    \<and> (ring h [n] \<and> n \<notin> set (l # xs) \<longrightarrow>
        rlist (rlist_push_back h l n) l (xs @ [n]) \<and> rlist (rlist_push_front h l n) l (n # xs))
    \<and> (xs = y # ys \<longrightarrow> rlist (fst (rlist_pop_front h l)) l ys
        \<and> ring (fst (rlist_pop_front h l)) [y] \<and> snd (rlist_pop_front h l) = y)
    \<and> (xs = us @ v # vs \<longrightarrow> rlist (rlist_remove h v) l (us @ vs) \<and> ring (rlist_remove h v) [v])
    \<and> rlist_len h l = Some (of_nat (length xs))"
  using assms rlist_pop_front [of h l y ys] rlist_remove_node [of h l us v vs]
  by (auto simp: is_rlist_empty_iff rlist_len_eq intro: rlist_push_back rlist_push_front)

theorem rlist_operations_witness:
  "rlist (rlist_push_back (rlist_push_back unlinked 0 1) 0 2) 0 [1, 2]
   \<and> snd (rlist_pop_front (rlist_push_back (rlist_push_back unlinked 0 1) 0 2) 0) = 1"
proof -
  have 1: "rlist (rlist_push_back unlinked 0 1) 0 [1]"
    using rlist_operations [of unlinked 0 "[]" 1] by simp
  have "ring (rlist_push_back unlinked 0 1) [2]"
    using push_back_frame [of unlinked 0 "[]" 1 "[]" "[2]"] by simp
  then have 2: "rlist (rlist_push_back (rlist_push_back unlinked 0 1) 0 2) 0 [1, 2]"
    using rlist_operations [OF 1, of 2] by simp
  then show ?thesis
    using rlist_operations [OF 2, of undefined 1 "[2]"] by simp
qed

text \<open>C39. The loops of \<open>util.h\<close> end and compute what their comments say: reversal, comparison,
  searching by key, appending and prepending a whole list, and selecting the nodes that satisfy
  a predicate.\<close>

theorem rlist_loops_total:
  assumes "rlist h l xs" and "rlist h d ys" and "set (l # xs) \<inter> set (d # ys) = {}"
  shows "(\<exists>h'. rlist_reverse h l = Some h' \<and> rlist h' l (rev xs))
    \<and> rlist_equal h l d = Some (map (key h) xs = map (key h) ys)
    \<and> rlist_find h l k fail = Some (case find (\<lambda>x. key h x = k) xs of None \<Rightarrow> fail | Some x \<Rightarrow> Some x)
    \<and> rlist (rlist_append h d l) d (ys @ xs) \<and> rlist (rlist_append h d l) l []
    \<and> rlist (rlist_prepend h d l) d (xs @ ys) \<and> rlist (rlist_prepend h d l) l []
    \<and> (\<exists>h'. rlist_select h l d pred = Some h' \<and> rlist h' l (filter (\<lambda>x. \<not> pred x) xs)
         \<and> rlist h' d (ys @ filter pred xs))"
proof -
  have dis: "set (d # ys) \<inter> set (l # xs) = {}" using assms(3) by blast
  show ?thesis
    using rlist_reverse_eq [OF assms(1)] rlist_equal_eq [OF assms(1,2)] rlist_find_eq [OF assms(1)]
      rlist_append_eq [OF assms(2,1) dis] rlist_prepend_eq [OF assms(2,1) dis]
      rlist_select_eq [OF assms, of pred]
    by blast
qed

theorem rlist_loops_total_witness:
  "rlist (rlist_append (rlist_push_back unlinked 0 1) 5 0) 5 [1]"
proof -
  have "rlist (rlist_push_back unlinked 0 1) 0 [1]"
    using rlist_push_back [of unlinked 0 "[]" 1] by simp
  moreover have "rlist (rlist_push_back unlinked 0 1) 5 []"
    using push_back_frame [of unlinked 0 "[]" 1 "[]" "[5]"] by (simp add: rlist_def)
  ultimately show ?thesis using rlist_loops_total [of "rlist_push_back unlinked 0 1" 0 "[1]" 5 "[]"] by simp
qed

text \<open>\<open>rlist_pop_back\<close> does not take the last node off the list: it leaves the list empty, and
  the node it returns is still linked to all the others.\<close>

theorem rlist_pop_back_drops_all:
  assumes "rlist h l (xs @ [x])"
  shows "snd (rlist_pop_back h l) = x \<and> rlist (fst (rlist_pop_back h l)) l []
    \<and> ring (fst (rlist_pop_back h l)) (x # xs)"
  using rlist_pop_back_effect [OF assms] by auto

theorem rlist_pop_back_drops_all_witness:
  "rlist (fst (rlist_pop_back (rlist_push_back unlinked 0 1) 0)) 0 []"
  using rlist_pop_back_drops_all [of "rlist_push_back unlinked 0 1" 0 "[]" 1]
    rlist_push_back [of unlinked 0 "[]" 1] by simp

end
