(* ===== verification/Kernel_State.thy ===== *)
theory Kernel_State
  imports Rlist Cpu
begin

text \<open>
  The data of the kernel: the control blocks of \<open>include/kernel/kernel_sched.h\<close>,
  \<open>kernel_proc.h\<close>, \<open>kernel_streams.h\<close> and \<open>kernel_dev.h\<close>, the constants of
  \<open>include/tinyos.h\<close>, and one record with every variable of the kernel.

  A pointer to a control block is the place of the block: \<open>thread_pool i\<close> and \<open>idle_thread\<close> for
  a \<open>TCB*\<close>, the index in its table for a \<open>PCB*\<close>, \<open>PTCB*\<close> or \<open>FCB*\<close>, with \<open>None\<close> for
  NULL where the code allows NULL. The \<open>rlnode\<close> fields of the blocks and the list heads are
  addresses of ring stores (theory Rlist), one store for each family of lists that is
  ever spliced together, with the key \<open>None\<close> for a NULL key.

  Operations that can fail to return (an endless loop, a failed assertion) or that would
  dereference NULL have an \<open>option\<close> result, \<open>None\<close> in those cases.
\<close>

section \<open>Constants\<close>

definition MAX_PROC :: nat where "MAX_PROC = 2"
definition MAX_FILEID :: nat where "MAX_FILEID = 4"
definition MAX_FILES :: nat where "MAX_FILES = 4"
definition MAX_TERMINALS :: nat where "MAX_TERMINALS = 1"
definition MAX_THREADS :: nat where "MAX_THREADS = 2"
definition SCHED_QUEUES :: nat where "SCHED_QUEUES = 10"
definition YIELD_RUNS :: int where "YIELD_RUNS = 1800"
definition QUANTUM :: u32 where "QUANTUM = 10000"
definition NO_TIMEOUT :: u32 where "NO_TIMEOUT = - 1"
definition THREAD_STACK_SIZE :: u16 where "THREAD_STACK_SIZE = 256"
definition MAX_ARG_SIZE :: int where "MAX_ARG_SIZE = 32"
definition NOPROC :: int where "NOPROC = - 1"
definition NOFILE :: int where "NOFILE = - 1"

section \<open>Threads\<close>

datatype Thread_state = INIT | READY | RUNNING | STOPPED | EXITED

datatype Thread_phase = CTX_CLEAN | CTX_DIRTY

datatype Thread_type = IDLE_THREAD | NORMAL_THREAD

datatype SCHED_CAUSE = SCHED_QUANTUM | SCHED_IO | SCHED_MUTEX | SCHED_PIPE | SCHED_POLL
  | SCHED_IDLE | SCHED_USER

datatype tcb_ptr = thread_pool nat | idle_thread

text \<open>A \<open>Task\<close> is the code address of a user function; NULL is \<open>None\<close>. The kernel itself starts
  threads with two functions only.\<close>

type_synonym Task = u16

datatype thread_fn = start_main_thread_fn | start_main_pthread_fn

text \<open>A condition variable is its set of waiters; the kernel only ever initialises it.\<close>

type_synonym CondVar = "tcb_ptr list"

definition COND_INIT :: CondVar where "COND_INIT = []"

record PTCB =
  ptcb_thread :: "tcb_ptr option"
  task :: "Task option"
  ptcb_argl :: int
  ptcb_args :: u16
  ptcb_exitval :: int
  exited :: bool
  detached :: bool
  exit_cv :: CondVar
  ptcb_refcount :: int

record TCB =
  owner_pcb :: "nat option"
  ptcb :: "nat option"
  priority :: int
  context_sp :: u16
  tcb_type :: Thread_type
  tcb_state :: Thread_state
  phase :: Thread_phase
  thread_func :: "thread_fn option"
  wakeup_time :: u32
  its :: u32
  rts :: u32
  curr_cause :: SCHED_CAUSE
  last_cause :: SCHED_CAUSE

text \<open>The nodes of the scheduler: the heads \<open>SCHED[i]\<close> and \<open>TIMEOUT_LIST\<close>, and the
  \<open>sched_node\<close> of a TCB. The index of \<open>SCHED\<close> is an \<open>int\<close>, as \<open>tcb->priority\<close> is.\<close>

datatype sched_addr = SCHED int | TIMEOUT_LIST | sched_node tcb_ptr

type_synonym sched_store = "(sched_addr, tcb_ptr option) rlheap"

text \<open>
  Where a thread that is not running continues when it is switched to: a new thread enters
  \<open>thread_start\<close>, which calls \<open>gain(1)\<close>; any other thread returns from \<open>cpu_swap_context\<close>
  inside \<open>yield\<close>, which calls \<open>gain(preempt)\<close> with its local variable \<open>preempt\<close>. When the
  caller of \<open>yield\<close> was \<open>sleep_releasing\<close>, that function then restores its own \<open>preempt\<close>,
  the first argument of \<open>In_sleep\<close>.
\<close>

datatype frame = In_thread_start | In_yield bool | In_sleep bool bool

section \<open>Processes\<close>

datatype pid_state = FREE | ALIVE | ZOMBIE

record PCB =
  pstate :: pid_state
  parent :: "nat option"
  exitval :: int
  main_thread :: "tcb_ptr option"
  main_task :: "Task option"
  argl :: int
  args :: u16
  child_exit :: CondVar
  FIDT :: "nat \<Rightarrow> nat option"
  thread_count :: int

datatype proc_addr = children_list nat | exited_list nat | children_node nat | exited_node nat

datatype ptcb_addr = ptcb_list nat | ptcb_node_list nat

section \<open>Files and devices\<close>

datatype Device_type = DEV_NULL | DEV_SERIAL | DEV_MAX

datatype open_fn = nulldev_open_fn | serial_open_fn
datatype read_fn = nulldev_read_fn | serial_read_fn
datatype write_fn = nulldev_write_fn | serial_write_fn
datatype close_fn = nulldev_close_fn | serial_close_fn

record file_ops =
  Open :: "open_fn option"
  Read :: "read_fn option"
  Write :: "write_fn option"
  Close :: "close_fn option"

record DCB =
  dcb_type :: Device_type
  devnum :: nat
  dev_fops :: file_ops

record serial_dcb =
  devno :: nat
  rx_ready_cv :: CondVar

text \<open>A stream object is NULL or a serial device; \<open>streamfunc\<close> points to the \<open>dev_fops\<close> of an
  entry of the device table.\<close>

record FCB =
  streamobj :: "nat option"
  streamfunc :: "Device_type option"
  refcount :: int

datatype file_addr = FCB_freelist | freelist_node nat

section \<open>The kernel\<close>

text \<open>
  \<open>stacks_at\<close>, \<open>thread_start_at\<close> and \<open>proc_args_at\<close> are the addresses the linker gives to
  \<open>thread_stacks\<close>, \<open>thread_start\<close> and \<open>proc_args\<close>. There is one core, \<open>cctx[0]\<close>.
\<close>

record kernel =
  cpu :: cpu
  current_thread :: "tcb_ptr option"
  previous_thread :: "tcb_ptr option"
  tcbs :: "tcb_ptr \<Rightarrow> TCB"
  frames :: "tcb_ptr \<Rightarrow> frame"
  thread_used :: "nat \<Rightarrow> bool"
  active_threads :: u16
  sched_heap :: sched_store
  yield_count :: int
  ptcb_pool :: "nat \<Rightarrow> PTCB"
  ptcb_used :: "nat \<Rightarrow> bool"
  ptcb_heap :: "(ptcb_addr, nat option) rlheap"
  PT :: "nat \<Rightarrow> PCB"
  proc_heap :: "(proc_addr, nat option) rlheap"
  FT :: "nat \<Rightarrow> FCB"
  file_heap :: "(file_addr, nat option) rlheap"
  devtable :: "Device_type \<Rightarrow> DCB"
  serial_dcbs :: "nat \<Rightarrow> serial_dcb"
  stacks_at :: u16
  thread_start_at :: u16
  proc_args_at :: u16

definition upd_tcb :: "tcb_ptr \<Rightarrow> (TCB \<Rightarrow> TCB) \<Rightarrow> kernel \<Rightarrow> kernel" where
  "upd_tcb t f s = s\<lparr>tcbs := (tcbs s)(t := f (tcbs s t))\<rparr>"

definition upd_cpu :: "(cpu \<Rightarrow> cpu) \<Rightarrow> kernel \<Rightarrow> kernel" where
  "upd_cpu f s = s\<lparr>cpu := f (cpu s)\<rparr>"

definition upd_pcb :: "nat \<Rightarrow> (PCB \<Rightarrow> PCB) \<Rightarrow> kernel \<Rightarrow> kernel" where
  "upd_pcb p f s = s\<lparr>PT := (PT s)(p := f (PT s p))\<rparr>"

definition upd_fcb :: "nat \<Rightarrow> (FCB \<Rightarrow> FCB) \<Rightarrow> kernel \<Rightarrow> kernel" where
  "upd_fcb i f s = s\<lparr>FT := (FT s)(i := f (FT s i))\<rparr>"

definition upd_ptcb :: "nat \<Rightarrow> (PTCB \<Rightarrow> PTCB) \<Rightarrow> kernel \<Rightarrow> kernel" where
  "upd_ptcb i f s = s\<lparr>ptcb_pool := (ptcb_pool s)(i := f (ptcb_pool s i))\<rparr>"

lemma upd_tcb_apply: "tcbs (upd_tcb t f s) u = (if u = t then f (tcbs s t) else tcbs s u)"
  by (simp add: upd_tcb_def)

lemma upd_tcb_twice [simp]: "upd_tcb t f (upd_tcb t g s) = upd_tcb t (\<lambda>x. f (g x)) s"
  by (simp add: upd_tcb_def)

lemma upd_tcb_commute:
  "(upd_tcb t f s)\<lparr>sched_heap := h\<rparr> = upd_tcb t f (s\<lparr>sched_heap := h\<rparr>)"
  "(upd_tcb t f s)\<lparr>cpu := c\<rparr> = upd_tcb t f (s\<lparr>cpu := c\<rparr>)"
  by (simp_all add: upd_tcb_def)

lemma upd_pcb_apply: "PT (upd_pcb p f s) u = (if u = p then f (PT s p) else PT s u)"
  by (simp add: upd_pcb_def)

lemma upd_fcb_apply: "FT (upd_fcb p f s) u = (if u = p then f (FT s p) else FT s u)"
  by (simp add: upd_fcb_def)

lemma upd_tcb_frame [simp, frame_simps]:
  "cpu (upd_tcb t f s) = cpu s" "current_thread (upd_tcb t f s) = current_thread s"
  "previous_thread (upd_tcb t f s) = previous_thread s" "frames (upd_tcb t f s) = frames s"
  "thread_used (upd_tcb t f s) = thread_used s" "active_threads (upd_tcb t f s) = active_threads s"
  "sched_heap (upd_tcb t f s) = sched_heap s" "yield_count (upd_tcb t f s) = yield_count s"
  "PT (upd_tcb t f s) = PT s" "FT (upd_tcb t f s) = FT s" "file_heap (upd_tcb t f s) = file_heap s"
  "proc_heap (upd_tcb t f s) = proc_heap s" "devtable (upd_tcb t f s) = devtable s"
  by (simp_all add: upd_tcb_def)

lemma upd_cpu_frame [simp, frame_simps]:
  "cpu (upd_cpu f s) = f (cpu s)" "current_thread (upd_cpu f s) = current_thread s"
  "previous_thread (upd_cpu f s) = previous_thread s" "frames (upd_cpu f s) = frames s"
  "tcbs (upd_cpu f s) = tcbs s"
  "thread_used (upd_cpu f s) = thread_used s" "active_threads (upd_cpu f s) = active_threads s"
  "sched_heap (upd_cpu f s) = sched_heap s" "yield_count (upd_cpu f s) = yield_count s"
  "PT (upd_cpu f s) = PT s" "FT (upd_cpu f s) = FT s" "file_heap (upd_cpu f s) = file_heap s"
  "proc_heap (upd_cpu f s) = proc_heap s" "devtable (upd_cpu f s) = devtable s"
  by (simp_all add: upd_cpu_def)

section \<open>The state at reset\<close>

text \<open>\<open>startup.S\<close> clears the .bss section before it calls \<open>main\<close>: every variable of the kernel is zero.
  The list nodes hold null pointers, about which nothing is assumed.\<close>

definition zero_TCB :: TCB where
  "zero_TCB = \<lparr>owner_pcb = None, ptcb = None, priority = 0, context_sp = 0, tcb_type = IDLE_THREAD,
     tcb_state = INIT, phase = CTX_CLEAN, thread_func = None, wakeup_time = 0, its = 0, rts = 0,
     curr_cause = SCHED_QUANTUM, last_cause = SCHED_QUANTUM\<rparr>"

definition zero_PCB :: PCB where
  "zero_PCB = \<lparr>pstate = FREE, parent = None, exitval = 0, main_thread = None, main_task = None,
     argl = 0, args = 0, child_exit = COND_INIT, FIDT = (\<lambda>_. None), thread_count = 0\<rparr>"

definition zero_PTCB :: PTCB where
  "zero_PTCB = \<lparr>ptcb_thread = None, task = None, ptcb_argl = 0, ptcb_args = 0, ptcb_exitval = 0,
     exited = False, detached = False, exit_cv = COND_INIT, ptcb_refcount = 0\<rparr>"

definition zero_FCB :: FCB where
  "zero_FCB = \<lparr>streamobj = None, streamfunc = None, refcount = 0\<rparr>"

definition bss_cleared :: "kernel \<Rightarrow> bool" where
  "bss_cleared s \<longleftrightarrow>
     current_thread s = None \<and> previous_thread s = None \<and> tcbs s = (\<lambda>_. zero_TCB)
     \<and> thread_used s = (\<lambda>_. False) \<and> active_threads s = 0 \<and> yield_count s = 0
     \<and> ptcb_pool s = (\<lambda>_. zero_PTCB) \<and> ptcb_used s = (\<lambda>_. False) \<and> PT s = (\<lambda>_. zero_PCB)
     \<and> FT s = (\<lambda>_. zero_FCB) \<and> interrupt_handlers (cpu s) = (\<lambda>_. None)
     \<and> system_clock_overflows (cpu s) = 0"

text \<open>One such state, to compute with.\<close>

definition blank_kernel :: kernel where
  "blank_kernel = \<lparr>cpu = \<lparr>dmem = (\<lambda>_. 0), interrupt_handlers = (\<lambda>_. None), system_clock_overflows = 0,
       uart_out = []\<rparr>,
     current_thread = None, previous_thread = None, tcbs = (\<lambda>_. zero_TCB), frames = (\<lambda>_. In_thread_start),
     thread_used = (\<lambda>_. False), active_threads = 0,
     sched_heap = \<lparr>nxt = (\<lambda>n. n), prv = (\<lambda>n. n), key = (\<lambda>_. None)\<rparr>, yield_count = 0,
     ptcb_pool = (\<lambda>_. zero_PTCB), ptcb_used = (\<lambda>_. False),
     ptcb_heap = \<lparr>nxt = (\<lambda>n. n), prv = (\<lambda>n. n), key = (\<lambda>_. None)\<rparr>,
     PT = (\<lambda>_. zero_PCB), proc_heap = \<lparr>nxt = (\<lambda>n. n), prv = (\<lambda>n. n), key = (\<lambda>_. None)\<rparr>,
     FT = (\<lambda>_. zero_FCB), file_heap = \<lparr>nxt = (\<lambda>n. n), prv = (\<lambda>n. n), key = (\<lambda>_. None)\<rparr>,
     devtable = (\<lambda>_. \<lparr>dcb_type = DEV_NULL, devnum = 0,
       dev_fops = \<lparr>Open = None, Read = None, Write = None, Close = None\<rparr>\<rparr>),
     serial_dcbs = (\<lambda>_. \<lparr>devno = 0, rx_ready_cv = COND_INIT\<rparr>),
     stacks_at = 0x300, thread_start_at = 0x1234, proc_args_at = 0x600\<rparr>"

lemma bss_blank [simp]: "bss_cleared blank_kernel"
  by (simp add: bss_cleared_def blank_kernel_def)

end
