(* ===== verification/Rlist_Family.thy ===== *)
theory Rlist_Family
  imports Rlist
begin

text \<open>
  Families of lists in one store. The kernel keeps several lists over the same nodes (the ten run
  queues and the timeout list, the child lists of the processes, \dots) and moves nodes between
  them. \<open>list_family h H L F\<close> says that every sentinel of \<open>H\<close> holds the nodes \<open>L\<close> gives
  for it, that every node of \<open>F\<close> is alone in its ring, and that no two of these share a node.
  One lemma per operation of \<open>util.h\<close> says how the family changes; what the rest of the store
  does is in none of the proofs of the kernel.
\<close>

definition list_family :: "('a, 'k) rlheap \<Rightarrow> 'a set \<Rightarrow> ('a \<Rightarrow> 'a list) \<Rightarrow> 'a set \<Rightarrow> bool" where
  "list_family h H L F \<longleftrightarrow>
     (\<forall>l\<in>H. rlist h l (L l) \<and> set (L l) \<inter> H = {} \<and> set (L l) \<inter> F = {})
     \<and> (\<forall>l\<in>H. \<forall>l'\<in>H. l \<noteq> l' \<longrightarrow> set (L l) \<inter> set (L l') = {})
     \<and> (\<forall>n\<in>F. ring h [n]) \<and> F \<inter> H = {}"

lemma familyI:
  assumes "\<And>l. l \<in> H \<Longrightarrow> rlist h l (L l)" "\<And>l. l \<in> H \<Longrightarrow> set (L l) \<inter> H = {}"
    "\<And>l. l \<in> H \<Longrightarrow> set (L l) \<inter> F = {}"
    "\<And>l l'. l \<in> H \<Longrightarrow> l' \<in> H \<Longrightarrow> l \<noteq> l' \<Longrightarrow> set (L l) \<inter> set (L l') = {}"
    "\<And>n. n \<in> F \<Longrightarrow> ring h [n]" "F \<inter> H = {}"
  shows "list_family h H L F"
  using assms by (simp add: list_family_def)

lemma familyD:
  assumes "list_family h H L F"
  shows "l \<in> H \<Longrightarrow> rlist h l (L l)" "l \<in> H \<Longrightarrow> set (L l) \<inter> H = {}"
    "l \<in> H \<Longrightarrow> set (L l) \<inter> F = {}"
    "l \<in> H \<Longrightarrow> l' \<in> H \<Longrightarrow> l \<noteq> l' \<Longrightarrow> set (L l) \<inter> set (L l') = {}"
    "n \<in> F \<Longrightarrow> ring h [n]" "F \<inter> H = {}"
  using assms by (simp_all add: list_family_def)

lemma family_distinct: "list_family h H L F \<Longrightarrow> l \<in> H \<Longrightarrow> distinct (L l)"
  using familyD(1) rlist_distinct by fastforce

lemma family_unique:
  "list_family h H L F \<Longrightarrow> l \<in> H \<Longrightarrow> l' \<in> H \<Longrightarrow> n \<in> set (L l) \<Longrightarrow> n \<in> set (L l') \<Longrightarrow> l = l'"
  using familyD(4) by fastforce

lemma family_empty_iff: "list_family h H L F \<Longrightarrow> l \<in> H \<Longrightarrow> is_rlist_empty h l \<longleftrightarrow> L l = []"
  by (simp add: is_rlist_empty_iff familyD(1))

lemma family_mono_free: "list_family h H L F \<Longrightarrow> F' \<subseteq> F \<Longrightarrow> list_family h H L F'"
  by (intro familyI) (auto dest: familyD)

lemma family_cong: "list_family h H L F \<Longrightarrow> (\<And>l. l \<in> H \<Longrightarrow> L' l = L l) \<Longrightarrow> list_family h H L' F"
  by (intro familyI) (auto dest: familyD)

lemma ring_rlist: "ring h (l # xs) \<longleftrightarrow> rlist h l xs"
  by (simp add: rlist_def)

text \<open>The common shape of the operations: the list of \<open>l\<close> and some free nodes change, every other
  ring is kept.\<close>

lemma family_update:
  assumes fam: "list_family h H L F" and l: "l \<in> H"
    and new: "rlist h' l ys" and free: "\<And>n. n \<in> F' \<Longrightarrow> n \<notin> F \<or> n \<in> G \<Longrightarrow> ring h' [n]"
    and keep: "\<And>zs. ring h zs \<Longrightarrow> set zs \<inter> (insert l (set (L l)) \<union> G) = {} \<Longrightarrow> ring h' zs"
    and nodes: "set ys \<union> F' = set (L l) \<union> F" "set ys \<inter> F' = {}" "G \<subseteq> F"
  shows "list_family h' H (L(l := ys)) F'"
proof (rule familyI)
  note D = familyD [OF fam]
  have sub: "set ys \<subseteq> set (L l) \<union> F" "F' \<subseteq> set (L l) \<union> F" using nodes by auto
  fix k assume k: "k \<in> H"
  show "rlist h' k ((L(l := ys)) k)"
  proof (cases "k = l")
    case False
    have "set (k # L k) \<inter> (insert l (set (L l)) \<union> G) = {}"
      using D(2) [OF k] D(3) [OF k] D(4) [OF k l False] D(2) [OF l] D(6) k l False nodes(3) by auto
    with keep [of "k # L k"] D(1) [OF k] False show ?thesis by (simp add: ring_rlist)
  qed (simp add: new)
  show "set ((L(l := ys)) k) \<inter> H = {}"
    using D(2) [OF k] D(2) [OF l] D(6) sub by auto
  show "set ((L(l := ys)) k) \<inter> F' = {}"
    using D(3) [OF k] D(4) [OF k l] nodes by (cases "k = l") auto
  fix k' assume k': "k' \<in> H" "k \<noteq> k'"
  then show "set ((L(l := ys)) k) \<inter> set ((L(l := ys)) k') = {}"
    using D(3) [OF k] D(3) [OF k'(1)] D(4) [OF k k'] D(4) [OF k l] D(4) [OF k'(1) l] sub(1) by auto
next
  note D = familyD [OF fam]
  fix n assume n: "n \<in> F'"
  show "ring h' [n]"
  proof (cases "n \<in> F \<and> n \<notin> G")
    case True
    then have "n \<notin> insert l (set (L l)) \<union> G" using D(3) [OF l] D(6) l by auto
    then show ?thesis using True D(5) [of n] by (intro keep) auto
  qed (use n free in auto)
next
  show "F' \<inter> H = {}" using familyD(6) [OF fam] familyD(2) [OF fam l] nodes by auto
qed

lemma family_push_back:
  assumes fam: "list_family h H L F" and l: "l \<in> H" and n: "n \<in> F"
  shows "list_family (rlist_push_back h l n) H (L(l := L l @ [n])) (F - {n})"
proof (rule family_update [OF fam l, where G = "{n}"])
  note D = familyD [OF fam]
  have r: "rlist h l (L l)" "ring h [n]" using D(1) [OF l] D(5) [OF n] by auto
  have ne: "n \<noteq> l" "n \<notin> set (L l)" using D(3) [OF l] D(6) l n by auto
  show "rlist (rlist_push_back h l n) l (L l @ [n])" using rlist_push_back r ne by fastforce
  show "ring (rlist_push_back h l n) zs" if "ring h zs" "set zs \<inter> (insert l (set (L l)) \<union> {n}) = {}" for zs
    using push_back_frame [OF r that(1)] that(2) by auto
qed (use n familyD(3) [OF fam l] in auto)

lemma family_push_front:
  assumes fam: "list_family h H L F" and l: "l \<in> H" and n: "n \<in> F"
  shows "list_family (rlist_push_front h l n) H (L(l := n # L l)) (F - {n})"
proof (rule family_update [OF fam l, where G = "{n}"])
  note D = familyD [OF fam]
  have r: "rlist h l (L l)" "ring h [n]" using D(1) [OF l] D(5) [OF n] by auto
  have ne: "n \<noteq> l" "n \<notin> set (L l)" using D(3) [OF l] D(6) l n by auto
  show "rlist (rlist_push_front h l n) l (n # L l)" using rlist_push_front r ne by fastforce
  show "ring (rlist_push_front h l n) zs" if "ring h zs" "set zs \<inter> (insert l (set (L l)) \<union> {n}) = {}" for zs
    using push_front_frame [OF r that(1)] that(2) by auto
qed (use n familyD(3) [OF fam l] in auto)

lemma family_pop_front:
  assumes fam: "list_family h H L F" and l: "l \<in> H" and xs: "L l = x # xs"
  shows "list_family (fst (rlist_pop_front h l)) H (L(l := xs)) (insert x F)"
    and "snd (rlist_pop_front h l) = x"
proof -
  note D = familyD [OF fam]
  have r: "rlist h l (x # xs)" using D(1) [OF l] xs by simp
  have dist: "distinct (l # x # xs)" using rlist_distinct [OF r] .
  show "list_family (fst (rlist_pop_front h l)) H (L(l := xs)) (insert x F)"
  proof (rule family_update [OF fam l, where G = "{}"])
    show "rlist (fst (rlist_pop_front h l)) l xs" by (rule rlist_pop_front(1) [OF r])
    show "ring (fst (rlist_pop_front h l)) [n]" if "n \<in> insert x F" "n \<notin> F \<or> n \<in> {}" for n
      using that rlist_pop_front(2) [OF r] by auto
    show "ring (fst (rlist_pop_front h l)) zs" if "ring h zs" "set zs \<inter> (insert l (set (L l)) \<union> {}) = {}" for zs
      using that xs by (intro pop_front_frame [OF r]) auto
  qed (use xs dist D(3) [OF l] in auto)
  show "snd (rlist_pop_front h l) = x" by (rule rlist_pop_front(3) [OF r])
qed

lemma family_remove:
  assumes fam: "list_family h H L F" and l: "l \<in> H" and xs: "L l = us @ a # vs"
  shows "list_family (rlist_remove h a) H (L(l := us @ vs)) (insert a F)"
proof (rule family_update [OF fam l, where G = "{}"])
  note D = familyD [OF fam]
  have r: "rlist h l (us @ a # vs)" using D(1) [OF l] xs by simp
  show "rlist (rlist_remove h a) l (us @ vs)" by (rule rlist_remove_node(1) [OF r])
  show "ring (rlist_remove h a) [n]" if "n \<in> insert a F" "n \<notin> F \<or> n \<in> {}" for n
    using that rlist_remove_node(2) [OF r] by auto
  show "ring (rlist_remove h a) zs" if "ring h zs" "set zs \<inter> (insert l (set (L l)) \<union> {}) = {}" for zs
    using that r xs remove_frame [of h "l # us @ a # vs" a zs] by (auto simp: rlist_def)
qed (use xs rlist_distinct [OF familyD(1) [OF fam l]] familyD(3) [OF fam l] in auto)

text \<open>Removing a node that is in no list changes nothing.\<close>

lemma rlist_remove_free: "ring h [a] \<Longrightarrow> rlist_remove h a = h"
  by (simp add: ring_singleton rlist_remove_def)

lemma family_remove_filter:
  assumes fam: "list_family h H L F" and l: "l \<in> H" and a: "a \<in> set (L l)"
  shows "list_family (rlist_remove h a) H (L(l := filter (\<lambda>x. x \<noteq> a) (L l))) (insert a F)"
proof -
  from a obtain us vs where xs: "L l = us @ a # vs" by (auto simp: in_set_conv_decomp)
  have "distinct (us @ a # vs)" using family_distinct [OF fam l] xs by simp
  then have "filter (\<lambda>x. x \<noteq> a) us = us" "filter (\<lambda>x. x \<noteq> a) vs = vs"
    by (auto intro: filter_True)
  then have "filter (\<lambda>x. x \<noteq> a) (L l) = us @ vs"
    by (simp add: xs)
  then show ?thesis using family_remove [OF fam l xs] by simp
qed

lemma family_insert_before:
  assumes fam: "list_family h H L F" and l: "l \<in> H" and xs: "L l = us @ vs" and a: "a \<in> F"
    and n: "n = hd (vs @ [l])"
  shows "list_family (rl_splice h (prv h n) a) H (L(l := us @ a # vs)) (F - {a})"
proof (rule family_update [OF fam l, where G = "{a}"])
  note D = familyD [OF fam]
  have r: "rlist h l (us @ vs)" "ring h [a]" using D(1) [OF l] D(5) [OF a] xs by auto
  have ne: "a \<noteq> l" "a \<notin> set (us @ vs)" using D(3) [OF l] D(6) l a xs by auto
  show "rlist (rl_splice h (prv h n) a) l (us @ a # vs)" by (rule rlist_insert_before [OF r ne n])
  have "n \<in> set (l # us @ vs)" using n by (cases vs) auto
  then show "ring (rl_splice h (prv h n) a) zs"
    if "ring h zs" "set zs \<inter> (insert l (set (L l)) \<union> {a}) = {}" for zs
    using that r xs by (intro insert_before_frame [OF r(1)]) auto
qed (use xs a familyD(3) [OF fam l] in auto)

text \<open>Initialising a node: a new sentinel, or a free node that was in none of the lists.\<close>

lemma ring_init_keep: "ring h zs \<Longrightarrow> p \<notin> set zs \<Longrightarrow> ring (rlnode_init h p k) zs"
  by (simp add: ring_rlnode_init_frame)

lemma family_init_node:
  assumes fam: "list_family h H L F" and n: "n \<notin> H" "\<And>l. l \<in> H \<Longrightarrow> n \<notin> set (L l)"
  shows "list_family (rlnode_init h n k) H L (insert n F)"
proof (rule familyI)
  note D = familyD [OF fam]
  fix l assume l: "l \<in> H"
  then show "rlist (rlnode_init h n k) l (L l)"
    using D(1) [OF l] n ring_init_keep [of h "l # L l" n k] by (auto simp: ring_rlist)
  show "set (L l) \<inter> H = {}" "set (L l) \<inter> insert n F = {}" using D(2,3) l n by auto
  show "l' \<in> H \<Longrightarrow> l \<noteq> l' \<Longrightarrow> set (L l) \<inter> set (L l') = {}" for l' using D(4) [OF l] by auto
next
  note D = familyD [OF fam]
  show "m \<in> insert n F \<Longrightarrow> ring (rlnode_init h n k) [m]" for m
    using D(5) [of m] ring_rlnode_init [of h n k] ring_init_keep [of h "[m]" n k] by (cases "m = n") auto
  show "insert n F \<inter> H = {}" using D(6) n by auto
qed

lemma family_init_head:
  assumes fam: "list_family h H L F" and n: "n \<notin> H" "n \<notin> F" "\<And>l. l \<in> H \<Longrightarrow> n \<notin> set (L l)"
  shows "list_family (rlnode_init h n k) (insert n H) (L(n := [])) F"
proof (rule familyI)
  note D = familyD [OF fam]
  fix l assume l: "l \<in> insert n H"
  show "rlist (rlnode_init h n k) l ((L(n := [])) l)"
    using l D(1) [of l] n ring_init_keep [of h "l # L l" n k] ring_rlnode_init [of h n k]
    by (auto simp: rlist_def)
  show "set ((L(n := [])) l) \<inter> insert n H = {}" "set ((L(n := [])) l) \<inter> F = {}"
    using l D(2,3) n by auto
  show "l' \<in> insert n H \<Longrightarrow> l \<noteq> l' \<Longrightarrow> set ((L(n := [])) l) \<inter> set ((L(n := [])) l') = {}" for l'
    using l D(4) [of l l'] by auto
next
  note D = familyD [OF fam]
  show "m \<in> F \<Longrightarrow> ring (rlnode_init h n k) [m]" for m
    using D(5) [of m] n ring_init_keep [of h "[m]" n k] by auto
  show "F \<inter> insert n H = {}" using D(6) n by auto
qed

lemma family_none: "list_family h {} L {}"
  by (simp add: list_family_def)

end
