(* ===== verification/Sched.thy ===== *)
theory Sched
  imports Kernel_State Rlist_Family
begin

text \<open>
  The scheduler, \<open>src/kernel/kernel_sched.c\<close>: the thread pool, the run queues, the timeout list,
  blocking, waking and switching.

  The operations are seen from the core: \<open>yield\<close> takes the state in which the current thread
  calls it to the state in which the thread it switches to comes out of \<open>gain\<close>. What remains of
  the old thread's call is its \<open>frame\<close>. What the switch does to registers and stacks is the
  subject of theory Context; here the switch sets the interrupt flag the way it does (on for a
  thread that starts, off for one that was switched out in \<open>yield\<close>).

  On one core \<open>Mutex_Lock\<close> and \<open>Mutex_Unlock\<close> have empty bodies (\<open>cpu.c\<close>), as have
  \<open>cpu_core_restart_one\<close> and \<open>cpu_core_restart_all\<close>: the calls leave no trace in the model.
\<close>

section \<open>Preemption\<close>

definition preempt_off :: "kernel \<Rightarrow> kernel \<times> bool" where
  "preempt_off s = (case cpu_disable_interrupts (cpu s) of (c, enabled) \<Rightarrow> (s\<lparr>cpu := c\<rparr>, enabled))"

definition preempt_on :: "kernel \<Rightarrow> kernel" where
  "preempt_on s = upd_cpu cpu_enable_interrupts s"

definition cur_thread :: "kernel \<Rightarrow> kernel \<times> tcb_ptr option" where
  "cur_thread s =
     (let (s, preempt) = preempt_off s;
          cur = current_thread s
      in (if preempt then preempt_on s else s, cur))"

section \<open>The thread pool\<close>

definition free_thread :: "tcb_ptr \<Rightarrow> kernel \<Rightarrow> kernel" where
  "free_thread ptr s =
     (case first_from (\<lambda>i. thread_pool i = ptr) 0 MAX_THREADS of
        Some i \<Rightarrow> s\<lparr>thread_used := (thread_used s)(i := False)\<rparr>
      | None \<Rightarrow> s)"

definition allocate_thread :: "kernel \<Rightarrow> kernel \<times> tcb_ptr option" where
  "allocate_thread s =
     (case first_from (\<lambda>i. \<not> thread_used s i) 0 MAX_THREADS of
        Some i \<Rightarrow> (s\<lparr>thread_used := (thread_used s)(i := True)\<rparr>, Some (thread_pool i))
      | None \<Rightarrow> (s, None))"

definition new_tcb :: "nat option \<Rightarrow> thread_fn \<Rightarrow> u16 \<Rightarrow> TCB" where
  "new_tcb pcb func sp = \<lparr>owner_pcb = pcb, ptcb = None, priority = 0, context_sp = sp,
     tcb_type = NORMAL_THREAD, tcb_state = INIT, phase = CTX_CLEAN, thread_func = Some func,
     wakeup_time = NO_TIMEOUT, its = QUANTUM, rts = QUANTUM,
     curr_cause = SCHED_IDLE, last_cause = SCHED_IDLE\<rparr>"

definition spawn_thread :: "nat option \<Rightarrow> thread_fn \<Rightarrow> kernel \<Rightarrow> kernel \<times> tcb_ptr option" where
  "spawn_thread pcb func s =
     (case first_from (\<lambda>i. \<not> thread_used s i) 0 MAX_THREADS of
        None \<Rightarrow> (s, None)
      | Some slot \<Rightarrow>
          (let s = s\<lparr>thread_used := (thread_used s)(slot := True)\<rparr>;
               tcb = thread_pool slot;
               s = s\<lparr>sched_heap := rlnode_init (sched_heap s) (sched_node tcb) (Some tcb)\<rparr>;
               sp = stacks_at s + of_nat slot * THREAD_STACK_SIZE;
               (m, ctx) = cpu_initialize_context sp THREAD_STACK_SIZE (thread_start_at s) (dmem (cpu s));
               s = upd_cpu (\<lambda>c. c\<lparr>dmem := m\<rparr>) s;
               s = upd_tcb tcb (\<lambda>_. new_tcb pcb func ctx) s;
               s = s\<lparr>frames := (frames s)(tcb := In_thread_start)\<rparr>;
               s = s\<lparr>active_threads := active_threads s + 1\<rparr>
           in (s, Some tcb)))"

text \<open>\<open>create_ptcb\<close> dereferences \<open>cur_tcb->owner_pcb\<close> when it finds a free slot.\<close>

definition create_ptcb :: "tcb_ptr \<Rightarrow> Task option \<Rightarrow> int \<Rightarrow> u16 \<Rightarrow> kernel \<Rightarrow> kernel option" where
  "create_ptcb cur_tcb tsk al ar s =
     (case first_from (\<lambda>i. \<not> ptcb_used s i) 0 MAX_THREADS of
        None \<Rightarrow> Some s
      | Some slot \<Rightarrow>
          (let s = s\<lparr>ptcb_used := (ptcb_used s)(slot := True)\<rparr>;
               s = upd_ptcb slot (\<lambda>_. \<lparr>ptcb_thread = Some cur_tcb, task = tsk, ptcb_argl = al,
                     ptcb_args = ar, ptcb_exitval = 0, exited = False, detached = False,
                     exit_cv = COND_INIT, ptcb_refcount = 0\<rparr>) s;
               s = upd_tcb cur_tcb (\<lambda>t. t\<lparr>ptcb := Some slot\<rparr>) s;
               s = s\<lparr>ptcb_heap := rlnode_init (ptcb_heap s) (ptcb_node_list slot) (Some slot)\<rparr>
           in do { p \<leftarrow> owner_pcb (tcbs s cur_tcb);
                   Some (s\<lparr>ptcb_heap := rlist_push_back (ptcb_heap s) (ptcb_list p) (ptcb_node_list slot)\<rparr>) }))"

definition release_TCB :: "tcb_ptr \<Rightarrow> kernel \<Rightarrow> kernel" where
  "release_TCB tcb s = (let s = free_thread tcb s in s\<lparr>active_threads := active_threads s - 1\<rparr>)"

section \<open>The queues\<close>

text \<open>The place in \<open>TIMEOUT_LIST\<close> before which a thread with the given wakeup time goes, from node
  \<open>n\<close> on. A node with a NULL key other than the sentinel would be dereferenced.\<close>

partial_function (option) timeout_position :: "kernel \<Rightarrow> u32 \<Rightarrow> sched_addr \<Rightarrow> sched_addr option" where
  "timeout_position s w n =
     (if n = TIMEOUT_LIST then Some n
      else do { t \<leftarrow> key (sched_heap s) n;
                if w < wakeup_time (tcbs s t) then Some n
                else timeout_position s w (nxt (sched_heap s) n) })"

definition sched_register_timeout :: "tcb_ptr \<Rightarrow> u32 \<Rightarrow> kernel \<Rightarrow> kernel option" where
  "sched_register_timeout tcb timeout s =
     (if timeout \<noteq> NO_TIMEOUT then
        (let curtime = bios_clock (cpu s);
             s = upd_tcb tcb (\<lambda>t. t\<lparr>wakeup_time := (if timeout = NO_TIMEOUT then NO_TIMEOUT else curtime + timeout)\<rparr>) s
         in do { n \<leftarrow> timeout_position s (wakeup_time (tcbs s tcb)) (nxt (sched_heap s) TIMEOUT_LIST);
                 Some (s\<lparr>sched_heap := rl_splice (sched_heap s) (prv (sched_heap s) n) (sched_node tcb)\<rparr>) })
      else Some s)"

definition sched_queue_add :: "tcb_ptr \<Rightarrow> kernel \<Rightarrow> kernel" where
  "sched_queue_add tcb s =
     s\<lparr>sched_heap := rlist_push_back (sched_heap s) (SCHED (priority (tcbs s tcb))) (sched_node tcb)\<rparr>"

definition sched_make_ready :: "tcb_ptr \<Rightarrow> kernel \<Rightarrow> kernel option" where
  "sched_make_ready tcb s =
     (if \<not> (tcb_state (tcbs s tcb) = STOPPED \<or> tcb_state (tcbs s tcb) = INIT) then None
      else do {
        s \<leftarrow> (if wakeup_time (tcbs s tcb) \<noteq> NO_TIMEOUT then
                if nxt (sched_heap s) (sched_node tcb) \<noteq> sched_node tcb \<and> tcb_state (tcbs s tcb) = STOPPED
                then Some (upd_tcb tcb (\<lambda>t. t\<lparr>wakeup_time := NO_TIMEOUT\<rparr>)
                       (s\<lparr>sched_heap := rlist_remove (sched_heap s) (sched_node tcb)\<rparr>))
                else None
              else Some s);
        let s = upd_tcb tcb (\<lambda>t. t\<lparr>tcb_state := READY\<rparr>) s;
        Some (if phase (tcbs s tcb) = CTX_CLEAN then sched_queue_add tcb s else s) })"

partial_function (option) wakeup_expired_loop :: "u32 \<Rightarrow> kernel \<Rightarrow> kernel option" where
  "wakeup_expired_loop curtime s =
     (if \<not> is_rlist_empty (sched_heap s) TIMEOUT_LIST then
        do { tcb \<leftarrow> key (sched_heap s) (nxt (sched_heap s) TIMEOUT_LIST);
             if wakeup_time (tcbs s tcb) > curtime then Some s
             else do { s' \<leftarrow> sched_make_ready tcb s; wakeup_expired_loop curtime s' } }
      else Some s)"

definition sched_wakeup_expired_timeouts :: "kernel \<Rightarrow> kernel option" where
  "sched_wakeup_expired_timeouts s = wakeup_expired_loop (bios_clock (cpu s)) s"

definition sched_queue_select :: "tcb_ptr \<Rightarrow> kernel \<Rightarrow> kernel \<times> tcb_ptr" where
  "sched_queue_select current s =
     (let highest_priority =
            (case first_from (\<lambda>i. \<not> is_rlist_empty (sched_heap s) (SCHED (int i))) 0 SCHED_QUEUES of
               Some i \<Rightarrow> int i | None \<Rightarrow> 0);
          (h, sel) = rlist_pop_front (sched_heap s) (SCHED highest_priority);
          s = s\<lparr>sched_heap := h\<rparr>;
          next_thread = (case key h sel of
               None \<Rightarrow> if tcb_state (tcbs s current) = READY then current else idle_thread
             | Some t \<Rightarrow> t)
      in (upd_tcb next_thread (\<lambda>t. t\<lparr>its := QUANTUM\<rparr>) s, next_thread))"

partial_function (option) boost_queue_loop :: "int \<Rightarrow> kernel \<Rightarrow> kernel option" where
  "boost_queue_loop i s =
     (if \<not> is_rlist_empty (sched_heap s) (SCHED i) then
        (let (h, tmp) = rlist_pop_front (sched_heap s) (SCHED i);
             s = s\<lparr>sched_heap := rlist_push_back h (SCHED (i - 1)) tmp\<rparr>
         in do { t \<leftarrow> key (sched_heap s) tmp;
                 boost_queue_loop i (upd_tcb t (\<lambda>t. t\<lparr>priority := priority t - 1\<rparr>) s) })
      else Some s)"

definition sched_boost_priority :: "kernel \<Rightarrow> kernel option" where
  "sched_boost_priority s = for_each (\<lambda>i. boost_queue_loop (int i)) [1..<SCHED_QUEUES] s"

section \<open>Waking, yielding, sleeping\<close>

definition wakeup :: "tcb_ptr \<Rightarrow> kernel \<Rightarrow> (kernel \<times> int) option" where
  "wakeup tcb s =
     (let (s, oldpre) = preempt_off s
      in do {
        (s, ret) \<leftarrow> (if tcb_state (tcbs s tcb) = STOPPED \<or> tcb_state (tcbs s tcb) = INIT
           then do { s \<leftarrow> sched_make_ready tcb s; Some (s, 1) } else Some (s, 0));
        Some (if oldpre then preempt_on s else s, ret) })"

definition gain :: "bool \<Rightarrow> kernel \<Rightarrow> kernel option" where
  "gain preempt s = do {
     current \<leftarrow> current_thread s;
     let s = upd_tcb current (\<lambda>t. t\<lparr>tcb_state := RUNNING, phase := CTX_DIRTY, rts := its t\<rparr>) s;
     prev \<leftarrow> previous_thread s;
     s \<leftarrow> (if current \<noteq> prev then
            (let s = upd_tcb prev (\<lambda>t. t\<lparr>phase := CTX_CLEAN\<rparr>) s
             in case tcb_state (tcbs s prev) of
                  READY \<Rightarrow> Some (if tcb_type (tcbs s prev) \<noteq> IDLE_THREAD then sched_queue_add prev s else s)
                | EXITED \<Rightarrow> Some (release_TCB prev s)
                | STOPPED \<Rightarrow> Some s
                | _ \<Rightarrow> None)
          else Some s);
     let s = (if preempt then preempt_on s else s);
     Some (s\<lparr>cpu := fst (bios_set_timer (rts (tcbs s current)) (cpu s))\<rparr>) }"

text \<open>What a thread does when it is switched to, up to the return from its call.\<close>

fun resume :: "frame \<Rightarrow> kernel \<Rightarrow> kernel option" where
  "resume In_thread_start s = gain True s"
| "resume (In_yield preempt) s = gain preempt s"
| "resume (In_sleep oldpre preempt) s =
     do { s \<leftarrow> gain preempt s; Some (if oldpre then preempt_on s else s) }"

text \<open>The adjustment of the dynamic priority (the \<open>switch\<close> in \<open>yield\<close>).\<close>

fun adjust_priority :: "SCHED_CAUSE \<Rightarrow> TCB \<Rightarrow> TCB" where
  "adjust_priority SCHED_IO t = (if priority t > 0 then t\<lparr>priority := priority t - 1\<rparr> else t)"
| "adjust_priority SCHED_QUANTUM t =
     (if priority t < int SCHED_QUEUES - 1 then t\<lparr>priority := priority t + 1\<rparr> else t)"
| "adjust_priority SCHED_MUTEX t =
     (if curr_cause t = last_cause t \<and> priority t < int SCHED_QUEUES - 1
      then t\<lparr>priority := priority t + 1\<rparr> else t)"
| "adjust_priority _ t = t"

text \<open>\<open>cpu_swap_context(&current->context, &next->context)\<close>: \<open>current\<close> keeps the frame \<open>fr\<close>, the
  core continues in the frame of \<open>next\<close>, with the interrupt flag of its saved status register.\<close>

definition swap_context :: "tcb_ptr \<Rightarrow> frame \<Rightarrow> tcb_ptr \<Rightarrow> kernel \<Rightarrow> kernel option" where
  "swap_context current fr next s =
     (let s = s\<lparr>frames := (frames s)(current := fr)\<rparr>;
          s = upd_cpu (if frames s next = In_thread_start then sei else cli) s
      in resume (frames s next) s)"

text \<open>\<open>yield\<close>, and the frame \<open>mk preempt\<close> it leaves: \<open>In_yield\<close> for a direct call.\<close>

definition yield_in :: "(bool \<Rightarrow> frame) \<Rightarrow> SCHED_CAUSE \<Rightarrow> kernel \<Rightarrow> kernel option" where
  "yield_in mk cause s = do {
     let (c, remaining) = bios_cancel_timer (cpu s);
     let (s, preempt) = preempt_off (s\<lparr>cpu := c\<rparr>);
     current \<leftarrow> current_thread s;
     let s = s\<lparr>yield_count := yield_count s + 1\<rparr>;
     s \<leftarrow> (if yield_count s = YIELD_RUNS
          then do { s \<leftarrow> sched_boost_priority s; Some (s\<lparr>yield_count := 0\<rparr>) } else Some s);
     let s = (if tcb_state (tcbs s current) = RUNNING
              then upd_tcb current (\<lambda>t. t\<lparr>tcb_state := READY\<rparr>) s else s);
     let s = upd_tcb current (\<lambda>t. t\<lparr>rts := remaining, last_cause := curr_cause t, curr_cause := cause\<rparr>) s;
     let s = upd_tcb current (adjust_priority cause) s;
     s \<leftarrow> sched_wakeup_expired_timeouts s;
     let (s, next) = sched_queue_select current s;
     let s = s\<lparr>previous_thread := Some current\<rparr>;
     if current \<noteq> next
     then swap_context current (mk preempt) next (s\<lparr>current_thread := Some next\<rparr>)
     else resume (mk preempt) s }"

definition yield :: "SCHED_CAUSE \<Rightarrow> kernel \<Rightarrow> kernel option" where
  "yield cause s = yield_in In_yield cause s"

text \<open>The mutex argument is unlocked by a function with an empty body and is left out.\<close>

definition sleep_releasing :: "Thread_state \<Rightarrow> SCHED_CAUSE \<Rightarrow> u32 \<Rightarrow> kernel \<Rightarrow> kernel option" where
  "sleep_releasing state cause timeout s =
     (if \<not> (state = STOPPED \<or> state = EXITED) then None
      else let (s, preempt) = preempt_off s in do {
        tcb \<leftarrow> current_thread s;
        let s = upd_tcb tcb (\<lambda>t. t\<lparr>tcb_state := state\<rparr>) s;
        s \<leftarrow> (if state \<noteq> EXITED then sched_register_timeout tcb timeout s else Some s);
        yield_in (In_sleep preempt) cause s })"

text \<open>The alarm: the core enters the interrupt service routine with interrupts off, which calls
  the installed handler.\<close>

definition yield_handler :: "kernel \<Rightarrow> kernel option" where
  "yield_handler s = yield SCHED_QUANTUM s"

definition ici_handler :: "kernel \<Rightarrow> kernel option" where
  "ici_handler s = Some s"

fun run_handler :: "handler \<Rightarrow> kernel \<Rightarrow> kernel option" where
  "run_handler yield_handler_fn s = yield_handler s"
| "run_handler ici_handler_fn s = ici_handler s"
| "run_handler serial_rx_handler_fn s = Some s"

definition alarm_interrupt :: "kernel \<Rightarrow> kernel option" where
  "alarm_interrupt s =
     (let s = upd_cpu cli s
      in case TIMER1_COMPA_vect (cpu s) of Some f \<Rightarrow> run_handler f s | None \<Rightarrow> Some s)"

section \<open>The scheduler loop\<close>

definition initialize_scheduler :: "kernel \<Rightarrow> kernel" where
  "initialize_scheduler s =
     (let s = fold (\<lambda>i s. s\<lparr>sched_heap := rlnode_init (sched_heap s) (SCHED (int i)) None\<rparr>) [0..<SCHED_QUEUES] s
      in s\<lparr>sched_heap := rlnode_init (sched_heap s) TIMEOUT_LIST None\<rparr>)"

text \<open>\<open>get_pcb\<close> of \<open>kernel_proc.c\<close>, which \<open>run_scheduler\<close> calls.\<close>

definition get_pcb :: "int \<Rightarrow> kernel \<Rightarrow> nat option" where
  "get_pcb pid s =
     (if pid < 0 \<or> pid \<ge> int MAX_PROC then None
      else if pstate (PT s (nat pid)) = FREE then None else Some (nat pid))"

text \<open>\<open>run_scheduler\<close> up to its call of \<open>idle_thread\<close>, whose first action is to yield.\<close>

definition run_scheduler_start :: "kernel \<Rightarrow> kernel" where
  "run_scheduler_start s =
     (let s = s\<lparr>current_thread := Some idle_thread\<rparr>;
          s = upd_tcb idle_thread (\<lambda>t. t\<lparr>owner_pcb := get_pcb 0 s, tcb_type := IDLE_THREAD,
                tcb_state := RUNNING, phase := CTX_DIRTY, wakeup_time := NO_TIMEOUT,
                its := QUANTUM, rts := QUANTUM, curr_cause := SCHED_IDLE, last_cause := SCHED_IDLE\<rparr>) s;
          s = s\<lparr>sched_heap := rlnode_init (sched_heap s) (sched_node idle_thread) (Some idle_thread)\<rparr>;
          s = upd_cpu (cpu_interrupt_handler ALARM (Some yield_handler_fn)) s;
          s = upd_cpu (cpu_interrupt_handler ICI (Some ici_handler_fn)) s
      in preempt_on s)"

definition idle_thread_entry :: "kernel \<Rightarrow> kernel option" where
  "idle_thread_entry s = yield SCHED_IDLE s"

text \<open>The idle thread each time its \<open>yield\<close> returns: halt and yield again while there are threads
  (\<open>Inl\<close>), otherwise leave the loop and the scheduler (\<open>Inr\<close>). The interrupt that ends the halt
  is a step of its own.\<close>

definition idle_thread_halt :: "kernel \<Rightarrow> kernel + kernel" where
  "idle_thread_halt s =
     (if active_threads s > 0 then Inl (upd_cpu cpu_core_halt s)
      else Inr (s\<lparr>cpu := fst (bios_cancel_timer (cpu s))\<rparr>))"

definition run_scheduler_finish :: "kernel \<Rightarrow> kernel option" where
  "run_scheduler_finish s =
     (if current_thread s = Some idle_thread
      then Some (upd_cpu (cpu_interrupt_handler ICI None) (upd_cpu (cpu_interrupt_handler ALARM None) s))
      else None)"

end
