(* ===== verification/Dev.thy ===== *)
theory Dev
  imports Sched
begin

text \<open>
  The devices, \<open>src/kernel/kernel_dev.c\<close>: the null device, the serial terminal, the device table.

  A stream object (\<open>void* obj\<close>) is \<open>None\<close> for NULL or the index of an entry of \<open>serial_dcbs\<close>.
  The loops of \<open>serial_read\<close> and \<open>serial_write\<close> poll the UART and give up the core with
  \<open>yield(SCHED_IO)\<close> while it is not ready. What they meet from outside is input: a list of
  \<open>uart_poll\<close>s, one for each poll, and a list of \<open>pause\<close>s, one for each \<open>yield\<close>. A pause is what
  the rest of the system does from the moment the core has left the calling thread to the moment the
  thread is switched to again (the identity, when \<open>yield\<close> chose the caller). When a list runs out
  the call has not returned: \<open>None\<close>.
\<close>

type_synonym pause = "kernel \<Rightarrow> kernel"

section \<open>The null device\<close>

definition nulldev_open :: "nat \<Rightarrow> nat option" where
  "nulldev_open minor = None"

definition nulldev_read :: "nat option \<Rightarrow> u16 \<Rightarrow> u16 \<Rightarrow> kernel \<Rightarrow> kernel \<times> int" where
  "nulldev_read obj buf n s = (upd_cpu (\<lambda>c. c\<lparr>dmem := memset (dmem c) buf 0 n\<rparr>) s, sint n)"

definition nulldev_write :: "nat option \<Rightarrow> u16 \<Rightarrow> u16 \<Rightarrow> kernel \<Rightarrow> kernel \<times> int" where
  "nulldev_write obj buf n s = (s, sint n)"

definition nulldev_close :: "nat option \<Rightarrow> kernel \<Rightarrow> kernel \<times> int" where
  "nulldev_close obj s = (s, 0)"

definition nulldev_fops :: file_ops where
  "nulldev_fops = \<lparr>Open = Some nulldev_open_fn, Read = Some nulldev_read_fn, Write = Some nulldev_write_fn,
     Close = Some nulldev_close_fn\<rparr>"

section \<open>The serial device\<close>

definition serial_rx_handler :: "kernel \<Rightarrow> kernel" where
  "serial_rx_handler s = s"

definition serial_open :: "nat \<Rightarrow> nat option" where
  "serial_open minor = (if minor \<ge> MAX_TERMINALS then None else Some minor)"

text \<open>The loops, with \<open>count\<close> bytes done. \<open>dcb\<close> is the object, whose \<open>devno\<close> is read at each turn.\<close>

fun serial_read_loop :: "nat \<Rightarrow> u16 \<Rightarrow> u16 \<Rightarrow> u16 \<Rightarrow> uart_poll list \<Rightarrow> pause list \<Rightarrow> kernel \<Rightarrow> (kernel \<times> int) option" where
  "serial_read_loop dcb buf n count [] rs s = (if count < n then None else Some (s, sint count))"
| "serial_read_loop dcb buf n count (p # ps) rs s =
     (if count < n then
        (let s = upd_cpu (uart_latch p) s
         in case bios_read_serial (devno (serial_dcbs s dcb)) (cpu s) of
              Some b \<Rightarrow> serial_read_loop dcb buf n (count + 1) ps rs
                          (upd_cpu (\<lambda>c. c\<lparr>dmem := (dmem c)(buf + count := b)\<rparr>) s)
            | None \<Rightarrow>
                if count > 0 then Some (s, sint count)
                else (case rs of
                        [] \<Rightarrow> None
                      | r # rs' \<Rightarrow> do { s' \<leftarrow> yield SCHED_IO s; serial_read_loop dcb buf n count ps rs' (r s') }))
      else Some (s, sint count))"

definition serial_read :: "nat option \<Rightarrow> u16 \<Rightarrow> u16 \<Rightarrow> uart_poll list \<Rightarrow> pause list \<Rightarrow> kernel \<Rightarrow> (kernel \<times> int) option" where
  "serial_read obj buf n ps rs s = do { dcb \<leftarrow> obj; serial_read_loop dcb buf n 0 ps rs s }"

fun serial_write_loop :: "nat \<Rightarrow> u16 \<Rightarrow> u16 \<Rightarrow> u16 \<Rightarrow> uart_poll list \<Rightarrow> pause list \<Rightarrow> kernel \<Rightarrow> (kernel \<times> int) option" where
  "serial_write_loop dcb buf n count [] rs s = (if count < n then None else Some (s, sint count))"
| "serial_write_loop dcb buf n count (p # ps) rs s =
     (if count < n then
        (let s = upd_cpu (uart_latch p) s
         in case bios_write_serial (devno (serial_dcbs s dcb)) (dmem (cpu s) (buf + count)) (cpu s) of
              (c, True) \<Rightarrow> serial_write_loop dcb buf n (count + 1) ps rs (s\<lparr>cpu := c\<rparr>)
            | (c, False) \<Rightarrow>
                (case rs of
                   [] \<Rightarrow> None
                 | r # rs' \<Rightarrow> do { s' \<leftarrow> yield SCHED_IO (s\<lparr>cpu := c\<rparr>); serial_write_loop dcb buf n count ps rs' (r s') }))
      else Some (s, sint count))"

definition serial_write :: "nat option \<Rightarrow> u16 \<Rightarrow> u16 \<Rightarrow> uart_poll list \<Rightarrow> pause list \<Rightarrow> kernel \<Rightarrow> (kernel \<times> int) option" where
  "serial_write obj buf n ps rs s = do { dcb \<leftarrow> obj; serial_write_loop dcb buf n 0 ps rs s }"

definition serial_close :: "nat option \<Rightarrow> kernel \<Rightarrow> kernel \<times> int" where
  "serial_close obj s = (s, 0)"

definition serial_fops :: file_ops where
  "serial_fops = \<lparr>Open = Some serial_open_fn, Read = Some serial_read_fn, Write = Some serial_write_fn,
     Close = Some serial_close_fn\<rparr>"

section \<open>Calls through a \<open>file_ops\<close>\<close>

fun call_Open :: "open_fn \<Rightarrow> nat \<Rightarrow> nat option" where
  "call_Open nulldev_open_fn minor = nulldev_open minor"
| "call_Open serial_open_fn minor = serial_open minor"

fun call_Read :: "read_fn \<Rightarrow> nat option \<Rightarrow> u16 \<Rightarrow> u16 \<Rightarrow> uart_poll list \<Rightarrow> pause list \<Rightarrow> kernel \<Rightarrow> (kernel \<times> int) option" where
  "call_Read nulldev_read_fn obj buf n ps rs s = Some (nulldev_read obj buf n s)"
| "call_Read serial_read_fn obj buf n ps rs s = serial_read obj buf n ps rs s"

fun call_Write :: "write_fn \<Rightarrow> nat option \<Rightarrow> u16 \<Rightarrow> u16 \<Rightarrow> uart_poll list \<Rightarrow> pause list \<Rightarrow> kernel \<Rightarrow> (kernel \<times> int) option" where
  "call_Write nulldev_write_fn obj buf n ps rs s = Some (nulldev_write obj buf n s)"
| "call_Write serial_write_fn obj buf n ps rs s = serial_write obj buf n ps rs s"

fun call_Close :: "close_fn \<Rightarrow> nat option \<Rightarrow> kernel \<Rightarrow> kernel \<times> int" where
  "call_Close nulldev_close_fn obj s = nulldev_close obj s"
| "call_Close serial_close_fn obj s = serial_close obj s"

section \<open>The device table\<close>

definition initialize_devices :: "kernel \<Rightarrow> kernel" where
  "initialize_devices s =
     (let s = s\<lparr>devtable := (devtable s)(DEV_NULL := \<lparr>dcb_type = DEV_NULL, devnum = 1, dev_fops = nulldev_fops\<rparr>)\<rparr>;
          s = s\<lparr>devtable := (devtable s)(DEV_SERIAL :=
                  \<lparr>dcb_type = DEV_SERIAL, devnum = MAX_TERMINALS, dev_fops = serial_fops\<rparr>)\<rparr>;
          s = fold (\<lambda>i s. s\<lparr>serial_dcbs := (serial_dcbs s)(i := \<lparr>devno = i, rx_ready_cv = COND_INIT\<rparr>)\<rparr>)
                [0..<MAX_TERMINALS] s
      in upd_cpu (cpu_interrupt_handler SERIAL_RX_READY (Some serial_rx_handler_fn)) s)"

text \<open>The inner \<open>None\<close> is the error -1; otherwise the stream object and the place of the operations.
  The call of a null \<open>Open\<close> is the outer \<open>None\<close>.\<close>

definition device_open :: "Device_type \<Rightarrow> nat \<Rightarrow> kernel \<Rightarrow> (nat option \<times> Device_type) option option" where
  "device_open major minor s =
     (if major = DEV_MAX \<or> minor \<ge> devnum (devtable s major) then Some None
      else do { f \<leftarrow> Open (dev_fops (devtable s major)); Some (Some (call_Open f minor, major)) })"

definition device_no :: "Device_type \<Rightarrow> kernel \<Rightarrow> nat" where
  "device_no major s = (if major = DEV_MAX then 0 else devnum (devtable s major))"

section \<open>The table once initialised\<close>

definition devices_ok :: "kernel \<Rightarrow> bool" where
  "devices_ok s \<longleftrightarrow>
     devtable s DEV_NULL = \<lparr>dcb_type = DEV_NULL, devnum = 1, dev_fops = nulldev_fops\<rparr>
     \<and> devtable s DEV_SERIAL = \<lparr>dcb_type = DEV_SERIAL, devnum = 1, dev_fops = serial_fops\<rparr>
     \<and> devno (serial_dcbs s 0) = 0"

lemma initialize_devices_ok: "devices_ok (initialize_devices s)"
  by (simp add: initialize_devices_def devices_ok_def MAX_TERMINALS_def Let_def upd_cpu_def)

lemma initialize_devices_frame [simp, frame_simps]:
  "PT (initialize_devices s) = PT s" "FT (initialize_devices s) = FT s"
  "file_heap (initialize_devices s) = file_heap s" "tcbs (initialize_devices s) = tcbs s"
  "current_thread (initialize_devices s) = current_thread s"
  "sched_heap (initialize_devices s) = sched_heap s" "thread_used (initialize_devices s) = thread_used s"
  by (simp_all add: initialize_devices_def MAX_TERMINALS_def Let_def upd_cpu_def)

text \<open>Which devices exist, and what opening one gives.\<close>

lemma device_open_eq:
  assumes "devices_ok s"
  shows "device_open DEV_NULL 0 s = Some (Some (None, DEV_NULL))"
    "device_open DEV_SERIAL 0 s = Some (Some (Some 0, DEV_SERIAL))"
    "minor \<noteq> 0 \<Longrightarrow> device_open major minor s = Some None" "device_open DEV_MAX minor s = Some None"
  using assms by (cases major; simp add: devices_ok_def device_open_def nulldev_fops_def serial_fops_def
      nulldev_open_def serial_open_def MAX_TERMINALS_def)+

end
