(* ===== verification/Sched_Inv.thy ===== *)
theory Sched_Inv
  imports Sched
begin

text \<open>
  The invariant of the scheduler and its preservation by every operation.

  \<open>kernel_sched.h\<close> states it as: a TCB is in the scheduler queue if and only if its state is
  READY and its phase CTX_CLEAN. \<open>sched_inv s L c\<close> is that invariant with all that keeps it true:
  \<open>L\<close> gives the nodes of each queue and of the timeout list, \<open>c\<close> is the current thread.
  \<open>sched_struct\<close> is the part about the ring store, \<open>thread_ok\<close> the part about one TCB.
\<close>

section \<open>The queues in the store\<close>

definition heads :: "sched_addr set" where
  "heads = insert TIMEOUT_LIST (SCHED ` {0..<int SCHED_QUEUES})"

lemma heads_simps [simp]:
  "TIMEOUT_LIST \<in> heads" "SCHED i \<in> heads \<longleftrightarrow> 0 \<le> i \<and> i < 10" "sched_node t \<notin> heads"
  by (auto simp: heads_def SCHED_QUEUES_def)

definition sched_struct :: "sched_store \<Rightarrow> tcb_ptr set \<Rightarrow> (sched_addr \<Rightarrow> sched_addr list) \<Rightarrow> bool" where
  "sched_struct h U L \<longleftrightarrow>
     list_family h heads L (sched_node ` U - (\<Union>l\<in>heads. set (L l)))
     \<and> (\<forall>l\<in>heads. key h l = None) \<and> (\<forall>t\<in>U. key h (sched_node t) = Some t)
     \<and> (\<forall>l\<in>heads. set (L l) \<subseteq> sched_node ` U)"

lemma sched_structI:
  assumes "list_family h heads L (sched_node ` U - (\<Union>l\<in>heads. set (L l)))"
    "\<And>l. l \<in> heads \<Longrightarrow> key h l = None" "\<And>t. t \<in> U \<Longrightarrow> key h (sched_node t) = Some t"
    "\<And>l. l \<in> heads \<Longrightarrow> set (L l) \<subseteq> sched_node ` U"
  shows "sched_struct h U L"
  using assms by (simp add: sched_struct_def)

lemma sched_structD:
  assumes "sched_struct h U L"
  shows "list_family h heads L (sched_node ` U - (\<Union>l\<in>heads. set (L l)))"
    "l \<in> heads \<Longrightarrow> key h l = None" "t \<in> U \<Longrightarrow> key h (sched_node t) = Some t"
    "l \<in> heads \<Longrightarrow> set (L l) \<subseteq> sched_node ` U"
    "l \<in> heads \<Longrightarrow> n \<in> set (L l) \<Longrightarrow> \<exists>t\<in>U. n = sched_node t"
    "l \<in> heads \<Longrightarrow> sched_node t \<in> set (L l) \<Longrightarrow> t \<in> U"
  using assms unfolding sched_struct_def by (blast+)

text \<open>A thread in no list.\<close>

definition unlisted :: "(sched_addr \<Rightarrow> sched_addr list) \<Rightarrow> tcb_ptr \<Rightarrow> bool" where
  "unlisted L t \<longleftrightarrow> (\<forall>l\<in>heads. sched_node t \<notin> set (L l))"

lemma union_update:
  "l \<in> H \<Longrightarrow> set ys = insert x (set (L l)) \<Longrightarrow>
   (\<Union>k\<in>H. set ((L(l := ys)) k)) = insert x (\<Union>k\<in>H. set (L k))"
  by (auto split: if_splits)

lemma struct_push:
  assumes st: "sched_struct h U L" and l: "l \<in> heads" and t: "t \<in> U" "unlisted L t"
  shows "sched_struct (rlist_push_back h l (sched_node t)) U (L(l := L l @ [sched_node t]))"
proof (rule sched_structI)
  note D = sched_structD [OF st]
  let ?F = "sched_node ` U - (\<Union>l\<in>heads. set (L l))" and ?L = "L(l := L l @ [sched_node t])"
  have "sched_node t \<in> ?F" using t by (auto simp: unlisted_def)
  then have "list_family (rlist_push_back h l (sched_node t)) heads ?L (?F - {sched_node t})"
    by (rule family_push_back [OF D(1) l])
  moreover have "(\<Union>l\<in>heads. set (?L l)) = insert (sched_node t) (\<Union>l\<in>heads. set (L l))"
    by (rule union_update [OF l]) simp
  then have "?F - {sched_node t} = sched_node ` U - (\<Union>l\<in>heads. set (?L l))" by blast
  ultimately show "list_family (rlist_push_back h l (sched_node t)) heads ?L (sched_node ` U - (\<Union>l\<in>heads. set (?L l)))"
    by simp
  fix k assume k: "k \<in> heads"
  show "set (?L k) \<subseteq> sched_node ` U" using D(4) [OF k] D(4) [OF l] t by simp
qed (use sched_structD(2,3) [OF st] in auto)

lemma struct_insert:
  assumes st: "sched_struct h U L" and l: "l \<in> heads" and t: "t \<in> U" "unlisted L t"
    and xs: "L l = us @ vs" "n = hd (vs @ [l])"
  shows "sched_struct (rl_splice h (prv h n) (sched_node t)) U (L(l := us @ sched_node t # vs))"
proof (rule sched_structI)
  note D = sched_structD [OF st]
  let ?F = "sched_node ` U - (\<Union>l\<in>heads. set (L l))" and ?L = "L(l := us @ sched_node t # vs)"
  have "sched_node t \<in> ?F" using t by (auto simp: unlisted_def)
  then have "list_family (rl_splice h (prv h n) (sched_node t)) heads ?L (?F - {sched_node t})"
    by (intro family_insert_before [OF D(1) l xs(1)] xs(2))
  moreover have "(\<Union>l\<in>heads. set (?L l)) = insert (sched_node t) (\<Union>l\<in>heads. set (L l))"
    by (rule union_update [OF l]) (simp add: xs)
  then have "?F - {sched_node t} = sched_node ` U - (\<Union>l\<in>heads. set (?L l))" by blast
  ultimately show "list_family (rl_splice h (prv h n) (sched_node t)) heads ?L (sched_node ` U - (\<Union>l\<in>heads. set (?L l)))"
    by simp
  fix k assume k: "k \<in> heads"
  have "set us \<union> set vs \<subseteq> sched_node ` U" using D(4) [OF l] xs by auto
  then show "set (?L k) \<subseteq> sched_node ` U" using D(4) [OF k] t by simp
qed (use sched_structD(2,3) [OF st] in auto)

text \<open>What is left of the other lists when a node leaves one of them.\<close>

lemma free_after_leave:
  assumes fam: "list_family h heads L F" and l: "l \<in> heads" and x: "x \<in> set (L l)"
    and ys: "set ys = set (L l) - {x}" and F: "F = N - (\<Union>l\<in>heads. set (L l))" and N: "x \<in> N"
  shows "insert x F = N - (\<Union>k\<in>heads. set ((L(l := ys)) k))"
proof -
  have "x \<notin> set (L k)" if "k \<in> heads" "k \<noteq> l" for k
    using family_unique [OF fam l that(1) x] that(2) by auto
  then show ?thesis using l x ys F N by (auto split: if_splits)
qed

lemma struct_pop:
  assumes st: "sched_struct h U L" and l: "l \<in> heads" and xs: "L l = sched_node t # xs"
  shows "sched_struct (fst (rlist_pop_front h l)) U (L(l := xs))"
    and "snd (rlist_pop_front h l) = sched_node t" and "t \<in> U"
proof -
  note D = sched_structD [OF st]
  let ?F = "sched_node ` U - (\<Union>l\<in>heads. set (L l))"
  have dist: "distinct (L l)" by (rule family_distinct [OF D(1) l])
  have in_U: "sched_node t \<in> sched_node ` U" using D(4) [OF l] xs by auto
  then show "t \<in> U" by auto
  have "insert (sched_node t) ?F = sched_node ` U - (\<Union>k\<in>heads. set ((L(l := xs)) k))"
    using dist xs in_U by (intro free_after_leave [OF D(1) l]) auto
  moreover have "list_family (fst (rlist_pop_front h l)) heads (L(l := xs)) (insert (sched_node t) ?F)"
    by (rule family_pop_front [OF D(1) l xs])
  ultimately show "sched_struct (fst (rlist_pop_front h l)) U (L(l := xs))"
    using D(2-4) D(4) [OF l] xs by (intro sched_structI) auto
  show "snd (rlist_pop_front h l) = sched_node t" by (rule family_pop_front(2) [OF D(1) l xs])
qed

lemma struct_remove:
  assumes st: "sched_struct h U L" and l: "l \<in> heads" and x: "sched_node t \<in> set (L l)"
  shows "sched_struct (rlist_remove h (sched_node t)) U (L(l := filter (\<lambda>n. n \<noteq> sched_node t) (L l)))"
proof (rule sched_structI)
  note D = sched_structD [OF st]
  let ?F = "sched_node ` U - (\<Union>l\<in>heads. set (L l))" and ?ys = "filter (\<lambda>n. n \<noteq> sched_node t) (L l)"
  have "insert (sched_node t) ?F = sched_node ` U - (\<Union>k\<in>heads. set ((L(l := ?ys)) k))"
    using x D(4) [OF l] by (intro free_after_leave [OF D(1) l]) auto
  then show "list_family (rlist_remove h (sched_node t)) heads (L(l := ?ys)) (sched_node ` U - (\<Union>k\<in>heads. set ((L(l := ?ys)) k)))"
    using family_remove_filter [OF D(1) l x] by simp
  show "set ((L(l := ?ys)) k) \<subseteq> sched_node ` U" if "k \<in> heads" for k
    using D(4) [OF that] D(4) [OF l] by auto
qed (use sched_structD(2,3) [OF st] in auto)

text \<open>A thread enters and leaves the set of live threads.\<close>

lemma struct_new:
  assumes st: "sched_struct h U L" and t: "t \<notin> U"
  shows "sched_struct (rlnode_init h (sched_node t) (Some t)) (insert t U) L"
proof (rule sched_structI)
  note D = sched_structD [OF st]
  let ?F = "sched_node ` U - (\<Union>l\<in>heads. set (L l))"
  have n: "sched_node t \<notin> set (L l)" if "l \<in> heads" for l using D(4) [OF that] t by auto
  then have "insert (sched_node t) ?F = sched_node ` insert t U - (\<Union>l\<in>heads. set (L l))" by auto
  then show "list_family (rlnode_init h (sched_node t) (Some t)) heads L (sched_node ` insert t U - (\<Union>l\<in>heads. set (L l)))"
    using family_init_node [OF D(1), of "sched_node t" "Some t"] n by simp
  show "set (L l) \<subseteq> sched_node ` insert t U" if "l \<in> heads" for l using D(4) [OF that] by auto
qed (use sched_structD(2,3) [OF st] in auto)

lemma struct_drop:
  assumes st: "sched_struct h U L" and t: "unlisted L t"
  shows "sched_struct h (U - {t}) L"
proof (rule sched_structI)
  note D = sched_structD [OF st]
  show "list_family h heads L (sched_node ` (U - {t}) - (\<Union>l\<in>heads. set (L l)))"
    by (rule family_mono_free [OF D(1)]) auto
  show "set (L l) \<subseteq> sched_node ` (U - {t})" if "l \<in> heads" for l
    using D(4) [OF that] t that unfolding unlisted_def by blast
qed (use sched_structD(2,3) [OF st] in auto)

lemma struct_empty_iff: "sched_struct h U L \<Longrightarrow> l \<in> heads \<Longrightarrow> is_rlist_empty h l \<longleftrightarrow> L l = []"
  by (rule family_empty_iff [OF sched_structD(1)])

lemma struct_rlist: "sched_struct h U L \<Longrightarrow> l \<in> heads \<Longrightarrow> rlist h l (L l)"
  by (rule familyD(1) [OF sched_structD(1)])

lemma struct_cong: "sched_struct h U L \<Longrightarrow> (\<And>l. l \<in> heads \<Longrightarrow> L' l = L l) \<Longrightarrow> sched_struct h U L'"
proof -
  assume st: "sched_struct h U L" and eq: "\<And>l. l \<in> heads \<Longrightarrow> L' l = L l"
  have "(\<Union>l\<in>heads. set (L' l)) = (\<Union>l\<in>heads. set (L l))" using eq by auto
  moreover have "list_family h heads L' (sched_node ` U - (\<Union>l\<in>heads. set (L l)))"
    by (rule family_cong [OF sched_structD(1) [OF st] eq])
  ultimately show ?thesis using sched_structD [OF st] eq by (intro sched_structI) auto
qed

section \<open>The invariant\<close>

definition live :: "kernel \<Rightarrow> tcb_ptr set" where
  "live s = insert idle_thread (thread_pool ` {i. i < MAX_THREADS \<and> thread_used s i})"

definition thread_ok :: "(sched_addr \<Rightarrow> sched_addr list) \<Rightarrow> tcb_ptr \<Rightarrow> tcb_ptr \<Rightarrow> TCB \<Rightarrow> bool" where
  "thread_ok L c t T \<longleftrightarrow>
     0 \<le> priority T \<and> priority T < 10
     \<and> (\<forall>i. 0 \<le> i \<and> i < 10 \<longrightarrow> (sched_node t \<in> set (L (SCHED i)) \<longleftrightarrow>
          t \<noteq> idle_thread \<and> tcb_state T = READY \<and> phase T = CTX_CLEAN \<and> priority T = i))
     \<and> (sched_node t \<in> set (L TIMEOUT_LIST) \<longleftrightarrow> wakeup_time T \<noteq> NO_TIMEOUT)
     \<and> (wakeup_time T \<noteq> NO_TIMEOUT \<longrightarrow> tcb_state T = STOPPED)
     \<and> (phase T = CTX_DIRTY \<longleftrightarrow> t = c)
     \<and> (tcb_state T = RUNNING \<or> tcb_state T = EXITED \<longrightarrow> t = c) \<and> (tcb_state T = INIT \<longrightarrow> t \<noteq> c)
     \<and> (t = idle_thread \<longrightarrow> tcb_type T = IDLE_THREAD \<and> (tcb_state T = READY \<or> tcb_state T = RUNNING))
     \<and> (t \<noteq> idle_thread \<longrightarrow> tcb_type T = NORMAL_THREAD)"

fun tcb_of :: "sched_addr \<Rightarrow> tcb_ptr" where
  "tcb_of (sched_node t) = t"
| "tcb_of _ = idle_thread"

definition by_wakeup :: "kernel \<Rightarrow> sched_addr list \<Rightarrow> bool" where
  "by_wakeup s ns \<longleftrightarrow> sorted (map (\<lambda>n. wakeup_time (tcbs s (tcb_of n))) ns)"

definition sched_inv :: "kernel \<Rightarrow> (sched_addr \<Rightarrow> sched_addr list) \<Rightarrow> tcb_ptr \<Rightarrow> bool" where
  "sched_inv s L c \<longleftrightarrow>
     sched_struct (sched_heap s) (live s) L
     \<and> (\<forall>t\<in>live s. thread_ok L c t (tcbs s t))
     \<and> by_wakeup s (L TIMEOUT_LIST)
     \<and> c \<in> live s \<and> current_thread s = Some c
     \<and> active_threads s = of_nat (card {i. i < MAX_THREADS \<and> thread_used s i})"

text \<open>Between two operations the current thread is RUNNING, and the yield counter is below the
  number of calls that makes \<open>yield\<close> reset it.\<close>

definition sched_ok :: "kernel \<Rightarrow> bool" where
  "sched_ok s \<longleftrightarrow> (\<exists>L c. sched_inv s L c \<and> tcb_state (tcbs s c) = RUNNING)
     \<and> 0 \<le> yield_count s \<and> yield_count s < YIELD_RUNS"

lemma sched_invD:
  assumes "sched_inv s L c"
  shows "sched_struct (sched_heap s) (live s) L" "t \<in> live s \<Longrightarrow> thread_ok L c t (tcbs s t)"
    "by_wakeup s (L TIMEOUT_LIST)" "c \<in> live s" "current_thread s = Some c"
    "active_threads s = of_nat (card {i. i < MAX_THREADS \<and> thread_used s i})"
  using assms by (simp_all add: sched_inv_def)

lemma thread_okD:
  assumes "thread_ok L c t T"
  shows "0 \<le> priority T" "priority T < 10"
    "0 \<le> i \<Longrightarrow> i < 10 \<Longrightarrow> sched_node t \<in> set (L (SCHED i)) \<longleftrightarrow>
       t \<noteq> idle_thread \<and> tcb_state T = READY \<and> phase T = CTX_CLEAN \<and> priority T = i"
    "sched_node t \<in> set (L TIMEOUT_LIST) \<longleftrightarrow> wakeup_time T \<noteq> NO_TIMEOUT"
    "wakeup_time T \<noteq> NO_TIMEOUT \<Longrightarrow> tcb_state T = STOPPED"
    "phase T = CTX_DIRTY \<longleftrightarrow> t = c" "tcb_state T = RUNNING \<Longrightarrow> t = c" "tcb_state T = EXITED \<Longrightarrow> t = c"
    "tcb_state T = INIT \<Longrightarrow> t \<noteq> c"
    "t = idle_thread \<Longrightarrow> tcb_type T = IDLE_THREAD" "t = idle_thread \<Longrightarrow> tcb_state T = READY \<or> tcb_state T = RUNNING"
    "t \<noteq> idle_thread \<Longrightarrow> tcb_type T = NORMAL_THREAD"
  using assms by (auto simp: thread_ok_def)

lemma live_idle [simp]: "idle_thread \<in> live s"
  by (simp add: live_def)

lemma live_frame [simp]:
  "live (upd_tcb t f s) = live s" "live (upd_cpu g s) = live s" "live (s\<lparr>sched_heap := h\<rparr>) = live s"
  "live (s\<lparr>cpu := x\<rparr>) = live s" "live (s\<lparr>yield_count := y\<rparr>) = live s" "live (s\<lparr>tcbs := T\<rparr>) = live s"
  "live (s\<lparr>previous_thread := p\<rparr>) = live s" "live (s\<lparr>current_thread := p\<rparr>) = live s"
  "live (s\<lparr>frames := fr\<rparr>) = live s"
  by (simp_all add: live_def)

text \<open>The fields the invariant does not speak about.\<close>

lemma sched_inv_frame [simp]:
  "sched_inv (s\<lparr>cpu := x\<rparr>) L c = sched_inv s L c"
  "sched_inv (upd_cpu g s) L c = sched_inv s L c"
  "sched_inv (s\<lparr>previous_thread := p\<rparr>) L c = sched_inv s L c"
  "sched_inv (s\<lparr>frames := fr\<rparr>) L c = sched_inv s L c"
  "sched_inv (s\<lparr>yield_count := y\<rparr>) L c = sched_inv s L c"
  by (simp_all add: sched_inv_def by_wakeup_def)

lemma sched_inv_upd_tcb:
  assumes inv: "sched_inv s L c" and ok: "thread_ok L c t (f (tcbs s t))"
    and w: "wakeup_time (f (tcbs s t)) = wakeup_time (tcbs s t)"
  shows "sched_inv (upd_tcb t f s) L c"
proof -
  have "by_wakeup (upd_tcb t f s) (L TIMEOUT_LIST) = by_wakeup s (L TIMEOUT_LIST)"
    unfolding by_wakeup_def by (rule arg_cong [where f = sorted]) (simp add: upd_tcb_apply w)
  with sched_invD [OF inv] ok show ?thesis by (simp add: sched_inv_def upd_tcb_apply)
qed

section \<open>Waking a thread\<close>

lemma thread_ok_cong:
  "(\<And>l. l \<in> heads \<Longrightarrow> sched_node u \<in> set (L' l) \<longleftrightarrow> sched_node u \<in> set (L l)) \<Longrightarrow>
   thread_ok L' c u T = thread_ok L c u T"
  by (simp add: thread_ok_def)

lemma by_wakeup_upd:
  "sched_node t \<notin> set ns \<Longrightarrow> set ns \<subseteq> range sched_node \<Longrightarrow> by_wakeup (upd_tcb t f s) ns = by_wakeup s ns"
  unfolding by_wakeup_def
  by (rule arg_cong [where f = sorted]) (auto simp: upd_tcb_apply)

lemma by_wakeup_heap [simp]: "by_wakeup (s\<lparr>sched_heap := h\<rparr>) ns = by_wakeup s ns"
  by (simp add: by_wakeup_def)

lemma by_wakeup_filter: "by_wakeup s ns \<Longrightarrow> by_wakeup s (filter P ns)"
  by (simp add: by_wakeup_def sorted_map sorted_wrt_filter)

lemma timeout_nodes: "sched_struct h U L \<Longrightarrow> set (L TIMEOUT_LIST) \<subseteq> range sched_node"
  using sched_structD(4) [of h U L TIMEOUT_LIST] by auto

text \<open>The queues after \<open>sched_make_ready\<close>: out of the timeout list, and into the run queue of its
  priority when its context is clean.\<close>

definition ready_lists ::
    "tcb_ptr \<Rightarrow> TCB \<Rightarrow> (sched_addr \<Rightarrow> sched_addr list) \<Rightarrow> (sched_addr \<Rightarrow> sched_addr list)" where
  "ready_lists t T L =
     (let L = L(TIMEOUT_LIST := filter (\<lambda>n. n \<noteq> sched_node t) (L TIMEOUT_LIST));
          q = SCHED (priority T)
      in if phase T = CTX_CLEAN then L(q := L q @ [sched_node t]) else L)"

definition make_ready_tcb :: "TCB \<Rightarrow> TCB" where
  "make_ready_tcb T = T\<lparr>wakeup_time := NO_TIMEOUT, tcb_state := READY\<rparr>"

lemma make_ready_tcb_fields [simp]:
  "priority (make_ready_tcb T) = priority T" "phase (make_ready_tcb T) = phase T"
  "wakeup_time (make_ready_tcb T) = NO_TIMEOUT" "tcb_state (make_ready_tcb T) = READY"
  "tcb_type (make_ready_tcb T) = tcb_type T"
  by (simp_all add: make_ready_tcb_def)

lemma blocked_not_queued:
  "thread_ok L c t T \<Longrightarrow> tcb_state T = STOPPED \<or> tcb_state T = INIT \<Longrightarrow> 0 \<le> i \<Longrightarrow> i < 10 \<Longrightarrow>
   sched_node t \<notin> set (L (SCHED i))"
  by (auto simp: thread_ok_def)

lemma ready_lists_ok:
  assumes ok: "thread_ok L c u (tcbs s u)" and t: "thread_ok L c t (tcbs s t)"
    and st: "tcb_state (tcbs s t) = STOPPED \<or> tcb_state (tcbs s t) = INIT"
  shows "thread_ok (ready_lists t (tcbs s t) L) c u (tcbs (upd_tcb t make_ready_tcb s) u)"
proof (cases "u = t")
  case True
  have nt: "t \<noteq> idle_thread" using thread_okD(11) [OF t] st by auto
  have nq: "sched_node t \<notin> set (L (SCHED i))" if "0 \<le> i" "i < 10" for i
    using blocked_not_queued [OF t st that] .
  have q: "sched_node t \<in> set (ready_lists t (tcbs s t) L (SCHED i)) \<longleftrightarrow>
      phase (tcbs s t) = CTX_CLEAN \<and> priority (tcbs s t) = i" if "0 \<le> i" "i < 10" for i
    using nq [OF that] by (auto simp: ready_lists_def Let_def)
  have o: "sched_node t \<notin> set (ready_lists t (tcbs s t) L TIMEOUT_LIST)"
    by (simp add: ready_lists_def Let_def)
  show ?thesis
    unfolding True thread_ok_def upd_tcb_apply
    using q o nt thread_okD(1,2,6,12) [OF t] by simp
next
  case False
  then have "sched_node u \<in> set (ready_lists t (tcbs s t) L l) \<longleftrightarrow> sched_node u \<in> set (L l)" for l
    by (auto simp: ready_lists_def Let_def)
  then have "thread_ok (ready_lists t (tcbs s t) L) c u (tcbs s u) = thread_ok L c u (tcbs s u)"
    by (rule thread_ok_cong)
  with ok False show ?thesis by (simp add: upd_tcb_apply)
qed

lemma make_ready_inv:
  assumes inv: "sched_inv s L c" and t: "t \<in> live s"
    and st: "tcb_state (tcbs s t) = STOPPED \<or> tcb_state (tcbs s t) = INIT"
  obtains h where "sched_make_ready t s = Some (upd_tcb t make_ready_tcb (s\<lparr>sched_heap := h\<rparr>))"
    and "sched_inv (upd_tcb t make_ready_tcb (s\<lparr>sched_heap := h\<rparr>)) (ready_lists t (tcbs s t) L) c"
proof -
  let ?T = "tcbs s t" and ?h = "sched_heap s"
  let ?tl = "filter (\<lambda>n. n \<noteq> sched_node t) (L TIMEOUT_LIST)"
  let ?L1 = "L(TIMEOUT_LIST := ?tl)"
  note D = sched_invD [OF inv] and ok = sched_invD(2) [OF inv t]
  define h1 where "h1 = (if wakeup_time ?T \<noteq> NO_TIMEOUT then rlist_remove ?h (sched_node t) else ?h)"
  have s1: "sched_struct h1 (live s) ?L1"
  proof (cases "wakeup_time ?T \<noteq> NO_TIMEOUT")
    case True
    then have "sched_node t \<in> set (L TIMEOUT_LIST)" using thread_okD(4) [OF ok] by simp
    with True struct_remove [OF D(1)] show ?thesis by (simp add: h1_def)
  next
    case False
    then have "sched_node t \<notin> set (L TIMEOUT_LIST)" using thread_okD(4) [OF ok] by simp
    then have "?tl = L TIMEOUT_LIST" by (auto intro: filter_True)
    with False D(1) show ?thesis by (simp add: h1_def)
  qed
  have nxt: "nxt ?h (sched_node t) \<noteq> sched_node t" if "wakeup_time ?T \<noteq> NO_TIMEOUT"
  proof -
    from that have "sched_node t \<in> set (L TIMEOUT_LIST)" using thread_okD(4) [OF ok] by simp
    then obtain us vs where uv: "L TIMEOUT_LIST = us @ sched_node t # vs" by (auto simp: in_set_conv_decomp)
    have r: "rlist ?h TIMEOUT_LIST (us @ sched_node t # vs)"
      using struct_rlist [OF D(1), of TIMEOUT_LIST] uv by simp
    then have "distinct (TIMEOUT_LIST # us @ sched_node t # vs)" by (rule rlist_distinct)
    then show ?thesis using rlist_nxt_node(1) [OF r] by (cases vs) auto
  qed
  have un: "unlisted ?L1 t"
    using blocked_not_queued [OF ok st] by (auto simp: unlisted_def heads_def SCHED_QUEUES_def)
  have pr: "SCHED (priority ?T) \<in> heads" using thread_okD(1,2) [OF ok] by simp
  define h2 where "h2 = (if phase ?T = CTX_CLEAN then rlist_push_back h1 (SCHED (priority ?T)) (sched_node t) else h1)"
  have s2: "sched_struct h2 (live s) (ready_lists t ?T L)"
    using s1 struct_push [OF s1 pr t un] by (simp add: h2_def ready_lists_def Let_def)
  let ?s = "upd_tcb t make_ready_tcb (s\<lparr>sched_heap := h2\<rparr>)"
  have same: "wakeup_time ?T = NO_TIMEOUT \<Longrightarrow> upd_tcb t (\<lambda>x. x\<lparr>tcb_state := READY\<rparr>) s = upd_tcb t make_ready_tcb s"
    by (cases ?T) (simp add: upd_tcb_def make_ready_tcb_def)
  have "sched_make_ready t s = Some ?s"
    using st nxt same thread_okD(5) [OF ok]
    by (auto simp: sched_make_ready_def h1_def h2_def upd_tcb_apply upd_tcb_commute sched_queue_add_def
        make_ready_tcb_def [abs_def] Let_def)
  moreover have "sched_inv ?s (ready_lists t ?T L) c"
  proof -
    have to: "ready_lists t ?T L TIMEOUT_LIST = ?tl" by (simp add: ready_lists_def Let_def)
    have "by_wakeup s ?tl" using D(3) by (rule by_wakeup_filter)
    then have "by_wakeup (upd_tcb t make_ready_tcb (s\<lparr>sched_heap := h2\<rparr>)) ?tl"
      using timeout_nodes [OF D(1)] by (subst by_wakeup_upd) auto
    moreover have "thread_ok (ready_lists t ?T L) c u (tcbs (upd_tcb t make_ready_tcb (s\<lparr>sched_heap := h2\<rparr>)) u)"
      if "u \<in> live s" for u
      using ready_lists_ok [OF D(2) [OF that] ok st] by (simp add: upd_tcb_apply split: if_splits)
    ultimately show ?thesis using D s2 by (simp add: sched_inv_def to)
  qed
  ultimately show thesis by (rule that)
qed

section \<open>Expired timeouts\<close>

definition expired :: "kernel \<Rightarrow> u32 \<Rightarrow> tcb_ptr \<Rightarrow> bool" where
  "expired s curtime t \<longleftrightarrow>
     t \<in> live s \<and> wakeup_time (tcbs s t) \<noteq> NO_TIMEOUT \<and> wakeup_time (tcbs s t) \<le> curtime"

definition wake_all :: "kernel \<Rightarrow> u32 \<Rightarrow> sched_store \<Rightarrow> kernel" where
  "wake_all s curtime h =
     s\<lparr>tcbs := (\<lambda>t. if expired s curtime t then make_ready_tcb (tcbs s t) else tcbs s t), sched_heap := h\<rparr>"

lemma wake_all_none: "(\<And>t. \<not> expired s curtime t) \<Longrightarrow> wake_all s curtime (sched_heap s) = s"
  by (simp add: wake_all_def)

lemma wake_all_step:
  assumes "expired s curtime t"
  shows "wake_all (upd_tcb t make_ready_tcb (s\<lparr>sched_heap := h\<rparr>)) curtime h' = wake_all s curtime h'"
proof -
  have "expired (upd_tcb t make_ready_tcb (s\<lparr>sched_heap := h\<rparr>)) curtime u \<longleftrightarrow> expired s curtime u \<and> u \<noteq> t" for u
    by (simp add: expired_def upd_tcb_apply)
  with assms show ?thesis
    by (auto simp: wake_all_def upd_tcb_def fun_eq_iff)
qed

lemma timeout_head:
  assumes inv: "sched_inv s L c" and ns: "L TIMEOUT_LIST = n # ns"
  obtains t where "n = sched_node t" "t \<in> live s" "key (sched_heap s) (nxt (sched_heap s) TIMEOUT_LIST) = Some t"
    "wakeup_time (tcbs s t) \<noteq> NO_TIMEOUT" "tcb_state (tcbs s t) = STOPPED"
    "\<forall>u\<in>live s. wakeup_time (tcbs s u) \<noteq> NO_TIMEOUT \<longrightarrow> wakeup_time (tcbs s t) \<le> wakeup_time (tcbs s u)"
proof -
  note D = sched_invD [OF inv]
  obtain t where t: "t \<in> live s" "n = sched_node t" using sched_structD(5) [OF D(1), of TIMEOUT_LIST n] ns by auto
  have r: "rlist (sched_heap s) TIMEOUT_LIST (n # ns)" using struct_rlist [OF D(1), of TIMEOUT_LIST] ns by simp
  have k: "key (sched_heap s) (nxt (sched_heap s) TIMEOUT_LIST) = Some t"
    using rlist_nxt [OF r] sched_structD(3) [OF D(1) t(1)] t(2) by simp
  have w: "wakeup_time (tcbs s t) \<noteq> NO_TIMEOUT"
    using thread_okD(4) [OF D(2) [OF t(1)]] ns t(2) by simp
  have "wakeup_time (tcbs s t) \<le> wakeup_time (tcbs s u)"
    if u: "u \<in> live s" "wakeup_time (tcbs s u) \<noteq> NO_TIMEOUT" for u
  proof -
    have "sched_node u \<in> set (n # ns)" using thread_okD(4) [OF D(2) [OF u(1)]] u(2) ns by simp
    with D(3) ns t(2) show ?thesis by (force simp: by_wakeup_def)
  qed
  with t w k thread_okD(5) [OF D(2) [OF t(1)] w] show thesis by (intro that) auto
qed

lemma wakeup_expired_inv:
  assumes "sched_inv s L c"
  obtains h L' where "wakeup_expired_loop curtime s = Some (wake_all s curtime h)"
    and "sched_inv (wake_all s curtime h) L' c"
  using assms
proof (induction "length (L TIMEOUT_LIST)" arbitrary: s L thesis rule: less_induct)
  case less
  note inv = less.prems(2)
  note D = sched_invD [OF inv]
  have emp: "is_rlist_empty (sched_heap s) TIMEOUT_LIST \<longleftrightarrow> L TIMEOUT_LIST = []"
    using struct_empty_iff [OF D(1), of TIMEOUT_LIST] by simp
  show ?case
  proof (cases "L TIMEOUT_LIST")
    case Nil
    have "\<not> expired s curtime t" for t
      using Nil thread_okD(4) [OF D(2), of t] by (auto simp: expired_def)
    then have "wake_all s curtime (sched_heap s) = s" by (rule wake_all_none)
    moreover have "wakeup_expired_loop curtime s = Some s"
      using Nil emp by (subst wakeup_expired_loop.simps) simp
    ultimately show ?thesis using less.prems(1) [of "sched_heap s" L] inv by simp
  next
    case (Cons n ns)
    obtain t where t: "n = sched_node t" "t \<in> live s"
      and k: "key (sched_heap s) (nxt (sched_heap s) TIMEOUT_LIST) = Some t"
      and w: "wakeup_time (tcbs s t) \<noteq> NO_TIMEOUT" and st: "tcb_state (tcbs s t) = STOPPED"
      and least: "\<forall>u\<in>live s. wakeup_time (tcbs s u) \<noteq> NO_TIMEOUT \<longrightarrow> wakeup_time (tcbs s t) \<le> wakeup_time (tcbs s u)"
      by (rule timeout_head [OF inv Cons])
    show ?thesis
    proof (cases "wakeup_time (tcbs s t) > curtime")
      case True
      have "\<not> expired s curtime u" for u
        using least True by (auto simp: expired_def)
      then have "wake_all s curtime (sched_heap s) = s" by (rule wake_all_none)
      moreover have "wakeup_expired_loop curtime s = Some s"
        using True k by (subst wakeup_expired_loop.simps) simp
      ultimately show ?thesis using less.prems(1) [of "sched_heap s" L] inv by simp
    next
      case False
      obtain h where mr: "sched_make_ready t s = Some (upd_tcb t make_ready_tcb (s\<lparr>sched_heap := h\<rparr>))"
        and inv1: "sched_inv (upd_tcb t make_ready_tcb (s\<lparr>sched_heap := h\<rparr>)) (ready_lists t (tcbs s t) L) c"
        using make_ready_inv [OF inv t(2)] st by metis
      let ?s1 = "upd_tcb t make_ready_tcb (s\<lparr>sched_heap := h\<rparr>)"
      have step: "wakeup_expired_loop curtime s = wakeup_expired_loop curtime ?s1"
        using False k mr emp Cons by (subst wakeup_expired_loop.simps) simp
      have "length (ready_lists t (tcbs s t) L TIMEOUT_LIST) < length (L TIMEOUT_LIST)"
        using Cons t(1) le_imp_less_Suc [OF length_filter_le] by (simp add: ready_lists_def Let_def)
      then obtain h' L' where "wakeup_expired_loop curtime ?s1 = Some (wake_all ?s1 curtime h')"
        "sched_inv (wake_all ?s1 curtime h') L' c"
        using less.hyps [OF _ _ inv1] by blast
      moreover have "expired s curtime t" using False t w by (simp add: expired_def)
      ultimately show ?thesis
        using less.prems(1) [of h' L'] step by (simp add: wake_all_step)
    qed
  qed
qed

section \<open>Registering a timeout\<close>

lemma timeout_position_eq:
  assumes "rlist (sched_heap s) TIMEOUT_LIST (us @ vs)"
    and "\<And>n. n \<in> set vs \<Longrightarrow> key (sched_heap s) n = Some (tcb_of n)"
  shows "timeout_position s w (hd (vs @ [TIMEOUT_LIST]))
    = Some (hd (dropWhile (\<lambda>n. wakeup_time (tcbs s (tcb_of n)) \<le> w) vs @ [TIMEOUT_LIST]))"
  using assms
proof (induction vs arbitrary: us)
  case Nil
  show ?case by (simp add: timeout_position.simps)
next
  case (Cons v vs)
  have n: "nxt (sched_heap s) v = hd (vs @ [TIMEOUT_LIST])" "v \<noteq> TIMEOUT_LIST"
    using rlist_nxt_node [OF Cons.prems(1)] by auto
  have "timeout_position s w (hd (vs @ [TIMEOUT_LIST]))
      = Some (hd (dropWhile (\<lambda>n. wakeup_time (tcbs s (tcb_of n)) \<le> w) vs @ [TIMEOUT_LIST]))"
    using Cons.prems by (intro Cons.IH [of "us @ [v]"]) auto
  then show ?case
    using n Cons.prems(2) [of v] by (subst timeout_position.simps) (auto simp: not_le)
qed

lemma sorted_insert_split:
  fixes f :: "'a \<Rightarrow> 'b::linorder"
  assumes "sorted (map f xs)"
  shows "sorted (map f (takeWhile (\<lambda>x. f x \<le> w) xs) @ w # map f (dropWhile (\<lambda>x. f x \<le> w) xs))"
  using assms
proof (induction xs)
  case (Cons x xs)
  then show ?case
  proof (cases "f x \<le> w")
    case True
    have "f x \<le> y" if "y \<in> set (map f (takeWhile (\<lambda>x. f x \<le> w) xs) @ w # map f (dropWhile (\<lambda>x. f x \<le> w) xs))" for y
      using that Cons.prems True by (auto dest: set_takeWhileD set_dropWhileD)
    with Cons True show ?thesis by simp
  next
    case False
    with Cons.prems show ?thesis by fastforce
  qed
qed simp

text \<open>A thread not in any list, blocked, with the new wakeup time goes to its place in the list.\<close>

lemma sched_inv_unlisted:
  assumes inv: "sched_inv s L c" and w: "wakeup_time (tcbs s c) = NO_TIMEOUT"
  shows "unlisted L c"
proof -
  note ok = sched_invD(2) [OF inv sched_invD(4) [OF inv]]
  have "phase (tcbs s c) = CTX_DIRTY" using thread_okD(6) [OF ok] by simp
  then have "sched_node c \<notin> set (L (SCHED i))" if "0 \<le> i" "i < 10" for i
    using thread_okD(3) [OF ok that] by simp
  then show ?thesis
    using thread_okD(4) [OF ok] w by (auto simp: unlisted_def heads_def SCHED_QUEUES_def)
qed

lemma register_timeout_inv:
  assumes inv: "sched_inv s L c" and st: "tcb_state (tcbs s c) = STOPPED"
    and wc: "wakeup_time (tcbs s c) = NO_TIMEOUT" and to: "timeout \<noteq> NO_TIMEOUT"
    and w: "w = bios_clock (cpu s) + timeout" "w \<noteq> NO_TIMEOUT"
  obtains h L' where
    "sched_register_timeout c timeout s = Some (upd_tcb c (\<lambda>t. t\<lparr>wakeup_time := w\<rparr>) (s\<lparr>sched_heap := h\<rparr>))"
    "sched_inv (upd_tcb c (\<lambda>t. t\<lparr>wakeup_time := w\<rparr>) (s\<lparr>sched_heap := h\<rparr>)) L' c"
proof -
  note D = sched_invD [OF inv]
  let ?f = "\<lambda>n. wakeup_time (tcbs s (tcb_of n))" and ?tl = "L TIMEOUT_LIST"
  let ?us = "takeWhile (\<lambda>n. ?f n \<le> w) ?tl" and ?vs = "dropWhile (\<lambda>n. ?f n \<le> w) ?tl"
  let ?n = "hd (?vs @ [TIMEOUT_LIST])"
  let ?h = "rl_splice (sched_heap s) (prv (sched_heap s) ?n) (sched_node c)"
  let ?L = "L(TIMEOUT_LIST := ?us @ sched_node c # ?vs)"
  let ?u = "upd_tcb c (\<lambda>t. t\<lparr>wakeup_time := w\<rparr>)"
  have un: "unlisted L c" by (rule sched_inv_unlisted [OF inv wc])
  have nodes: "n = sched_node (tcb_of n) \<and> tcb_of n \<in> live s" if "n \<in> set ?tl" for n
    using sched_structD(5) [OF D(1) _ that] by auto
  have r: "rlist (sched_heap s) TIMEOUT_LIST ?tl" by (rule struct_rlist [OF D(1)]) simp
  have k: "key (sched_heap s) n = Some (tcb_of n)" if "n \<in> set ?tl" for n
    using nodes [OF that] sched_structD(3) [OF D(1), of "tcb_of n"] by metis
  have other: "wakeup_time (tcbs (?u s) (tcb_of n)) = ?f n" if "n \<in> set ?tl" for n
    using nodes [OF that] un that by (auto simp: upd_tcb_apply unlisted_def)
  have "timeout_position (?u s) w (hd (?tl @ [TIMEOUT_LIST]))
      = Some (hd (dropWhile (\<lambda>n. wakeup_time (tcbs (?u s) (tcb_of n)) \<le> w) ?tl @ [TIMEOUT_LIST]))"
    using r k by (intro timeout_position_eq [where us = "[]"]) auto
  also have "dropWhile (\<lambda>n. wakeup_time (tcbs (?u s) (tcb_of n)) \<le> w) ?tl = ?vs"
    by (rule dropWhile_cong) (simp_all add: other)
  finally have pos: "timeout_position (?u s) w (nxt (sched_heap s) TIMEOUT_LIST) = Some ?n"
    using rlist_nxt [OF r] by simp
  have eq: "sched_register_timeout c timeout s = Some (?u (s\<lparr>sched_heap := ?h\<rparr>))"
    using to pos by (simp add: sched_register_timeout_def w(1) [symmetric] upd_tcb_apply upd_tcb_commute Let_def)
  have struct: "sched_struct ?h (live s) ?L"
    using un D(4) by (intro struct_insert [OF D(1)]) auto
  have mem: "sched_node u \<in> set (?L l) \<longleftrightarrow> sched_node u \<in> set (L l) \<or> l = TIMEOUT_LIST \<and> u = c" for u l
  proof -
    have "set ?us \<union> set ?vs = set ?tl" by (metis set_append takeWhile_dropWhile_id)
    then have "sched_node u \<in> set (?us @ sched_node c # ?vs) \<longleftrightarrow> u = c \<or> sched_node u \<in> set ?tl"
      unfolding set_append list.set by blast
    then show ?thesis by (cases "l = TIMEOUT_LIST") auto
  qed
  have oks: "thread_ok ?L c u (tcbs (?u s) u)" if u: "u \<in> live s" for u
  proof (cases "u = c")
    case True
    have "sched_node c \<notin> set (L (SCHED i))" if "0 \<le> i" "i < 10" for i
      using un that by (simp add: unlisted_def)
    then show ?thesis
      using D(2) [OF D(4)] st w(2) unfolding True thread_ok_def mem upd_tcb_apply by simp
  next
    case False
    then have "thread_ok ?L c u (tcbs s u) = thread_ok L c u (tcbs s u)"
      by (intro thread_ok_cong) (simp add: mem del: fun_upd_apply)
    with D(2) [OF u] False show ?thesis by (simp add: upd_tcb_apply)
  qed
  have "sorted (map ?f ?us @ w # map ?f ?vs)"
    using D(3) unfolding by_wakeup_def by (rule sorted_insert_split)
  moreover have "map (\<lambda>n. wakeup_time (tcbs (?u s) (tcb_of n))) (?us @ sched_node c # ?vs) = map ?f ?us @ w # map ?f ?vs"
  proof -
    have "map (\<lambda>n. wakeup_time (tcbs (?u s) (tcb_of n))) xs = map ?f xs" if "set xs \<subseteq> set ?tl" for xs
      using that other by (auto intro!: map_cong)
    moreover have "set ?us \<subseteq> set ?tl" "set ?vs \<subseteq> set ?tl" by (auto dest: set_takeWhileD set_dropWhileD)
    ultimately show ?thesis by (simp add: upd_tcb_def [of c])
  qed
  ultimately have "by_wakeup (?u s) (?L TIMEOUT_LIST)" unfolding by_wakeup_def fun_upd_same by (simp only:)
  then have "by_wakeup (?u (s\<lparr>sched_heap := ?h\<rparr>)) (?L TIMEOUT_LIST)"
    by (simp only: upd_tcb_commute(1) [symmetric] by_wakeup_heap)
  moreover have "thread_ok ?L c u (tcbs (?u (s\<lparr>sched_heap := ?h\<rparr>)) u)" if "u \<in> live s" for u
    using oks [OF that] by (simp add: upd_tcb_def)
  ultimately have "sched_inv (?u (s\<lparr>sched_heap := ?h\<rparr>)) ?L c"
    using D struct by (simp add: sched_inv_def)
  with eq show thesis by (rule that)
qed

section \<open>Boosting\<close>

abbreviation raise :: "TCB \<Rightarrow> TCB" where
  "raise T \<equiv> T\<lparr>priority := priority T - 1\<rparr>"

lemma boost_step:
  assumes inv: "sched_inv s L c" and i: "1 \<le> i" "i < 10" and q: "L (SCHED i) = sched_node t # ns"
  defines "h \<equiv> rlist_push_back (fst (rlist_pop_front (sched_heap s) (SCHED i))) (SCHED (i - 1)) (sched_node t)"
  shows "boost_queue_loop i s = boost_queue_loop i (upd_tcb t raise (s\<lparr>sched_heap := h\<rparr>))"
    and "sched_inv (upd_tcb t raise (s\<lparr>sched_heap := h\<rparr>))
          (L(SCHED i := ns, SCHED (i - 1) := L (SCHED (i - 1)) @ [sched_node t])) c"
proof -
  note D = sched_invD [OF inv]
  have hd: "SCHED i \<in> heads" "SCHED (i - 1) \<in> heads" using i by auto
  have dist: "distinct (L (SCHED i))" by (rule family_distinct [OF sched_structD(1) [OF D(1)] hd(1)])
  note p = struct_pop [OF D(1) hd(1) q]
  let ?L1 = "L(SCHED i := ns)"
  let ?L = "?L1(SCHED (i - 1) := ?L1 (SCHED (i - 1)) @ [sched_node t])"
  have only: "sched_node t \<in> set (L l) \<longleftrightarrow> l = SCHED i" if "l \<in> heads" for l
    using family_unique [OF sched_structD(1) [OF D(1)] that hd(1)] q by (auto simp del: heads_simps)
  have un: "unlisted ?L1 t"
    using only dist q by (auto simp: unlisted_def split: if_splits)
  have k: "key h (sched_node t) = Some t"
    using sched_structD(3) [OF D(1) p(3)] by (simp add: h_def)
  show "boost_queue_loop i s = boost_queue_loop i (upd_tcb t raise (s\<lparr>sched_heap := h\<rparr>))"
    using struct_empty_iff [OF D(1) hd(1)] q p(2) k
    by (subst boost_queue_loop.simps) (simp add: case_prod_beta h_def Let_def)
  have "sched_struct h (live s) ?L"
    unfolding h_def by (rule struct_push [OF p(1) hd(2) p(3) un])
  moreover have "thread_ok ?L c u (tcbs (upd_tcb t raise s) u)" if u: "u \<in> live s" for u
  proof (cases "u = t")
    case True
    have q': "sched_node t \<in> set (?L (SCHED j)) \<longleftrightarrow> j = i - 1" if "0 \<le> j" "j < 10" for j
      using only [of "SCHED j"] dist q that i by auto
    have "t \<noteq> idle_thread \<and> tcb_state (tcbs s t) = READY \<and> phase (tcbs s t) = CTX_CLEAN \<and> priority (tcbs s t) = i"
      using thread_okD(3) [OF D(2) [OF p(3)], of i] q i by simp
    moreover have "sched_node t \<notin> set (?L TIMEOUT_LIST)" using only [of TIMEOUT_LIST] by simp
    ultimately show ?thesis
      using q' i D(2) [OF p(3)] only unfolding True thread_ok_def upd_tcb_apply by auto
  next
    case False
    then have "thread_ok ?L c u (tcbs s u) = thread_ok L c u (tcbs s u)"
      using q by (intro thread_ok_cong) auto
    with D(2) [OF u] False show ?thesis by (simp add: upd_tcb_apply)
  qed
  then have "thread_ok ?L c u (tcbs (upd_tcb t raise (s\<lparr>sched_heap := h\<rparr>)) u)" if "u \<in> live s" for u
    using that by (simp add: upd_tcb_def)
  moreover have "by_wakeup (upd_tcb t raise (s\<lparr>sched_heap := h\<rparr>)) (?L TIMEOUT_LIST)"
    using D(3) only [of TIMEOUT_LIST] timeout_nodes [OF D(1)] by (subst by_wakeup_upd) auto
  ultimately have "sched_inv (upd_tcb t raise (s\<lparr>sched_heap := h\<rparr>)) ?L c"
    using D by (simp add: sched_inv_def)
  then show "sched_inv (upd_tcb t raise (s\<lparr>sched_heap := h\<rparr>))
          (L(SCHED i := ns, SCHED (i - 1) := L (SCHED (i - 1)) @ [sched_node t])) c"
    by simp
qed

definition raise_all :: "kernel \<Rightarrow> sched_addr set \<Rightarrow> sched_store \<Rightarrow> kernel" where
  "raise_all s N h = s\<lparr>tcbs := (\<lambda>t. if sched_node t \<in> N then raise (tcbs s t) else tcbs s t), sched_heap := h\<rparr>"

lemma raise_all_empty [simp]: "raise_all s {} (sched_heap s) = s"
  by (simp add: raise_all_def)

lemma raise_all_step:
  "sched_node t \<notin> N \<Longrightarrow> raise_all (upd_tcb t raise (s\<lparr>sched_heap := h\<rparr>)) N h' = raise_all s (insert (sched_node t) N) h'"
  by (auto simp: raise_all_def upd_tcb_def fun_eq_iff)

lemma raise_all_union:
  assumes "M \<inter> N = {}"
  shows "raise_all (raise_all s M h) N h' = raise_all s (M \<union> N) h'"
proof -
  have "(if sched_node t \<in> N then raise (if sched_node t \<in> M then raise (tcbs s t) else tcbs s t)
         else if sched_node t \<in> M then raise (tcbs s t) else tcbs s t)
      = (if sched_node t \<in> M \<union> N then raise (tcbs s t) else tcbs s t)" for t
    using assms by auto
  then show ?thesis by (simp add: raise_all_def cong: if_cong)
qed

lemma boost_queue_inv:
  assumes "sched_inv s L c" and "1 \<le> i" "i < 10"
  obtains h where "boost_queue_loop i s = Some (raise_all s (set (L (SCHED i))) h)"
    and "sched_inv (raise_all s (set (L (SCHED i))) h)
          (L(SCHED (i - 1) := L (SCHED (i - 1)) @ L (SCHED i), SCHED i := [])) c"
  using assms
proof (induction "L (SCHED i)" arbitrary: s L thesis)
  case Nil
  have "is_rlist_empty (sched_heap s) (SCHED i)"
    using struct_empty_iff [OF sched_invD(1) [OF Nil.prems(2)], of "SCHED i"] Nil by simp
  then have "boost_queue_loop i s = Some s" by (subst boost_queue_loop.simps) simp
  moreover have "L(SCHED (i - 1) := L (SCHED (i - 1)) @ L (SCHED i), SCHED i := []) = L"
    using Nil.hyps by (auto simp: fun_eq_iff)
  ultimately show ?case using Nil by (intro Nil.prems(1) [of "sched_heap s"]) auto
next
  case (Cons n ns)
  note inv = Cons.prems(2)
  note D = sched_invD [OF inv]
  obtain t where t: "n = sched_node t"
    using sched_structD(5) [OF D(1), of "SCHED i" n] Cons.hyps(2) [symmetric] Cons.prems(3,4) by auto
  have q: "L (SCHED i) = sched_node t # ns" using Cons.hyps(2) t by simp
  note st = boost_step [OF inv Cons.prems(3,4) q]
  let ?L = "L(SCHED i := ns, SCHED (i - 1) := L (SCHED (i - 1)) @ [sched_node t])"
  have ns: "ns = ?L (SCHED i)" by simp
  from Cons.hyps(1) [OF ns _ st(2) Cons.prems(3,4)] obtain h where
    h: "boost_queue_loop i s = Some (raise_all (upd_tcb t raise (s\<lparr>sched_heap :=
          rlist_push_back (fst (rlist_pop_front (sched_heap s) (SCHED i))) (SCHED (i - 1)) (sched_node t)\<rparr>)) (set ns) h)"
      "sched_inv (raise_all (upd_tcb t raise (s\<lparr>sched_heap :=
          rlist_push_back (fst (rlist_pop_front (sched_heap s) (SCHED i))) (SCHED (i - 1)) (sched_node t)\<rparr>)) (set ns) h)
        (?L(SCHED (i - 1) := ?L (SCHED (i - 1)) @ ns, SCHED i := [])) c"
    unfolding st(1) [symmetric] by auto
  have "distinct (L (SCHED i))"
    using family_distinct [OF sched_structD(1) [OF D(1)], of "SCHED i"] Cons.prems by simp
  then have "sched_node t \<notin> set ns" using q by simp
  note h = h [unfolded raise_all_step [OF this]]
  have "?L(SCHED (i - 1) := ?L (SCHED (i - 1)) @ ns, SCHED i := [])
      = L(SCHED (i - 1) := L (SCHED (i - 1)) @ L (SCHED i), SCHED i := [])"
    by (auto simp: fun_eq_iff q)
  with h show ?case using q by (intro Cons.prems(1) [of h]) auto
qed

text \<open>The queues and the raised threads after the first \<open>k\<close> rounds of the outer loop.\<close>

fun boosted :: "nat \<Rightarrow> (sched_addr \<Rightarrow> sched_addr list) \<Rightarrow> (sched_addr \<Rightarrow> sched_addr list)" where
  "boosted 0 L = L"
| "boosted (Suc k) L =
     (let L' = boosted k L in L'(SCHED (int k) := L' (SCHED (int k)) @ L' (SCHED (int k + 1)), SCHED (int k + 1) := []))"

lemma boosted_other: "l = TIMEOUT_LIST \<or> l = sched_node t \<or> l = SCHED j \<and> (j < 0 \<or> int k < j) \<Longrightarrow> boosted k L l = L l"
  by (induction k) (auto simp: Let_def)

lemma boosted_SCHED:
  "0 \<le> j \<Longrightarrow> boosted k L (SCHED j) =
     (if k = 0 \<or> int k < j then L (SCHED j) else if j = int k then []
      else if j = 0 then L (SCHED 0) @ L (SCHED 1) else L (SCHED (j + 1)))"
proof (induction k arbitrary: j)
  case (Suc k)
  have "boosted k L (SCHED (int k + 1)) = L (SCHED (int k + 1))" by (rule boosted_other [where j = "int k + 1"]) simp
  with Suc show ?case by (auto simp: Let_def)
qed simp

lemma sched_boost_loop_inv:
  assumes inv: "sched_inv s L c" and "k \<le> 9"
  shows "\<exists>h. for_each (\<lambda>i. boost_queue_loop (int i)) [1..<Suc k] s
        = Some (raise_all s (\<Union>j\<in>{1..int k}. set (L (SCHED j))) h)
      \<and> sched_inv (raise_all s (\<Union>j\<in>{1..int k}. set (L (SCHED j))) h) (boosted k L) c"
  using assms(2)
proof (induction k)
  case 0
  then show ?case using inv by (intro exI [of _ "sched_heap s"]) simp
next
  case (Suc k)
  let ?N = "\<lambda>k. \<Union>j\<in>{1..int k}. set (L (SCHED j))"
  from Suc obtain h where h: "for_each (\<lambda>i. boost_queue_loop (int i)) [1..<Suc k] s = Some (raise_all s (?N k) h)"
      "sched_inv (raise_all s (?N k) h) (boosted k L) c"
    by auto
  have up: "boosted k L (SCHED (int k + 1)) = L (SCHED (int k + 1))" by (rule boosted_other [where j = "int k + 1"]) simp
  obtain h' where h': "boost_queue_loop (int k + 1) (raise_all s (?N k) h)
        = Some (raise_all (raise_all s (?N k) h) (set (L (SCHED (int k + 1)))) h')"
      "sched_inv (raise_all (raise_all s (?N k) h) (set (L (SCHED (int k + 1)))) h') (boosted (Suc k) L) c"
    using boost_queue_inv [OF h(2), of "int k + 1"] Suc.prems up by (auto simp: Let_def)
  have fam: "list_family (sched_heap s) heads L (sched_node ` live s - (\<Union>l\<in>heads. set (L l)))"
    by (rule sched_structD(1) [OF sched_invD(1) [OF inv]])
  have "?N k \<inter> set (L (SCHED (int k + 1))) = {}"
    using family_unique [OF fam, of _ "SCHED (int k + 1)"] Suc.prems
    by (force simp: disjoint_iff)
  moreover have "?N k \<union> set (L (SCHED (int k + 1))) = ?N (Suc k)"
  proof -
    have "{1..int (Suc k)} = insert (int k + 1) {1..int k}" by auto
    then show ?thesis by (simp add: Un_commute)
  qed
  ultimately have e: "raise_all (raise_all s (?N k) h) (set (L (SCHED (int k + 1)))) h' = raise_all s (?N (Suc k)) h'"
    using raise_all_union by metis
  have "[1..<Suc (Suc k)] = [1..<Suc k] @ [Suc k]" by simp
  then have "for_each (\<lambda>i. boost_queue_loop (int i)) [1..<Suc (Suc k)] s = Some (raise_all s (?N (Suc k)) h')"
    using h(1) h'(1) e by (simp only: for_each_append) (simp add: add.commute)
  with h'(2) e show ?case by auto
qed

lemma boost_inv:
  assumes "sched_inv s L c"
  obtains h where "sched_boost_priority s = Some (raise_all s (\<Union>j\<in>{1..9}. set (L (SCHED j))) h)"
    and "sched_inv (raise_all s (\<Union>j\<in>{1..9}. set (L (SCHED j))) h) (boosted 9 L) c"
  using sched_boost_loop_inv [OF assms, of 9] by (auto simp: sched_boost_priority_def SCHED_QUEUES_def)

section \<open>Selecting the next thread\<close>

lemma awake_no_timeout: "thread_ok L c t T \<Longrightarrow> tcb_state T \<noteq> STOPPED \<Longrightarrow> wakeup_time T = NO_TIMEOUT"
  using thread_okD(5) by blast

definition next_thread :: "kernel \<Rightarrow> (sched_addr \<Rightarrow> sched_addr list) \<Rightarrow> tcb_ptr \<Rightarrow> tcb_ptr" where
  "next_thread s L c =
     (case first_from (\<lambda>i. L (SCHED (int i)) \<noteq> []) 0 SCHED_QUEUES of
        Some i \<Rightarrow> tcb_of (hd (L (SCHED (int i))))
      | None \<Rightarrow> if tcb_state (tcbs s c) = READY then c else idle_thread)"

text \<open>The queues without their first thread of highest priority.\<close>

definition pop_lists :: "(sched_addr \<Rightarrow> sched_addr list) \<Rightarrow> (sched_addr \<Rightarrow> sched_addr list)" where
  "pop_lists L =
     (case first_from (\<lambda>i. L (SCHED (int i)) \<noteq> []) 0 SCHED_QUEUES of
        Some i \<Rightarrow> L(SCHED (int i) := tl (L (SCHED (int i)))) | None \<Rightarrow> L)"

lemma first_from_cong:
  "(\<And>i. i < n \<Longrightarrow> p i = q i) \<Longrightarrow> first_from p k n = first_from q k n"
proof (induction p k n rule: first_from.induct)
  case (1 p k n)
  then show ?case by (simp add: first_from.simps [of p k] first_from.simps [of q k])
qed

lemma select_eq:
  assumes inv: "sched_inv s L c"
  obtains h where
    "sched_queue_select c s = (upd_tcb (next_thread s L c) (\<lambda>t. t\<lparr>its := QUANTUM\<rparr>) (s\<lparr>sched_heap := h\<rparr>), next_thread s L c)"
    "sched_struct h (live s) (pop_lists L)"
proof -
  note D = sched_invD [OF inv]
  let ?ff = "first_from (\<lambda>i. L (SCHED (int i)) \<noteq> []) 0 SCHED_QUEUES"
  have ff: "first_from (\<lambda>i. \<not> is_rlist_empty (sched_heap s) (SCHED (int i))) 0 SCHED_QUEUES = ?ff"
    using struct_empty_iff [OF D(1)] by (intro first_from_cong) (simp add: SCHED_QUEUES_def)
  show thesis
  proof (cases ?ff)
    case None
    then have "\<forall>j<10. L (SCHED (int j)) = []" by (simp add: first_from_None_iff SCHED_QUEUES_def)
    then have "L (SCHED 0) = []" by (auto dest: spec [of _ "0 :: nat"])
    then have "rlist (sched_heap s) (SCHED 0) []" using struct_rlist [OF D(1), of "SCHED 0"] by simp
    then have "rlist_pop_front (sched_heap s) (SCHED 0) = (sched_heap s, SCHED 0)"
      by (rule rlist_pop_front_empty)
    with None ff sched_structD(2) [OF D(1), of "SCHED 0"] D(1) show thesis
      by (intro that [of "sched_heap s"])
        (simp_all add: sched_queue_select_def next_thread_def pop_lists_def)
  next
    case (Some i)
    note F = first_from_SomeD [OF Some]
    have hd: "SCHED (int i) \<in> heads" using F by (simp add: SCHED_QUEUES_def)
    obtain n ns where q: "L (SCHED (int i)) = n # ns" using F by (cases "L (SCHED (int i))") auto
    obtain t where t: "n = sched_node t" using sched_structD(5) [OF D(1) hd, of n] q by auto
    note p = struct_pop [OF D(1) hd q [unfolded t]]
    have "key (fst (rlist_pop_front (sched_heap s) (SCHED (int i)))) (sched_node t) = Some t"
      using sched_structD(3) [OF D(1) p(3)] by simp
    with Some ff p q t show thesis
      by (intro that [of "fst (rlist_pop_front (sched_heap s) (SCHED (int i)))"])
        (simp_all add: sched_queue_select_def next_thread_def pop_lists_def case_prod_beta)
  qed
qed

text \<open>What is known of the thread selected, and of every other thread, after the selection.\<close>

lemma next_thread_facts:
  assumes inv: "sched_inv s L c" and nc: "next_thread s L c \<noteq> c"
  shows "next_thread s L c \<in> live s" and "unlisted (pop_lists L) (next_thread s L c)"
    and "tcb_state (tcbs s (next_thread s L c)) = READY \<or> next_thread s L c = idle_thread"
    and "u \<noteq> next_thread s L c \<Longrightarrow> l \<in> heads \<Longrightarrow> sched_node u \<in> set (pop_lists L l) \<longleftrightarrow> sched_node u \<in> set (L l)"
    and "pop_lists L TIMEOUT_LIST = L TIMEOUT_LIST"
    and "wakeup_time (tcbs s (next_thread s L c)) = NO_TIMEOUT"
proof -
  note D = sched_invD [OF inv]
  let ?n = "next_thread s L c"
  have "?n \<in> live s \<and> unlisted (pop_lists L) ?n \<and> (tcb_state (tcbs s ?n) = READY \<or> ?n = idle_thread)
    \<and> (\<forall>l\<in>heads. \<forall>u. u \<noteq> ?n \<longrightarrow> sched_node u \<in> set (pop_lists L l) \<longleftrightarrow> sched_node u \<in> set (L l))
    \<and> pop_lists L TIMEOUT_LIST = L TIMEOUT_LIST"
  proof (cases "first_from (\<lambda>i. L (SCHED (int i)) \<noteq> []) 0 SCHED_QUEUES")
    case None
    then have n: "?n = idle_thread" using nc by (auto simp: next_thread_def split: if_splits)
    have ok: "thread_ok L c idle_thread (tcbs s idle_thread)" by (rule D(2)) simp
    have "wakeup_time (tcbs s idle_thread) = NO_TIMEOUT"
      using awake_no_timeout [OF ok] thread_okD(11) [OF ok] by auto
    then have "unlisted L idle_thread"
      using thread_okD(3,4) [OF ok] by (auto simp: unlisted_def heads_def SCHED_QUEUES_def)
    with None n show ?thesis by (simp add: pop_lists_def)
  next
    case (Some i)
    note F = first_from_SomeD [OF Some]
    have hd: "SCHED (int i) \<in> heads" using F by (simp add: SCHED_QUEUES_def)
    obtain n ns where q: "L (SCHED (int i)) = n # ns" using F by (cases "L (SCHED (int i))") auto
    obtain t where t: "n = sched_node t" "t \<in> live s" using sched_structD(5) [OF D(1) hd, of n] q by auto
    have n: "?n = t" using Some q t by (simp add: next_thread_def)
    have pl: "pop_lists L = L(SCHED (int i) := ns)" using Some q by (simp add: pop_lists_def)
    note fam = sched_structD(1) [OF D(1)]
    have "sched_node t \<notin> set ns" using family_distinct [OF fam hd] q t by simp
    moreover have "sched_node t \<notin> set (L l)" if "l \<in> heads" "l \<noteq> SCHED (int i)" for l
      using family_unique [OF fam that(1) hd, of "sched_node t"] that(2) q t by auto
    ultimately have "unlisted (pop_lists L) t" unfolding pl by (simp add: unlisted_def)
    moreover have "tcb_state (tcbs s t) = READY"
      using thread_okD(3) [OF D(2) [OF t(2)], of "int i"] q t hd by simp
    ultimately show ?thesis using n t q by (auto simp: pl)
  qed
  then show "?n \<in> live s" "unlisted (pop_lists L) ?n" "tcb_state (tcbs s ?n) = READY \<or> ?n = idle_thread"
    "u \<noteq> ?n \<Longrightarrow> l \<in> heads \<Longrightarrow> sched_node u \<in> set (pop_lists L l) \<longleftrightarrow> sched_node u \<in> set (L l)"
    "pop_lists L TIMEOUT_LIST = L TIMEOUT_LIST"
    by blast+
  then show "wakeup_time (tcbs s ?n) = NO_TIMEOUT"
    using awake_no_timeout [OF D(2) [of ?n]] thread_okD(11) [OF D(2) [of ?n]] by auto
qed

section \<open>The switch\<close>

text \<open>The state between \<open>sched_queue_select\<close> and \<open>gain\<close>: thread \<open>n\<close> has been taken from its queue
  and is the current thread, thread \<open>c\<close> has been running and still counts as dirty.\<close>

definition in_transit :: "kernel \<Rightarrow> (sched_addr \<Rightarrow> sched_addr list) \<Rightarrow> tcb_ptr \<Rightarrow> tcb_ptr \<Rightarrow> bool" where
  "in_transit s L c n \<longleftrightarrow>
     sched_struct (sched_heap s) (live s) L
     \<and> (\<forall>u\<in>live s. u \<noteq> n \<longrightarrow> thread_ok L c u (tcbs s u))
     \<and> by_wakeup s (L TIMEOUT_LIST)
     \<and> c \<in> live s \<and> n \<in> live s \<and> n \<noteq> c \<and> current_thread s = Some n \<and> previous_thread s = Some c
     \<and> unlisted L n \<and> 0 \<le> priority (tcbs s n) \<and> priority (tcbs s n) < 10
     \<and> wakeup_time (tcbs s n) = NO_TIMEOUT \<and> tcb_type (tcbs s n) = (if n = idle_thread then IDLE_THREAD else NORMAL_THREAD)
     \<and> tcb_state (tcbs s c) \<in> {READY, STOPPED, EXITED}
     \<and> active_threads s = of_nat (card {i. i < MAX_THREADS \<and> thread_used s i})"

lemma in_transitD:
  assumes "in_transit s L c n"
  shows "sched_struct (sched_heap s) (live s) L"
    "u \<in> live s \<Longrightarrow> u \<noteq> n \<Longrightarrow> thread_ok L c u (tcbs s u)"
    "by_wakeup s (L TIMEOUT_LIST)" "c \<in> live s" "n \<in> live s" "n \<noteq> c"
    "current_thread s = Some n" "previous_thread s = Some c" "unlisted L n"
    "0 \<le> priority (tcbs s n)" "priority (tcbs s n) < 10" "wakeup_time (tcbs s n) = NO_TIMEOUT"
    "tcb_type (tcbs s n) = (if n = idle_thread then IDLE_THREAD else NORMAL_THREAD)"
    "tcb_state (tcbs s c) \<in> {READY, STOPPED, EXITED}"
    "active_threads s = of_nat (card {i. i < MAX_THREADS \<and> thread_used s i})"
  using assms by (simp_all add: in_transit_def)

lemma in_transit_frame [simp]:
  "in_transit (s\<lparr>cpu := x\<rparr>) L c n = in_transit s L c n"
  "in_transit (upd_cpu g s) L c n = in_transit s L c n"
  "in_transit (s\<lparr>frames := fr\<rparr>) L c n = in_transit s L c n"
  by (simp_all add: in_transit_def by_wakeup_def)

abbreviation run_tcb :: "TCB \<Rightarrow> TCB" where
  "run_tcb T \<equiv> T\<lparr>tcb_state := RUNNING, phase := CTX_DIRTY, rts := its T\<rparr>"

abbreviation clean_tcb :: "TCB \<Rightarrow> TCB" where
  "clean_tcb T \<equiv> T\<lparr>phase := CTX_CLEAN\<rparr>"

text \<open>The state after the two updates of \<open>gain\<close>, before the old thread is queued or released.\<close>

definition switched :: "kernel \<Rightarrow> tcb_ptr \<Rightarrow> tcb_ptr \<Rightarrow> kernel" where
  "switched s c n = upd_tcb c clean_tcb (upd_tcb n run_tcb s)"

lemma switched_fields [simp]:
  "sched_heap (switched s c n) = sched_heap s" "live (switched s c n) = live s"
  "thread_used (switched s c n) = thread_used s" "active_threads (switched s c n) = active_threads s"
  "yield_count (switched s c n) = yield_count s" "current_thread (switched s c n) = current_thread s"
  "cpu (switched s c n) = cpu s" "frames (switched s c n) = frames s"
  by (simp_all add: switched_def)

lemma switched_tcbs:
  "n \<noteq> c \<Longrightarrow> tcbs (switched s c n) u = (if u = c then clean_tcb (tcbs s c) else if u = n then run_tcb (tcbs s n) else tcbs s u)"
  by (simp add: switched_def upd_tcb_apply)

lemma switched_by_wakeup: "n \<noteq> c \<Longrightarrow> by_wakeup (switched s c n) ns = by_wakeup s ns"
  unfolding by_wakeup_def by (rule arg_cong [where f = sorted]) (simp add: switched_tcbs)

lemma switched_ok:
  assumes tr: "in_transit s L c n" and u: "u \<in> live s" "u \<noteq> c"
  shows "thread_ok L n u (tcbs (switched s c n) u)"
proof (cases "u = n")
  case True
  have "unlisted L n \<Longrightarrow> 0 \<le> i \<Longrightarrow> i < 10 \<Longrightarrow> sched_node n \<notin> set (L (SCHED i))" for i
    by (simp add: unlisted_def)
  moreover have "unlisted L n \<Longrightarrow> sched_node n \<notin> set (L TIMEOUT_LIST)"
    by (simp add: unlisted_def)
  ultimately show ?thesis
    using True in_transitD(6,9-13) [OF tr] by (cases "n = idle_thread") (simp_all add: switched_tcbs thread_ok_def)
next
  case False
  then have "thread_ok L c u (tcbs s u)" using in_transitD(2) [OF tr u(1)] by simp
  with False u show ?thesis
    using in_transitD(6) [OF tr] by (auto simp: switched_tcbs thread_ok_def)
qed

lemma transit_old_unqueued:
  assumes tr: "in_transit s L c n" and i: "0 \<le> i" "i < 10"
  shows "sched_node c \<notin> set (L (SCHED i))"
proof -
  have "thread_ok L c c (tcbs s c)" using in_transitD(2,4,6) [OF tr] by auto
  then show ?thesis using thread_okD(3,6) i by force
qed

lemma transit_old_unlisted:
  assumes tr: "in_transit s L c n" and "tcb_state (tcbs s c) \<noteq> STOPPED"
  shows "unlisted L c"
proof -
  have ok: "thread_ok L c c (tcbs s c)" using in_transitD(2,4,6) [OF tr] by auto
  have "sched_node c \<notin> set (L TIMEOUT_LIST)"
    using thread_okD(4) [OF ok] awake_no_timeout [OF ok assms(2)] by simp
  with transit_old_unqueued [OF tr] show ?thesis by (auto simp: unlisted_def heads_def SCHED_QUEUES_def)
qed

text \<open>The three cases of \<open>gain\<close>: the old thread stays out of the queues, is queued, is released.\<close>

lemma switched_inv_keep:
  assumes tr: "in_transit s L c n" and c: "tcb_state (tcbs s c) = STOPPED \<or> c = idle_thread"
  shows "sched_inv (switched s c n) L n"
proof -
  note D = in_transitD [OF tr]
  have ok: "thread_ok L c c (tcbs s c)" using D(2,4,6) by auto
  have st: "tcb_state (tcbs s c) \<noteq> EXITED"
    using c thread_okD(11) [OF ok] by auto
  have "thread_ok L n c (tcbs (switched s c n) c)"
    using ok c D(6,14) st transit_old_unqueued [OF tr] by (auto simp: switched_tcbs thread_ok_def)
  then show ?thesis
    using D switched_ok [OF tr] switched_by_wakeup [OF D(6)]
    by (simp add: sched_inv_def) (metis D(4))
qed

lemma switched_inv_queue:
  assumes tr: "in_transit s L c n" and c: "tcb_state (tcbs s c) = READY" "c \<noteq> idle_thread"
  shows "\<exists>L'. sched_inv (sched_queue_add c (switched s c n)) L' n"
proof -
  note D = in_transitD [OF tr]
  have ok: "thread_ok L c c (tcbs s c)" using D(2,4,6) by auto
  let ?q = "SCHED (priority (tcbs s c))"
  let ?L = "L(?q := L ?q @ [sched_node c])"
  have un: "unlisted L c" using transit_old_unlisted [OF tr] c by simp
  have q: "?q \<in> heads" using thread_okD(1,2) [OF ok] by simp
  have "sched_struct (rlist_push_back (sched_heap s) ?q (sched_node c)) (live s) ?L"
    by (rule struct_push [OF D(1) q D(4) un])
  moreover have "thread_ok ?L n u (tcbs (switched s c n) u)" if u: "u \<in> live s" for u
  proof (cases "u = c")
    case True
    then show ?thesis
      using ok un c D(6) by (auto simp: switched_tcbs thread_ok_def unlisted_def)
  next
    case False
    then have "thread_ok ?L n u (tcbs (switched s c n) u) = thread_ok L n u (tcbs (switched s c n) u)"
      by (intro thread_ok_cong) auto
    with switched_ok [OF tr u False] show ?thesis by simp
  qed
  moreover have "priority (tcbs (switched s c n) c) = priority (tcbs s c)" using D(6) by (simp add: switched_tcbs)
  ultimately have "sched_inv (sched_queue_add c (switched s c n)) ?L n"
    using D switched_by_wakeup [OF D(6)] by (simp add: sched_inv_def sched_queue_add_def)
  then show ?thesis by blast
qed

lemma free_thread_pool: "i < MAX_THREADS \<Longrightarrow> free_thread (thread_pool i) s = s\<lparr>thread_used := (thread_used s)(i := False)\<rparr>"
proof -
  assume "i < MAX_THREADS"
  then have "first_from (\<lambda>j. thread_pool j = thread_pool i) 0 MAX_THREADS = Some i"
    by (intro first_from_eqI) auto
  then show ?thesis by (simp add: free_thread_def)
qed

lemma live_release:
  assumes tr: "in_transit s L c n" and c: "tcb_state (tcbs s c) = EXITED"
  shows "live (release_TCB c (switched s c n)) = live s - {c}"
proof -
  have ok: "thread_ok L c c (tcbs s c)" using in_transitD(2,4,6) [OF tr] by auto
  have "c \<noteq> idle_thread" using thread_okD(11) [OF ok] c by auto
  then obtain i where "c = thread_pool i" "i < MAX_THREADS" "thread_used s i"
    using in_transitD(4) [OF tr] by (auto simp: live_def)
  then show ?thesis by (auto simp: release_TCB_def free_thread_pool live_def)
qed

lemma switched_inv_release:
  assumes tr: "in_transit s L c n" and c: "tcb_state (tcbs s c) = EXITED"
  shows "sched_inv (release_TCB c (switched s c n)) L n"
proof -
  note D = in_transitD [OF tr]
  have ok: "thread_ok L c c (tcbs s c)" using D(2,4,6) by auto
  have "c \<noteq> idle_thread" using thread_okD(11) [OF ok] c by auto
  then obtain i where i: "c = thread_pool i" "i < MAX_THREADS" "thread_used s i"
    using D(4) by (auto simp: live_def)
  let ?s = "release_TCB c (switched s c n)"
  have r: "?s = (switched s c n)\<lparr>thread_used := (thread_used s)(i := False), active_threads := active_threads s - 1\<rparr>"
    using i by (simp add: release_TCB_def free_thread_pool)
  have lv: "live ?s = live s - {c}" by (rule live_release [OF tr c])
  have "thread_used ?s = (thread_used s)(i := False)" by (simp add: r)
  then have "{j. j < MAX_THREADS \<and> thread_used s j} = insert i {j. j < MAX_THREADS \<and> thread_used ?s j}"
    using i(2,3) by auto
  then have "card {j. j < MAX_THREADS \<and> thread_used s j} = Suc (card {j. j < MAX_THREADS \<and> thread_used ?s j})"
    by (simp add: r)
  then have "active_threads ?s = of_nat (card {j. j < MAX_THREADS \<and> thread_used ?s j})"
    using D(15) by (simp add: r)
  moreover have "sched_struct (sched_heap ?s) (live ?s) L"
    using struct_drop [OF D(1) transit_old_unlisted [OF tr]] c unfolding lv by (simp add: r)
  moreover have "thread_ok L n u (tcbs ?s u)" if "u \<in> live ?s" for u
    using switched_ok [OF tr, of u] that unfolding lv by (simp add: r)
  moreover have "by_wakeup ?s (L TIMEOUT_LIST)"
    using D(3) switched_by_wakeup [OF D(6)] by (simp add: r by_wakeup_def)
  ultimately show ?thesis using D lv by (simp add: sched_inv_def) (simp add: r)
qed

section \<open>\<open>gain\<close>\<close>

text \<open>The end of \<open>gain\<close> touches the core only.\<close>

definition start_slice :: "bool \<Rightarrow> tcb_ptr \<Rightarrow> kernel \<Rightarrow> kernel" where
  "start_slice preempt n s =
     (let s = (if preempt then preempt_on s else s)
      in s\<lparr>cpu := fst (bios_set_timer (rts (tcbs s n)) (cpu s))\<rparr>)"

lemma start_slice_fields [simp]:
  "sched_inv (start_slice p n s) L c = sched_inv s L c" "tcbs (start_slice p n s) = tcbs s"
  "current_thread (start_slice p n s) = current_thread s" "live (start_slice p n s) = live s"
  "yield_count (start_slice p n s) = yield_count s"
  by (simp_all add: start_slice_def preempt_on_def Let_def)

lemma live_queue_add [simp]: "live (sched_queue_add t s) = live s"
  by (simp add: sched_queue_add_def)

lemma queue_release_fields [simp]:
  "tcbs (sched_queue_add t s) = tcbs s" "tcbs (release_TCB t s) = tcbs s"
  "yield_count (sched_queue_add t s) = yield_count s" "yield_count (release_TCB t s) = yield_count s"
  "frames (sched_queue_add t s) = frames s" "frames (release_TCB t s) = frames s"
  "cpu (sched_queue_add t s) = cpu s" "cpu (release_TCB t s) = cpu s"
  by (simp_all add: sched_queue_add_def release_TCB_def free_thread_def Let_def split: option.split)

lemma gain_switch:
  assumes tr: "in_transit s L c n"
  obtains s' L' where "gain p s = Some (start_slice p n s')" and "sched_inv s' L' n"
    and "tcbs s' = tcbs (switched s c n)" "yield_count s' = yield_count s" "frames s' = frames s" "cpu s' = cpu s"
    and "live s' = (if tcb_state (tcbs s c) = EXITED then live s - {c} else live s)"
proof -
  note D = in_transitD [OF tr]
  have ok: "thread_ok L c c (tcbs s c)" using D(2,4,6) by auto
  have ty: "tcb_type (tcbs s c) = IDLE_THREAD \<longleftrightarrow> c = idle_thread"
    using thread_okD(10,12) [OF ok] by (cases "c = idle_thread") auto
  have st: "tcb_state (tcbs (switched s c n) c) = tcb_state (tcbs s c)"
    "tcb_type (tcbs (switched s c n) c) = tcb_type (tcbs s c)"
    using D(6) by (simp_all add: switched_tcbs)
  have g: "gain p s = map_option (start_slice p n) (case tcb_state (tcbs s c) of
        READY \<Rightarrow> Some (if c \<noteq> idle_thread then sched_queue_add c (switched s c n) else switched s c n)
      | EXITED \<Rightarrow> Some (release_TCB c (switched s c n)) | STOPPED \<Rightarrow> Some (switched s c n) | _ \<Rightarrow> None)"
    unfolding gain_def using D(6,7,8) st ty
    by (auto simp: switched_def [symmetric] start_slice_def Let_def split: Thread_state.split)
  consider "tcb_state (tcbs s c) = READY \<and> c \<noteq> idle_thread" | "tcb_state (tcbs s c) = READY \<and> c = idle_thread"
    | "tcb_state (tcbs s c) = STOPPED" | "tcb_state (tcbs s c) = EXITED"
    using D(14) by auto
  then show thesis
  proof cases
    case 1
    then obtain L' where "sched_inv (sched_queue_add c (switched s c n)) L' n"
      using switched_inv_queue [OF tr] by blast
    with 1 g show thesis by (intro that [of "sched_queue_add c (switched s c n)" L']) auto
  next
    case 2
    then show thesis using g switched_inv_keep [OF tr] by (intro that [of "switched s c n" L]) auto
  next
    case 3
    then show thesis using g switched_inv_keep [OF tr] by (intro that [of "switched s c n" L]) auto
  next
    case 4
    then show thesis
      using g switched_inv_release [OF tr] live_release [OF tr]
      by (intro that [of "release_TCB c (switched s c n)" L]) auto
  qed
qed

lemma gain_same:
  assumes inv: "sched_inv s L c" and st: "tcb_state (tcbs s c) = READY" and p: "previous_thread s = Some c"
  shows "gain b s = Some (start_slice b c (upd_tcb c run_tcb s))" and "sched_inv (upd_tcb c run_tcb s) L c"
proof -
  note D = sched_invD [OF inv]
  show "gain b s = Some (start_slice b c (upd_tcb c run_tcb s))"
    using D(5) p by (simp add: gain_def start_slice_def Let_def)
  have ok: "thread_ok L c c (tcbs s c)" using D(2) D(4) by simp
  have "thread_ok L c c (run_tcb (tcbs s c))"
    using ok st thread_okD(6) [OF ok] awake_no_timeout [OF ok] by (simp add: thread_ok_def) 
  then show "sched_inv (upd_tcb c run_tcb s) L c" by (intro sched_inv_upd_tcb [OF inv]) simp_all
qed

text \<open>Every frame calls \<open>gain\<close> once, and after it at most switches interrupts on.\<close>

fun frame_preempt :: "frame \<Rightarrow> bool" where
  "frame_preempt In_thread_start = True"
| "frame_preempt (In_yield preempt) = preempt"
| "frame_preempt (In_sleep oldpre preempt) = preempt"

fun frame_restore :: "frame \<Rightarrow> bool" where
  "frame_restore (In_sleep oldpre preempt) = oldpre"
| "frame_restore _ = False"

lemma resume_gain:
  "resume fr s = map_option (\<lambda>s. if frame_restore fr then preempt_on s else s) (gain (frame_preempt fr) s)"
  by (cases fr) (auto simp: map_option_case split: option.split)

section \<open>\<open>yield\<close>\<close>

text \<open>\<open>yield\<close> up to the choice of the next thread: the accounting of the current thread.\<close>

definition account :: "SCHED_CAUSE \<Rightarrow> u32 \<Rightarrow> TCB \<Rightarrow> TCB" where
  "account cause remaining T =
     (let T = (if tcb_state T = RUNNING then T\<lparr>tcb_state := READY\<rparr> else T)
      in adjust_priority cause (T\<lparr>rts := remaining, last_cause := curr_cause T, curr_cause := cause\<rparr>))"

lemma adjust_priority_fields [simp]:
  "tcb_state (adjust_priority cause T) = tcb_state T" "phase (adjust_priority cause T) = phase T"
  "wakeup_time (adjust_priority cause T) = wakeup_time T" "tcb_type (adjust_priority cause T) = tcb_type T"
  by (cases cause; simp)+

lemma adjust_priority_bounds:
  "0 \<le> priority T \<Longrightarrow> priority T < 10 \<Longrightarrow> 0 \<le> priority (adjust_priority cause T) \<and> priority (adjust_priority cause T) < 10"
  by (cases cause) (auto simp: SCHED_QUEUES_def)

lemma account_fields [simp]:
  "phase (account cause r T) = phase T" "wakeup_time (account cause r T) = wakeup_time T"
  "tcb_type (account cause r T) = tcb_type T"
  "tcb_state (account cause r T) = (if tcb_state T = RUNNING then READY else tcb_state T)"
  by (simp_all add: account_def Let_def)

lemma account_ok: "thread_ok L c c T \<Longrightarrow> thread_ok L c c (account cause r T)"
proof -
  assume ok: "thread_ok L c c T"
  have "0 \<le> priority (account cause r T) \<and> priority (account cause r T) < 10"
    unfolding account_def Let_def using thread_okD(1,2) [OF ok] by (intro adjust_priority_bounds) simp_all
  with ok show ?thesis by (auto simp: thread_ok_def)
qed

text \<open>The steps of \<open>yield\<close> as states: after the boost (\<open>sb\<close>), after the accounting, after waking the
  expired threads (\<open>sw\<close>), after the selection.\<close>

definition yield_enter :: "kernel \<Rightarrow> kernel" where
  "yield_enter s = s\<lparr>cpu := cli (fst (bios_cancel_timer (cpu s))), yield_count := yield_count s + 1\<rparr>"

definition maybe_boost :: "kernel \<Rightarrow> kernel option" where
  "maybe_boost s = (if yield_count s = YIELD_RUNS
     then do { s \<leftarrow> sched_boost_priority s; Some (s\<lparr>yield_count := 0\<rparr>) } else Some s)"

definition yield_switch :: "(bool \<Rightarrow> frame) \<Rightarrow> bool \<Rightarrow> tcb_ptr \<Rightarrow> kernel \<Rightarrow> kernel option" where
  "yield_switch mk preempt c s =
     (let (s, next) = sched_queue_select c s;
          s = s\<lparr>previous_thread := Some c\<rparr>
      in if c \<noteq> next then swap_context c (mk preempt) next (s\<lparr>current_thread := Some next\<rparr>)
         else resume (mk preempt) s)"

lemma yield_in_steps:
  assumes "current_thread s = Some c"
  shows "yield_in mk cause s = do {
    sb \<leftarrow> maybe_boost (yield_enter s);
    sw \<leftarrow> sched_wakeup_expired_timeouts (upd_tcb c (account cause (snd (bios_cancel_timer (cpu s)))) sb);
    yield_switch mk (cpu_interrupts_enabled (fst (bios_cancel_timer (cpu s)))) c sw }"
proof -
  have acc: "upd_tcb c (adjust_priority cause) (upd_tcb c (\<lambda>t. t\<lparr>rts := r, last_cause := curr_cause t, curr_cause := cause\<rparr>)
       (if tcb_state (tcbs sb c) = RUNNING then upd_tcb c (\<lambda>t. t\<lparr>tcb_state := READY\<rparr>) sb else sb))
     = upd_tcb c (account cause r) sb" for r sb
    by (auto simp: upd_tcb_def account_def Let_def)
  have pre: "preempt_off (s\<lparr>cpu := k\<rparr>) = (s\<lparr>cpu := cli k\<rparr>, cpu_interrupts_enabled k)" for k
    by (simp add: preempt_off_def cpu_disable_interrupts_eq)
  show ?thesis
    unfolding yield_in_def Let_def case_prod_beta pre fst_conv snd_conv
    using assms
    by (simp add: acc yield_enter_def maybe_boost_def yield_switch_def case_prod_beta Let_def del: upd_tcb_twice)
qed

lemma raise_all_fields [simp]:
  "live (raise_all s N h) = live s" "frames (raise_all s N h) = frames s" "cpu (raise_all s N h) = cpu s"
  "current_thread (raise_all s N h) = current_thread s" "yield_count (raise_all s N h) = yield_count s"
  "tcbs (raise_all s N h) t = (if sched_node t \<in> N then raise (tcbs s t) else tcbs s t)"
  by (simp_all add: raise_all_def live_def)

lemma maybe_boost_inv:
  assumes inv: "sched_inv s L c"
  obtains h L' N where "maybe_boost (yield_enter s) =
        Some (if yield_count s + 1 = YIELD_RUNS then (raise_all (yield_enter s) N h)\<lparr>yield_count := 0\<rparr> else yield_enter s)"
    and "sched_inv (if yield_count s + 1 = YIELD_RUNS then (raise_all (yield_enter s) N h)\<lparr>yield_count := 0\<rparr> else yield_enter s) L' c"
    and "N = (\<Union>j\<in>{1..9}. set (L (SCHED j)))" and "L' = (if yield_count s + 1 = YIELD_RUNS then boosted 9 L else L)"
proof -
  let ?N = "\<Union>j\<in>{1..9}. set (L (SCHED j))"
  have inv0: "sched_inv (yield_enter s) L c"
    using inv by (simp add: yield_enter_def)
  obtain h where h: "sched_boost_priority (yield_enter s) = Some (raise_all (yield_enter s) ?N h)"
    "sched_inv (raise_all (yield_enter s) ?N h) (boosted 9 L) c"
    by (rule boost_inv [OF inv0])
  moreover have "yield_count (yield_enter s) = yield_count s + 1" by (simp add: yield_enter_def)
  ultimately show thesis using inv0 by (intro that [of ?N h]) (auto simp: maybe_boost_def)
qed

text \<open>No other thread that is ready has a higher priority than the one selected, and the current
  thread or the idle thread is selected only when no other thread is ready.\<close>

lemma queued_iff:
  assumes ok: "thread_ok L c t T" and t: "t \<noteq> c" "t \<noteq> idle_thread" "tcb_state T = READY"
  shows "sched_node t \<in> set (L (SCHED (priority T)))"
proof -
  have "phase T = CTX_CLEAN" using thread_okD(6) [OF ok] t(1) by (cases "phase T") auto
  then show ?thesis using thread_okD(3) [OF ok thread_okD(1,2) [OF ok]] t by simp
qed

lemma next_thread_best:
  assumes inv: "sched_inv s L c" and t: "t \<in> live s" "t \<noteq> c" "t \<noteq> idle_thread" "tcb_state (tcbs s t) = READY"
  shows "next_thread s L c \<noteq> c \<and> next_thread s L c \<noteq> idle_thread
    \<and> priority (tcbs s (next_thread s L c)) \<le> priority (tcbs s t)"
proof -
  note D = sched_invD [OF inv]
  have pr: "0 \<le> priority (tcbs s t)" "priority (tcbs s t) < 10" using thread_okD(1,2) [OF D(2) [OF t(1)]] by auto
  then have q: "L (SCHED (int (nat (priority (tcbs s t))))) \<noteq> []"
    using queued_iff [OF D(2) [OF t(1)] t(2-4)] by auto
  moreover have "nat (priority (tcbs s t)) < SCHED_QUEUES" using pr by (simp add: SCHED_QUEUES_def nat_less_iff)
  ultimately have "first_from (\<lambda>i. L (SCHED (int i)) \<noteq> []) 0 SCHED_QUEUES \<noteq> None"
    unfolding first_from_None_iff by blast
  then obtain i where i: "first_from (\<lambda>i. L (SCHED (int i)) \<noteq> []) 0 SCHED_QUEUES = Some i" by blast
  note F = first_from_SomeD [OF i]
  have le: "int i \<le> priority (tcbs s t)"
  proof (rule ccontr)
    assume "\<not> int i \<le> priority (tcbs s t)"
    then have "nat (priority (tcbs s t)) < i" using pr by (simp add: nat_less_iff)
    with F q show False by blast
  qed
  have hd: "SCHED (int i) \<in> heads" using F by (simp add: SCHED_QUEUES_def)
  obtain n ns where n: "L (SCHED (int i)) = n # ns" using F by (cases "L (SCHED (int i))") auto
  obtain u where u: "u \<in> live s" "n = sched_node u" using sched_structD(5) [OF D(1) hd, of n] n by auto
  have nx: "next_thread s L c = u" using i n u by (simp add: next_thread_def)
  have "u \<noteq> idle_thread \<and> phase (tcbs s u) = CTX_CLEAN \<and> priority (tcbs s u) = int i"
    using thread_okD(3) [OF D(2) [OF u(1)], of "int i"] n u hd by simp
  with le nx thread_okD(6) [OF D(2) [OF u(1)]] show ?thesis by auto
qed

lemma next_thread_same:
  assumes inv: "sched_inv s L c" and st: "tcb_state (tcbs s c) \<in> {READY, STOPPED, EXITED}" and n: "next_thread s L c = c"
  shows "tcb_state (tcbs s c) = READY" and "pop_lists L = L"
proof -
  note D = sched_invD [OF inv]
  note ok = D(2) [OF D(4)]
  have "first_from (\<lambda>i. L (SCHED (int i)) \<noteq> []) 0 SCHED_QUEUES = None"
  proof (rule ccontr)
    assume "first_from (\<lambda>i. L (SCHED (int i)) \<noteq> []) 0 SCHED_QUEUES \<noteq> None"
    then obtain i where i: "first_from (\<lambda>i. L (SCHED (int i)) \<noteq> []) 0 SCHED_QUEUES = Some i" by auto
    note F = first_from_SomeD [OF i]
    have hd: "SCHED (int i) \<in> heads" using F by (simp add: SCHED_QUEUES_def)
    obtain m ns where m: "L (SCHED (int i)) = m # ns" using F by (cases "L (SCHED (int i))") auto
    obtain u where u: "u \<in> live s" "m = sched_node u" using sched_structD(5) [OF D(1) hd, of m] m by auto
    have "u = c" using n i m u by (simp add: next_thread_def)
    then show False using thread_okD(3) [OF ok, of "int i"] thread_okD(6) [OF ok] m u hd by simp
  qed
  then show "pop_lists L = L" "tcb_state (tcbs s c) = READY"
    using n st thread_okD(11) [OF ok] by (auto simp: pop_lists_def next_thread_def split: if_splits)
qed

lemma select_in_transit:
  assumes inv: "sched_inv s L c" and st: "tcb_state (tcbs s c) \<in> {READY, STOPPED, EXITED}"
    and n: "n = next_thread s L c" "n \<noteq> c" and h: "sched_struct h (live s) (pop_lists L)"
  shows "in_transit ((upd_tcb n (\<lambda>t. t\<lparr>its := QUANTUM\<rparr>) (s\<lparr>sched_heap := h\<rparr>))
      \<lparr>previous_thread := Some c, current_thread := Some n\<rparr>) (pop_lists L) c n"
proof -
  note D = sched_invD [OF inv] and N = next_thread_facts [OF inv, folded n(1), OF n(2)]
  have "thread_ok (pop_lists L) c u (tcbs s u)" if "u \<in> live s" "u \<noteq> n" for u
    using thread_ok_cong [of u "pop_lists L" L c "tcbs s u"] N(4) that D(2) [OF that(1)] by simp
  moreover have "by_wakeup s (pop_lists L TIMEOUT_LIST)" using D(3) N(5) by simp
  moreover have "by_wakeup (upd_tcb n (\<lambda>t. t\<lparr>its := QUANTUM\<rparr>) s) ns = by_wakeup s ns" for ns
    unfolding by_wakeup_def by (rule arg_cong [where f = sorted]) (simp add: upd_tcb_apply)
  moreover have "tcb_type (tcbs s n) = (if n = idle_thread then IDLE_THREAD else NORMAL_THREAD)"
    using thread_okD(10,12) [OF D(2) [OF N(1)]] by auto
  moreover have "0 \<le> priority (tcbs s n)" "priority (tcbs s n) < 10"
    using thread_okD(1,2) [OF D(2) [OF N(1)]] by auto
  ultimately show ?thesis
    unfolding in_transit_def using D N st h n(2) by (simp add: upd_tcb_def by_wakeup_def)
qed

end
