(* ===== verification/Sched_Ops.thy ===== *)
theory Sched_Ops
  imports Sched_Inv
begin

text \<open>
  The operations of the scheduler on states that satisfy its invariant: they always return, keep
  the invariant, and do what \<open>kernel_sched.h\<close> promises. The last sections put them together as
  the steps the kernel can take, and state the properties.
\<close>

section \<open>The interrupt flag and the timer\<close>

lemma enabled_set_timer [simp]:
  "cpu_interrupts_enabled (fst (bios_set_timer usec c)) = cpu_interrupts_enabled c"
  by (simp add: interrupts_enabled_iff bios_set_timer_def Let_def write_OCR1A_def reg_set_reg)

lemma enabled_cancel_timer [simp]:
  "cpu_interrupts_enabled (fst (bios_cancel_timer c)) = cpu_interrupts_enabled c"
  by (simp add: interrupts_enabled_iff bios_cancel_timer_def Let_def reg_set_reg)

lemma handlers_timer [simp]:
  "interrupt_handlers (fst (bios_set_timer usec c)) = interrupt_handlers c"
  "interrupt_handlers (fst (bios_cancel_timer c)) = interrupt_handlers c"
  "interrupt_handlers (sei c) = interrupt_handlers c" "interrupt_handlers (cli c) = interrupt_handlers c"
  by (simp_all add: bios_set_timer_def bios_cancel_timer_def Let_def write_OCR1A_def sei_def cli_def)

lemma clock_frame [simp]:
  "bios_clock (cli c) = bios_clock c" "bios_clock (sei c) = bios_clock c"
  "bios_clock (fst (bios_cancel_timer c)) = bios_clock c"
  by (simp_all add: bios_clock_def cli_def sei_def bios_cancel_timer_def Let_def)

text \<open>The quantum is 2500 ticks of 4 microseconds.\<close>

definition quantum_armed :: "cpu \<Rightarrow> bool" where
  "quantum_armed c \<longleftrightarrow> read16 c TCNT1_L TCNT1_H = 0 \<and> read16 c OCR1A_L OCR1A_H = 2500"

lemma quantum_armed_set_timer: "quantum_armed (fst (bios_set_timer QUANTUM c))"
  unfolding quantum_armed_def bios_set_timer_regs by (simp add: QUANTUM_def)

lemma quantum_armed_sei [simp]: "quantum_armed (sei c) = quantum_armed c"
  by (simp add: quantum_armed_def sei_def read16_set_reg)

section \<open>\<open>yield\<close>\<close>

text \<open>The thread control blocks after the switch.\<close>

definition after_switch :: "(tcb_ptr \<Rightarrow> TCB) \<Rightarrow> tcb_ptr \<Rightarrow> tcb_ptr \<Rightarrow> (tcb_ptr \<Rightarrow> TCB)" where
  "after_switch T c n = (\<lambda>u. if u = n then run_tcb ((T n)\<lparr>its := QUANTUM\<rparr>)
     else if u = c then clean_tcb (T c) else T u)"

lemma resume_fields:
  assumes "gain (frame_preempt fr) s = Some (start_slice (frame_preempt fr) n s')"
  shows "\<exists>r. resume fr s = Some r \<and> (\<forall>L c. sched_inv r L c = sched_inv s' L c) \<and> tcbs r = tcbs s'
    \<and> yield_count r = yield_count s' \<and> live r = live s'
    \<and> (\<not> cpu_interrupts_enabled (cpu s') \<longrightarrow> cpu_interrupts_enabled (cpu r) = (frame_preempt fr \<or> frame_restore fr))
    \<and> (cpu_interrupts_enabled (cpu s') \<longrightarrow> cpu_interrupts_enabled (cpu r))
    \<and> (rts (tcbs s' n) = QUANTUM \<longrightarrow> quantum_armed (cpu r))
    \<and> interrupt_handlers (cpu r) = interrupt_handlers (cpu s')"
  using assms
  by (auto simp: resume_gain start_slice_def preempt_on_def cpu_enable_interrupts_def Let_def
      quantum_armed_set_timer)

lemma yield_switch_inv:
  fixes mk :: "bool \<Rightarrow> frame" and preempt :: bool
  assumes inv: "sched_inv s L c" and st: "tcb_state (tcbs s c) \<in> {READY, STOPPED, EXITED}"
    and off: "\<not> cpu_interrupts_enabled (cpu s)"
  defines "n \<equiv> next_thread s L c"
  defines "fr \<equiv> (if n = c then mk preempt else frames s n)"
  obtains r L' where "yield_switch mk preempt c s = Some r" and "sched_inv r L' n"
    and "tcbs r = after_switch (tcbs s) c n" and "yield_count r = yield_count s"
    and "cpu_interrupts_enabled (cpu r) = (frame_preempt fr \<or> frame_restore fr)" and "quantum_armed (cpu r)"
    and "interrupt_handlers (cpu r) = interrupt_handlers (cpu s)"
    and "live r = (if tcb_state (tcbs s c) = EXITED then live s - {c} else live s)"
proof -
  obtain h where sel: "sched_queue_select c s = (upd_tcb n (\<lambda>t. t\<lparr>its := QUANTUM\<rparr>) (s\<lparr>sched_heap := h\<rparr>), n)"
      "sched_struct h (live s) (pop_lists L)"
    using select_eq [OF inv] unfolding n_def by metis
  let ?s1 = "upd_tcb n (\<lambda>t. t\<lparr>its := QUANTUM\<rparr>) (s\<lparr>sched_heap := h\<rparr>)"
  show thesis
  proof (cases "n = c")
    case True
    note same = next_thread_same [OF inv st, folded n_def, OF True]
    let ?s2 = "?s1\<lparr>previous_thread := Some c\<rparr>"
    have "sched_inv (s\<lparr>sched_heap := h\<rparr>) L c"
      using inv sel(2) same(2) by (simp add: sched_inv_def)
    then have "sched_inv ?s1 L c"
      unfolding True using sched_invD(2) [OF inv sched_invD(4) [OF inv]]
      by (intro sched_inv_upd_tcb) (simp_all add: thread_ok_def)
    then have inv2: "sched_inv ?s2 L c" by simp
    have "tcb_state (tcbs ?s2 c) = READY" using same(1) True by (simp add: upd_tcb_apply)
    note G = gain_same [OF inv2 this]
    have "yield_switch mk preempt c s = resume fr ?s2"
      using sel(1) True by (simp add: yield_switch_def fr_def)
    moreover obtain r where "resume fr ?s2 = Some r" "\<forall>L d. sched_inv r L d = sched_inv (upd_tcb c run_tcb ?s2) L d"
      "tcbs r = tcbs (upd_tcb c run_tcb ?s2)" "yield_count r = yield_count s"
      "cpu_interrupts_enabled (cpu r) = (frame_preempt fr \<or> frame_restore fr)" "quantum_armed (cpu r)"
      "interrupt_handlers (cpu r) = interrupt_handlers (cpu s)" "live r = live s"
      using resume_fields [OF G(1) [of "frame_preempt fr"]] off True by (auto simp: upd_tcb_apply)
    moreover have "tcbs (upd_tcb c run_tcb ?s2) = after_switch (tcbs s) c n"
      unfolding True by (simp add: upd_tcb_def after_switch_def fun_eq_iff)
    ultimately show thesis using G(2) True same(1) by (intro that [of r L]) simp_all
  next
    case False
    let ?s2 = "?s1\<lparr>previous_thread := Some c, current_thread := Some n\<rparr>"
    let ?s3 = "upd_cpu (if fr = In_thread_start then sei else cli) (?s2\<lparr>frames := (frames s)(c := mk preempt)\<rparr>)"
    have "in_transit ?s2 (pop_lists L) c n"
      using select_in_transit [OF inv st _ False sel(2)] by (simp add: n_def)
    then have "in_transit ?s3 (pop_lists L) c n" by simp
    then obtain s' L' where g: "gain (frame_preempt fr) ?s3 = Some (start_slice (frame_preempt fr) n s')"
      "sched_inv s' L' n" "tcbs s' = tcbs (switched ?s3 c n)" "yield_count s' = yield_count ?s3" "cpu s' = cpu ?s3"
      "live s' = (if tcb_state (tcbs ?s3 c) = EXITED then live ?s3 - {c} else live ?s3)"
      by (rule gain_switch)
    have t: "tcbs s' = after_switch (tcbs s) c n"
      unfolding g(3) using False by (simp add: switched_tcbs after_switch_def upd_tcb_def fun_eq_iff)
    have "yield_switch mk preempt c s = resume fr ?s3"
      using sel(1) False by (simp add: yield_switch_def swap_context_def fr_def)
    moreover obtain r where "resume fr ?s3 = Some r" "\<forall>L c. sched_inv r L c = sched_inv s' L c" "tcbs r = tcbs s'"
      "yield_count r = yield_count s'" "cpu_interrupts_enabled (cpu r) = (frame_preempt fr \<or> frame_restore fr)"
      "quantum_armed (cpu r)" "interrupt_handlers (cpu r) = interrupt_handlers (cpu s)" "live r = live s'"
      using resume_fields [OF g(1)] t g(5) by (cases fr) (auto simp: after_switch_def)
    moreover have "live s' = (if tcb_state (tcbs s c) = EXITED then live s - {c} else live s)"
      using g(6) False by (simp add: upd_tcb_apply)
    ultimately show thesis using g t by (intro that [of r L']) simp_all
  qed
qed

text \<open>The state in which \<open>yield\<close> chooses: after the boost, the accounting and the expired timeouts.\<close>

definition at_choice :: "SCHED_CAUSE \<Rightarrow> kernel \<Rightarrow> tcb_ptr \<Rightarrow> kernel \<Rightarrow> bool" where
  "at_choice cause s c sw \<longleftrightarrow>
     (\<exists>sb. maybe_boost (yield_enter s) = Some sb \<and>
        sched_wakeup_expired_timeouts (upd_tcb c (account cause (snd (bios_cancel_timer (cpu s)))) sb) = Some sw)"

lemma wake_all_fields [simp]:
  "live (wake_all s k h) = live s" "cpu (wake_all s k h) = cpu s" "yield_count (wake_all s k h) = yield_count s"
  "frames (wake_all s k h) = frames s" "current_thread (wake_all s k h) = current_thread s"
  "tcbs (wake_all s k h) t = (if expired s k t then make_ready_tcb (tcbs s t) else tcbs s t)"
  by (simp_all add: wake_all_def live_def)

lemma current_not_raised:
  assumes inv: "sched_inv s L c"
  shows "sched_node c \<notin> (\<Union>j\<in>{1..9}. set (L (SCHED j)))"
proof -
  note ok = sched_invD(2) [OF inv sched_invD(4) [OF inv]]
  have "phase (tcbs s c) = CTX_DIRTY" using thread_okD(6) [OF ok] by simp
  then show ?thesis using thread_okD(3) [OF ok] by auto
qed

lemma at_choice_exists:
  assumes inv: "sched_inv s L c" and st: "tcb_state (tcbs s c) \<in> {RUNNING, STOPPED, EXITED}"
    and y: "0 \<le> yield_count s" "yield_count s < YIELD_RUNS"
  obtains sw Lw where "at_choice cause s c sw" and "sched_inv sw Lw c"
    and "tcb_state (tcbs sw c) \<in> {READY, STOPPED, EXITED}"
    and "0 \<le> yield_count sw" "yield_count sw < YIELD_RUNS"
    and "cpu sw = cli (fst (bios_cancel_timer (cpu s)))" "frames sw = frames s" "live sw = live s"
    and "tcb_state (tcbs s c) \<noteq> STOPPED \<longrightarrow>
      tcb_state (tcbs sw c) = (if tcb_state (tcbs s c) = RUNNING then READY else tcb_state (tcbs s c))"
    and "tcb_state (tcbs s c) = STOPPED \<longrightarrow> tcb_state (tcbs sw c) =
      (if wakeup_time (tcbs s c) \<noteq> NO_TIMEOUT \<and> wakeup_time (tcbs s c) \<le> bios_clock (cpu s) then READY else STOPPED)"
    and "tcb_state (tcbs sw c) = STOPPED \<longrightarrow> wakeup_time (tcbs sw c) = wakeup_time (tcbs s c)"
    and "priority (tcbs sw c) = priority (account cause (snd (bios_cancel_timer (cpu s))) (tcbs s c))"
    and "\<forall>t. t \<noteq> c \<and> tcb_state (tcbs s t) = READY \<longrightarrow> tcb_state (tcbs sw t) = READY"
proof -
  let ?N = "\<Union>j\<in>{1..9}. set (L (SCHED j))"
  obtain h L' where mb: "maybe_boost (yield_enter s) =
        Some (if yield_count s + 1 = YIELD_RUNS then (raise_all (yield_enter s) ?N h)\<lparr>yield_count := 0\<rparr> else yield_enter s)"
    "sched_inv (if yield_count s + 1 = YIELD_RUNS then (raise_all (yield_enter s) ?N h)\<lparr>yield_count := 0\<rparr> else yield_enter s) L' c"
    by (rule maybe_boost_inv [OF inv]) metis
  define sb where "sb = (if yield_count s + 1 = YIELD_RUNS then (raise_all (yield_enter s) ?N h)\<lparr>yield_count := 0\<rparr> else yield_enter s)"
  have sb: "cpu sb = cli (fst (bios_cancel_timer (cpu s)))" "frames sb = frames s" "live sb = live s"
    "tcbs sb c = tcbs s c" "0 \<le> yield_count sb" "yield_count sb < YIELD_RUNS"
    using current_not_raised [OF inv] y
    by (auto simp: sb_def yield_enter_def YIELD_RUNS_def live_def raise_all_def)
  let ?r = "snd (bios_cancel_timer (cpu s))"
  let ?sa = "upd_tcb c (account cause ?r) sb"
  have inva: "sched_inv ?sa L' c"
    using mb(2) account_ok sched_invD(2) [OF mb(2) sched_invD(4) [OF mb(2)]]
    unfolding sb_def [symmetric] by (intro sched_inv_upd_tcb) simp_all
  obtain h' Lw where w: "wakeup_expired_loop (bios_clock (cpu ?sa)) ?sa = Some (wake_all ?sa (bios_clock (cpu ?sa)) h')"
    "sched_inv (wake_all ?sa (bios_clock (cpu ?sa)) h') Lw c"
    by (rule wakeup_expired_inv [OF inva])
  let ?sw = "wake_all ?sa (bios_clock (cpu ?sa)) h'"
  have ch: "at_choice cause s c ?sw"
    unfolding at_choice_def using mb(1) w(1) by (auto simp: sb_def [symmetric] sched_wakeup_expired_timeouts_def)
  have ta: "tcbs ?sa c = account cause ?r (tcbs s c)" by (simp add: upd_tcb_apply sb)
  have clk: "bios_clock (cpu ?sa) = bios_clock (cpu s)" by (simp add: sb)
  have tw: "tcb_state (tcbs ?sw c) = (if expired ?sa (bios_clock (cpu s)) c then READY
      else if tcb_state (tcbs s c) = RUNNING then READY else tcb_state (tcbs s c))"
    unfolding wake_all_fields clk ta by simp
  have nw: "tcb_state (tcbs s c) \<noteq> STOPPED \<Longrightarrow> wakeup_time (tcbs s c) = NO_TIMEOUT"
    using awake_no_timeout [OF sched_invD(2) [OF inv sched_invD(4) [OF inv]]] .
  have ex: "expired ?sa (bios_clock (cpu s)) c \<longleftrightarrow> wakeup_time (tcbs s c) \<noteq> NO_TIMEOUT \<and> wakeup_time (tcbs s c) \<le> bios_clock (cpu s)"
    using sched_invD(4) [OF inva] by (simp add: expired_def ta)
  show thesis
  proof (rule that [OF ch w(2)])
    show "tcb_state (tcbs ?sw c) \<in> {READY, STOPPED, EXITED}" unfolding tw using st by auto
    show "0 \<le> yield_count ?sw" "yield_count ?sw < YIELD_RUNS" using sb by simp_all
    show "cpu ?sw = cli (fst (bios_cancel_timer (cpu s)))" "frames ?sw = frames s" "live ?sw = live s"
      using sb by simp_all
    show "tcb_state (tcbs s c) \<noteq> STOPPED \<longrightarrow>
      tcb_state (tcbs ?sw c) = (if tcb_state (tcbs s c) = RUNNING then READY else tcb_state (tcbs s c))"
      unfolding tw ex using nw by simp
    show "tcb_state (tcbs s c) = STOPPED \<longrightarrow> tcb_state (tcbs ?sw c) =
      (if wakeup_time (tcbs s c) \<noteq> NO_TIMEOUT \<and> wakeup_time (tcbs s c) \<le> bios_clock (cpu s) then READY else STOPPED)"
      unfolding tw ex by simp
    show "tcb_state (tcbs ?sw c) = STOPPED \<longrightarrow> wakeup_time (tcbs ?sw c) = wakeup_time (tcbs s c)"
      unfolding tw unfolding wake_all_fields clk ta by (simp split: if_splits)
    show "priority (tcbs ?sw c) = priority (account cause ?r (tcbs s c))"
      unfolding wake_all_fields ta by simp
    have "tcb_state (tcbs sb t) = tcb_state (tcbs s t)" for t by (simp add: sb_def yield_enter_def raise_all_def)
    then show "\<forall>t. t \<noteq> c \<and> tcb_state (tcbs s t) = READY \<longrightarrow> tcb_state (tcbs ?sw t) = READY"
      by (simp add: upd_tcb_apply)
  qed
qed

lemma yield_in_at_choice:
  assumes "current_thread s = Some c" "at_choice cause s c sw"
  shows "yield_in mk cause s = yield_switch mk (cpu_interrupts_enabled (cpu s)) c sw"
  using assms by (auto simp: yield_in_steps at_choice_def)

text \<open>What \<open>yield\<close> does from any state in which the current thread is running, stopped or exiting.\<close>

lemma yield_in_inv:
  assumes inv: "sched_inv s L c" and st: "tcb_state (tcbs s c) \<in> {RUNNING, STOPPED, EXITED}"
    and y: "0 \<le> yield_count s" "yield_count s < YIELD_RUNS"
  obtains r sw Lw where "yield_in mk cause s = Some r" and "sched_ok r"
    and "at_choice cause s c sw" and "sched_inv sw Lw c" and "live sw = live s"
    and "live r = (if tcb_state (tcbs s c) = EXITED then live s - {c} else live s)"
    and "tcb_state (tcbs s c) = STOPPED \<longrightarrow> tcb_state (tcbs sw c) =
      (if wakeup_time (tcbs s c) \<noteq> NO_TIMEOUT \<and> wakeup_time (tcbs s c) \<le> bios_clock (cpu s) then READY else STOPPED)"
    and "tcb_state (tcbs sw c) = STOPPED \<longrightarrow> wakeup_time (tcbs sw c) = wakeup_time (tcbs s c)"
    and "priority (tcbs sw c) = priority (account cause (snd (bios_cancel_timer (cpu s))) (tcbs s c))"
    and "\<forall>t. t \<noteq> c \<and> tcb_state (tcbs s t) = READY \<longrightarrow> tcb_state (tcbs sw t) = READY"
    and "current_thread r = Some (next_thread sw Lw c)"
    and "tcbs r = after_switch (tcbs sw) c (next_thread sw Lw c)"
    and "quantum_armed (cpu r)" and "interrupt_handlers (cpu r) = interrupt_handlers (cpu s)"
    and "cpu_interrupts_enabled (cpu r) =
      (let fr = (if next_thread sw Lw c = c then mk (cpu_interrupts_enabled (cpu s)) else frames s (next_thread sw Lw c))
       in frame_preempt fr \<or> frame_restore fr)"
proof -
  obtain sw Lw where ch: "at_choice cause s c sw" and invw: "sched_inv sw Lw c"
    and stw: "tcb_state (tcbs sw c) \<in> {READY, STOPPED, EXITED}"
    and yw: "0 \<le> yield_count sw" "yield_count sw < YIELD_RUNS"
    and w: "cpu sw = cli (fst (bios_cancel_timer (cpu s)))" "frames sw = frames s" "live sw = live s"
    and nst: "tcb_state (tcbs s c) \<noteq> STOPPED \<longrightarrow>
      tcb_state (tcbs sw c) = (if tcb_state (tcbs s c) = RUNNING then READY else tcb_state (tcbs s c))"
    and sst: "tcb_state (tcbs s c) = STOPPED \<longrightarrow> tcb_state (tcbs sw c) =
      (if wakeup_time (tcbs s c) \<noteq> NO_TIMEOUT \<and> wakeup_time (tcbs s c) \<le> bios_clock (cpu s) then READY else STOPPED)"
    and wst: "tcb_state (tcbs sw c) = STOPPED \<longrightarrow> wakeup_time (tcbs sw c) = wakeup_time (tcbs s c)"
    and pst: "priority (tcbs sw c) = priority (account cause (snd (bios_cancel_timer (cpu s))) (tcbs s c))"
    and rdy: "\<forall>t. t \<noteq> c \<and> tcb_state (tcbs s t) = READY \<longrightarrow> tcb_state (tcbs sw t) = READY"
    by (rule at_choice_exists [OF inv st y])
  let ?n = "next_thread sw Lw c" and ?p = "cpu_interrupts_enabled (cpu s)"
  have off: "\<not> cpu_interrupts_enabled (cpu sw)" by (simp add: w(1))
  obtain r L' where r: "yield_switch mk ?p c sw = Some r" "sched_inv r L' ?n" "tcbs r = after_switch (tcbs sw) c ?n"
      "yield_count r = yield_count sw" "quantum_armed (cpu r)" "interrupt_handlers (cpu r) = interrupt_handlers (cpu sw)"
      "live r = (if tcb_state (tcbs sw c) = EXITED then live sw - {c} else live sw)"
    and en: "cpu_interrupts_enabled (cpu r) = (frame_preempt (if ?n = c then mk ?p else frames sw ?n)
        \<or> frame_restore (if ?n = c then mk ?p else frames sw ?n))"
    by (rule yield_switch_inv [OF invw stw off, of mk ?p])
  have "tcb_state (tcbs r ?n) = RUNNING" by (simp add: r(3) after_switch_def)
  with r(2,4) yw have "sched_ok r" by (auto simp: sched_ok_def)
  moreover have "yield_in mk cause s = Some r"
    using yield_in_at_choice [OF sched_invD(5) [OF inv] ch] r(1) by simp
  moreover have "tcb_state (tcbs sw c) = EXITED \<longleftrightarrow> tcb_state (tcbs s c) = EXITED"
    using nst sst by (cases "tcb_state (tcbs s c) = STOPPED") (simp_all split: if_splits)
  ultimately show thesis
    using r w en ch invw sst wst pst rdy sched_invD(5) [OF r(2)] by (intro that [of r sw Lw]) (simp_all add: Let_def)
qed

section \<open>Sleeping\<close>

text \<open>A timeout is usable when the time it ends at is not the value that stands for no timeout.\<close>

definition timeout_fits :: "kernel \<Rightarrow> u32 \<Rightarrow> bool" where
  "timeout_fits s timeout \<longleftrightarrow> timeout = NO_TIMEOUT \<or> bios_clock (cpu s) + timeout \<noteq> NO_TIMEOUT"

lemma blocked_inv:
  assumes inv: "sched_inv s L c" and run: "tcb_state (tcbs s c) = RUNNING" and ni: "c \<noteq> idle_thread"
    and st: "st = STOPPED \<or> st = EXITED"
  shows "sched_inv (upd_tcb c (\<lambda>t. t\<lparr>tcb_state := st\<rparr>) s) L c" and "wakeup_time (tcbs s c) = NO_TIMEOUT"
proof -
  have ok: "thread_ok L c c (tcbs s c)" using sched_invD(2,4) [OF inv] by auto
  show w: "wakeup_time (tcbs s c) = NO_TIMEOUT" using awake_no_timeout [OF ok] run by simp
  have "thread_ok L c c ((tcbs s c)\<lparr>tcb_state := st\<rparr>)"
    using ok run ni st w thread_okD(6) [OF ok] by (auto simp: thread_ok_def)
  then show "sched_inv (upd_tcb c (\<lambda>t. t\<lparr>tcb_state := st\<rparr>) s) L c"
    by (intro sched_inv_upd_tcb [OF inv]) simp_all
qed

lemma sleep_before_yield:
  assumes inv: "sched_inv s L c" and run: "tcb_state (tcbs s c) = RUNNING" and ni: "c \<noteq> idle_thread"
    and st: "st = STOPPED \<or> st = EXITED" and fits: "timeout_fits s timeout"
  obtains sz Lz where
    "sleep_releasing st cause timeout s = yield_in (In_sleep (cpu_interrupts_enabled (cpu s))) cause sz"
    and "sched_inv sz Lz c" and "tcb_state (tcbs sz c) = st" and "live sz = live s"
    and "yield_count sz = yield_count s" and "cpu sz = cli (cpu s)" and "frames sz = frames s"
    and "\<forall>u. u \<noteq> c \<longrightarrow> tcbs sz u = tcbs s u"
    and "wakeup_time (tcbs sz c) = (if st = STOPPED \<and> timeout \<noteq> NO_TIMEOUT then bios_clock (cpu s) + timeout else NO_TIMEOUT)"
proof -
  let ?s0 = "s\<lparr>cpu := cli (cpu s)\<rparr>"
  let ?s1 = "upd_tcb c (\<lambda>t. t\<lparr>tcb_state := st\<rparr>) ?s0"
  have inv0: "sched_inv ?s0 L c" using inv by simp
  note B = blocked_inv [OF inv0 _ ni st]
  have inv1: "sched_inv ?s1 L c" and w: "wakeup_time (tcbs s c) = NO_TIMEOUT"
    using B run by simp_all
  have pre: "preempt_off s = (?s0, cpu_interrupts_enabled (cpu s))"
    by (simp add: preempt_off_def cpu_disable_interrupts_eq)
  have sr: "sleep_releasing st cause timeout s =
      do { sz \<leftarrow> (if st \<noteq> EXITED then sched_register_timeout c timeout ?s1 else Some ?s1);
           yield_in (In_sleep (cpu_interrupts_enabled (cpu s))) cause sz }"
    using st sched_invD(5) [OF inv] by (auto simp: sleep_releasing_def pre)
  show thesis
  proof (cases "st = STOPPED \<and> timeout \<noteq> NO_TIMEOUT")
    case True
    let ?w = "bios_clock (cpu s) + timeout"
    have "?w \<noteq> NO_TIMEOUT" using fits True by (simp add: timeout_fits_def)
    with True obtain h L' where "sched_register_timeout c timeout ?s1 = Some (upd_tcb c (\<lambda>t. t\<lparr>wakeup_time := ?w\<rparr>) (?s1\<lparr>sched_heap := h\<rparr>))"
      "sched_inv (upd_tcb c (\<lambda>t. t\<lparr>wakeup_time := ?w\<rparr>) (?s1\<lparr>sched_heap := h\<rparr>)) L' c"
      using register_timeout_inv [OF inv1, of timeout ?w] w by (auto simp: upd_tcb_apply)
    with True sr show thesis
      by (intro that [of "upd_tcb c (\<lambda>t. t\<lparr>wakeup_time := ?w\<rparr>) (?s1\<lparr>sched_heap := h\<rparr>)" L']) (simp_all add: upd_tcb_apply)
  next
    case False
    then have "(if st \<noteq> EXITED then sched_register_timeout c timeout ?s1 else Some ?s1) = Some ?s1"
      using st by (auto simp: sched_register_timeout_def)
    with False sr inv1 w show thesis
      by (intro that [of ?s1 L]) (auto simp: upd_tcb_apply)
  qed
qed

text \<open>Sleeping as a whole.\<close>

lemma sleep_inv:
  assumes inv: "sched_inv s L c" and run: "tcb_state (tcbs s c) = RUNNING" and ni: "c \<noteq> idle_thread"
    and st: "st = STOPPED \<or> st = EXITED" and fits: "timeout_fits s timeout"
    and y: "0 \<le> yield_count s" "yield_count s < YIELD_RUNS"
  obtains r where "sleep_releasing st cause timeout s = Some r" and "sched_ok r"
    and "st = EXITED \<longrightarrow> live r = live s - {c}"
    and "st = STOPPED \<longrightarrow> timeout = NO_TIMEOUT \<or> bios_clock (cpu s) < bios_clock (cpu s) + timeout \<longrightarrow>
      c \<in> live r \<and> tcb_state (tcbs r c) = STOPPED \<and> current_thread r \<noteq> Some c
      \<and> wakeup_time (tcbs r c) = (if timeout = NO_TIMEOUT then NO_TIMEOUT else bios_clock (cpu s) + timeout)"
    and "interrupt_handlers (cpu r) = interrupt_handlers (cpu s)"
proof -
  obtain sz Lz where z: "sleep_releasing st cause timeout s = yield_in (In_sleep (cpu_interrupts_enabled (cpu s))) cause sz"
    "sched_inv sz Lz c" "tcb_state (tcbs sz c) = st" "live sz = live s" "yield_count sz = yield_count s" "cpu sz = cli (cpu s)"
    "wakeup_time (tcbs sz c) = (if st = STOPPED \<and> timeout \<noteq> NO_TIMEOUT then bios_clock (cpu s) + timeout else NO_TIMEOUT)"
    by (rule sleep_before_yield [OF inv run ni st fits])
  have sz: "tcb_state (tcbs sz c) \<in> {RUNNING, STOPPED, EXITED}" "0 \<le> yield_count sz" "yield_count sz < YIELD_RUNS"
    using z st y by auto
  obtain r sw Lw where r: "yield_in (In_sleep (cpu_interrupts_enabled (cpu s))) cause sz = Some r" "sched_ok r"
    "sched_inv sw Lw c" "live r = (if tcb_state (tcbs sz c) = EXITED then live sz - {c} else live sz)"
    "current_thread r = Some (next_thread sw Lw c)" "tcbs r = after_switch (tcbs sw) c (next_thread sw Lw c)"
    "interrupt_handlers (cpu r) = interrupt_handlers (cpu sz)"
    and stop: "tcb_state (tcbs sz c) = STOPPED \<longrightarrow> tcb_state (tcbs sw c) =
      (if wakeup_time (tcbs sz c) \<noteq> NO_TIMEOUT \<and> wakeup_time (tcbs sz c) \<le> bios_clock (cpu sz) then READY else STOPPED)"
    and wake: "tcb_state (tcbs sw c) = STOPPED \<longrightarrow> wakeup_time (tcbs sw c) = wakeup_time (tcbs sz c)"
    by (rule yield_in_inv [OF z(2) sz, of "In_sleep (cpu_interrupts_enabled (cpu s))" cause])
  have stopped: "c \<in> live r \<and> tcb_state (tcbs r c) = STOPPED \<and> wakeup_time (tcbs r c) = wakeup_time (tcbs sz c)
      \<and> current_thread r \<noteq> Some c"
    if "st = STOPPED" "tcb_state (tcbs sw c) = STOPPED"
  proof -
    have "next_thread sw Lw c \<noteq> c" using next_thread_same(1) [OF r(3)] that(2) by auto
    then show ?thesis
      using that wake r(4,5,6) z(3,4) sched_invD(4) [OF inv] by (simp add: after_switch_def)
  qed
  show thesis
  proof (rule that [of r])
    show "sleep_releasing st cause timeout s = Some r" using z(1) r(1) by simp
    show "st = EXITED \<longrightarrow> live r = live s - {c}" using r(4) z(3,4) by simp
    show "st = STOPPED \<longrightarrow> timeout = NO_TIMEOUT \<or> bios_clock (cpu s) < bios_clock (cpu s) + timeout \<longrightarrow>
      c \<in> live r \<and> tcb_state (tcbs r c) = STOPPED \<and> current_thread r \<noteq> Some c
      \<and> wakeup_time (tcbs r c) = (if timeout = NO_TIMEOUT then NO_TIMEOUT else bios_clock (cpu s) + timeout)"
      using stopped stop z(3,6,7) by (auto simp: linorder_not_less [symmetric])
  qed (use r z in simp_all)
qed

section \<open>Waking and spawning\<close>

lemma preempt_bracket:
  "(if cpu_interrupts_enabled c then sei (cli c) else cli c) = c"
  by (simp add: sei_cli_enabled cli_disabled)

lemma cur_thread_eq: "cur_thread s = (s, current_thread s)"
  using preempt_bracket [of "cpu s"]
  by (auto simp: cur_thread_def preempt_off_def preempt_on_def cpu_disable_interrupts_eq
      cpu_enable_interrupts_def upd_cpu_def)

text \<open>\<open>wakeup\<close> on a live thread: a blocked thread becomes ready, anything else is left alone, and the
  interrupt flag is as before.\<close>

lemma wakeup_inv:
  assumes inv: "sched_inv s L c" and t: "t \<in> live s"
  obtains h L' where "wakeup t s = (if tcb_state (tcbs s t) = STOPPED \<or> tcb_state (tcbs s t) = INIT
       then Some (upd_tcb t make_ready_tcb (s\<lparr>sched_heap := h\<rparr>), 1) else Some (s, 0))"
    and "tcb_state (tcbs s t) = STOPPED \<or> tcb_state (tcbs s t) = INIT \<longrightarrow>
      sched_inv (upd_tcb t make_ready_tcb (s\<lparr>sched_heap := h\<rparr>)) L' c"
proof -
  let ?s0 = "s\<lparr>cpu := cli (cpu s)\<rparr>" and ?e = "cpu_interrupts_enabled (cpu s)"
  have pre: "preempt_off s = (?s0, ?e)" by (simp add: preempt_off_def cpu_disable_interrupts_eq)
  have restored: "(if ?e then preempt_on (x\<lparr>cpu := cli (cpu s)\<rparr>) else x\<lparr>cpu := cli (cpu s)\<rparr>) = x\<lparr>cpu := cpu s\<rparr>" for x
    using preempt_bracket [of "cpu s"] by (auto simp: preempt_on_def cpu_enable_interrupts_def upd_cpu_def)
  show thesis
  proof (cases "tcb_state (tcbs s t) = STOPPED \<or> tcb_state (tcbs s t) = INIT")
    case True
    have "sched_inv ?s0 L c" using inv by simp
    then obtain h where h: "sched_make_ready t ?s0 = Some (upd_tcb t make_ready_tcb (?s0\<lparr>sched_heap := h\<rparr>))"
      "sched_inv (upd_tcb t make_ready_tcb (?s0\<lparr>sched_heap := h\<rparr>)) (ready_lists t (tcbs ?s0 t) L) c"
      using make_ready_inv [of ?s0 L c t] t True by (auto simp: live_frame)
    have e: "upd_tcb t make_ready_tcb (?s0\<lparr>sched_heap := h\<rparr>)
        = (upd_tcb t make_ready_tcb (s\<lparr>sched_heap := h\<rparr>))\<lparr>cpu := cli (cpu s)\<rparr>"
      by (simp add: upd_tcb_def)
    have "(upd_tcb t make_ready_tcb (s\<lparr>sched_heap := h\<rparr>))\<lparr>cpu := cpu s\<rparr> = upd_tcb t make_ready_tcb (s\<lparr>sched_heap := h\<rparr>)"
      by (simp add: upd_tcb_def)
    with True h e restored [of "upd_tcb t make_ready_tcb (s\<lparr>sched_heap := h\<rparr>)"] show thesis
      by (intro that [of h "ready_lists t (tcbs s t) L"]) (auto simp: wakeup_def pre)
  next
    case False
    have "s\<lparr>cpu := cpu s\<rparr> = s" by simp
    with False restored [of s] show thesis by (intro that) (auto simp: wakeup_def pre)
  qed
qed

text \<open>\<open>spawn_thread\<close> takes the first free slot and leaves the new thread in state INIT, in no
  queue.\<close>

lemma spawn_full:
  "(\<forall>i<MAX_THREADS. thread_used s i) \<Longrightarrow> spawn_thread pcb func s = (s, None)"
proof -
  assume "\<forall>i<MAX_THREADS. thread_used s i"
  then have "first_from (\<lambda>i. \<not> thread_used s i) 0 MAX_THREADS = None" by (simp add: first_from_None_iff)
  then show ?thesis by (simp add: spawn_thread_def)
qed

definition stack_of :: "kernel \<Rightarrow> nat \<Rightarrow> u16" where
  "stack_of s slot = stacks_at s + of_nat slot * THREAD_STACK_SIZE"

definition spawned :: "nat option \<Rightarrow> thread_fn \<Rightarrow> nat \<Rightarrow> kernel \<Rightarrow> kernel" where
  "spawned pcb func slot s =
     (let tcb = thread_pool slot;
          (m, ctx) = cpu_initialize_context (stack_of s slot) THREAD_STACK_SIZE (thread_start_at s) (dmem (cpu s))
      in s\<lparr>thread_used := (thread_used s)(slot := True),
           sched_heap := rlnode_init (sched_heap s) (sched_node tcb) (Some tcb),
           cpu := (cpu s)\<lparr>dmem := m\<rparr>,
           tcbs := (tcbs s)(tcb := new_tcb pcb func ctx),
           frames := (frames s)(tcb := In_thread_start),
           active_threads := active_threads s + 1\<rparr>)"

lemma spawn_eq:
  "first_from (\<lambda>i. \<not> thread_used s i) 0 MAX_THREADS = Some slot \<Longrightarrow>
   spawn_thread pcb func s = (spawned pcb func slot s, Some (thread_pool slot))"
  by (simp add: spawn_thread_def spawned_def stack_of_def upd_cpu_def upd_tcb_def case_prod_beta Let_def)

lemma spawned_inv:
  assumes inv: "sched_inv s L c" and slot: "slot < MAX_THREADS" "\<not> thread_used s slot"
  shows "sched_inv (spawned pcb func slot s) L c" and "live (spawned pcb func slot s) = insert (thread_pool slot) (live s)"
proof -
  note D = sched_invD [OF inv]
  let ?s = "spawned pcb func slot s" and ?t = "thread_pool slot"
  obtain ctx where f: "thread_used ?s = (thread_used s)(slot := True)"
    "sched_heap ?s = rlnode_init (sched_heap s) (sched_node ?t) (Some ?t)"
    "tcbs ?s = (tcbs s)(?t := new_tcb pcb func ctx)" "active_threads ?s = active_threads s + 1"
    "current_thread ?s = current_thread s"
    by (simp add: spawned_def case_prod_beta Let_def)
  show lv: "live ?s = insert ?t (live s)"
    unfolding live_def f(1) using slot by auto
  have nl: "?t \<notin> live s" using slot by (auto simp: live_def)
  have un: "sched_node ?t \<notin> set (L l)" if "l \<in> heads" for l
    using sched_structD(6) [OF D(1) that] nl by blast
  have "thread_ok L c ?t (new_tcb pcb func ctx)"
    using un D(4) nl by (auto simp: thread_ok_def new_tcb_def)
  then have "\<forall>t\<in>live ?s. thread_ok L c t (tcbs ?s t)"
    unfolding lv f(3) using D(2) by simp
  moreover have "sched_struct (sched_heap ?s) (live ?s) L"
    unfolding lv f(2) by (rule struct_new [OF D(1) nl])
  moreover have "by_wakeup ?s (L TIMEOUT_LIST) = by_wakeup (upd_tcb ?t (\<lambda>_. new_tcb pcb func ctx) s) (L TIMEOUT_LIST)"
    by (simp add: by_wakeup_def f(3) upd_tcb_def)
  then have "by_wakeup ?s (L TIMEOUT_LIST)"
    using D(3) un timeout_nodes [OF D(1)] by (simp add: by_wakeup_upd)
  moreover have "{i. i < MAX_THREADS \<and> thread_used ?s i} = insert slot {i. i < MAX_THREADS \<and> thread_used s i}"
    using slot by (auto simp: f(1))
  then have "active_threads ?s = of_nat (card {i. i < MAX_THREADS \<and> thread_used ?s i})"
    using D(6) slot(2) by (simp add: f(4) add.commute)
  ultimately show "sched_inv ?s L c"
    using D lv f by (simp add: sched_inv_def)
qed

section \<open>Starting the scheduler\<close>

lemma initialize_scheduler_struct:
  "sched_struct (sched_heap (initialize_scheduler s)) {} (\<lambda>_. [])"
proof -
  let ?init = "\<lambda>n s :: kernel. fold (\<lambda>i s. s\<lparr>sched_heap := rlnode_init (sched_heap s) (SCHED (int i)) None\<rparr>) [0..<n] s"
  let ?H = "\<lambda>n. (\<lambda>i. SCHED (int i)) ` {0..<n}"
  have "list_family (sched_heap (?init n s)) (?H n) (\<lambda>_. []) {} \<and> (\<forall>l\<in>?H n. key (sched_heap (?init n s)) l = None)" for n
  proof (induction n)
    case 0
    then show ?case by (simp add: family_none)
  next
    case (Suc n)
    let ?h = "sched_heap (?init n s)"
    have "list_family (rlnode_init ?h (SCHED (int n)) None) (insert (SCHED (int n)) (?H n)) ((\<lambda>_. [])(SCHED (int n) := [])) {}"
      using Suc by (intro family_init_head) auto
    moreover have "insert (SCHED (int n)) (?H n) = ?H (Suc n)" by (auto simp: less_Suc_eq)
    moreover have "(\<lambda>_. [])(SCHED (int n) := []) = (\<lambda>_. [] :: sched_addr list)" by auto
    ultimately show ?case using Suc by auto
  qed
  from this [of SCHED_QUEUES]
  have F: "list_family (sched_heap (?init SCHED_QUEUES s)) (?H SCHED_QUEUES) (\<lambda>_. []) {}"
    "\<forall>l\<in>?H SCHED_QUEUES. key (sched_heap (?init SCHED_QUEUES s)) l = None" by auto
  have H: "insert TIMEOUT_LIST (?H SCHED_QUEUES) = heads"
  proof -
    have "?H SCHED_QUEUES = SCHED ` (int ` {0..<SCHED_QUEUES})" by (simp add: image_image)
    then show ?thesis by (simp add: heads_def image_int_atLeastLessThan)
  qed
  have "list_family (rlnode_init (sched_heap (?init SCHED_QUEUES s)) TIMEOUT_LIST None) heads (\<lambda>_. []) {}"
    using family_init_head [OF F(1), of TIMEOUT_LIST None] unfolding H by (auto simp: fun_upd_idem)
  moreover have "key (rlnode_init (sched_heap (?init SCHED_QUEUES s)) TIMEOUT_LIST None) l = None" if "l \<in> heads" for l
    using F(2) that unfolding H [symmetric] by auto
  ultimately show ?thesis
    by (intro sched_structI) (simp_all add: initialize_scheduler_def Let_def)
qed

lemma initialize_scheduler_fields [simp]:
  "tcbs (initialize_scheduler s) = tcbs s" "thread_used (initialize_scheduler s) = thread_used s"
  "active_threads (initialize_scheduler s) = active_threads s" "yield_count (initialize_scheduler s) = yield_count s"
  "current_thread (initialize_scheduler s) = current_thread s" "cpu (initialize_scheduler s) = cpu s"
  "PT (initialize_scheduler s) = PT s" "frames (initialize_scheduler s) = frames s"
  "ptcb_used (initialize_scheduler s) = ptcb_used s" "stacks_at (initialize_scheduler s) = stacks_at s"
proof -
  have f: "\<exists>h. fold (\<lambda>i s. s\<lparr>sched_heap := rlnode_init (sched_heap s) (SCHED (int i)) None\<rparr>) is s = s\<lparr>sched_heap := h\<rparr>" for "is" s
  proof (induction "is" arbitrary: s)
    case Nil
    show ?case by (rule exI [of _ "sched_heap s"]) simp
  next
    case (Cons i "is")
    from Cons.IH [of "s\<lparr>sched_heap := rlnode_init (sched_heap s) (SCHED (int i)) None\<rparr>"] show ?case by auto
  qed
  then obtain h where "initialize_scheduler s = s\<lparr>sched_heap := h\<rparr>"
    using f [of "[0..<SCHED_QUEUES]" s] by (auto simp: initialize_scheduler_def)
  then show "tcbs (initialize_scheduler s) = tcbs s" "thread_used (initialize_scheduler s) = thread_used s"
  "active_threads (initialize_scheduler s) = active_threads s" "yield_count (initialize_scheduler s) = yield_count s"
  "current_thread (initialize_scheduler s) = current_thread s" "cpu (initialize_scheduler s) = cpu s"
  "PT (initialize_scheduler s) = PT s" "frames (initialize_scheduler s) = frames s"
  "ptcb_used (initialize_scheduler s) = ptcb_used s" "stacks_at (initialize_scheduler s) = stacks_at s"
    by simp_all
qed

text \<open>Before \<open>run_scheduler\<close> there is no current thread and the idle thread is not set up; the
  threads created so far are consistent with the queues.\<close>

definition pool :: "kernel \<Rightarrow> tcb_ptr set" where
  "pool s = thread_pool ` {i. i < MAX_THREADS \<and> thread_used s i}"

definition before_start :: "kernel \<Rightarrow> (sched_addr \<Rightarrow> sched_addr list) \<Rightarrow> bool" where
  "before_start s L \<longleftrightarrow>
     sched_struct (sched_heap s) (pool s) L \<and> (\<forall>t\<in>pool s. thread_ok L idle_thread t (tcbs s t))
     \<and> L TIMEOUT_LIST = [] \<and> priority (tcbs s idle_thread) = 0
     \<and> active_threads s = of_nat (card {i. i < MAX_THREADS \<and> thread_used s i}) \<and> yield_count s = 0"

lemma run_scheduler_start_ok:
  assumes b: "before_start s L"
  shows "sched_inv (run_scheduler_start s) L idle_thread" and "sched_ok (run_scheduler_start s)"
    and "interrupt_handlers (cpu (run_scheduler_start s)) ALARM = Some yield_handler_fn"
    and "cpu_interrupts_enabled (cpu (run_scheduler_start s))"
proof -
  let ?s = "run_scheduler_start s"
  have f: "thread_used ?s = thread_used s" "active_threads ?s = active_threads s" "yield_count ?s = yield_count s"
    "current_thread ?s = Some idle_thread"
    "sched_heap ?s = rlnode_init (sched_heap s) (sched_node idle_thread) (Some idle_thread)"
    by (simp_all add: run_scheduler_start_def preempt_on_def Let_def)
  have t: "t \<noteq> idle_thread \<Longrightarrow> tcbs ?s t = tcbs s t" for t
    by (simp add: run_scheduler_start_def preempt_on_def Let_def upd_tcb_apply)
  have i: "priority (tcbs ?s idle_thread) = priority (tcbs s idle_thread)" "tcb_state (tcbs ?s idle_thread) = RUNNING"
    "phase (tcbs ?s idle_thread) = CTX_DIRTY" "wakeup_time (tcbs ?s idle_thread) = NO_TIMEOUT"
    "tcb_type (tcbs ?s idle_thread) = IDLE_THREAD"
    by (simp_all add: run_scheduler_start_def preempt_on_def Let_def upd_tcb_apply)
  have lv: "live ?s = insert idle_thread (pool s)" by (simp add: live_def pool_def f)
  have np: "idle_thread \<notin> pool s" by (auto simp: pool_def)
  have B: "sched_struct (sched_heap s) (pool s) L" "\<forall>t\<in>pool s. thread_ok L idle_thread t (tcbs s t)"
    "L TIMEOUT_LIST = []" "priority (tcbs s idle_thread) = 0"
    "active_threads s = of_nat (card {i. i < MAX_THREADS \<and> thread_used s i})" "yield_count s = 0"
    using b by (simp_all add: before_start_def)
  have un: "sched_node idle_thread \<notin> set (L l)" if "l \<in> heads" for l
    using sched_structD(6) [OF B(1) that] np by blast
  have "thread_ok L idle_thread idle_thread (tcbs ?s idle_thread)"
    using un i B(3,4) by (simp add: thread_ok_def)
  moreover have "\<forall>u\<in>pool s. thread_ok L idle_thread u (tcbs ?s u)"
  proof
    fix u assume "u \<in> pool s"
    then show "thread_ok L idle_thread u (tcbs ?s u)" using B(2) np t [of u] by metis
  qed
  moreover have "sched_struct (sched_heap ?s) (live ?s) L" unfolding f lv by (rule struct_new [OF B(1) np])
  ultimately show inv: "sched_inv ?s L idle_thread"
    using B f by (simp add: sched_inv_def lv by_wakeup_def)
  then show "sched_ok ?s" using i f B(6) by (auto simp: sched_ok_def YIELD_RUNS_def)
  show "interrupt_handlers (cpu ?s) ALARM = Some yield_handler_fn" "cpu_interrupts_enabled (cpu ?s)"
    by (simp_all add: run_scheduler_start_def preempt_on_def Let_def cpu_enable_interrupts_def cpu_interrupt_handler_def)
qed

lemma initialized_before_start:
  assumes "bss_cleared s"
  shows "before_start (initialize_scheduler s) (\<lambda>_. [])"
proof -
  have "pool (initialize_scheduler s) = {}" using assms by (simp add: pool_def bss_cleared_def)
  then show ?thesis
    using assms initialize_scheduler_struct [of s] by (simp add: before_start_def bss_cleared_def zero_TCB_def)
qed

end
