(* ===== verification/Sched_Props.thy ===== *)
theory Sched_Props
  imports Sched_Ops
begin

text \<open>
  The scheduler as a transition system, and its properties. A step is one call of a scheduler
  operation by the running thread, the alarm interrupt, or the hardware moving on (the timer
  counts, the clock ticks, the UART registers change), in any order: the steps are the
  interleavings that the interrupts allow between the calls.
\<close>

section \<open>Steps\<close>

inductive kstep :: "kernel \<Rightarrow> kernel \<Rightarrow> bool" where
  step_yield: "yield cause s = Some s' \<Longrightarrow> kstep s s'"
| step_sleep: "current_thread s \<noteq> Some idle_thread \<Longrightarrow> timeout_fits s timeout \<Longrightarrow>
    sleep_releasing state cause timeout s = Some s' \<Longrightarrow> kstep s s'"
| step_wakeup: "t \<in> live s \<Longrightarrow> wakeup t s = Some (s', ret) \<Longrightarrow> kstep s s'"
| step_spawn: "spawn_thread pcb func s = (s', t) \<Longrightarrow> kstep s s'"
| step_alarm: "alarm_interrupt s = Some s' \<Longrightarrow> kstep s s'"
| step_hardware: "interrupt_handlers c = interrupt_handlers (cpu s) \<Longrightarrow> kstep s (s\<lparr>cpu := c\<rparr>)"

inductive_cases kstepE: "kstep s s'"

text \<open>The invariant of the running system: the scheduler's own, and the alarm handler installed by
  \<open>run_scheduler\<close>.\<close>

definition running_ok :: "kernel \<Rightarrow> bool" where
  "running_ok s \<longleftrightarrow> sched_ok s \<and> interrupt_handlers (cpu s) ALARM = Some yield_handler_fn"

lemma sched_okE:
  assumes "sched_ok s"
  obtains L c where "sched_inv s L c" "tcb_state (tcbs s c) = RUNNING" "0 \<le> yield_count s" "yield_count s < YIELD_RUNS"
    "current_thread s = Some c"
  using assms sched_invD(5) by (auto simp: sched_ok_def)

lemma sched_okI:
  "sched_inv s L c \<Longrightarrow> tcb_state (tcbs s c) = RUNNING \<Longrightarrow> 0 \<le> yield_count s \<Longrightarrow> yield_count s < YIELD_RUNS \<Longrightarrow> sched_ok s"
  by (auto simp: sched_ok_def)

lemma yield_ok:
  assumes "sched_ok s"
  shows "\<exists>r. yield_in mk cause s = Some r \<and> sched_ok r \<and> interrupt_handlers (cpu r) = interrupt_handlers (cpu s)"
proof -
  obtain L c where c: "sched_inv s L c" "tcb_state (tcbs s c) = RUNNING" "0 \<le> yield_count s" "yield_count s < YIELD_RUNS"
    using assms by (rule sched_okE)
  have "tcb_state (tcbs s c) \<in> {RUNNING, STOPPED, EXITED}" using c(2) by simp
  then obtain r where "yield_in mk cause s = Some r" "sched_ok r" "interrupt_handlers (cpu r) = interrupt_handlers (cpu s)"
    by (rule yield_in_inv [OF c(1) _ c(3,4)])
  then show ?thesis by (intro exI conjI)
qed

lemma alarm_eq:
  "interrupt_handlers (cpu s) ALARM = Some yield_handler_fn \<Longrightarrow> alarm_interrupt s = yield SCHED_QUANTUM (upd_cpu cli s)"
  by (simp add: alarm_interrupt_def TIMER1_COMPA_vect_def yield_handler_def)

lemma sched_ok_cpu [simp]: "sched_ok (s\<lparr>cpu := c\<rparr>) = sched_ok s" "sched_ok (upd_cpu g s) = sched_ok s"
  by (simp_all add: sched_ok_def)

lemma wakeup_ok:
  assumes ok: "sched_ok s" and t: "t \<in> live s"
  shows "\<exists>s'. wakeup t s = Some (s', if tcb_state (tcbs s t) = STOPPED \<or> tcb_state (tcbs s t) = INIT then 1 else 0)
    \<and> sched_ok s' \<and> live s' = live s \<and> cpu s' = cpu s \<and> current_thread s' = current_thread s
    \<and> tcbs s' = (tcbs s)(t := (if tcb_state (tcbs s t) = STOPPED \<or> tcb_state (tcbs s t) = INIT
         then make_ready_tcb (tcbs s t) else tcbs s t))"
proof -
  obtain L c where c: "sched_inv s L c" "tcb_state (tcbs s c) = RUNNING" "0 \<le> yield_count s" "yield_count s < YIELD_RUNS"
    using ok by (rule sched_okE)
  obtain h L' where w: "wakeup t s = (if tcb_state (tcbs s t) = STOPPED \<or> tcb_state (tcbs s t) = INIT
       then Some (upd_tcb t make_ready_tcb (s\<lparr>sched_heap := h\<rparr>), 1) else Some (s, 0))"
    "tcb_state (tcbs s t) = STOPPED \<or> tcb_state (tcbs s t) = INIT \<longrightarrow>
      sched_inv (upd_tcb t make_ready_tcb (s\<lparr>sched_heap := h\<rparr>)) L' c"
    by (rule wakeup_inv [OF c(1) t])
  show ?thesis
  proof (cases "tcb_state (tcbs s t) = STOPPED \<or> tcb_state (tcbs s t) = INIT")
    case True
    then have "t \<noteq> c" using c(2) by auto
    with True w c have "sched_ok (upd_tcb t make_ready_tcb (s\<lparr>sched_heap := h\<rparr>))"
      by (intro sched_okI [of _ L' c]) (simp_all add: upd_tcb_apply)
    with True w show ?thesis by (simp add: upd_tcb_def)
  next
    case False
    with w ok show ?thesis by simp
  qed
qed

lemma spawn_ok:
  assumes ok: "sched_ok s"
  shows "sched_ok (fst (spawn_thread pcb func s))"
    and "interrupt_handlers (cpu (fst (spawn_thread pcb func s))) = interrupt_handlers (cpu s)"
proof -
  obtain L c where c: "sched_inv s L c" "tcb_state (tcbs s c) = RUNNING" "0 \<le> yield_count s" "yield_count s < YIELD_RUNS"
    using ok by (rule sched_okE)
  have "sched_ok (fst (spawn_thread pcb func s)) \<and>
    interrupt_handlers (cpu (fst (spawn_thread pcb func s))) = interrupt_handlers (cpu s)"
  proof (cases "first_from (\<lambda>i. \<not> thread_used s i) 0 MAX_THREADS")
    case None
    then show ?thesis using ok by (simp add: spawn_thread_def)
  next
    case (Some slot)
    note F = first_from_SomeD [OF Some]
    have "thread_pool slot \<noteq> c" using F sched_invD(4) [OF c(1)] by (auto simp: live_def)
    then have "tcb_state (tcbs (spawned pcb func slot s) c) = RUNNING"
      using c(2) by (simp add: spawned_def case_prod_beta Let_def)
    moreover have "yield_count (spawned pcb func slot s) = yield_count s"
      "interrupt_handlers (cpu (spawned pcb func slot s)) = interrupt_handlers (cpu s)"
      by (simp_all add: spawned_def case_prod_beta Let_def)
    ultimately show ?thesis
      using spawned_inv(1) [OF c(1), of slot pcb func] F c spawn_eq [OF Some] by (auto intro: sched_okI)
  qed
  then show "sched_ok (fst (spawn_thread pcb func s))"
    "interrupt_handlers (cpu (fst (spawn_thread pcb func s))) = interrupt_handlers (cpu s)" by auto
qed

lemma sleep_ok:
  assumes ok: "sched_ok s" and ni: "current_thread s \<noteq> Some idle_thread" and fits: "timeout_fits s timeout"
    and st: "st = STOPPED \<or> st = EXITED"
  shows "\<exists>r. sleep_releasing st cause timeout s = Some r \<and> sched_ok r
    \<and> interrupt_handlers (cpu r) = interrupt_handlers (cpu s)"
proof -
  obtain L c where c: "sched_inv s L c" "tcb_state (tcbs s c) = RUNNING" "0 \<le> yield_count s" "yield_count s < YIELD_RUNS"
    "current_thread s = Some c" using ok by (rule sched_okE)
  then have "c \<noteq> idle_thread" using ni by simp
  then obtain r where "sleep_releasing st cause timeout s = Some r" "sched_ok r"
    "interrupt_handlers (cpu r) = interrupt_handlers (cpu s)"
    by (rule sleep_inv [OF c(1,2) _ st fits c(3,4)])
  then show ?thesis by blast
qed

lemma kstep_keeps: "kstep s s' \<Longrightarrow> running_ok s \<Longrightarrow> running_ok s'"
proof (induction rule: kstep.induct)
  case (step_yield cause s s')
  then show ?case using yield_ok [of s In_yield cause] by (auto simp: running_ok_def yield_def)
next
  case (step_sleep s timeout state cause s')
  then have "state = STOPPED \<or> state = EXITED" by (auto simp: sleep_releasing_def split: if_splits)
  then show ?case using step_sleep sleep_ok [of s timeout state cause] by (auto simp: running_ok_def)
next
  case (step_wakeup t s s' ret)
  then show ?case using wakeup_ok [of s t] by (auto simp: running_ok_def)
next
  case (step_spawn pcb func s s' t)
  then show ?case using spawn_ok [of s pcb func] by (auto simp: running_ok_def)
next
  case (step_alarm s s')
  then have "yield SCHED_QUANTUM (upd_cpu cli s) = Some s'" by (simp add: running_ok_def alarm_eq)
  then show ?case
    using step_alarm yield_ok [of "upd_cpu cli s" In_yield SCHED_QUANTUM] by (auto simp: running_ok_def yield_def)
next
  case (step_hardware c s)
  then show ?case by (simp add: running_ok_def)
qed

interpretation sched: invariant_system kstep running_ok
  by unfold_locales (rule kstep_keeps)

text \<open>The thread pool as a slot allocator.\<close>

fun pool_index :: "tcb_ptr \<Rightarrow> nat" where
  "pool_index (thread_pool i) = i"
| "pool_index idle_thread = MAX_THREADS"

interpretation threads: slot_allocator thread_used MAX_THREADS
  "\<lambda>s. (fst (allocate_thread s), map_option pool_index (snd (allocate_thread s)))"
  "\<lambda>i. free_thread (thread_pool i)"
proof
  fix s s' i
  show "(fst (allocate_thread s), map_option pool_index (snd (allocate_thread s))) = (s', Some i) \<Longrightarrow>
    i < MAX_THREADS \<and> \<not> thread_used s i \<and> thread_used s' = (thread_used s)(i := True)"
    by (auto simp: allocate_thread_def split: option.splits dest: first_from_SomeD)
  show "(fst (allocate_thread s), map_option pool_index (snd (allocate_thread s))) = (s', None) \<Longrightarrow>
    s' = s \<and> (\<forall>i < MAX_THREADS. thread_used s i)"
    by (auto simp: allocate_thread_def first_from_None_iff split: option.splits)
  show "i < MAX_THREADS \<Longrightarrow> thread_used (free_thread (thread_pool i) s) = (thread_used s)(i := False)"
    by (simp add: free_thread_pool)
qed

section \<open>States to compute with\<close>

text \<open>The kernel right after \<open>run_scheduler\<close> has set up the idle thread, with no other thread.\<close>

definition idle_kernel :: kernel where
  "idle_kernel = run_scheduler_start (initialize_scheduler blank_kernel)"

lemma idle_kernel_inv: "sched_inv idle_kernel (\<lambda>_. []) idle_thread"
  unfolding idle_kernel_def by (intro run_scheduler_start_ok initialized_before_start bss_blank)

lemma idle_kernel_ok: "running_ok idle_kernel"
  using run_scheduler_start_ok(2,3) [OF initialized_before_start [OF bss_blank]]
  by (simp add: idle_kernel_def running_ok_def)

lemma idle_kernel_fields [simp]:
  "thread_used idle_kernel = (\<lambda>_. False)" "current_thread idle_kernel = Some idle_thread"
  "live idle_kernel = {idle_thread}" "tcb_state (tcbs idle_kernel idle_thread) = RUNNING"
  by (simp_all add: idle_kernel_def run_scheduler_start_def preempt_on_def Let_def blank_kernel_def live_def upd_tcb_apply)

text \<open>The same with one new thread, in the first slot.\<close>

definition one_thread :: kernel where
  "one_thread = fst (spawn_thread (Some 1) start_main_thread_fn idle_kernel)"

lemma one_thread_eq: "spawn_thread (Some 1) start_main_thread_fn idle_kernel
    = (spawned (Some 1) start_main_thread_fn 0 idle_kernel, Some (thread_pool 0))"
proof -
  have "first_from (\<lambda>i. \<not> thread_used idle_kernel i) 0 MAX_THREADS = Some 0"
    by (rule first_from_eqI) (simp_all add: MAX_THREADS_def)
  then show ?thesis by (rule spawn_eq)
qed

lemma one_thread_spawned: "one_thread = spawned (Some 1) start_main_thread_fn 0 idle_kernel"
  by (simp only: one_thread_def one_thread_eq fst_conv)

lemma one_thread_ok: "running_ok one_thread"
  using spawn_ok [of idle_kernel "Some 1" start_main_thread_fn] idle_kernel_ok
  by (simp add: running_ok_def one_thread_def)

lemma one_thread_inv: "sched_inv one_thread (\<lambda>_. []) idle_thread"
  unfolding one_thread_spawned
  by (rule spawned_inv(1) [OF idle_kernel_inv]) (simp_all add: MAX_THREADS_def)

lemma one_thread_live [simp]: "live one_thread = {thread_pool 0, idle_thread}"
  unfolding one_thread_spawned
  using spawned_inv(2) [OF idle_kernel_inv, of 0] by (simp add: MAX_THREADS_def)

lemma one_thread_tcb [simp]:
  "tcb_state (tcbs one_thread (thread_pool 0)) = INIT" "current_thread one_thread = Some idle_thread"
  "priority (tcbs one_thread (thread_pool 0)) = 0" "tcb_state (tcbs one_thread idle_thread) = RUNNING"
  by (simp_all add: one_thread_spawned spawned_def new_tcb_def case_prod_beta Let_def)

section \<open>Properties\<close>

lemma linked_unique:
  "linked h (x # xs @ [l]) \<Longrightarrow> linked h (x # ys @ [l]) \<Longrightarrow> l \<notin> set xs \<Longrightarrow> l \<notin> set ys \<Longrightarrow> xs = ys"
proof (induction xs arbitrary: x ys)
  case Nil
  then show ?case by (cases ys) auto
next
  case (Cons a xs)
  then show ?case by (cases ys) auto
qed

lemma rlist_unique: "rlist h l xs \<Longrightarrow> rlist h l ys \<Longrightarrow> xs = ys"
  by (auto simp: rlist_def ring.simps(2) intro: linked_unique)

text \<open>C1. The invariant \<open>kernel_sched.h\<close> states for the scheduler holds in every state the kernel can
  reach once the scheduler runs: a thread is in a run queue if and only if its state is READY and
  its phase CTX_CLEAN, and then it is in the queue of its priority and in no other. (The idle
  thread is never queued.)\<close>

theorem queued_iff_ready_and_clean:
  assumes "running_ok s0" and "kstep\<^sup>*\<^sup>* s0 s" and "t \<in> live s" and "t \<noteq> idle_thread"
    and "0 \<le> i" and "i < 10" and "rlist (sched_heap s) (SCHED i) xs"
  shows "sched_node t \<in> set xs \<longleftrightarrow>
    tcb_state (tcbs s t) = READY \<and> phase (tcbs s t) = CTX_CLEAN \<and> priority (tcbs s t) = i"
proof -
  have "sched_ok s" using sched.reachable_keeps [OF assms(2,1)] by (simp add: running_ok_def)
  then obtain L c where inv: "sched_inv s L c" by (rule sched_okE)
  note D = sched_invD [OF inv]
  have "rlist (sched_heap s) (SCHED i) (L (SCHED i))" using struct_rlist [OF D(1)] assms(5,6) by simp
  then have "xs = L (SCHED i)" by (rule rlist_unique [OF assms(7)])
  then show ?thesis using thread_okD(3) [OF D(2) [OF assms(3)] assms(5,6)] assms(4) by simp
qed

theorem queued_iff_ready_and_clean_witness:
  "sched_node (thread_pool 0) \<in> set [] \<longleftrightarrow> tcb_state (tcbs one_thread (thread_pool 0)) = READY
    \<and> phase (tcbs one_thread (thread_pool 0)) = CTX_CLEAN \<and> priority (tcbs one_thread (thread_pool 0)) = 0"
proof -
  have "kstep idle_kernel one_thread"
    by (rule step_spawn [of "Some 1" start_main_thread_fn _ _ "Some (thread_pool 0)"])
      (simp only: one_thread_eq one_thread_spawned)
  then have "kstep\<^sup>*\<^sup>* idle_kernel one_thread" by simp
  moreover have "rlist (sched_heap one_thread) (SCHED 0) []"
    using struct_rlist [OF sched_invD(1) [OF one_thread_inv], of "SCHED 0"] by simp
  ultimately show ?thesis
    using queued_iff_ready_and_clean [OF idle_kernel_ok, of one_thread "thread_pool 0" 0 "[]"] by simp
qed

text \<open>C2. No assertion of the scheduler fails and none of its loops runs forever in a state the
  kernel can reach: \<open>yield\<close> and the alarm interrupt always return, \<open>wakeup\<close> returns for every live
  thread, and \<open>sleep_releasing\<close> for every thread but the idle one and every timeout whose end is
  not the reserved value \<open>NO_TIMEOUT\<close>.\<close>

theorem scheduler_never_stuck:
  assumes "running_ok s0" and "kstep\<^sup>*\<^sup>* s0 s"
  shows "yield cause s \<noteq> None \<and> alarm_interrupt s \<noteq> None
    \<and> (t \<in> live s \<longrightarrow> wakeup t s \<noteq> None)
    \<and> (current_thread s \<noteq> Some idle_thread \<and> timeout_fits s timeout \<and> (st = STOPPED \<or> st = EXITED) \<longrightarrow>
         sleep_releasing st cause timeout s \<noteq> None)"
proof -
  have ok: "sched_ok s" "interrupt_handlers (cpu s) ALARM = Some yield_handler_fn"
    using sched.reachable_keeps [OF assms(2,1)] by (simp_all add: running_ok_def)
  have "yield cause s \<noteq> None" using yield_ok [OF ok(1), of In_yield cause] by (auto simp: yield_def)
  moreover have "sched_ok (upd_cpu cli s)" using ok(1) by simp
  then have "alarm_interrupt s \<noteq> None"
    using yield_ok [of "upd_cpu cli s" In_yield SCHED_QUANTUM] alarm_eq [OF ok(2)] by (auto simp: yield_def)
  moreover have "t \<in> live s \<Longrightarrow> wakeup t s \<noteq> None" using wakeup_ok [OF ok(1), of t] by auto
  moreover have "current_thread s \<noteq> Some idle_thread \<Longrightarrow> timeout_fits s timeout \<Longrightarrow> st = STOPPED \<or> st = EXITED \<Longrightarrow>
      sleep_releasing st cause timeout s \<noteq> None"
    using sleep_ok [OF ok(1), of timeout st cause] by auto
  ultimately show ?thesis by blast
qed

theorem scheduler_never_stuck_witness:
  "yield SCHED_IDLE idle_kernel \<noteq> None \<and> alarm_interrupt idle_kernel \<noteq> None"
  using scheduler_never_stuck [OF idle_kernel_ok, of idle_kernel SCHED_IDLE] by simp

lemma after_switch_simps:
  "after_switch T c n n = run_tcb ((T n)\<lparr>its := QUANTUM\<rparr>)"
  "u \<noteq> n \<Longrightarrow> u \<noteq> c \<Longrightarrow> after_switch T c n u = T u"
  "priority (after_switch T c n u) = priority (T u)"
  by (auto simp: after_switch_def)

text \<open>C3. \<open>yield\<close> gives the core to a ready thread of the highest priority: no thread that is ready
  after the call, other than the one that yielded, has a higher priority (a smaller number) than
  the thread that runs; the yielding thread itself or the idle thread runs only when no other
  thread is ready, so that when some other thread is ready at the call one of them runs next.\<close>

theorem yield_runs_highest_priority:
  assumes "sched_ok s" and "current_thread s = Some c"
  shows "\<exists>r n. yield cause s = Some r \<and> sched_ok r \<and> current_thread r = Some n \<and> tcb_state (tcbs r n) = RUNNING
    \<and> (\<forall>t\<in>live r. t \<noteq> n \<and> t \<noteq> c \<and> t \<noteq> idle_thread \<and> tcb_state (tcbs r t) = READY \<longrightarrow>
         n \<noteq> c \<and> n \<noteq> idle_thread \<and> priority (tcbs r n) \<le> priority (tcbs r t))
    \<and> ((\<exists>t\<in>live s. t \<noteq> c \<and> t \<noteq> idle_thread \<and> tcb_state (tcbs s t) = READY) \<longrightarrow> n \<noteq> c \<and> n \<noteq> idle_thread)"
proof -
  obtain L d where d: "sched_inv s L d" "tcb_state (tcbs s d) = RUNNING" "0 \<le> yield_count s" "yield_count s < YIELD_RUNS"
    "current_thread s = Some d" using assms(1) by (rule sched_okE)
  then have c: "d = c" using assms(2) by simp
  have st: "tcb_state (tcbs s c) \<in> {RUNNING, STOPPED, EXITED}" using d(2) c by simp
  obtain r sw Lw where r: "yield_in In_yield cause s = Some r" "sched_ok r" "sched_inv sw Lw c" "live sw = live s"
    "live r = (if tcb_state (tcbs s c) = EXITED then live s - {c} else live s)"
    "current_thread r = Some (next_thread sw Lw c)" "tcbs r = after_switch (tcbs sw) c (next_thread sw Lw c)"
    "\<forall>t. t \<noteq> c \<and> tcb_state (tcbs s t) = READY \<longrightarrow> tcb_state (tcbs sw t) = READY"
    by (rule yield_in_inv [OF d(1) [unfolded c] st d(3,4)])
  let ?n = "next_thread sw Lw c"
  have "?n \<noteq> c \<and> ?n \<noteq> idle_thread \<and> priority (tcbs r ?n) \<le> priority (tcbs r t)"
    if t: "t \<in> live r" "t \<noteq> ?n" "t \<noteq> c" "t \<noteq> idle_thread" "tcb_state (tcbs r t) = READY" for t
    using next_thread_best [OF r(3), of t] t d(2) c r(4,5) by (simp add: r(7) after_switch_simps)
  moreover have "tcb_state (tcbs r ?n) = RUNNING" by (simp add: r(7) after_switch_simps)
  moreover have "?n \<noteq> c \<and> ?n \<noteq> idle_thread"
    if "\<exists>t\<in>live s. t \<noteq> c \<and> t \<noteq> idle_thread \<and> tcb_state (tcbs s t) = READY"
    using that next_thread_best [OF r(3)] r(4,8) by blast
  ultimately show ?thesis using r(1,2,6) by (intro exI [of _ r] exI [of _ ?n]) (simp add: yield_def)
qed

theorem yield_runs_highest_priority_witness:
  "\<exists>r n. yield SCHED_USER one_thread = Some r \<and> current_thread r = Some n \<and> tcb_state (tcbs r n) = RUNNING"
  using yield_runs_highest_priority [of one_thread idle_thread SCHED_USER] one_thread_ok
  by (auto simp: running_ok_def)

text \<open>C4. The dynamic priority of the thread that yields: down one queue when its quantum ran out, up
  one when it waits for I/O, down one when it found a mutex taken twice in a row, unchanged for
  every other cause, and never outside the ten queues.\<close>

theorem yield_adjusts_priority:
  assumes "sched_ok s" and "current_thread s = Some c"
  shows "\<exists>r. yield cause s = Some r \<and> priority (tcbs r c) =
    (case cause of SCHED_QUANTUM \<Rightarrow> min 9 (priority (tcbs s c) + 1)
     | SCHED_IO \<Rightarrow> max 0 (priority (tcbs s c) - 1)
     | SCHED_MUTEX \<Rightarrow> if curr_cause (tcbs s c) = SCHED_MUTEX then min 9 (priority (tcbs s c) + 1) else priority (tcbs s c)
     | _ \<Rightarrow> priority (tcbs s c))"
proof -
  obtain L d where d: "sched_inv s L d" "tcb_state (tcbs s d) = RUNNING" "0 \<le> yield_count s" "yield_count s < YIELD_RUNS"
    "current_thread s = Some d" using assms(1) by (rule sched_okE)
  then have c: "d = c" using assms(2) by simp
  have st: "tcb_state (tcbs s c) \<in> {RUNNING, STOPPED, EXITED}" using d(2) c by simp
  have b: "0 \<le> priority (tcbs s c)" "priority (tcbs s c) < 10"
    using thread_okD(1,2) [OF sched_invD(2) [OF d(1) sched_invD(4) [OF d(1)]]] c by auto
  obtain r sw Lw where r: "yield_in In_yield cause s = Some r"
    "priority (tcbs sw c) = priority (account cause (snd (bios_cancel_timer (cpu s))) (tcbs s c))"
    "tcbs r = after_switch (tcbs sw) c (next_thread sw Lw c)"
    by (rule yield_in_inv [OF d(1) [unfolded c] st d(3,4)])
  have "priority (tcbs r c) = priority (account cause (snd (bios_cancel_timer (cpu s))) (tcbs s c))"
    by (simp add: r(2,3) after_switch_simps)
  then show ?thesis
    using b r(1) by (cases cause) (auto simp: yield_def account_def SCHED_QUEUES_def Let_def eq_commute [of SCHED_MUTEX])
qed

theorem yield_adjusts_priority_witness:
  "\<exists>r. yield SCHED_QUANTUM one_thread = Some r
    \<and> priority (tcbs r idle_thread) = min 9 (priority (tcbs one_thread idle_thread) + 1)"
  using yield_adjusts_priority [of one_thread idle_thread SCHED_QUANTUM] one_thread_ok
  by (auto simp: running_ok_def)

text \<open>Whichever thread comes out of \<open>yield\<close>, its time slice is a full quantum (the alarm is set to
  2500 ticks of 4 microseconds from now), and interrupts are on exactly if they are to be on for
  that thread: always for a new thread, as it had them when it called for a thread that yielded
  or slept before.\<close>

theorem yield_starts_time_slice:
  assumes "sched_ok s" and "current_thread s = Some c"
  shows "\<exists>r n. yield cause s = Some r \<and> current_thread r = Some n
    \<and> read16 (cpu r) OCR1A_L OCR1A_H = 2500 \<and> read16 (cpu r) TCNT1_L TCNT1_H = 0
    \<and> cpu_interrupts_enabled (cpu r) = (if n = c then cpu_interrupts_enabled (cpu s) else
        case frames s n of In_thread_start \<Rightarrow> True | In_yield preempt \<Rightarrow> preempt
        | In_sleep oldpre preempt \<Rightarrow> oldpre \<or> preempt)"
proof -
  obtain L d where d: "sched_inv s L d" "tcb_state (tcbs s d) = RUNNING" "0 \<le> yield_count s" "yield_count s < YIELD_RUNS"
    "current_thread s = Some d" using assms(1) by (rule sched_okE)
  then have c: "d = c" using assms(2) by simp
  have st: "tcb_state (tcbs s c) \<in> {RUNNING, STOPPED, EXITED}" using d(2) c by simp
  obtain r sw Lw where r: "yield_in In_yield cause s = Some r" "current_thread r = Some (next_thread sw Lw c)"
    "quantum_armed (cpu r)" "cpu_interrupts_enabled (cpu r) =
      (let fr = (if next_thread sw Lw c = c then In_yield (cpu_interrupts_enabled (cpu s)) else frames s (next_thread sw Lw c))
       in frame_preempt fr \<or> frame_restore fr)"
    by (rule yield_in_inv [OF d(1) [unfolded c] st d(3,4)])
  have f: "frame_preempt fr \<or> frame_restore fr \<longleftrightarrow> (case fr of In_thread_start \<Rightarrow> True | In_yield preempt \<Rightarrow> preempt
        | In_sleep oldpre preempt \<Rightarrow> oldpre \<or> preempt)" for fr
    by (cases fr) auto
  show ?thesis
    using r by (intro exI [of _ r] exI [of _ "next_thread sw Lw c"]) (simp add: yield_def quantum_armed_def f Let_def)
qed

theorem yield_starts_time_slice_witness:
  "\<exists>r. yield SCHED_IDLE idle_kernel = Some r \<and> read16 (cpu r) OCR1A_L OCR1A_H = 2500"
  using yield_starts_time_slice [of idle_kernel idle_thread SCHED_IDLE] idle_kernel_ok
  by (auto simp: running_ok_def)

text \<open>C5. \<open>sched_boost_priority\<close> ends, moves every queued thread up by exactly one queue (those of the
  highest priority stay), keeps the order within a queue, appends the threads of queue 1 after
  those of queue 0, and leaves every thread that is not queued alone.\<close>

theorem boost_moves_up_one_queue:
  assumes "sched_ok s" and "\<And>i. 0 \<le> i \<Longrightarrow> i < 10 \<Longrightarrow> rlist (sched_heap s) (SCHED i) (q i)"
  shows "\<exists>s'. sched_boost_priority s = Some s' \<and> sched_ok s'
    \<and> rlist (sched_heap s') (SCHED 0) (q 0 @ q 1)
    \<and> (\<forall>i. 1 \<le> i \<and> i < 9 \<longrightarrow> rlist (sched_heap s') (SCHED i) (q (i + 1))) \<and> rlist (sched_heap s') (SCHED 9) []
    \<and> (\<forall>t\<in>live s. priority (tcbs s' t) = (if \<exists>i. 1 \<le> i \<and> i < 10 \<and> sched_node t \<in> set (q i)
         then priority (tcbs s t) - 1 else priority (tcbs s t)))"
proof -
  obtain L c where c: "sched_inv s L c" "tcb_state (tcbs s c) = RUNNING" "0 \<le> yield_count s" "yield_count s < YIELD_RUNS"
    using assms(1) by (rule sched_okE)
  note D = sched_invD [OF c(1)]
  have q: "L (SCHED i) = q i" if "0 \<le> i" "i < 10" for i
    using struct_rlist [OF D(1), of "SCHED i"] assms(2) that rlist_unique [of "sched_heap s" "SCHED i"] by simp
  obtain h where h: "sched_boost_priority s = Some (raise_all s (\<Union>j\<in>{1..9}. set (L (SCHED j))) h)"
    "sched_inv (raise_all s (\<Union>j\<in>{1..9}. set (L (SCHED j))) h) (boosted 9 L) c"
    by (rule boost_inv [OF c(1)])
  let ?s = "raise_all s (\<Union>j\<in>{1..9}. set (L (SCHED j))) h"
  have r: "rlist (sched_heap ?s) (SCHED i) (boosted 9 L (SCHED i))" if "0 \<le> i" "i < 10" for i
    using struct_rlist [OF sched_invD(1) [OF h(2)], of "SCHED i"] that by simp
  have mem: "sched_node t \<in> (\<Union>j\<in>{1..9}. set (L (SCHED j))) \<longleftrightarrow> (\<exists>i. 1 \<le> i \<and> i < 10 \<and> sched_node t \<in> set (q i))" for t
    using q by force
  have "sched_node c \<notin> (\<Union>j\<in>{1..9}. set (L (SCHED j)))" by (rule current_not_raised [OF c(1)])
  then have "sched_ok ?s" using h(2) c by (intro sched_okI [of _ "boosted 9 L" c]) auto
  moreover have "rlist (sched_heap ?s) (SCHED 0) (q 0 @ q 1)" "rlist (sched_heap ?s) (SCHED 9) []"
    using r [of 0] r [of 9] q [of 0] q [of 1] by (simp_all add: boosted_SCHED)
  moreover have "rlist (sched_heap ?s) (SCHED i) (q (i + 1))" if "1 \<le> i" "i < 9" for i
    using r [of i] q [of "i + 1"] that by (simp add: boosted_SCHED)
  moreover have "priority (tcbs ?s t) = (if \<exists>i. 1 \<le> i \<and> i < 10 \<and> sched_node t \<in> set (q i)
         then priority (tcbs s t) - 1 else priority (tcbs s t))" for t
    unfolding mem [symmetric] by simp
  ultimately show ?thesis using h(1) by blast
qed

theorem boost_moves_up_one_queue_witness:
  "\<exists>s'. sched_boost_priority one_thread = Some s' \<and> rlist (sched_heap s') (SCHED 0) []"
proof -
  have "rlist (sched_heap one_thread) (SCHED i) []" if "0 \<le> i" "i < 10" for i
    using struct_rlist [OF sched_invD(1) [OF one_thread_inv], of "SCHED i"] that by simp
  then show ?thesis
    using boost_moves_up_one_queue [of one_thread "\<lambda>_. []"] one_thread_ok by (auto simp: running_ok_def)
qed

text \<open>C6. \<open>sched_wakeup_expired_timeouts\<close> ends and makes ready exactly the threads whose timeout has
  expired; it changes no other thread.\<close>

theorem expired_timeouts_wake_exactly:
  assumes "sched_ok s"
  shows "\<exists>s'. sched_wakeup_expired_timeouts s = Some s' \<and> sched_ok s' \<and> live s' = live s
    \<and> (\<forall>t\<in>live s. if wakeup_time (tcbs s t) \<noteq> NO_TIMEOUT \<and> wakeup_time (tcbs s t) \<le> bios_clock (cpu s)
         then tcbs s' t = (tcbs s t)\<lparr>wakeup_time := NO_TIMEOUT, tcb_state := READY\<rparr> else tcbs s' t = tcbs s t)"
proof -
  obtain L c where c: "sched_inv s L c" "tcb_state (tcbs s c) = RUNNING" "0 \<le> yield_count s" "yield_count s < YIELD_RUNS"
    using assms by (rule sched_okE)
  obtain h L' where w: "wakeup_expired_loop (bios_clock (cpu s)) s = Some (wake_all s (bios_clock (cpu s)) h)"
    "sched_inv (wake_all s (bios_clock (cpu s)) h) L' c"
    by (rule wakeup_expired_inv [OF c(1)])
  have "wakeup_time (tcbs s c) = NO_TIMEOUT"
    using awake_no_timeout [OF sched_invD(2) [OF c(1) sched_invD(4) [OF c(1)]]] c(2) by simp
  then have "\<not> expired s (bios_clock (cpu s)) c" by (simp add: expired_def)
  then have "sched_ok (wake_all s (bios_clock (cpu s)) h)"
    using w(2) c by (intro sched_okI [of _ L' c]) simp_all
  moreover have "sched_wakeup_expired_timeouts s = Some (wake_all s (bios_clock (cpu s)) h)"
    by (simp add: sched_wakeup_expired_timeouts_def w(1))
  ultimately show ?thesis
    by (intro exI [of _ "wake_all s (bios_clock (cpu s)) h"]) (auto simp: expired_def make_ready_tcb_def)
qed

theorem expired_timeouts_wake_exactly_witness:
  "\<exists>s'. sched_wakeup_expired_timeouts one_thread = Some s' \<and> live s' = {thread_pool 0, idle_thread}"
  using expired_timeouts_wake_exactly [of one_thread] one_thread_ok by (auto simp: running_ok_def)

text \<open>A kernel in which a normal thread runs: the new thread of \<open>one_thread\<close>, woken and switched to.\<close>

definition thread_kernel :: kernel where
  "thread_kernel = the (yield SCHED_IDLE (fst (the (wakeup (thread_pool 0) one_thread))))"

lemma yield_to_ready:
  assumes ok: "sched_ok s" and c: "current_thread s = Some c"
    and t: "t \<in> live s" "t \<noteq> c" "t \<noteq> idle_thread" "tcb_state (tcbs s t) = READY"
  shows "\<exists>r n. yield cause s = Some r \<and> sched_ok r \<and> current_thread r = Some n \<and> n \<noteq> c \<and> n \<noteq> idle_thread
    \<and> live r = live s \<and> interrupt_handlers (cpu r) = interrupt_handlers (cpu s)"
proof -
  obtain L d where d: "sched_inv s L d" "tcb_state (tcbs s d) = RUNNING" "0 \<le> yield_count s" "yield_count s < YIELD_RUNS"
    "current_thread s = Some d" using ok by (rule sched_okE)
  then have cd: "d = c" using c by simp
  have st: "tcb_state (tcbs s c) \<in> {RUNNING, STOPPED, EXITED}" using d(2) cd by simp
  obtain r sw Lw where r: "yield_in In_yield cause s = Some r" "sched_ok r" "sched_inv sw Lw c" "live sw = live s"
    "live r = (if tcb_state (tcbs s c) = EXITED then live s - {c} else live s)"
    "current_thread r = Some (next_thread sw Lw c)"
    "\<forall>t. t \<noteq> c \<and> tcb_state (tcbs s t) = READY \<longrightarrow> tcb_state (tcbs sw t) = READY"
    "interrupt_handlers (cpu r) = interrupt_handlers (cpu s)"
    by (rule yield_in_inv [OF d(1) [unfolded cd] st d(3,4)])
  have "next_thread sw Lw c \<noteq> c \<and> next_thread sw Lw c \<noteq> idle_thread"
    using next_thread_best [OF r(3), of t] t r(4,7) by simp
  with r d(2) cd show ?thesis by (intro exI [of _ r] exI [of _ "next_thread sw Lw c"]) (simp add: yield_def)
qed

lemma thread_kernel_ok:
  "running_ok thread_kernel" "current_thread thread_kernel = Some (thread_pool 0)"
  "live thread_kernel = {thread_pool 0, idle_thread}"
proof -
  have ok: "sched_ok one_thread" "interrupt_handlers (cpu one_thread) ALARM = Some yield_handler_fn"
    using one_thread_ok by (simp_all add: running_ok_def)
  obtain w where w: "wakeup (thread_pool 0) one_thread = Some (w, 1)" "sched_ok w" "live w = live one_thread"
    "cpu w = cpu one_thread" "current_thread w = Some idle_thread"
    "tcbs w = (tcbs one_thread)(thread_pool 0 := make_ready_tcb (tcbs one_thread (thread_pool 0)))"
    using wakeup_ok [OF ok(1), of "thread_pool 0"] by auto
  obtain r n where r: "yield SCHED_IDLE w = Some r" "sched_ok r" "current_thread r = Some n" "n \<noteq> idle_thread"
    "live r = live w" "interrupt_handlers (cpu r) = interrupt_handlers (cpu w)"
    using yield_to_ready [OF w(2,5), of "thread_pool 0" SCHED_IDLE] w(3,6) by auto
  have tk: "thread_kernel = r" using w(1) r(1) by (simp add: thread_kernel_def)
  obtain L c where "sched_inv r L c" "current_thread r = Some c" using r(2) by (rule sched_okE)
  then have "n \<in> live r" using sched_invD(4) r(3) by auto
  then have "n = thread_pool 0" using r(4,5) w(3) by auto
  then show "running_ok thread_kernel" "current_thread thread_kernel = Some (thread_pool 0)"
    "live thread_kernel = {thread_pool 0, idle_thread}"
    using r w(3,4) ok(2) by (simp_all add: tk running_ok_def)
qed

text \<open>C7. \<open>sleep_releasing\<close> with STOPPED blocks the caller and gives the core to another thread: without
  a timeout the caller stays blocked until somebody wakes it, with a timeout that has not passed
  it is in the timeout list with the right wakeup time.\<close>

theorem sleep_blocks_the_caller:
  assumes "sched_ok s" and "current_thread s = Some c" and "c \<noteq> idle_thread" and "timeout_fits s timeout"
    and "timeout = NO_TIMEOUT \<or> bios_clock (cpu s) < bios_clock (cpu s) + timeout"
  shows "\<exists>r. sleep_releasing STOPPED cause timeout s = Some r \<and> sched_ok r \<and> c \<in> live r
    \<and> tcb_state (tcbs r c) = STOPPED \<and> current_thread r \<noteq> Some c
    \<and> wakeup_time (tcbs r c) = (if timeout = NO_TIMEOUT then NO_TIMEOUT else bios_clock (cpu s) + timeout)"
proof -
  obtain L d where d: "sched_inv s L d" "tcb_state (tcbs s d) = RUNNING" "0 \<le> yield_count s" "yield_count s < YIELD_RUNS"
    "current_thread s = Some d" using assms(1) by (rule sched_okE)
  then have dc: "d = c" using assms(2) by simp
  have st: "STOPPED = STOPPED \<or> STOPPED = EXITED" by simp
  obtain r where "sleep_releasing STOPPED cause timeout s = Some r" "sched_ok r"
    "STOPPED = STOPPED \<longrightarrow> timeout = NO_TIMEOUT \<or> bios_clock (cpu s) < bios_clock (cpu s) + timeout \<longrightarrow>
      c \<in> live r \<and> tcb_state (tcbs r c) = STOPPED \<and> current_thread r \<noteq> Some c
      \<and> wakeup_time (tcbs r c) = (if timeout = NO_TIMEOUT then NO_TIMEOUT else bios_clock (cpu s) + timeout)"
    by (rule sleep_inv [OF d(1,2) _ st assms(4) d(3,4), unfolded dc, OF assms(3)])
  then show ?thesis using assms(5) by blast
qed

theorem sleep_blocks_the_caller_witness:
  "\<exists>r. sleep_releasing STOPPED SCHED_USER NO_TIMEOUT thread_kernel = Some r
    \<and> tcb_state (tcbs r (thread_pool 0)) = STOPPED \<and> current_thread r \<noteq> Some (thread_pool 0)"
  using sleep_blocks_the_caller [of thread_kernel "thread_pool 0" NO_TIMEOUT SCHED_USER] thread_kernel_ok
  by (auto simp: running_ok_def timeout_fits_def)

lemma exit_ok:
  assumes "sched_ok s" and "current_thread s = Some c" and "c \<noteq> idle_thread"
  shows "\<exists>r. sleep_releasing EXITED cause NO_TIMEOUT s = Some r \<and> sched_ok r
    \<and> current_thread r \<noteq> Some c \<and> live r = live s - {c}
    \<and> active_threads r = of_nat (card {i. i < MAX_THREADS \<and> thread_used r i})"
proof -
  obtain L d where d: "sched_inv s L d" "tcb_state (tcbs s d) = RUNNING" "0 \<le> yield_count s" "yield_count s < YIELD_RUNS"
    "current_thread s = Some d" using assms(1) by (rule sched_okE)
  then have dc: "d = c" using assms(2) by simp
  have fits: "timeout_fits s NO_TIMEOUT" by (simp add: timeout_fits_def)
  have st: "EXITED = STOPPED \<or> EXITED = EXITED" by simp
  obtain r where r: "sleep_releasing EXITED cause NO_TIMEOUT s = Some r" "sched_ok r"
    "EXITED = EXITED \<longrightarrow> live r = live s - {c}"
    by (rule sleep_inv [OF d(1,2) _ st fits d(3,4), unfolded dc, OF assms(3)])
  obtain L' e where e: "sched_inv r L' e" "current_thread r = Some e" using r(2) by (rule sched_okE)
  then have "e \<in> live r" by (intro sched_invD(4))
  with r(3) have "e \<noteq> c" by auto
  then show ?thesis using r e sched_invD(6) [OF e(1)] by auto
qed

text \<open>A thread that exits leaves the scheduler for good: \<open>sleep_releasing\<close> with EXITED returns in
  another thread, the caller's slot in the thread pool is free again, no other slot changes, and
  the number of active threads is the number of slots in use.\<close>

theorem exit_releases_the_slot:
  assumes "sched_ok s" and "current_thread s = Some c" and "c \<noteq> idle_thread"
  shows "\<exists>r. sleep_releasing EXITED cause NO_TIMEOUT s = Some r \<and> sched_ok r
    \<and> current_thread r \<noteq> Some c \<and> live r = live s - {c}
    \<and> active_threads r = of_nat (card {i. i < MAX_THREADS \<and> thread_used r i})"
  by (rule exit_ok [OF assms])

theorem exit_releases_the_slot_witness:
  "\<exists>r. sleep_releasing EXITED SCHED_USER NO_TIMEOUT thread_kernel = Some r \<and> live r = {idle_thread}"
  using exit_releases_the_slot [of thread_kernel "thread_pool 0" SCHED_USER] thread_kernel_ok
  by (auto simp: running_ok_def)

text \<open>\<open>wakeup\<close> makes a blocked or new thread ready and returns 1; on a thread in any other state it
  changes nothing and returns 0. The calling thread keeps the core and its interrupt flag.\<close>

theorem wakeup_makes_ready:
  assumes "sched_ok s" and "t \<in> live s"
  shows "\<exists>s'. sched_ok s' \<and> cpu s' = cpu s \<and> current_thread s' = current_thread s
    \<and> wakeup t s = Some (s', if tcb_state (tcbs s t) = STOPPED \<or> tcb_state (tcbs s t) = INIT then 1 else 0)
    \<and> (tcb_state (tcbs s t) = STOPPED \<or> tcb_state (tcbs s t) = INIT \<longrightarrow>
         tcbs s' = (tcbs s)(t := (tcbs s t)\<lparr>wakeup_time := NO_TIMEOUT, tcb_state := READY\<rparr>))
    \<and> (tcb_state (tcbs s t) \<noteq> STOPPED \<and> tcb_state (tcbs s t) \<noteq> INIT \<longrightarrow> tcbs s' = tcbs s)"
  using wakeup_ok [OF assms] by (auto simp: make_ready_tcb_def)

theorem wakeup_makes_ready_witness:
  "\<exists>s'. wakeup (thread_pool 0) one_thread = Some (s', 1) \<and> tcb_state (tcbs s' (thread_pool 0)) = READY"
  using wakeup_makes_ready [of one_thread "thread_pool 0"] one_thread_ok by (auto simp: running_ok_def)

text \<open>The thread pool is a table of \<open>MAX_THREADS\<close> slots: \<open>allocate_thread\<close> returns a thread exactly
  while a slot is free, and after as many allocations as there are free slots returns NULL until a
  thread is freed.\<close>

theorem thread_pool_allocation:
  "((\<exists>t. snd (allocate_thread s) = Some t) \<longleftrightarrow> (\<exists>i < MAX_THREADS. \<not> thread_used s i))
   \<and> snd (allocate_thread (((\<lambda>s. fst (allocate_thread s)) ^^ card {i. i < MAX_THREADS \<and> \<not> thread_used s i}) s)) = None
   \<and> (i < MAX_THREADS \<longrightarrow> snd (allocate_thread (free_thread (thread_pool i) s)) \<noteq> None)"
  using threads.alloc_succeeds_iff [of s] threads.allocs_exhaust [of s, OF order_refl]
    threads.alloc_after_release [of i s]
  by auto

theorem thread_pool_allocation_witness:
  "snd (allocate_thread (free_thread (thread_pool 1) thread_kernel)) \<noteq> None"
  using thread_pool_allocation [of thread_kernel 1] by (simp add: MAX_THREADS_def)

end
