(* ===== verification/Streams.thy ===== *)
theory Streams
  imports Dev Sched_Props
begin

text \<open>
  The file table and the file system calls, \<open>src/kernel/kernel_streams.c\<close>: the free list of FCBs,
  reference counts, reserving file ids and FCBs together, \<open>Read\<close>, \<open>Write\<close>, \<open>Close\<close> and the
  two calls that open a stream.

  The arrays \<open>fid\<close> and \<open>fcb\<close> that \<open>FCB_reserve\<close> fills are lists in the result. \<open>None\<close> stands for a
  dereference of NULL; that it does not happen is part of the theorems.
\<close>

section \<open>The file table\<close>

definition initialize_files :: "kernel \<Rightarrow> kernel" where
  "initialize_files s =
     (let s = s\<lparr>file_heap := rlnode_init (file_heap s) FCB_freelist None\<rparr>
      in fold (\<lambda>i s.
           let s = upd_fcb i (\<lambda>f. f\<lparr>refcount := 0\<rparr>) s;
               s = s\<lparr>file_heap := rlnode_init (file_heap s) (freelist_node i) (Some i)\<rparr>
           in s\<lparr>file_heap := rlist_push_back (file_heap s) FCB_freelist (freelist_node i)\<rparr>)
         [0..<MAX_FILES] s)"

definition acquire_FCB :: "kernel \<Rightarrow> (kernel \<times> nat option) option" where
  "acquire_FCB s =
     (if \<not> is_rlist_empty (file_heap s) FCB_freelist then
        (let (h, node) = rlist_pop_front (file_heap s) FCB_freelist;
             s = s\<lparr>file_heap := h\<rparr>
         in do { fcb \<leftarrow> key (file_heap s) node;
                 Some (upd_fcb fcb (\<lambda>f. f\<lparr>refcount := 0\<rparr>) s, Some fcb) })
      else Some (s, None))"

definition release_FCB :: "nat \<Rightarrow> kernel \<Rightarrow> kernel" where
  "release_FCB fcb s = s\<lparr>file_heap := rlist_push_back (file_heap s) FCB_freelist (freelist_node fcb)\<rparr>"

definition FCB_incref :: "nat option \<Rightarrow> kernel \<Rightarrow> kernel" where
  "FCB_incref fcb s =
     (case fcb of Some i \<Rightarrow> upd_fcb i (\<lambda>f. f\<lparr>refcount := refcount f + 1\<rparr>) s | None \<Rightarrow> s)"

definition FCB_decref :: "nat option \<Rightarrow> kernel \<Rightarrow> kernel \<times> int" where
  "FCB_decref fcb s =
     (case fcb of
        None \<Rightarrow> (s, 0)
      | Some i \<Rightarrow>
          (let s = upd_fcb i (\<lambda>f. f\<lparr>refcount := refcount f - 1\<rparr>) s
           in if refcount (FT s i) = 0 then
                (let (s, retval) =
                   (case streamfunc (FT s i) of
                      Some d \<Rightarrow> (case Close (dev_fops (devtable s d)) of
                          Some f \<Rightarrow> call_Close f (streamobj (FT s i)) s | None \<Rightarrow> (s, 0))
                    | None \<Rightarrow> (s, 0))
                 in (release_FCB i s, retval))
              else (s, 0)))"

section \<open>Reserving file ids and FCBs\<close>

text \<open>\<open>cur_thread()->owner_pcb\<close>\<close>

definition cur_pcb :: "kernel \<Rightarrow> nat option" where
  "cur_pcb s = do { t \<leftarrow> snd (cur_thread s); owner_pcb (tcbs s t) }"

text \<open>The first loop of \<open>FCB_reserve\<close>: the next \<open>num\<close> free file ids from \<open>f\<close> on.\<close>

fun find_fids :: "(nat \<Rightarrow> nat option) \<Rightarrow> nat \<Rightarrow> nat \<Rightarrow> nat list option" where
  "find_fids fidt f 0 = Some []"
| "find_fids fidt f (Suc num) =
     (case first_from (\<lambda>f. fidt f = None) f MAX_FILEID of
        None \<Rightarrow> None
      | Some g \<Rightarrow> map_option (\<lambda>gs. g # gs) (find_fids fidt (g + 1) num))"

text \<open>The second loop: the FCBs acquired, and whether there were enough.\<close>

fun acquire_FCBs :: "nat \<Rightarrow> kernel \<Rightarrow> (kernel \<times> nat list \<times> bool) option" where
  "acquire_FCBs 0 s = Some (s, [], True)"
| "acquire_FCBs (Suc num) s = do {
     (s, r) \<leftarrow> acquire_FCB s;
     case r of
       None \<Rightarrow> Some (s, [], False)
     | Some fcb \<Rightarrow> do { (s, fcbs, ok) \<leftarrow> acquire_FCBs num s; Some (s, fcb # fcbs, ok) } }"

definition set_FIDT :: "nat \<Rightarrow> nat \<Rightarrow> nat option \<Rightarrow> kernel \<Rightarrow> kernel" where
  "set_FIDT p f v s = upd_pcb p (\<lambda>pcb. pcb\<lparr>FIDT := (FIDT pcb)(f := v)\<rparr>) s"

definition FCB_reserve :: "nat \<Rightarrow> kernel \<Rightarrow> (kernel \<times> (nat list \<times> nat list) option) option" where
  "FCB_reserve num s = do {
     cur \<leftarrow> cur_pcb s;
     case find_fids (FIDT (PT s cur)) 0 num of
       None \<Rightarrow> Some (s, None)
     | Some fid \<Rightarrow> do {
         (s, fcb, ok) \<leftarrow> acquire_FCBs num s;
         if \<not> ok then Some (fold release_FCB (rev fcb) s, None)
         else Some (fold (\<lambda>(f, i) s. FCB_incref (Some i) (set_FIDT cur f (Some i) s)) (zip fid fcb) s,
                    Some (fid, fcb)) } }"

definition FCB_unreserve :: "nat list \<Rightarrow> nat list \<Rightarrow> kernel \<Rightarrow> kernel option" where
  "FCB_unreserve fid fcb s = do {
     cur \<leftarrow> cur_pcb s;
     Some (fold (\<lambda>(f, i) s. release_FCB i (set_FIDT cur f None s)) (zip fid fcb) s) }"

section \<open>System calls\<close>

definition get_stream_fcb :: "int \<Rightarrow> kernel \<Rightarrow> nat option option" where
  "get_stream_fcb fid s =
     (if fid < 0 \<or> fid \<ge> int MAX_FILEID then Some None
      else do { cur \<leftarrow> cur_pcb s; Some (FIDT (PT s cur) (nat fid)) })"

definition sys_Read :: "int \<Rightarrow> u16 \<Rightarrow> u16 \<Rightarrow> uart_poll list \<Rightarrow> pause list \<Rightarrow> kernel \<Rightarrow> (kernel \<times> int) option" where
  "sys_Read fd buf n ps rs s = do {
     fcb \<leftarrow> get_stream_fcb fd s;
     case fcb of
       None \<Rightarrow> Some (s, -1)
     | Some i \<Rightarrow>
         (case streamfunc (FT s i) of
            None \<Rightarrow> Some (s, -1)
          | Some d \<Rightarrow>
              (case Read (dev_fops (devtable s d)) of
                 None \<Rightarrow> Some (s, -1)
               | Some f \<Rightarrow> call_Read f (streamobj (FT s i)) buf n ps rs s)) }"

definition sys_Write :: "int \<Rightarrow> u16 \<Rightarrow> u16 \<Rightarrow> uart_poll list \<Rightarrow> pause list \<Rightarrow> kernel \<Rightarrow> (kernel \<times> int) option" where
  "sys_Write fd buf n ps rs s = do {
     fcb \<leftarrow> get_stream_fcb fd s;
     case fcb of
       None \<Rightarrow> Some (s, -1)
     | Some i \<Rightarrow>
         (case streamfunc (FT s i) of
            None \<Rightarrow> Some (s, -1)
          | Some d \<Rightarrow>
              (case Write (dev_fops (devtable s d)) of
                 None \<Rightarrow> Some (s, -1)
               | Some f \<Rightarrow> call_Write f (streamobj (FT s i)) buf n ps rs s)) }"

definition sys_Close :: "int \<Rightarrow> kernel \<Rightarrow> (kernel \<times> int) option" where
  "sys_Close fd s = do {
     fcb \<leftarrow> get_stream_fcb fd s;
     case fcb of
       None \<Rightarrow> Some (s, 0)
     | Some i \<Rightarrow> do { cur \<leftarrow> cur_pcb s; Some (FCB_decref (Some i) (set_FIDT cur (nat fd) None s)) } }"

text \<open>\<open>FCB_reserve(1, &fid, &fcb)\<close> fills one cell each.\<close>

definition open_stream :: "Device_type \<Rightarrow> nat \<Rightarrow> kernel \<Rightarrow> (kernel \<times> int) option" where
  "open_stream major minor s = do {
     (s, r) \<leftarrow> FCB_reserve 1 s;
     case r of
       None \<Rightarrow> Some (s, NOFILE)
     | Some (fids, fcbs) \<Rightarrow> do {
         d \<leftarrow> device_open major minor s;
         case d of
           None \<Rightarrow> do { s \<leftarrow> FCB_unreserve fids fcbs s; Some (s, NOFILE) }
         | Some (obj, ops) \<Rightarrow>
             Some (upd_fcb (hd fcbs) (\<lambda>f. f\<lparr>streamobj := obj, streamfunc := Some ops\<rparr>) s, int (hd fids)) } }"

definition sys_OpenNull :: "kernel \<Rightarrow> (kernel \<times> int) option" where
  "sys_OpenNull s = open_stream DEV_NULL 0 s"

definition sys_OpenTerminal :: "nat \<Rightarrow> kernel \<Rightarrow> (kernel \<times> int) option" where
  "sys_OpenTerminal termno s = open_stream DEV_SERIAL termno s"

end
