(* ===== verification/Proc.thy ===== *)
theory Proc
  imports Streams
begin

text \<open>
  Processes and threads, \<open>src/kernel/kernel_proc.c\<close>: the process table, \<open>Exec\<close>, \<open>WaitChild\<close> and
  \<open>Exit\<close>, the thread calls.

  A \<open>PCB*\<close> is an index of \<open>PT\<close>, a \<open>Tid_t\<close> the index of a PTCB with \<open>None\<close> for NOTHREAD. A call that waits
  takes the list of \<open>pause\<close>s of theory Dev, one for each \<open>yield\<close>. What a call stores through an \<open>int*\<close>
  argument is a component of its result, the value that is stored when the pointer is not NULL. The program a
  thread runs is not part of the kernel: it is the parameter \<open>run\<close> of the functions that call it.
\<close>

section \<open>The process table\<close>

definition get_pid :: "nat option \<Rightarrow> int" where
  "get_pid pcb = (case pcb of None \<Rightarrow> NOPROC | Some p \<Rightarrow> int p)"

definition initialize_PCB :: "nat \<Rightarrow> kernel \<Rightarrow> kernel" where
  "initialize_PCB p s =
     (let s = upd_pcb p (\<lambda>pcb. pcb\<lparr>pstate := FREE, argl := 0, args := 0\<rparr>) s;
          s = fold (\<lambda>i. set_FIDT p i None) [0..<MAX_FILEID] s;
          s = s\<lparr>proc_heap := rlnode_init (proc_heap s) (children_list p) None\<rparr>;
          s = s\<lparr>proc_heap := rlnode_init (proc_heap s) (exited_list p) None\<rparr>;
          s = s\<lparr>proc_heap := rlnode_init (proc_heap s) (children_node p) (Some p)\<rparr>;
          s = s\<lparr>proc_heap := rlnode_init (proc_heap s) (exited_node p) (Some p)\<rparr>;
          s = s\<lparr>ptcb_heap := rlnode_init (ptcb_heap s) (ptcb_list p) None\<rparr>
      in upd_pcb p (\<lambda>pcb. pcb\<lparr>thread_count := 0, child_exit := COND_INIT\<rparr>) s)"

definition initialize_processes :: "kernel \<Rightarrow> kernel" where
  "initialize_processes s =
     (let s = fold initialize_PCB [0..<MAX_PROC] s
      in upd_pcb 0 (\<lambda>pcb. pcb\<lparr>pstate := ALIVE, parent := None\<rparr>) s)"

definition acquire_PCB :: "kernel \<Rightarrow> kernel \<times> nat option" where
  "acquire_PCB s =
     (case first_from (\<lambda>p. pstate (PT s p) = FREE) 0 MAX_PROC of
        Some p \<Rightarrow> (upd_pcb p (\<lambda>pcb. pcb\<lparr>pstate := ALIVE\<rparr>) s, Some p)
      | None \<Rightarrow> (s, None))"

definition release_PCB :: "nat \<Rightarrow> kernel \<Rightarrow> kernel" where
  "release_PCB p s = upd_pcb p (\<lambda>pcb. pcb\<lparr>pstate := FREE\<rparr>) s"

section \<open>Creating a process\<close>

text \<open>The parent of the new process, its place in the list of children and its file ids
  (\<open>sys_Exec\<close>, lines 95 to 112).\<close>

definition exec_parent :: "nat \<Rightarrow> kernel \<Rightarrow> kernel" where
  "exec_parent new s =
     (if get_pid (Some new) \<le> 1 then upd_pcb new (\<lambda>pcb. pcb\<lparr>parent := None\<rparr>) s
      else case do { cur \<leftarrow> snd (cur_thread s); owner_pcb (tcbs s cur) } of
             Some curproc \<Rightarrow>
               (let s = upd_pcb new (\<lambda>pcb. pcb\<lparr>parent := Some curproc\<rparr>) s;
                    s = s\<lparr>proc_heap := rlist_push_front (proc_heap s) (children_list curproc) (children_node new)\<rparr>
                in fold (\<lambda>i s. set_FIDT new i (FIDT (PT s curproc) i) s) [0..<MAX_FILEID] s)
           | None \<Rightarrow> upd_pcb new (\<lambda>pcb. pcb\<lparr>parent := None\<rparr>) s)"

definition proc_args :: "kernel \<Rightarrow> nat \<Rightarrow> u16" where
  "proc_args s p = proc_args_at s + of_nat p * of_int MAX_ARG_SIZE"

text \<open>The arguments, at most 32 bytes of them (lines 114 to 123).\<close>

definition exec_args :: "nat \<Rightarrow> Task option \<Rightarrow> int \<Rightarrow> u16 \<Rightarrow> kernel \<Rightarrow> kernel" where
  "exec_args new call al ar s =
     (let s = upd_pcb new (\<lambda>pcb. pcb\<lparr>main_task := call, argl := al\<rparr>) s
      in if al > 0 \<and> ar \<noteq> 0 then
           (let copy_size = (if al > MAX_ARG_SIZE then MAX_ARG_SIZE else al);
                s = upd_cpu (\<lambda>c. c\<lparr>dmem := memcpy (dmem c) (proc_args s new) ar (of_int copy_size)\<rparr>) s
            in upd_pcb new (\<lambda>pcb. pcb\<lparr>args := proc_args s new\<rparr>) s)
         else upd_pcb new (\<lambda>pcb. pcb\<lparr>args := 0\<rparr>) s)"

text \<open>The main thread; the result is whether there was room for it (lines 126 to 133).\<close>

definition exec_main_thread :: "nat \<Rightarrow> Task option \<Rightarrow> int \<Rightarrow> kernel \<Rightarrow> (kernel \<times> bool) option" where
  "exec_main_thread new call al s =
     (let (s, tcb) = spawn_thread (Some new) start_main_thread_fn s;
          s = upd_pcb new (\<lambda>pcb. pcb\<lparr>main_thread := tcb\<rparr>) s
      in case tcb of
           None \<Rightarrow> Some (release_PCB new s, False)
         | Some t \<Rightarrow> do {
             s \<leftarrow> create_ptcb t call al (args (PT s new)) s;
             let s = upd_pcb new (\<lambda>pcb. pcb\<lparr>thread_count := thread_count pcb + 1\<rparr>) s;
             (s, r) \<leftarrow> wakeup t s;
             Some (s, True) })"

definition sys_Exec :: "Task option \<Rightarrow> int \<Rightarrow> u16 \<Rightarrow> kernel \<Rightarrow> (kernel \<times> int) option" where
  "sys_Exec call al ar s =
     (case acquire_PCB s of
        (s, None) \<Rightarrow> Some (s, NOPROC)
      | (s, Some newproc) \<Rightarrow>
          (let newpid = get_pid (Some newproc);
               s = exec_parent newproc s;
               s = exec_args newproc call al ar s
           in if call \<noteq> None then
                do { (s, ok) \<leftarrow> exec_main_thread newproc call al s;
                     Some (s, if ok then newpid else NOPROC) }
              else Some (s, newpid)))"

definition sys_GetPid :: "kernel \<Rightarrow> int option" where
  "sys_GetPid s = do { t \<leftarrow> snd (cur_thread s); Some (get_pid (owner_pcb (tcbs s t))) }"

definition sys_GetPPid :: "kernel \<Rightarrow> int option" where
  "sys_GetPPid s = do { p \<leftarrow> cur_pcb s; Some (get_pid (parent (PT s p))) }"

section \<open>Waiting for a child\<close>

text \<open>The second component is what \<open>*status\<close> receives.\<close>

definition cleanup_zombie :: "nat \<Rightarrow> kernel \<Rightarrow> kernel \<times> int" where
  "cleanup_zombie p s =
     (let status = exitval (PT s p);
          s = s\<lparr>proc_heap := rlist_remove (proc_heap s) (children_node p)\<rparr>;
          s = s\<lparr>proc_heap := rlist_remove (proc_heap s) (exited_node p)\<rparr>
      in (release_PCB p s, status))"

text \<open>\<open>while (cond) yield(SCHED_USER);\<close>\<close>

fun yield_while :: "(kernel \<Rightarrow> bool) \<Rightarrow> pause list \<Rightarrow> kernel \<Rightarrow> kernel option" where
  "yield_while c [] s = (if c s then None else Some s)"
| "yield_while c (r # rs) s =
     (if c s then do { s' \<leftarrow> yield SCHED_USER s; yield_while c rs (r s') } else Some s)"

definition sys_WaitChild :: "int \<Rightarrow> pause list \<Rightarrow> kernel \<Rightarrow> (kernel \<times> int \<times> int option) option" where
  "sys_WaitChild cpid rs s = do {
     cur \<leftarrow> snd (cur_thread s);
     let par = owner_pcb (tcbs s cur);
     if cpid \<noteq> NOPROC then
       (case get_pcb cpid s of
          None \<Rightarrow> Some (s, NOPROC, None)
        | Some child \<Rightarrow>
            if parent (PT s child) \<noteq> par then Some (s, NOPROC, None)
            else do { s \<leftarrow> yield_while (\<lambda>s. pstate (PT s child) = ALIVE) rs s;
                      let (s, status) = cleanup_zombie child s;
                      Some (s, cpid, Some status) })
     else do {
       p \<leftarrow> par;
       if is_rlist_empty (proc_heap s) (children_list p) then Some (s, NOPROC, None)
       else do {
         s \<leftarrow> yield_while (\<lambda>s. is_rlist_empty (proc_heap s) (exited_list p)) rs s;
         child \<leftarrow> key (proc_heap s) (nxt (proc_heap s) (exited_list p));
         let pid = get_pid (Some child);
         let (s, status) = cleanup_zombie child s;
         Some (s, pid, Some status) } } }"

section \<open>Exit, and the thread calls\<close>

text \<open>\<open>sys_ThreadExit\<close> does not return: the result is the state in which the next thread goes on.\<close>

definition sys_ThreadExit :: "int \<Rightarrow> kernel \<Rightarrow> kernel option" where
  "sys_ThreadExit v s = do {
     tcb \<leftarrow> snd (cur_thread s);
     let s = (case ptcb (tcbs s tcb) of
                Some i \<Rightarrow> upd_ptcb i (\<lambda>p. p\<lparr>ptcb_exitval := v, exited := True\<rparr>) s
              | None \<Rightarrow> s);
     p \<leftarrow> owner_pcb (tcbs s tcb);
     let s = upd_pcb p (\<lambda>pcb. pcb\<lparr>thread_count := thread_count pcb - 1\<rparr>) s;
     sleep_releasing EXITED SCHED_USER NO_TIMEOUT s }"

definition sys_Exit :: "int \<Rightarrow> kernel \<Rightarrow> kernel option" where
  "sys_Exit v s = do {
     curproc \<leftarrow> cur_pcb s;
     let s = upd_pcb curproc (\<lambda>pcb. pcb\<lparr>exitval := v, pstate := ZOMBIE\<rparr>) s;
     let s = (case parent (PT s curproc) of
                Some q \<Rightarrow>
                  (let s = s\<lparr>proc_heap := rlist_remove (proc_heap s) (children_node curproc)\<rparr>
                   in s\<lparr>proc_heap := rlist_push_back (proc_heap s) (exited_list q) (exited_node curproc)\<rparr>)
              | None \<Rightarrow> s);
     sys_ThreadExit v s }"

definition sys_CreateThread :: "Task option \<Rightarrow> int \<Rightarrow> u16 \<Rightarrow> kernel \<Rightarrow> (kernel \<times> nat option) option" where
  "sys_CreateThread tsk al ar s =
     (if tsk = None then Some (s, None)
      else do {
        cur \<leftarrow> snd (cur_thread s);
        let pcb = owner_pcb (tcbs s cur);
        case spawn_thread pcb start_main_pthread_fn s of
          (s, None) \<Rightarrow> Some (s, None)
        | (s, Some t) \<Rightarrow> do {
            s \<leftarrow> create_ptcb t tsk al ar s;
            p \<leftarrow> pcb;
            let s = upd_pcb p (\<lambda>pcb. pcb\<lparr>thread_count := thread_count pcb + 1\<rparr>) s;
            (s, r) \<leftarrow> wakeup t s;
            Some (s, ptcb (tcbs s t)) } })"

definition sys_ThreadSelf :: "kernel \<Rightarrow> nat option option" where
  "sys_ThreadSelf s = do { t \<leftarrow> snd (cur_thread s); Some (ptcb (tcbs s t)) }"

definition sys_ThreadJoin :: "nat option \<Rightarrow> pause list \<Rightarrow> kernel \<Rightarrow> (kernel \<times> int \<times> int option) option" where
  "sys_ThreadJoin tid rs s =
     (case tid of
        None \<Rightarrow> Some (s, -1, None)
      | Some i \<Rightarrow> do {
          s \<leftarrow> yield_while (\<lambda>s. \<not> exited (ptcb_pool s i)) rs s;
          Some (s, 0, Some (ptcb_exitval (ptcb_pool s i))) })"

definition sys_ThreadDetach :: "nat option \<Rightarrow> kernel \<Rightarrow> kernel \<times> int" where
  "sys_ThreadDetach tid s =
     (case tid of None \<Rightarrow> (s, -1) | Some i \<Rightarrow> (upd_ptcb i (\<lambda>p. p\<lparr>detached := True\<rparr>) s, 0))"

end
