(* ===== verification/Syscalls.thy ===== *)
theory Syscalls
  imports Proc
begin

text \<open>
  The system calls as user programs see them, \<open>src/kernel/kernel_sys.c\<close> with the kernel lock of
  \<open>include/kernel/kernel_cc.h\<close>, the two functions that start the main thread of a process and of a thread, and
  \<open>main\<close> of \<open>src/kernel/kernel_init.c\<close>.

  \<open>Exit\<close> and \<open>ThreadExit\<close> do not come back from the scheduler, so their \<open>kernel_unlock\<close> is never reached.
\<close>

section \<open>The kernel lock\<close>

definition kernel_lock :: "kernel \<Rightarrow> kernel" where
  "kernel_lock s = upd_cpu cli s"

definition kernel_unlock :: "kernel \<Rightarrow> kernel" where
  "kernel_unlock s = upd_cpu sei s"

section \<open>System calls\<close>

definition Exec :: "Task option \<Rightarrow> int \<Rightarrow> u16 \<Rightarrow> kernel \<Rightarrow> (kernel \<times> int) option" where
  "Exec tsk al ar s = do { (s, ret) \<leftarrow> sys_Exec tsk al ar (kernel_lock s); Some (kernel_unlock s, ret) }"

definition Exit :: "int \<Rightarrow> kernel \<Rightarrow> kernel option" where
  "Exit v s = sys_Exit v (kernel_lock s)"

definition WaitChild :: "int \<Rightarrow> pause list \<Rightarrow> kernel \<Rightarrow> (kernel \<times> int \<times> int option) option" where
  "WaitChild pid rs s = do { (s, ret) \<leftarrow> sys_WaitChild pid rs (kernel_lock s); Some (kernel_unlock s, ret) }"

definition GetPid :: "kernel \<Rightarrow> (kernel \<times> int) option" where
  "GetPid s = (let s = kernel_lock s in do { ret \<leftarrow> sys_GetPid s; Some (kernel_unlock s, ret) })"

definition GetPPid :: "kernel \<Rightarrow> (kernel \<times> int) option" where
  "GetPPid s = (let s = kernel_lock s in do { ret \<leftarrow> sys_GetPPid s; Some (kernel_unlock s, ret) })"

definition Read_call :: "int \<Rightarrow> u16 \<Rightarrow> u16 \<Rightarrow> uart_poll list \<Rightarrow> pause list \<Rightarrow> kernel \<Rightarrow> (kernel \<times> int) option" where
  "Read_call fd buf n ps rs s = do { (s, ret) \<leftarrow> sys_Read fd buf n ps rs (kernel_lock s); Some (kernel_unlock s, ret) }"

definition Write_call :: "int \<Rightarrow> u16 \<Rightarrow> u16 \<Rightarrow> uart_poll list \<Rightarrow> pause list \<Rightarrow> kernel \<Rightarrow> (kernel \<times> int) option" where
  "Write_call fd buf n ps rs s = do { (s, ret) \<leftarrow> sys_Write fd buf n ps rs (kernel_lock s); Some (kernel_unlock s, ret) }"

definition Close_call :: "int \<Rightarrow> kernel \<Rightarrow> (kernel \<times> int) option" where
  "Close_call fd s = do { (s, ret) \<leftarrow> sys_Close fd (kernel_lock s); Some (kernel_unlock s, ret) }"

definition OpenTerminal :: "nat \<Rightarrow> kernel \<Rightarrow> (kernel \<times> int) option" where
  "OpenTerminal termno s = do { (s, ret) \<leftarrow> sys_OpenTerminal termno (kernel_lock s); Some (kernel_unlock s, ret) }"

definition OpenNull :: "kernel \<Rightarrow> (kernel \<times> int) option" where
  "OpenNull s = do { (s, ret) \<leftarrow> sys_OpenNull (kernel_lock s); Some (kernel_unlock s, ret) }"

definition CreateThread :: "Task option \<Rightarrow> int \<Rightarrow> u16 \<Rightarrow> kernel \<Rightarrow> (kernel \<times> nat option) option" where
  "CreateThread tsk al ar s = do { (s, ret) \<leftarrow> sys_CreateThread tsk al ar (kernel_lock s); Some (kernel_unlock s, ret) }"

definition ThreadSelf :: "kernel \<Rightarrow> (kernel \<times> nat option) option" where
  "ThreadSelf s = (let s = kernel_lock s in do { ret \<leftarrow> sys_ThreadSelf s; Some (kernel_unlock s, ret) })"

definition ThreadJoin :: "nat option \<Rightarrow> pause list \<Rightarrow> kernel \<Rightarrow> (kernel \<times> int \<times> int option) option" where
  "ThreadJoin tid rs s = do { (s, ret) \<leftarrow> sys_ThreadJoin tid rs (kernel_lock s); Some (kernel_unlock s, ret) }"

definition ThreadDetach :: "nat option \<Rightarrow> kernel \<Rightarrow> kernel \<times> int" where
  "ThreadDetach tid s = (case sys_ThreadDetach tid (kernel_lock s) of (s, ret) \<Rightarrow> (kernel_unlock s, ret))"

definition ThreadExit :: "int \<Rightarrow> kernel \<Rightarrow> kernel option" where
  "ThreadExit v s = sys_ThreadExit v (kernel_lock s)"

section \<open>The start functions\<close>

text \<open>\<open>run call argl args\<close> is the user program: it takes the kernel from the call of the task to its return,
  with the value it returns, or never returns.\<close>

type_synonym program = "Task \<Rightarrow> int \<Rightarrow> u16 \<Rightarrow> kernel \<Rightarrow> (kernel \<times> int) option"

definition start_main_thread :: "program \<Rightarrow> kernel \<Rightarrow> kernel option" where
  "start_main_thread run s = do {
     p \<leftarrow> cur_pcb s;
     call \<leftarrow> main_task (PT s p);
     (s, v) \<leftarrow> run call (argl (PT s p)) (args (PT s p)) s;
     Exit v s }"

definition start_main_pthread :: "program \<Rightarrow> kernel \<Rightarrow> kernel option" where
  "start_main_pthread run s = do {
     t \<leftarrow> snd (cur_thread s);
     i \<leftarrow> ptcb (tcbs s t);
     call \<leftarrow> task (ptcb_pool s i);
     (s, v) \<leftarrow> run call (ptcb_argl (ptcb_pool s i)) (ptcb_args (ptcb_pool s i)) s;
     sys_ThreadExit v s }"

section \<open>Booting\<close>

definition DDRB :: u16 where "DDRB = 0x24"
definition PORTB :: u16 where "PORTB = 0x25"
definition PB5 :: nat where "PB5 = 5"

text \<open>\<open>delay\<close> counts its argument down to zero; the value is what the loop leaves in \<open>count\<close>.\<close>

function delay :: "u32 \<Rightarrow> u32" where
  "delay count = (if count \<noteq> 0 then delay (count - 1) else count - 1)"
  by pat_completeness auto
termination
  by (relation "measure unat") (auto simp: word_minus_one_lt)

declare delay.simps [simp del]

definition led_on :: "kernel \<Rightarrow> kernel" where
  "led_on s = upd_cpu (\<lambda>c. set_reg PORTB (reg c PORTB OR bitmask PB5) c) s"

definition led_off :: "kernel \<Rightarrow> kernel" where
  "led_off s = upd_cpu (\<lambda>c. set_reg PORTB (reg c PORTB AND NOT (bitmask PB5)) c) s"

definition led_toggle :: "kernel \<Rightarrow> kernel" where
  "led_toggle s = upd_cpu (\<lambda>c. set_reg PORTB (reg c PORTB XOR bitmask PB5) c) s"

text \<open>The message of \<open>test_process\<close>, "Hello from tinierOS!" with carriage return and line feed.\<close>

definition test_message :: "u8 list" where
  "test_message = map (\<lambda>ch. of_nat (of_char ch)) ''Hello from tinierOS!'' @ [0x0D, 0x0A]"

text \<open>A delay of \<open>test_process\<close> runs with interrupts on. Its count comes to an end (\<open>delay\<close>); for every alarm that meets it there is an
  entry of the list, what happens between the return of the handler's \<open>yield\<close> and the return to the delay.\<close>

fun delay_alarms :: "pause list \<Rightarrow> kernel \<Rightarrow> kernel option" where
  "delay_alarms [] s = Some s"
| "delay_alarms (r # rs) s = do { s \<leftarrow> alarm_interrupt s; delay_alarms rs (r s) }"

text \<open>One turn of the loop of \<open>test_process\<close>, after \<open>fd = OpenTerminal(0)\<close>: \<open>msg\<close> is the address of the message, \<open>ps\<close> and \<open>rs\<close> are what
  its \<open>Write\<close> meets, \<open>d1\<close> and \<open>d2\<close> what the two delays meet.\<close>

definition test_process_turn :: "int \<Rightarrow> u16 \<Rightarrow> uart_poll list \<Rightarrow> pause list \<Rightarrow> pause list \<Rightarrow> pause list \<Rightarrow> kernel \<Rightarrow> kernel option" where
  "test_process_turn fd msg ps rs d1 d2 s = do {
     (s, r) \<leftarrow> Write_call fd msg 22 ps rs (led_on s);
     s \<leftarrow> delay_alarms d1 s;
     delay_alarms d2 (led_off s) }"

text \<open>\<open>main\<close> up to the call of \<open>run_scheduler\<close>, and the start of the scheduler. \<open>test_process\<close> is the code address
  of the first program.\<close>

definition main_hardware :: "kernel \<Rightarrow> kernel" where
  "main_hardware s =
     (let s = upd_cpu (\<lambda>c. set_reg DDRB (reg c DDRB OR bitmask PB5) c) s;
          s = led_off s;
          s = fold (\<lambda>i. led_toggle) [0..<4] s
      in led_off s)"

definition main_kernel :: "Task \<Rightarrow> uart_poll list \<Rightarrow> kernel \<Rightarrow> (kernel \<times> int) option" where
  "main_kernel test_process ps s = do {
     let s = main_hardware s;
     (c, ps') \<leftarrow> bios_init 0 ps (cpu s);
     let s = s\<lparr>cpu := c\<rparr>;
     let s = initialize_scheduler s;
     let s = initialize_processes s;
     let s = initialize_files s;
     let s = initialize_devices s;
     sys_Exec (Some test_process) 0 0 s }"

definition boot :: "Task \<Rightarrow> uart_poll list \<Rightarrow> kernel \<Rightarrow> kernel option" where
  "boot test_process ps s = do { (s, pid) \<leftarrow> main_kernel test_process ps s; Some (run_scheduler_start s) }"

end
