(* ===== verification/Sched_Frame.thy ===== *)
theory Sched_Frame
  imports Sched_Props
begin

text \<open>
  What the scheduler leaves alone. \<open>outside s\<close> collects the state that the scheduler does not own:
  the process, file and device tables and their lists, the owner and PTCB of every thread, the
  interrupt handlers, the bytes sent by the UART, and the data memory above the I/O registers
  (addresses from 0x100 on). No operation that switches threads changes it.
\<close>

record outside =
  o_procs :: "(nat \<Rightarrow> PCB) \<times> (proc_addr, nat option) rlheap"
  o_ptcbs :: "(nat \<Rightarrow> PTCB) \<times> (nat \<Rightarrow> bool) \<times> (ptcb_addr, nat option) rlheap"
  o_files :: "(nat \<Rightarrow> FCB) \<times> (file_addr, nat option) rlheap"
  o_devices :: "(Device_type \<Rightarrow> DCB) \<times> (nat \<Rightarrow> serial_dcb)"
  o_owners :: "tcb_ptr \<Rightarrow> nat option \<times> nat option \<times> thread_fn option"
  o_cpu :: "(Interrupt \<Rightarrow> handler option) \<times> u8 list"
  o_memory :: "u16 \<Rightarrow> u8"
  o_places :: "u16 \<times> u16 \<times> u16"

definition memory_of :: "cpu \<Rightarrow> u16 \<Rightarrow> u8" where
  "memory_of c a = (if a < 0x100 then 0 else dmem c a)"

definition outside :: "kernel \<Rightarrow> outside" where
  "outside s = \<lparr>o_procs = (PT s, proc_heap s), o_ptcbs = (ptcb_pool s, ptcb_used s, ptcb_heap s),
     o_files = (FT s, file_heap s), o_devices = (devtable s, serial_dcbs s),
     o_owners = (\<lambda>t. (owner_pcb (tcbs s t), ptcb (tcbs s t), thread_func (tcbs s t))),
     o_cpu = (interrupt_handlers (cpu s), uart_out (cpu s)), o_memory = memory_of (cpu s),
     o_places = (stacks_at s, thread_start_at s, proc_args_at s)\<rparr>"

lemma outsideD:
  assumes "outside s' = outside s"
  shows "PT s' = PT s" "proc_heap s' = proc_heap s" "ptcb_pool s' = ptcb_pool s" "ptcb_used s' = ptcb_used s"
    "ptcb_heap s' = ptcb_heap s" "FT s' = FT s" "file_heap s' = file_heap s" "devtable s' = devtable s"
    "serial_dcbs s' = serial_dcbs s" "owner_pcb (tcbs s' t) = owner_pcb (tcbs s t)" "ptcb (tcbs s' t) = ptcb (tcbs s t)"
    "interrupt_handlers (cpu s') = interrupt_handlers (cpu s)" "uart_out (cpu s') = uart_out (cpu s)"
    "0x100 \<le> a \<Longrightarrow> dmem (cpu s') a = dmem (cpu s) a"
    "stacks_at s' = stacks_at s" "thread_start_at s' = thread_start_at s" "proc_args_at s' = proc_args_at s"
  using assms by (simp_all add: outside_def fun_eq_iff memory_of_def) (metis not_le)

section \<open>The hardware registers\<close>

definition io_only :: "cpu \<Rightarrow> cpu \<Rightarrow> bool" where
  "io_only c c' \<longleftrightarrow> interrupt_handlers c' = interrupt_handlers c \<and> uart_out c' = uart_out c \<and> memory_of c' = memory_of c"

lemma io_only_set_reg [simp]: "a < 0x100 \<Longrightarrow> io_only c (set_reg a v d) = io_only c d"
  by (auto simp: io_only_def memory_of_def set_reg_def fun_eq_iff)

lemma io_only_refl [simp]: "io_only c c"
  by (simp add: io_only_def)

lemma io_only_ops [simp]:
  "io_only c (cli c)" "io_only c (sei c)" "io_only c (cpu_enable_interrupts c)" "io_only c (fst (cpu_disable_interrupts c))"
  "io_only c (fst (bios_set_timer n c))" "io_only c (fst (bios_cancel_timer c))" "io_only c (uart_latch p c)"
  by (simp_all add: cli_def sei_def cpu_enable_interrupts_def cpu_disable_interrupts_def bios_set_timer_def
      bios_cancel_timer_def write_OCR1A_def uart_latch_def register_defs Let_def)

lemma outside_cpu [simp]: "io_only (cpu s) c \<Longrightarrow> outside (s\<lparr>cpu := c\<rparr>) = outside s"
  by (simp add: outside_def io_only_def)

lemma outside_upd_cpu [simp]: "io_only (cpu s) (f (cpu s)) \<Longrightarrow> outside (upd_cpu f s) = outside s"
  by (simp add: upd_cpu_def)

lemma outside_preempt [simp]: "outside (preempt_on s) = outside s" "outside (fst (preempt_off s)) = outside s"
  by (simp_all add: preempt_on_def preempt_off_def case_prod_beta)

section \<open>The scheduler\<close>

lemma outside_fields [simp]:
  "outside (s\<lparr>sched_heap := h\<rparr>) = outside s" "outside (s\<lparr>yield_count := n\<rparr>) = outside s"
  "outside (s\<lparr>current_thread := t\<rparr>) = outside s" "outside (s\<lparr>previous_thread := t\<rparr>) = outside s"
  "outside (s\<lparr>frames := fr\<rparr>) = outside s" "outside (s\<lparr>thread_used := u\<rparr>) = outside s"
  "outside (s\<lparr>active_threads := k\<rparr>) = outside s"
  by (simp_all add: outside_def)

lemma outside_upd_tcb [simp]:
  "owner_pcb (f (tcbs s t)) = owner_pcb (tcbs s t) \<Longrightarrow> ptcb (f (tcbs s t)) = ptcb (tcbs s t) \<Longrightarrow>
   thread_func (f (tcbs s t)) = thread_func (tcbs s t) \<Longrightarrow> outside (upd_tcb t f s) = outside s"
  by (simp add: outside_def upd_tcb_def fun_eq_iff)

lemma adjust_owner [simp]:
  "owner_pcb (adjust_priority cause t) = owner_pcb t" "ptcb (adjust_priority cause t) = ptcb t"
  "thread_func (adjust_priority cause t) = thread_func t"
  by (cases cause; simp)+

lemma outside_queue_add [simp]: "outside (sched_queue_add t s) = outside s"
  by (simp add: sched_queue_add_def)

lemma outside_release_TCB [simp]: "outside (release_TCB t s) = outside s"
  by (simp add: release_TCB_def free_thread_def Let_def split: option.splits)

lemma outside_make_ready: "sched_make_ready t s = Some s' \<Longrightarrow> outside s' = outside s"
  by (auto simp: sched_make_ready_def Let_def split: if_splits Option.bind_splits)

lemma outside_register: "sched_register_timeout t w s = Some s' \<Longrightarrow> outside s' = outside s"
  by (auto simp: sched_register_timeout_def Let_def split: if_splits Option.bind_splits)

lemma outside_wakeup_loop: "wakeup_expired_loop w s = Some s' \<Longrightarrow> outside s' = outside s"
proof (rule wakeup_expired_loop.raw_induct [of "\<lambda>w s s'. outside s' = outside s" w s s'])
  fix loop w s s'
  assume IH: "\<And>w s s'. loop w s = Some s' \<Longrightarrow> outside s' = outside s"
    and "(if \<not> is_rlist_empty (sched_heap s) TIMEOUT_LIST then
        do { tcb \<leftarrow> key (sched_heap s) (nxt (sched_heap s) TIMEOUT_LIST);
             if wakeup_time (tcbs s tcb) > w then Some s
             else do { s' \<leftarrow> sched_make_ready tcb s; loop w s' } }
      else Some s) = Some s'"
  then show "outside s' = outside s" by (auto split: if_splits Option.bind_splits dest!: outside_make_ready IH)
qed

lemma outside_boost_loop: "boost_queue_loop i s = Some s' \<Longrightarrow> outside s' = outside s"
proof (rule boost_queue_loop.raw_induct [of "\<lambda>i s s'. outside s' = outside s" i s s'])
  fix loop i s s'
  assume IH: "\<And>i s s'. loop i s = Some s' \<Longrightarrow> outside s' = outside s"
    and "(if \<not> is_rlist_empty (sched_heap s) (SCHED i) then
        (let (h, tmp) = rlist_pop_front (sched_heap s) (SCHED i);
             s = s\<lparr>sched_heap := rlist_push_back h (SCHED (i - 1)) tmp\<rparr>
         in do { t \<leftarrow> key (sched_heap s) tmp;
                 loop i (upd_tcb t (\<lambda>t. t\<lparr>priority := priority t - 1\<rparr>) s) })
      else Some s) = Some s'"
  then show "outside s' = outside s" by (auto simp: Let_def case_prod_beta split: if_splits Option.bind_splits dest!: IH)
qed

lemma outside_for_each:
  "(\<And>x s s'. f x s = Some s' \<Longrightarrow> outside s' = outside s) \<Longrightarrow> for_each f xs s = Some s' \<Longrightarrow> outside s' = outside s"
  by (induction xs arbitrary: s) (auto split: Option.bind_splits)

lemma outside_boost: "sched_boost_priority s = Some s' \<Longrightarrow> outside s' = outside s"
  unfolding sched_boost_priority_def by (rule outside_for_each) (rule outside_boost_loop)

lemma outside_select [simp]: "outside (fst (sched_queue_select t s)) = outside s"
  by (simp add: sched_queue_select_def Let_def case_prod_beta)

lemma outside_wakeup:
  "wakeup t s = Some (s', r) \<Longrightarrow> outside s' = outside s"
  using outside_preempt(2) [of s]
  by (auto simp: wakeup_def Let_def case_prod_beta split: if_splits Option.bind_splits dest!: outside_make_ready)

lemma outside_gain: "gain p s = Some s' \<Longrightarrow> outside s' = outside s"
  by (auto simp: gain_def Let_def split: if_splits Option.bind_splits Thread_state.splits)

lemma outside_resume: "resume f s = Some s' \<Longrightarrow> outside s' = outside s"
  by (cases f) (auto split: Option.bind_splits dest!: outside_gain)

lemma outside_swap: "swap_context c f n s = Some s' \<Longrightarrow> outside s' = outside s"
  by (auto simp: swap_context_def Let_def simp del: resume.simps split: if_splits dest!: outside_resume)

lemma outside_yield_in: "yield_in mk cause s = Some s' \<Longrightarrow> outside s' = outside s"
proof -
  obtain s1 pre where pre: "preempt_off (s\<lparr>cpu := fst (bios_cancel_timer (cpu s))\<rparr>) = (s1, pre)" by fastforce
  have s1: "outside s1 = outside s" using outside_preempt(2) [of "s\<lparr>cpu := fst (bios_cancel_timer (cpu s))\<rparr>"] pre by simp
  assume "yield_in mk cause s = Some s'"
  with pre s1 show ?thesis
    by (auto simp: yield_in_def Let_def case_prod_beta sched_wakeup_expired_timeouts_def simp del: resume.simps
        split: if_splits Option.bind_splits dest!: outside_swap outside_resume outside_wakeup_loop outside_boost)
qed

lemma outside_yield: "yield cause s = Some s' \<Longrightarrow> outside s' = outside s"
  by (simp add: yield_def outside_yield_in)

lemma outside_sleep: "sleep_releasing st cause timeout s = Some s' \<Longrightarrow> outside s' = outside s"
  using outside_preempt(2) [of s]
  by (auto simp: sleep_releasing_def Let_def case_prod_beta split: if_splits Option.bind_splits
      dest!: outside_yield_in outside_register)

lemmas outside_ops = outside_wakeup outside_yield outside_sleep

section \<open>What the scheduler depends on\<close>

text \<open>The other direction: the part of the state that the scheduler's invariant is about. An operation
  that leaves it alone keeps the invariant.\<close>

record inside =
  i_heap :: sched_store
  i_used :: "nat \<Rightarrow> bool"
  i_current :: "tcb_ptr option"
  i_counts :: "u16 \<times> int"
  i_tcbs :: "tcb_ptr \<Rightarrow> int \<times> Thread_state \<times> Thread_phase \<times> u32 \<times> Thread_type"

definition inside :: "kernel \<Rightarrow> inside" where
  "inside s = \<lparr>i_heap = sched_heap s, i_used = thread_used s, i_current = current_thread s,
     i_counts = (active_threads s, yield_count s),
     i_tcbs = (\<lambda>t. (priority (tcbs s t), tcb_state (tcbs s t), phase (tcbs s t), wakeup_time (tcbs s t), tcb_type (tcbs s t)))\<rparr>"

lemma insideD:
  assumes "inside s' = inside s"
  shows "sched_heap s' = sched_heap s" "thread_used s' = thread_used s" "current_thread s' = current_thread s"
    "active_threads s' = active_threads s" "yield_count s' = yield_count s" "live s' = live s"
    "priority (tcbs s' t) = priority (tcbs s t)" "tcb_state (tcbs s' t) = tcb_state (tcbs s t)"
    "phase (tcbs s' t) = phase (tcbs s t)" "wakeup_time (tcbs s' t) = wakeup_time (tcbs s t)"
    "tcb_type (tcbs s' t) = tcb_type (tcbs s t)"
  using assms by (simp_all add: inside_def fun_eq_iff live_def)

lemma sched_inv_inside:
  assumes "inside s' = inside s"
  shows "sched_inv s' L c = sched_inv s L c"
  unfolding sched_inv_def thread_ok_def by_wakeup_def by (simp only: insideD [OF assms])

lemma sched_ok_inside: "inside s' = inside s \<Longrightarrow> sched_ok s' = sched_ok s"
  using sched_inv_inside [of s' s] insideD [of s' s] by (simp add: sched_ok_def)

lemma inside_fields [simp]:
  "inside (s\<lparr>cpu := c\<rparr>) = inside s" "inside (upd_cpu f s) = inside s" "inside (s\<lparr>PT := a\<rparr>) = inside s"
  "inside (s\<lparr>FT := b\<rparr>) = inside s" "inside (s\<lparr>file_heap := d\<rparr>) = inside s" "inside (s\<lparr>proc_heap := e\<rparr>) = inside s"
  "inside (s\<lparr>ptcb_pool := g\<rparr>) = inside s" "inside (s\<lparr>ptcb_used := h\<rparr>) = inside s" "inside (s\<lparr>ptcb_heap := k\<rparr>) = inside s"
  "inside (s\<lparr>devtable := l\<rparr>) = inside s" "inside (s\<lparr>serial_dcbs := m\<rparr>) = inside s" "inside (upd_pcb p w s) = inside s"
  "inside (upd_fcb i x s) = inside s" "inside (upd_ptcb i y s) = inside s"
  by (simp_all add: inside_def upd_cpu_def upd_pcb_def upd_fcb_def upd_ptcb_def)

end
