(* ===== verification/Streams_Props.thy ===== *)
theory Streams_Props
  imports Streams Sched_Frame
begin

text \<open>
  The invariant of the file table and the properties of the file system calls.

  \<open>files_inv s xs R\<close>: the free list holds the FCBs \<open>xs\<close>, \<open>R\<close> are FCBs acquired and not yet entered
  in a file id table, every other FCB is in use, and its \<open>refcount\<close> is the number of its entries in
  the file id tables of the processes. Between system calls \<open>R\<close> is empty: no FCB is lost.
\<close>

section \<open>The invariant\<close>

definition refs :: "kernel \<Rightarrow> nat \<Rightarrow> (nat \<times> nat) set" where
  "refs s i = {(p, f). p < MAX_PROC \<and> f < MAX_FILEID \<and> FIDT (PT s p) f = Some i}"

definition freelist :: "(file_addr, nat option) rlheap \<Rightarrow> nat list \<Rightarrow> bool" where
  "freelist h xs \<longleftrightarrow>
     list_family h {FCB_freelist} (\<lambda>_. map freelist_node xs) (freelist_node ` ({..<MAX_FILES} - set xs))
     \<and> set xs \<subseteq> {..<MAX_FILES} \<and> (\<forall>i<MAX_FILES. key h (freelist_node i) = Some i)"

definition files_inv :: "kernel \<Rightarrow> nat list \<Rightarrow> nat set \<Rightarrow> bool" where
  "files_inv s xs R \<longleftrightarrow>
     freelist (file_heap s) xs \<and> R \<subseteq> {..<MAX_FILES} - set xs
     \<and> (\<forall>i. refs s i \<noteq> {} \<longrightarrow> i < MAX_FILES \<and> i \<notin> set xs \<and> i \<notin> R)
     \<and> (\<forall>i<MAX_FILES. i \<notin> set xs \<longrightarrow> i \<notin> R \<longrightarrow> refs s i \<noteq> {})
     \<and> (\<forall>i<MAX_FILES. i \<notin> set xs \<longrightarrow> refcount (FT s i) = int (card (refs s i)))"

definition files_ok :: "kernel \<Rightarrow> bool" where
  "files_ok s \<longleftrightarrow> (\<exists>xs. files_inv s xs {})"

lemma refs_finite [simp]: "finite (refs s i)"
  by (rule finite_subset [of _ "{..<MAX_PROC} \<times> {..<MAX_FILEID}"]) (auto simp: refs_def)

lemma files_invD:
  assumes "files_inv s xs R"
  shows "freelist (file_heap s) xs" "R \<subseteq> {..<MAX_FILES} - set xs"
    "refs s i \<noteq> {} \<Longrightarrow> i < MAX_FILES \<and> i \<notin> set xs \<and> i \<notin> R"
    "i < MAX_FILES \<Longrightarrow> i \<notin> set xs \<Longrightarrow> i \<notin> R \<Longrightarrow> refs s i \<noteq> {}"
    "i < MAX_FILES \<Longrightarrow> i \<notin> set xs \<Longrightarrow> refcount (FT s i) = int (card (refs s i))"
  using assms by (auto simp: files_inv_def)

lemma files_invI:
  assumes "freelist (file_heap s) xs" "R \<subseteq> {..<MAX_FILES} - set xs"
    "\<And>i. refs s i \<noteq> {} \<Longrightarrow> i < MAX_FILES \<and> i \<notin> set xs \<and> i \<notin> R"
    "\<And>i. i < MAX_FILES \<Longrightarrow> i \<notin> set xs \<Longrightarrow> i \<notin> R \<Longrightarrow> refs s i \<noteq> {}"
    "\<And>i. i < MAX_FILES \<Longrightarrow> i \<notin> set xs \<Longrightarrow> refcount (FT s i) = int (card (refs s i))"
  shows "files_inv s xs R"
  using assms by (simp add: files_inv_def)

section \<open>The free list\<close>

lemma freelist_distinct: "freelist h xs \<Longrightarrow> distinct xs"
  using family_distinct [of h "{FCB_freelist}"] by (fastforce simp: freelist_def distinct_map)

lemma freelist_empty_iff: "freelist h xs \<Longrightarrow> is_rlist_empty h FCB_freelist \<longleftrightarrow> xs = []"
  using family_empty_iff [of h "{FCB_freelist}"] by (fastforce simp: freelist_def)

lemma freelist_pop:
  assumes "freelist h (x # xs)"
  shows "freelist (fst (rlist_pop_front h FCB_freelist)) xs"
    and "snd (rlist_pop_front h FCB_freelist) = freelist_node x"
    and "key (fst (rlist_pop_front h FCB_freelist)) (freelist_node x) = Some x"
proof -
  have fam: "list_family h {FCB_freelist} (\<lambda>_. map freelist_node (x # xs)) (freelist_node ` ({..<MAX_FILES} - set (x # xs)))"
    and x: "x < MAX_FILES" "x \<notin> set xs" "set xs \<subseteq> {..<MAX_FILES}"
    and k: "\<And>i. i < MAX_FILES \<Longrightarrow> key h (freelist_node i) = Some i"
    using assms freelist_distinct [OF assms] by (auto simp: freelist_def)
  have F: "insert (freelist_node x) (freelist_node ` ({..<MAX_FILES} - set (x # xs))) = freelist_node ` ({..<MAX_FILES} - set xs)"
    using x by auto
  note pop = family_pop_front [OF fam, of FCB_freelist "freelist_node x" "map freelist_node xs"]
  from pop(1) have "list_family (fst (rlist_pop_front h FCB_freelist)) {FCB_freelist} (\<lambda>_. map freelist_node xs)
      (freelist_node ` ({..<MAX_FILES} - set xs))"
    unfolding F by (simp add: list_family_def)
  moreover have "key (fst (rlist_pop_front h FCB_freelist)) = key h" by (simp add: rlist_pop_front_def)
  ultimately show "freelist (fst (rlist_pop_front h FCB_freelist)) xs"
    "key (fst (rlist_pop_front h FCB_freelist)) (freelist_node x) = Some x"
    using x k by (auto simp: freelist_def)
  show "snd (rlist_pop_front h FCB_freelist) = freelist_node x" using pop(2) by simp
qed

lemma freelist_push:
  assumes "freelist h xs" and i: "i < MAX_FILES" "i \<notin> set xs"
  shows "freelist (rlist_push_back h FCB_freelist (freelist_node i)) (xs @ [i])"
proof -
  have fam: "list_family h {FCB_freelist} (\<lambda>_. map freelist_node xs) (freelist_node ` ({..<MAX_FILES} - set xs))"
    and k: "set xs \<subseteq> {..<MAX_FILES}" "\<And>i. i < MAX_FILES \<Longrightarrow> key h (freelist_node i) = Some i"
    using assms by (auto simp: freelist_def)
  have F: "freelist_node ` ({..<MAX_FILES} - set xs) - {freelist_node i} = freelist_node ` ({..<MAX_FILES} - set (xs @ [i]))"
    by auto
  from family_push_back [OF fam, of FCB_freelist "freelist_node i"] i
  have "list_family (rlist_push_back h FCB_freelist (freelist_node i)) {FCB_freelist} (\<lambda>_. map freelist_node (xs @ [i]))
      (freelist_node ` ({..<MAX_FILES} - set (xs @ [i])))"
    unfolding F [symmetric] by (simp add: list_family_def)
  then show ?thesis using k i by (simp add: freelist_def rlist_push_back_def)
qed

lemma initialize_files_freelist: "freelist (file_heap (initialize_files s)) [0..<MAX_FILES]"
proof -
  let ?init = "\<lambda>h. rlnode_init h FCB_freelist None"
  let ?step = "\<lambda>i s. let s = upd_fcb i (\<lambda>f. f\<lparr>refcount := 0\<rparr>) s;
               s = s\<lparr>file_heap := rlnode_init (file_heap s) (freelist_node i) (Some i)\<rparr>
           in s\<lparr>file_heap := rlist_push_back (file_heap s) FCB_freelist (freelist_node i)\<rparr>"
  let ?h = "\<lambda>n. file_heap (fold ?step [0..<n] (s\<lparr>file_heap := ?init (file_heap s)\<rparr>))"
  have "list_family (?h n) {FCB_freelist} (\<lambda>_. map freelist_node [0..<n]) {}
      \<and> (\<forall>i<n. key (?h n) (freelist_node i) = Some i)" for n
  proof (induction n)
    case 0
    show ?case using family_init_head [OF family_none [of "file_heap s" "\<lambda>_. []"], of FCB_freelist None] by (simp add: list_family_def)
  next
    case (Suc n)
    let ?g = "rlnode_init (?h n) (freelist_node n) (Some n)"
    have h: "?h (Suc n) = rlist_push_back ?g FCB_freelist (freelist_node n)" by (simp add: Let_def upd_fcb_def)
    have "list_family ?g {FCB_freelist} (\<lambda>_. map freelist_node [0..<n]) {freelist_node n}"
      using Suc by (intro family_init_node) auto
    from family_push_back [OF this, of FCB_freelist "freelist_node n"]
    have "list_family (?h (Suc n)) {FCB_freelist} (\<lambda>_. map freelist_node [0..<Suc n]) {}"
      unfolding h by (simp add: list_family_def)
    moreover have "\<forall>i<Suc n. key (?h (Suc n)) (freelist_node i) = Some i"
      unfolding h using Suc by (auto simp: less_Suc_eq rlist_push_back_def rlnode_init_def rlnode_new_def)
    ultimately show ?case by simp
  qed
  moreover have "freelist_node ` ({..<MAX_FILES} - {0..<MAX_FILES}) = {}" by auto
  ultimately show ?thesis
    by (auto simp: freelist_def initialize_files_def Let_def simp del: image_is_empty)
qed

section \<open>Preservation\<close>

text \<open>The FCB operations touch the free list and the file table only.\<close>

definition files_only :: "kernel \<Rightarrow> kernel \<Rightarrow> bool" where
  "files_only s s' \<longleftrightarrow> s' = s\<lparr>file_heap := file_heap s', FT := FT s'\<rparr>"

lemma files_only_refl [simp]: "files_only s s"
  by (simp add: files_only_def)

lemma files_only_iff: "files_only s s' \<longleftrightarrow> (\<exists>h ft. s' = s\<lparr>file_heap := h, FT := ft\<rparr>)"
  by (auto simp: files_only_def)

lemma files_only_trans: "files_only s s' \<Longrightarrow> files_only s' s'' \<Longrightarrow> files_only s s''"
  by (auto simp: files_only_iff) blast

lemma files_only_frame:
  assumes "files_only s s'"
  shows "PT s' = PT s" "tcbs s' = tcbs s" "current_thread s' = current_thread s" "cpu s' = cpu s"
    "devtable s' = devtable s" "refs s' i = refs s i" "cur_pcb s' = cur_pcb s"
proof -
  obtain h ft where "s' = s\<lparr>file_heap := h, FT := ft\<rparr>" using assms by (auto simp: files_only_def)
  then show "PT s' = PT s" "tcbs s' = tcbs s" "current_thread s' = current_thread s" "cpu s' = cpu s"
    "devtable s' = devtable s" "refs s' i = refs s i" "cur_pcb s' = cur_pcb s"
    by (simp_all add: refs_def cur_pcb_def cur_thread_eq)
qed

lemma release_files_only: "files_only s (release_FCB i s)"
  by (simp add: files_only_def release_FCB_def)

lemma acquire_none:
  assumes "files_inv s [] R"
  shows "acquire_FCB s = Some (s, None)"
  using freelist_empty_iff [OF files_invD(1) [OF assms]] by (simp add: acquire_FCB_def)

lemma acquire_some:
  assumes inv: "files_inv s (x # xs) R"
  obtains s' where "acquire_FCB s = Some (s', Some x)" "files_inv s' xs (insert x R)" "files_only s s'"
    "\<And>j. j \<noteq> x \<Longrightarrow> FT s' j = FT s j" "FT s' x = (FT s x)\<lparr>refcount := 0\<rparr>"
proof -
  note D = files_invD [OF inv]
  define s' where "s' = upd_fcb x (\<lambda>f. f\<lparr>refcount := 0\<rparr>) (s\<lparr>file_heap := fst (rlist_pop_front (file_heap s) FCB_freelist)\<rparr>)"
  have "acquire_FCB s = Some (s', Some x)"
    using freelist_empty_iff [OF D(1)] freelist_pop(2,3) [OF D(1)]
    by (simp add: acquire_FCB_def s'_def case_prod_beta Let_def)
  moreover have only: "files_only s s'" by (simp add: files_only_def s'_def upd_fcb_def)
  moreover have x: "x < MAX_FILES" "x \<notin> set xs" "x \<notin> R" "refs s x = {}"
    using D(1) D(2) D(3) [of x] freelist_distinct [OF D(1)] by (auto simp: freelist_def)
  have "files_inv s' xs (insert x R)"
  proof (rule files_invI)
    show "freelist (file_heap s') xs" using freelist_pop(1) [OF D(1)] by (simp add: s'_def upd_fcb_def)
    show "insert x R \<subseteq> {..<MAX_FILES} - set xs" using D(2) x by auto
  next
    fix i assume "refs s' i \<noteq> {}"
    then show "i < MAX_FILES \<and> i \<notin> set xs \<and> i \<notin> insert x R" using D(3) [of i] x by (auto simp: files_only_frame [OF only])
  next
    fix i assume i: "i < MAX_FILES" "i \<notin> set xs"
    have "FT s' i = (if i = x then (FT s x)\<lparr>refcount := 0\<rparr> else FT s i)" by (simp add: s'_def upd_fcb_apply)
    then show "refcount (FT s' i) = int (card (refs s' i))"
      using i x D(5) [of i] by (cases "i = x") (simp_all add: files_only_frame [OF only])
    assume "i \<notin> insert x R"
    with i show "refs s' i \<noteq> {}" using D(4) [of i] by (simp add: files_only_frame [OF only])
  qed
  moreover have "\<And>j. j \<noteq> x \<Longrightarrow> FT s' j = FT s j" "FT s' x = (FT s x)\<lparr>refcount := 0\<rparr>"
    by (simp_all add: s'_def upd_fcb_apply)
  ultimately show thesis using that by blast
qed

lemma release_inv:
  assumes inv: "files_inv s xs R" and i: "i \<in> R"
  shows "files_inv (release_FCB i s) (xs @ [i]) (R - {i})"
proof -
  note D = files_invD [OF inv] and F = files_only_frame [OF release_files_only [of s i]]
  have "i < MAX_FILES" "i \<notin> set xs" using D(2) i by auto
  then have "freelist (file_heap (release_FCB i s)) (xs @ [i])" using freelist_push [OF D(1)] by (simp add: release_FCB_def)
  moreover have "FT (release_FCB i s) = FT s" by (simp add: release_FCB_def)
  moreover have "R - {i} \<subseteq> {..<MAX_FILES} - set (xs @ [i])" using D(2) by auto
  moreover have "j < MAX_FILES \<and> j \<notin> set (xs @ [i]) \<and> j \<notin> R" if "refs s j \<noteq> {}" for j
    using D(3) [OF that] i by auto
  ultimately show ?thesis using D(4,5) by (intro files_invI) (simp_all add: F(6))
qed

interpretation files: free_pool files_inv acquire_FCB release_FCB
proof
  show "files_inv s [] R \<Longrightarrow> acquire_FCB s = Some (s, None)" for s R by (rule acquire_none)
  show "files_inv s (x # xs) R \<Longrightarrow> \<exists>s'. acquire_FCB s = Some (s', Some x) \<and> files_inv s' xs (insert x R)" for s x xs R
    by (elim acquire_some) auto
  show "files_inv s xs R \<Longrightarrow> i \<in> R \<Longrightarrow> files_inv (release_FCB i s) (xs @ [i]) (R - {i})" for s xs R i by (rule release_inv)
  show "files_inv s xs R \<Longrightarrow> distinct xs \<and> set xs \<inter> R = {}" for s xs R
    using files_invD(1,2) freelist_distinct by blast
qed

lemma acquire_all:
  "files_inv s xs R \<Longrightarrow> num \<le> length xs \<Longrightarrow>
   \<exists>s'. acquire_FCBs num s = Some (s', take num xs, True) \<and> files_inv s' (drop num xs) (R \<union> set (take num xs)) \<and> files_only s s'
     \<and> (\<forall>j. j \<notin> set (take num xs) \<longrightarrow> FT s' j = FT s j)"
proof (induction num arbitrary: s xs R)
  case (Suc num)
  then obtain x ys where xs: "xs = x # ys" by (cases xs) auto
  with Suc.prems obtain s1 where s1: "acquire_FCB s = Some (s1, Some x)" "files_inv s1 ys (insert x R)" "files_only s s1"
    "\<forall>j. j \<noteq> x \<longrightarrow> FT s1 j = FT s j"
    using acquire_some [of s x ys R] by blast
  from Suc.IH [OF s1(2)] Suc.prems xs s1 files_only_trans [OF s1(3)] show ?case by auto
qed simp

lemma acquire_too_many:
  "files_inv s xs R \<Longrightarrow> length xs < num \<Longrightarrow>
   \<exists>s'. acquire_FCBs num s = Some (s', xs, False) \<and> files_inv s' [] (R \<union> set xs) \<and> files_only s s'"
proof (induction num arbitrary: s xs R)
  case (Suc num)
  show ?case
  proof (cases xs)
    case Nil
    then show ?thesis using Suc.prems acquire_none [of s R] by simp
  next
    case (Cons x ys)
    with Suc.prems obtain s1 where s1: "acquire_FCB s = Some (s1, Some x)" "files_inv s1 ys (insert x R)" "files_only s s1"
      using acquire_some [of s x ys R] by blast
    from Suc.IH [OF s1(2)] Suc.prems Cons s1 files_only_trans [OF s1(3)] show ?thesis by auto
  qed
qed simp

text \<open>Entering an acquired FCB in a file id table, and taking an entry out.\<close>

lemma FIDT_set [simp]: "FIDT (PT (set_FIDT p f v s) q) g = (if q = p \<and> g = f then v else FIDT (PT s q) g)"
  by (simp add: set_FIDT_def upd_pcb_apply)

lemma set_FIDT_frame [simp, frame_simps]:
  "file_heap (set_FIDT p f v s) = file_heap s" "FT (set_FIDT p f v s) = FT s" "tcbs (set_FIDT p f v s) = tcbs s"
  "current_thread (set_FIDT p f v s) = current_thread s" "devtable (set_FIDT p f v s) = devtable s"
  "serial_dcbs (set_FIDT p f v s) = serial_dcbs s" "cpu (set_FIDT p f v s) = cpu s"
  by (simp_all add: set_FIDT_def upd_pcb_def)

lemma incref_frame [simp, frame_simps]:
  "file_heap (FCB_incref i s) = file_heap s" "PT (FCB_incref i s) = PT s" "tcbs (FCB_incref i s) = tcbs s"
  "current_thread (FCB_incref i s) = current_thread s" "devtable (FCB_incref i s) = devtable s"
  "serial_dcbs (FCB_incref i s) = serial_dcbs s"
  by (simp_all add: FCB_incref_def upd_fcb_def split: option.splits)

lemma refs_set_some:
  assumes "p < MAX_PROC" "f < MAX_FILEID" "FIDT (PT s p) f = None"
  shows "refs (set_FIDT p f (Some i) s) j = (if j = i then insert (p, f) (refs s i) else refs s j)"
    and "(p, f) \<notin> refs s j"
  using assms by (auto simp: refs_def split: if_splits)

lemma refs_set_none: "refs (set_FIDT p f None s) j = refs s j - {(p, f)}"
  by (auto simp: refs_def split: if_splits)

lemma refs_PT: "PT s' = PT s \<Longrightarrow> refs s' = refs s"
  by (simp add: refs_def fun_eq_iff)

definition enter :: "nat \<Rightarrow> nat \<times> nat \<Rightarrow> kernel \<Rightarrow> kernel" where
  "enter p = (\<lambda>(f, i) s. FCB_incref (Some i) (set_FIDT p f (Some i) s))"

lemma enter_inv:
  assumes inv: "files_inv s xs R" and p: "p < MAX_PROC" "f < MAX_FILEID" "FIDT (PT s p) f = None" and i: "i \<in> R"
  shows "files_inv (enter p (f, i) s) xs (R - {i})"
proof -
  note D = files_invD [OF inv]
  let ?s = "enter p (f, i) s"
  have refs: "refs ?s j = (if j = i then insert (p, f) (refs s i) else refs s j)" for j
    using refs_set_some(1) [OF p, of i j] refs_PT [of ?s "set_FIDT p f (Some i) s"] by (simp add: enter_def)
  have FT: "FT ?s j = (if j = i then (FT s i)\<lparr>refcount := refcount (FT s i) + 1\<rparr> else FT s j)" for j
    by (simp add: enter_def FCB_incref_def upd_fcb_apply)
  have i': "i < MAX_FILES" "i \<notin> set xs" using D(2) i by auto
  show ?thesis
  proof (rule files_invI)
    show "freelist (file_heap ?s) xs" using D(1) by (simp add: enter_def)
    show "R - {i} \<subseteq> {..<MAX_FILES} - set xs" using D(2) by auto
    show "j < MAX_FILES \<and> j \<notin> set xs \<and> j \<notin> R - {i}" if "refs ?s j \<noteq> {}" for j
      using that D(3) [of j] i' by (auto simp: refs split: if_splits)
    show "refs ?s j \<noteq> {}" if "j < MAX_FILES" "j \<notin> set xs" "j \<notin> R - {i}" for j
      using that D(4) [of j] by (cases "j = i") (simp_all add: refs)
    show "refcount (FT ?s j) = int (card (refs ?s j))" if "j < MAX_FILES" "j \<notin> set xs" for j
      using that D(5) [of j] refs_set_some(2) [OF p, of i] by (auto simp: refs FT)
  qed
qed

lemma enter_all_inv:
  "files_inv s xs R \<Longrightarrow> p < MAX_PROC \<Longrightarrow> length fs = length is \<Longrightarrow> distinct fs \<Longrightarrow> distinct is \<Longrightarrow> set is \<subseteq> R \<Longrightarrow>
   \<forall>f\<in>set fs. f < MAX_FILEID \<and> FIDT (PT s p) f = None \<Longrightarrow>
   files_inv (fold (enter p) (zip fs is) s) xs (R - set is)"
proof (induction fs "is" arbitrary: s R rule: list_induct2')
  case (4 f fs i "is")
  let ?s = "enter p (f, i) s"
  have "files_inv ?s xs (R - {i})" using "4.prems" by (intro enter_inv) auto
  moreover have "\<forall>g\<in>set fs. g < MAX_FILEID \<and> FIDT (PT ?s p) g = None" using "4.prems" by (auto simp: enter_def)
  ultimately have "files_inv (fold (enter p) (zip fs is) ?s) xs (R - {i} - set is)"
    using "4.prems" by (intro "4.IH") auto
  then show ?case by (simp add: Diff_insert2 [symmetric])
qed simp_all

lemma FIDT_enter_all:
  "length fs = length is \<Longrightarrow> distinct fs \<Longrightarrow>
   FIDT (PT (fold (enter p) (zip fs is) s) q) g
     = (if q = p \<and> g \<in> set fs then map_of (zip fs is) g else FIDT (PT s q) g)"
proof (induction fs "is" arbitrary: s rule: list_induct2')
  case (4 f fs i "is")
  then show ?case by (auto simp: enter_def)
qed simp_all

section \<open>Reserving\<close>

definition free_fids :: "kernel \<Rightarrow> nat \<Rightarrow> nat list" where
  "free_fids s p = filter (\<lambda>f. FIDT (PT s p) f = None) [0..<MAX_FILEID]"

lemma find_fids_eq:
  "f \<le> MAX_FILEID \<Longrightarrow> find_fids t f num =
     (let fs = filter (\<lambda>f. t f = None) [f..<MAX_FILEID] in if num \<le> length fs then Some (take num fs) else None)"
proof (induction num arbitrary: f)
  case (Suc num)
  show ?case
  proof (cases "first_from (\<lambda>f. t f = None) f MAX_FILEID")
    case None
    then have "filter (\<lambda>f. t f = None) [f..<MAX_FILEID] = []" using filter_upt_first_from [of "\<lambda>f. t f = None" f] by simp
    then show ?thesis by (simp only: find_fids.simps None option.case) simp
  next
    case (Some g)
    then have "filter (\<lambda>f. t f = None) [f..<MAX_FILEID] = g # filter (\<lambda>f. t f = None) [Suc g..<MAX_FILEID]" "Suc g \<le> MAX_FILEID"
      using filter_upt_first_from [of "\<lambda>f. t f = None" f] first_from_SomeD [OF Some] by auto
    then show ?thesis using Suc.IH [of "Suc g"] Some by (simp add: Let_def)
  qed
qed simp

lemma reserve_eq:
  assumes inv: "files_inv s xs {}" and p: "cur_pcb s = Some p" "p < MAX_PROC"
  shows "num \<le> length (free_fids s p) \<Longrightarrow> num \<le> length xs \<Longrightarrow>
      \<exists>s1. files_only s s1 \<and> FCB_reserve num s = Some (fold (enter p) (zip (take num (free_fids s p)) (take num xs)) s1,
             Some (take num (free_fids s p), take num xs))
         \<and> files_inv (fold (enter p) (zip (take num (free_fids s p)) (take num xs)) s1) (drop num xs) {}
         \<and> (\<forall>j. j \<notin> set (take num xs) \<longrightarrow> FT s1 j = FT s j)"
    and "length (free_fids s p) < num \<Longrightarrow> FCB_reserve num s = Some (s, None)"
    and "num \<le> length (free_fids s p) \<Longrightarrow> length xs < num \<Longrightarrow>
      \<exists>s'. FCB_reserve num s = Some (s', None) \<and> files_inv s' (rev xs) {} \<and> files_only s s'"
proof -
  let ?fs = "take num (free_fids s p)"
  have find: "find_fids (FIDT (PT s p)) 0 num = (if num \<le> length (free_fids s p) then Some ?fs else None)"
    using find_fids_eq [of 0 "FIDT (PT s p)" num] by (simp add: free_fids_def Let_def)
  then show "length (free_fids s p) < num \<Longrightarrow> FCB_reserve num s = Some (s, None)"
    by (simp add: FCB_reserve_def p)
  assume n: "num \<le> length (free_fids s p)"
  have fs: "distinct ?fs" "length ?fs = num" "\<forall>f\<in>set ?fs. f < MAX_FILEID \<and> FIDT (PT s p) f = None"
    using n by (auto simp: free_fids_def dest!: in_set_takeD)
  have dist: "distinct xs" using files.apart [OF inv] by simp
  { assume "num \<le> length xs"
    then obtain s1 where s1: "acquire_FCBs num s = Some (s1, take num xs, True)"
      "files_inv s1 (drop num xs) (set (take num xs))" "files_only s s1"
      "\<forall>j. j \<notin> set (take num xs) \<longrightarrow> FT s1 j = FT s j"
      using acquire_all [OF inv, of num] by auto
    have "files_inv (fold (enter p) (zip ?fs (take num xs)) s1) (drop num xs) (set (take num xs) - set (take num xs))"
      using s1 fs p dist \<open>num \<le> length xs\<close> files_only_frame(1) [OF s1(3)] by (intro enter_all_inv) simp_all
    moreover have "FCB_reserve num s = Some (fold (enter p) (zip ?fs (take num xs)) s1, Some (?fs, take num xs))"
      using n s1 by (simp add: FCB_reserve_def p find enter_def)
    ultimately show "\<exists>s1. files_only s s1 \<and> FCB_reserve num s = Some (fold (enter p) (zip ?fs (take num xs)) s1, Some (?fs, take num xs))
        \<and> files_inv (fold (enter p) (zip ?fs (take num xs)) s1) (drop num xs) {}
        \<and> (\<forall>j. j \<notin> set (take num xs) \<longrightarrow> FT s1 j = FT s j)"
      using s1(3,4) by auto }
  { assume "length xs < num"
    then obtain s1 where s1: "acquire_FCBs num s = Some (s1, xs, False)" "files_inv s1 [] (set xs)" "files_only s s1"
      using acquire_too_many [OF inv, of num] by auto
    have "files_inv (fold release_FCB (rev xs) s1) (rev xs) {}"
      using files.release_all [OF s1(2), of "rev xs"] dist by simp
    moreover have "files_only s1 (fold release_FCB ys s1)" for ys
      by (induction ys arbitrary: s1) (auto intro: files_only_trans [OF release_files_only])
    ultimately show "\<exists>s'. FCB_reserve num s = Some (s', None) \<and> files_inv s' (rev xs) {} \<and> files_only s s'"
      using n s1 files_only_trans [OF s1(3)] by (simp add: FCB_reserve_def p find) }
qed

section \<open>Opening and closing\<close>

text \<open>The FCBs no process refers to.\<close>

definition free_fcbs :: "kernel \<Rightarrow> nat set" where
  "free_fcbs s = {i. i < MAX_FILES \<and> refs s i = {}}"

lemma free_fcbs_eq: "files_inv s xs {} \<Longrightarrow> free_fcbs s = set xs"
  unfolding free_fcbs_def files_inv_def freelist_def by blast

lemma free_fcbs_card: "files_inv s xs {} \<Longrightarrow> card (free_fcbs s) = length xs"
  using files.apart [of s xs "{}"] by (simp add: free_fcbs_eq distinct_card)

lemma files_only_ok: "files_only s s' \<Longrightarrow> free_fcbs s' = free_fcbs s"
  by (simp add: free_fcbs_def files_only_frame)

text \<open>Removing a reference and dropping the count, the body of \<open>sys_Close\<close>.\<close>

lemma call_Close_eq [simp]: "call_Close f obj s = (s, 0)"
  by (cases f) (simp_all add: nulldev_close_def serial_close_def)

lemma decref_eq:
  "FCB_decref (Some i) s =
     (let s = upd_fcb i (\<lambda>f. f\<lparr>refcount := refcount f - 1\<rparr>) s
      in (if refcount (FT s i) = 0 then release_FCB i s else s, 0))"
  by (simp add: FCB_decref_def Let_def split: option.splits)

lemma close_inv:
  assumes inv: "files_inv s xs {}" and p: "p < MAX_PROC" "f < MAX_FILEID" "FIDT (PT s p) f = Some i"
  shows "\<exists>s' xs'. FCB_decref (Some i) (set_FIDT p f None s) = (s', 0) \<and> files_inv s' xs' {}
    \<and> files_only (set_FIDT p f None s) s' \<and> xs' = (if refs s i = {(p, f)} then xs @ [i] else xs)"
proof -
  note D = files_invD [OF inv]
  define s1 where "s1 = upd_fcb i (\<lambda>g. g\<lparr>refcount := refcount g - 1\<rparr>) (set_FIDT p f None s)"
  have pf: "(p, f) \<in> refs s i" using p by (simp add: refs_def)
  then have i: "i < MAX_FILES" "i \<notin> set xs" using D(3) [of i] by auto
  have only: "files_only (set_FIDT p f None s) s1" by (simp add: s1_def files_only_def upd_fcb_def)
  have refs: "refs s1 j = refs s j - {(p, f)}" for j using files_only_frame(6) [OF only] refs_set_none by simp
  have other: "refs s1 j = refs s j" if "j \<noteq> i" for j using that p unfolding refs by (auto simp: refs_def)
  have FT: "FT s1 j = (if j = i then (FT s i)\<lparr>refcount := refcount (FT s i) - 1\<rparr> else FT s j)" for j
    by (simp add: s1_def upd_fcb_apply)
  have "0 < card (refs s i)" using pf by (auto simp: card_gt_0_iff)
  then have cnt: "refcount (FT s1 i) = int (card (refs s1 i))"
    using D(5) [OF i] pf by (simp add: FT refs card_Diff_singleton)
  have heap: "file_heap s1 = file_heap s" by (simp add: s1_def upd_fcb_def)
  have last: "refs s1 i = {} \<longleftrightarrow> refs s i = {(p, f)}" using pf refs by auto
  let ?R = "if refs s i = {(p, f)} then {i} else {}"
  have inv1: "files_inv s1 xs ?R"
  proof (rule files_invI)
    show "freelist (file_heap s1) xs" using D(1) heap by simp
    show "?R \<subseteq> {..<MAX_FILES} - set xs" using i by auto
    show "j < MAX_FILES \<and> j \<notin> set xs \<and> j \<notin> ?R" if "refs s1 j \<noteq> {}" for j
      using that D(3) [of j] i last other [of j] by (cases "j = i") auto
    show "refs s1 j \<noteq> {}" if "j < MAX_FILES" "j \<notin> set xs" "j \<notin> ?R" for j
      using that D(4) [of j] last other [of j] by (cases "j = i") (auto split: if_splits)
    show "refcount (FT s1 j) = int (card (refs s1 j))" if "j < MAX_FILES" "j \<notin> set xs" for j
      using that D(5) [of j] cnt other [of j] by (cases "j = i") (simp_all add: FT)
  qed
  have eq: "FCB_decref (Some i) (set_FIDT p f None s) = (if refs s i = {(p, f)} then release_FCB i s1 else s1, 0)"
    using cnt last by (simp add: decref_eq s1_def [symmetric] Let_def)
  show ?thesis
  proof (cases "refs s i = {(p, f)}")
    case True
    then show ?thesis using eq release_inv [OF inv1, of i] files_only_trans [OF only release_files_only] by simp
  next
    case False
    then show ?thesis using eq inv1 only by simp
  qed
qed

lemma sys_Close_ok:
  assumes "files_ok s" "cur_pcb s = Some p" "p < MAX_PROC"
  shows "\<exists>s'. sys_Close fd s = Some (s', 0) \<and> files_ok s'
    \<and> (if 0 \<le> fd \<and> fd < int MAX_FILEID \<and> FIDT (PT s p) (nat fd) \<noteq> None
       then files_only (set_FIDT p (nat fd) None s) s' else s' = s)"
proof (cases "0 \<le> fd \<and> fd < int MAX_FILEID \<and> FIDT (PT s p) (nat fd) \<noteq> None")
  case True
  then obtain i where i: "FIDT (PT s p) (nat fd) = Some i" "nat fd < MAX_FILEID" by auto
  obtain xs where "files_inv s xs {}" using assms by (auto simp: files_ok_def)
  from close_inv [OF this assms(3) i(2,1)] obtain s' xs'
    where "FCB_decref (Some i) (set_FIDT p (nat fd) None s) = (s', 0)" "files_inv s' xs' {}"
      "files_only (set_FIDT p (nat fd) None s) s'" by auto
  then show ?thesis using True i assms by (auto simp: sys_Close_def get_stream_fcb_def files_ok_def)
next
  case False
  then show ?thesis using assms by (auto simp: sys_Close_def get_stream_fcb_def)
qed

text \<open>One FCB for one file id.\<close>

lemma reserve_one:
  assumes inv: "files_inv s xs {}" and p: "cur_pcb s = Some p" "p < MAX_PROC"
  shows "free_fids s p = f # fs \<Longrightarrow> xs = x # ys \<Longrightarrow>
      \<exists>s1. files_only s s1 \<and> FCB_reserve 1 s = Some (enter p (f, x) s1, Some ([f], [x])) \<and> files_inv (enter p (f, x) s1) ys {}
        \<and> (\<forall>j. j \<noteq> x \<longrightarrow> FT s1 j = FT s j)"
    and "free_fids s p = [] \<or> xs = [] \<Longrightarrow> FCB_reserve 1 s = Some (s, None)"
proof -
  show "\<exists>s1. files_only s s1 \<and> FCB_reserve 1 s = Some (enter p (f, x) s1, Some ([f], [x])) \<and> files_inv (enter p (f, x) s1) ys {}
        \<and> (\<forall>j. j \<noteq> x \<longrightarrow> FT s1 j = FT s j)"
    if "free_fids s p = f # fs" "xs = x # ys"
    using reserve_eq(1) [OF inv p, of 1] that by simp
  show "FCB_reserve 1 s = Some (s, None)" if "free_fids s p = [] \<or> xs = []"
  proof (cases "free_fids s p = []")
    case True
    then show ?thesis using reserve_eq(2) [OF inv p, of 1] by simp
  next
    case False
    then have "find_fids (FIDT (PT s p)) 0 1 = Some (take 1 (free_fids s p))"
      using find_fids_eq [of 0 "FIDT (PT s p)" 1] by (cases "free_fids s p") (simp_all add: free_fids_def [symmetric])
    then show ?thesis using False that inv acquire_none [of s "{}"] by (simp add: FCB_reserve_def p)
  qed
qed

lemma free_fids_hd:
  assumes "free_fids s p = f # fs"
  shows "f < MAX_FILEID" "FIDT (PT s p) f = None" "\<And>g. g < f \<Longrightarrow> FIDT (PT s p) g \<noteq> None"
proof -
  have first: "first_from (\<lambda>f. FIDT (PT s p) f = None) 0 MAX_FILEID = Some f"
    using assms filter_upt_first_from [of "\<lambda>f. FIDT (PT s p) f = None" 0 MAX_FILEID]
    by (simp add: free_fids_def split: option.splits)
  from first_from_SomeD [OF this]
  show "f < MAX_FILEID" "FIDT (PT s p) f = None" "\<And>g. g < f \<Longrightarrow> FIDT (PT s p) g \<noteq> None" by auto
qed

lemma enter_undone:
  assumes "FIDT (PT s p) f = None" "files_only s s1" "FIDT (PT s1 p) f = None"
  shows "FIDT (PT (release_FCB i (set_FIDT p f None (enter p (f, i) s1))) q) g = FIDT (PT s q) g"
  using assms files_only_frame(1) [of s s1] by (simp add: release_FCB_def enter_def)

lemma unreserve_inv:
  assumes inv: "files_inv s xs {}" and p: "p < MAX_PROC" "f < MAX_FILEID" and i: "refs s i = {(p, f)}" "refcount (FT s i) = 1"
  shows "files_inv (release_FCB i (set_FIDT p f None s)) (xs @ [i]) {}"
proof -
  note D = files_invD [OF inv] and F = files_only_frame(6) [OF release_files_only [of "set_FIDT p f None s" i]]
  have i': "i < MAX_FILES" "i \<notin> set xs" using D(3) [of i] i by auto
  have pf: "FIDT (PT s p) f = Some i" using i(1) by (auto simp: refs_def)
  have refs: "refs (release_FCB i (set_FIDT p f None s)) j = (if j = i then {} else refs s j)" for j
    using i pf by (auto simp: F refs_set_none) (simp add: refs_def)
  have FT: "FT (release_FCB i (set_FIDT p f None s)) = FT s" by (simp add: release_FCB_def)
  show ?thesis
  proof (rule files_invI)
    show "freelist (file_heap (release_FCB i (set_FIDT p f None s))) (xs @ [i])"
      using freelist_push [OF D(1) i'] by (simp add: release_FCB_def)
    fix j
    show "refs (release_FCB i (set_FIDT p f None s)) j \<noteq> {} \<Longrightarrow> j < MAX_FILES \<and> j \<notin> set (xs @ [i]) \<and> j \<notin> {}"
      using D(3) [of j] by (auto simp: refs split: if_splits)
    show "j < MAX_FILES \<Longrightarrow> j \<notin> set (xs @ [i]) \<Longrightarrow> refs (release_FCB i (set_FIDT p f None s)) j \<noteq> {}"
      "j < MAX_FILES \<Longrightarrow> j \<notin> set (xs @ [i]) \<Longrightarrow>
        refcount (FT (release_FCB i (set_FIDT p f None s)) j) = int (card (refs (release_FCB i (set_FIDT p f None s)) j))"
      using D(4,5) [of j] by (simp_all add: refs FT)
  qed simp
qed

lemma refs_enter:
  assumes "p < MAX_PROC" "f < MAX_FILEID" "FIDT (PT s p) f = None"
  shows "refs (enter p (f, i) s) j = (if j = i then insert (p, f) (refs s i) else refs s j)"
  using refs_set_some(1) [OF assms, of i j] refs_PT [of "enter p (f, i) s" "set_FIDT p f (Some i) s"] by (simp add: enter_def)

definition stream_of :: "Device_type \<Rightarrow> FCB" where
  "stream_of d = \<lparr>streamobj = (if d = DEV_NULL then None else Some 0), streamfunc = Some d, refcount = 1\<rparr>"

lemma open_stream_succeeds:
  assumes inv: "files_inv s (x # xs) {}" and dev: "devices_ok s" and p: "cur_pcb s = Some p" "p < MAX_PROC"
    and f: "free_fids s p = f # fs" and d: "d \<noteq> DEV_MAX"
  shows "\<exists>s'. open_stream d 0 s = Some (s', int f) \<and> files_inv s' xs {} \<and> FT s' x = stream_of d
    \<and> (\<forall>j. j \<noteq> x \<longrightarrow> FT s' j = FT s j) \<and> (\<forall>q g. FIDT (PT s' q) g = (if q = p \<and> g = f then Some x else FIDT (PT s q) g))
    \<and> refs s' x = {(p, f)} \<and> devtable s' = devtable s \<and> serial_dcbs s' = serial_dcbs s \<and> cur_pcb s' = cur_pcb s \<and> cpu s' = cpu s \<and> inside s' = inside s"
proof -
  from reserve_one(1) [OF inv p f refl] obtain s1 where only: "files_only s s1"
    and res: "FCB_reserve 1 s = Some (enter p (f, x) s1, Some ([f], [x]))" "files_inv (enter p (f, x) s1) xs {}"
      "\<forall>j. j \<noteq> x \<longrightarrow> FT s1 j = FT s j" by blast
  obtain h ft where s1: "s1 = s\<lparr>file_heap := h, FT := ft\<rparr>" using only by (auto simp: files_only_iff)
  let ?t = "enter p (f, x) s1"
  define obj where "obj = (if d = DEV_NULL then None else Some 0 :: nat option)"
  define s' where "s' = upd_fcb x (\<lambda>g. g\<lparr>streamobj := obj, streamfunc := Some d\<rparr>) ?t"
  have t: "devtable ?t = devtable s" "serial_dcbs ?t = serial_dcbs s" by (simp_all add: enter_def s1)
  have "devices_ok ?t" using dev by (simp add: devices_ok_def t)
  then have "device_open d 0 ?t = Some (Some (obj, d))" using device_open_eq(1,2) [of ?t] d by (cases d) (simp_all add: obj_def)
  then have op: "open_stream d 0 s = Some (s', int f)" unfolding open_stream_def res(1) by (simp add: s'_def)
  have f': "f < MAX_FILEID" "FIDT (PT s1 p) f = None" using free_fids_hd [OF f] by (simp_all add: s1)
  have x: "x < MAX_FILES" "x \<notin> set xs" "refs s x = {}"
    using files_invD(1,3) [OF inv] freelist_distinct [OF files_invD(1) [OF inv]] by (auto simp: freelist_def)
  have r: "refs ?t x = {(p, f)}" using refs_enter [OF p(2) f', of x x] x(3) files_only_frame(6) [OF only] by simp
  have rc: "refcount (FT ?t x) = 1" using files_invD(5) [OF res(2) x(1,2)] r by simp
  have only': "files_only ?t s'" by (simp add: files_only_def s'_def upd_fcb_def)
  have "files_inv s' xs {}" using res(2) files_only_frame(6) [OF only']
    by (simp add: files_inv_def s'_def upd_fcb_def)
  moreover have "FT s' x = stream_of d" by (rule FCB.equality) (simp_all add: rc s'_def upd_fcb_apply stream_of_def obj_def)
  moreover have "\<forall>j. j \<noteq> x \<longrightarrow> FT s' j = FT s j"
    using res(3) by (simp add: s'_def upd_fcb_apply enter_def FCB_incref_def)
  moreover have "FIDT (PT s' q) g = (if q = p \<and> g = f then Some x else FIDT (PT s q) g)" for q g
    using files_only_frame(1) [OF only'] by (simp add: enter_def s1)
  moreover have "refs s' x = {(p, f)}" using r files_only_frame(6) [OF only'] by simp
  moreover have "devtable s' = devtable s \<and> serial_dcbs s' = serial_dcbs s \<and> cur_pcb s' = cur_pcb s \<and> cpu s' = cpu s \<and> inside s' = inside s"
    by (simp add: s'_def upd_fcb_def enter_def s1 FCB_incref_def set_FIDT_def upd_pcb_def cur_pcb_def cur_thread_eq)
  ultimately show ?thesis using op by blast
qed

lemma open_stream_fails:
  assumes inv: "files_inv s xs {}" and dev: "devices_ok s" and p: "cur_pcb s = Some p" "p < MAX_PROC"
    and fail: "free_fids s p = [] \<or> xs = [] \<or> d = DEV_MAX \<or> m \<noteq> 0"
  shows "\<exists>s' xs'. open_stream d m s = Some (s', NOFILE) \<and> files_inv s' xs' {} \<and> set xs' = set xs
    \<and> (\<forall>q g. FIDT (PT s' q) g = FIDT (PT s q) g) \<and> (\<forall>j. j \<notin> set xs \<longrightarrow> FT s' j = FT s j)
    \<and> devtable s' = devtable s \<and> serial_dcbs s' = serial_dcbs s"
proof (cases "free_fids s p = [] \<or> xs = []")
  case True
  then have "open_stream d m s = Some (s, NOFILE)" unfolding open_stream_def reserve_one(2) [OF inv p True] by simp
  then show ?thesis using inv by auto
next
  case False
  then obtain f fs x ys where f: "free_fids s p = f # fs" and xs: "xs = x # ys" by (meson list.exhaust)
  from reserve_one(1) [OF inv p f xs] obtain s1 where only: "files_only s s1"
    and res: "FCB_reserve 1 s = Some (enter p (f, x) s1, Some ([f], [x]))" "files_inv (enter p (f, x) s1) ys {}"
      "\<forall>j. j \<noteq> x \<longrightarrow> FT s1 j = FT s j" by blast
  obtain h ft where s1: "s1 = s\<lparr>file_heap := h, FT := ft\<rparr>" using only by (auto simp: files_only_iff)
  let ?t = "enter p (f, x) s1"
  let ?s = "release_FCB x (set_FIDT p f None ?t)"
  have t: "devtable ?t = devtable s" "serial_dcbs ?t = serial_dcbs s" "cur_pcb ?t = Some p"
    using p by (simp_all add: enter_def s1 cur_pcb_def cur_thread_eq)
  have "devices_ok ?t" using dev by (simp add: devices_ok_def t)
  then have "device_open d m ?t = Some None" using fail False device_open_eq(3,4) by blast
  then have "open_stream d m s = Some (?s, NOFILE)" unfolding open_stream_def res(1) by (simp add: FCB_unreserve_def t)
  moreover have f': "f < MAX_FILEID" "FIDT (PT s1 p) f = None" "FIDT (PT s p) f = None" using free_fids_hd [OF f] by (simp_all add: s1)
  have x: "x < MAX_FILES" "x \<notin> set ys" "refs s x = {}"
    using files_invD(1,3) [OF inv] freelist_distinct [OF files_invD(1) [OF inv]] xs by (auto simp: freelist_def)
  have r: "refs ?t x = {(p, f)}" using refs_enter [OF p(2) f'(1,2), of x x] x(3) files_only_frame(6) [OF only] by simp
  have "refcount (FT ?t x) = 1" using files_invD(5) [OF res(2) x(1,2)] r by simp
  then have "files_inv ?s (ys @ [x]) {}" by (intro unreserve_inv [OF res(2) p(2) f'(1) r])
  moreover have "FIDT (PT ?s q) g = FIDT (PT s q) g" for q g by (rule enter_undone [OF f'(3) only f'(2)])
  moreover have "FT ?s j = FT s j" if "j \<notin> set xs" for j
    using that res(3) xs by (simp add: release_FCB_def enter_def FCB_incref_def upd_fcb_apply)
  moreover have "devtable ?s = devtable s" "serial_dcbs ?s = serial_dcbs s" using t by (simp_all add: release_FCB_def)
  ultimately show ?thesis using xs by (intro exI [of _ ?s] exI [of _ "ys @ [x]"]) auto
qed

section \<open>The calls as steps\<close>

text \<open>The steps of the file system: the calls that open and close, and whatever else the kernel does
  that leaves the file table, its free list and the file id tables alone.\<close>

inductive fstep :: "kernel \<Rightarrow> kernel \<Rightarrow> bool" where
  step_open: "cur_pcb s = Some p \<Longrightarrow> p < MAX_PROC \<Longrightarrow> open_stream d m s = Some (s', fd) \<Longrightarrow> fstep s s'"
| step_close: "cur_pcb s = Some p \<Longrightarrow> p < MAX_PROC \<Longrightarrow> sys_Close fd s = Some (s', r) \<Longrightarrow> fstep s s'"
| step_other: "file_heap s' = file_heap s \<Longrightarrow> (\<And>i. FT s' i = FT s i) \<Longrightarrow> (\<And>p. FIDT (PT s' p) = FIDT (PT s p)) \<Longrightarrow>
    devtable s' = devtable s \<Longrightarrow> serial_dcbs s' = serial_dcbs s \<Longrightarrow> fstep s s'"

inductive_cases fstepE: "fstep s s'"

definition file_system_ok :: "kernel \<Rightarrow> bool" where
  "file_system_ok s \<longleftrightarrow> files_ok s \<and> devices_ok s"

text \<open>What \<open>open_stream\<close> does, on every branch.\<close>

definition can_open :: "kernel \<Rightarrow> nat \<Rightarrow> Device_type \<Rightarrow> nat \<Rightarrow> bool" where
  "can_open s p d m \<longleftrightarrow> d \<noteq> DEV_MAX \<and> m = 0 \<and> free_fids s p \<noteq> [] \<and> free_fcbs s \<noteq> {}"

lemma open_stream_cases:
  assumes ok: "file_system_ok s" and p: "cur_pcb s = Some p" "p < MAX_PROC"
  shows "\<exists>s' fd. open_stream d m s = Some (s', fd) \<and> file_system_ok s'
    \<and> (if can_open s p d m
       then fd = int (hd (free_fids s p))
         \<and> (\<exists>i\<in>free_fcbs s. free_fcbs s' = free_fcbs s - {i} \<and> FT s' i = stream_of d \<and> (\<forall>j. j \<noteq> i \<longrightarrow> FT s' j = FT s j)
              \<and> (\<forall>q g. FIDT (PT s' q) g = (if q = p \<and> g = hd (free_fids s p) then Some i else FIDT (PT s q) g)))
       else fd = NOFILE \<and> free_fcbs s' = free_fcbs s \<and> (\<forall>q g. FIDT (PT s' q) g = FIDT (PT s q) g)
         \<and> (\<forall>j. j \<notin> free_fcbs s \<longrightarrow> FT s' j = FT s j))"
proof -
  obtain xs where inv: "files_inv s xs {}" and dev: "devices_ok s" using ok by (auto simp: file_system_ok_def files_ok_def)
  have free: "free_fcbs s = set xs" by (rule free_fcbs_eq [OF inv])
  show ?thesis
  proof (cases "can_open s p d m")
    case True
    then obtain f fs x ys where f: "free_fids s p = f # fs" and xs: "xs = x # ys" and d: "d \<noteq> DEV_MAX" "m = 0"
      unfolding can_open_def free by (metis list.exhaust set_empty)
    obtain s' where s': "open_stream d 0 s = Some (s', int f)" "files_inv s' ys {}" "FT s' x = stream_of d"
      "\<forall>j. j \<noteq> x \<longrightarrow> FT s' j = FT s j" "\<forall>q g. FIDT (PT s' q) g = (if q = p \<and> g = f then Some x else FIDT (PT s q) g)"
      "devtable s' = devtable s" "serial_dcbs s' = serial_dcbs s"
      using open_stream_succeeds [OF inv [unfolded xs] dev p f d(1)] by blast
    have "free_fcbs s' = free_fcbs s - {x}"
      using files.apart [OF inv] by (auto simp: free free_fcbs_eq [OF s'(2)] xs)
    moreover have "x \<in> free_fcbs s" by (simp add: free xs)
    moreover have "file_system_ok s'" using s' dev by (auto simp: file_system_ok_def files_ok_def devices_ok_def)
    ultimately show ?thesis using True s' d(2) f by auto
  next
    case False
    then have "free_fids s p = [] \<or> xs = [] \<or> d = DEV_MAX \<or> m \<noteq> 0" by (auto simp: can_open_def free)
    from open_stream_fails [OF inv dev p this] obtain s' xs' where s': "open_stream d m s = Some (s', NOFILE)"
      "files_inv s' xs' {}" "set xs' = set xs" "\<forall>q g. FIDT (PT s' q) g = FIDT (PT s q) g"
      "\<forall>j. j \<notin> set xs \<longrightarrow> FT s' j = FT s j" "devtable s' = devtable s" "serial_dcbs s' = serial_dcbs s" by blast
    have "free_fcbs s' = free_fcbs s" using s'(3) by (simp add: free free_fcbs_eq [OF s'(2)])
    moreover have "file_system_ok s'" using s' dev by (auto simp: file_system_ok_def files_ok_def devices_ok_def)
    ultimately show ?thesis using False s' by (simp add: free)
  qed
qed

lemma close_keeps:
  assumes "file_system_ok s" "cur_pcb s = Some p" "p < MAX_PROC" "sys_Close fd s = Some (s', r)"
  shows "file_system_ok s'"
proof -
  obtain t where t: "sys_Close fd s = Some (t, 0)" "files_ok t"
    "if 0 \<le> fd \<and> fd < int MAX_FILEID \<and> FIDT (PT s p) (nat fd) \<noteq> None
       then files_only (set_FIDT p (nat fd) None s) t else t = s"
    using sys_Close_ok [of s p fd] assms by (auto simp: file_system_ok_def)
  then have "devtable t = devtable s" "serial_dcbs t = serial_dcbs s"
    by (auto simp: files_only_iff split: if_splits)
  then show ?thesis using t assms by (simp add: file_system_ok_def devices_ok_def)
qed

lemma files_inv_cong:
  assumes "file_heap s' = file_heap s" "\<And>i. FT s' i = FT s i" "\<And>p. FIDT (PT s' p) = FIDT (PT s p)"
  shows "files_inv s' xs R = files_inv s xs R"
proof -
  have "refs s' = refs s" using assms(3) by (simp add: refs_def fun_eq_iff)
  then show ?thesis using assms by (simp add: files_inv_def)
qed

lemma fstep_keeps: "fstep s s' \<Longrightarrow> file_system_ok s \<Longrightarrow> file_system_ok s'"
proof (induction rule: fstep.induct)
  case (step_open s p d m s' fd)
  then show ?case using open_stream_cases [of s p d m] by auto
next
  case (step_close s p fd s' r)
  then show ?case using close_keeps by blast
next
  case (step_other s' s)
  then show ?case using files_inv_cong [of s' s] by (auto simp: file_system_ok_def files_ok_def devices_ok_def)
qed

interpretation filesys: invariant_system fstep file_system_ok
  by unfold_locales (rule fstep_keeps)

text \<open>Every step of the scheduler is a step of the file system.\<close>

lemma outside_fstep: "outside s' = outside s \<Longrightarrow> fstep s s'"
  using outsideD [of s' s] by (intro step_other) simp_all

text \<open>The file system as \<open>main\<close> leaves it, with the thread of process 1 running.\<close>

lemma initialize_files_frame [simp, frame_simps]:
  "PT (initialize_files s) = PT s" "tcbs (initialize_files s) = tcbs s" "cpu (initialize_files s) = cpu s"
  "current_thread (initialize_files s) = current_thread s" "sched_heap (initialize_files s) = sched_heap s"
  "thread_used (initialize_files s) = thread_used s"
  by (simp_all add: initialize_files_def Let_def upd_fcb_def fold_frame [where g = PT] fold_frame [where g = tcbs]
      fold_frame [where g = cpu] fold_frame [where g = current_thread] fold_frame [where g = sched_heap]
      fold_frame [where g = thread_used])

lemma initialize_file_system:
  assumes "\<And>p. FIDT (PT s p) = (\<lambda>_. None)"
  shows "file_system_ok (initialize_devices (initialize_files s))"
proof -
  let ?s = "initialize_devices (initialize_files s)"
  have "refs ?s i = {}" for i using assms by (simp add: refs_def)
  moreover have "freelist (file_heap ?s) [0..<MAX_FILES]" using initialize_files_freelist [of s] by simp
  ultimately have "files_inv ?s [0..<MAX_FILES] {}" by (intro files_invI) auto
  then show ?thesis using initialize_devices_ok by (auto simp: file_system_ok_def files_ok_def)
qed

definition file_kernel :: kernel where
  "file_kernel = initialize_devices (initialize_files thread_kernel)"

lemma thread_kernel_outside: "outside thread_kernel = outside one_thread"
proof -
  obtain w where w: "wakeup (thread_pool 0) one_thread = Some (w, 1)" "sched_ok w"
    using wakeup_ok [of one_thread "thread_pool 0"] one_thread_ok by (auto simp: running_ok_def)
  obtain r where r: "yield SCHED_IDLE w = Some r" using yield_ok [OF w(2), of In_yield SCHED_IDLE] by (auto simp: yield_def)
  show ?thesis using w r outside_wakeup [OF w(1)] outside_yield [OF r] by (simp add: thread_kernel_def)
qed

lemma thread_kernel_PT: "PT thread_kernel = (\<lambda>_. zero_PCB)" "owner_pcb (tcbs thread_kernel (thread_pool 0)) = Some 1"
proof -
  note D = outsideD [OF thread_kernel_outside]
  show "PT thread_kernel = (\<lambda>_. zero_PCB)"
    unfolding D(1) by (simp add: one_thread_spawned spawned_def idle_kernel_def run_scheduler_start_def
        initialize_scheduler_def Let_def case_prod_beta preempt_on_def fold_frame [where g = PT])
      (simp add: blank_kernel_def)
  show "owner_pcb (tcbs thread_kernel (thread_pool 0)) = Some 1"
    unfolding D(10) by (simp add: one_thread_spawned spawned_def new_tcb_def case_prod_beta Let_def)
qed

lemma file_kernel_ok: "file_system_ok file_kernel" "cur_pcb file_kernel = Some 1" "free_fids file_kernel 1 = [0, 1, 2, 3]"
  "free_fcbs file_kernel = {0, 1, 2, 3}"
  unfolding file_kernel_def
     apply (rule initialize_file_system)
     apply (simp add: thread_kernel_PT zero_PCB_def)
    apply (simp add: cur_pcb_def cur_thread_eq thread_kernel_ok thread_kernel_PT)
   apply (simp add: free_fids_def thread_kernel_PT zero_PCB_def MAX_FILEID_def upt_rec)
  apply (auto simp: free_fcbs_def refs_def thread_kernel_PT zero_PCB_def MAX_FILES_def)
  done

section \<open>The serial line\<close>

text \<open>What a writer relies on while it does not have the core: the scheduler stays consistent, and nobody
  changes the writer's buffer, uses the transmitter or re-initialises the device.\<close>

definition quiet :: "u16 \<Rightarrow> u16 \<Rightarrow> pause \<Rightarrow> bool" where
  "quiet buf n r \<longleftrightarrow> (\<forall>s. sched_ok s \<longrightarrow> sched_ok (r s) \<and> serial_dcbs (r s) = serial_dcbs s
     \<and> uart_out (cpu (r s)) = uart_out (cpu s)
     \<and> (\<forall>k<unat n. dmem (cpu (r s)) (buf + of_nat k) = dmem (cpu s) (buf + of_nat k)))"

definition in_ram :: "u16 \<Rightarrow> u16 \<Rightarrow> bool" where
  "in_ram buf n \<longleftrightarrow> (\<forall>k<unat n. 0x100 \<le> buf + of_nat k)"

lemma latch_memory: "0x100 \<le> a \<Longrightarrow> dmem (uart_latch p c) a = dmem c a"
  by (auto simp: uart_latch_def set_reg_def UDR0_def UCSR0A_def)

lemma latch_frame [simp]: "uart_out (uart_latch p c) = uart_out c" "reg (uart_latch p c) UCSR0A = status p"
  by (simp_all add: uart_latch_def reg_set_reg)

lemma serial_write_turn:
  assumes "count < n" "devno (serial_dcbs s dcb) = 0"
  shows "tx_ready p \<Longrightarrow> serial_write_loop dcb buf n count (p # ps) rs s =
      serial_write_loop dcb buf n (count + 1) ps rs
        (upd_cpu (\<lambda>c. (uart_latch p c)\<lparr>uart_out := uart_out c @ [dmem (uart_latch p c) (buf + count)]\<rparr>) s)"
    and "\<not> tx_ready p \<Longrightarrow> serial_write_loop dcb buf n count (p # ps) (r # rs) s =
      do { s' \<leftarrow> yield SCHED_IO (upd_cpu (uart_latch p) s); serial_write_loop dcb buf n count ps rs (r s') }"
  using assms by (simp_all add: bios_write_serial_def tx_ready_def upd_cpu_def and_bitmask Let_def)

lemma serial_write_loop_sends:
  assumes "sched_ok s" "devno (serial_dcbs s dcb) = 0" "in_ram buf n" "count \<le> n"
    "unat n \<le> unat count + length (filter tx_ready ps)" "length (filter (\<lambda>p. \<not> tx_ready p) ps) \<le> length rs"
    "list_all (quiet buf n) rs"
  shows "\<exists>s'. serial_write_loop dcb buf n count ps rs s = Some (s', sint n)
    \<and> uart_out (cpu s') = uart_out (cpu s) @ map (\<lambda>k. dmem (cpu s) (buf + of_nat k)) [unat count..<unat n]"
  using assms
proof (induction ps arbitrary: count rs s)
  case Nil
  then have "count = n" by (simp add: word_le_nat_alt unat_arith_simps)
  then show ?case by simp
next
  case (Cons p ps)
  show ?case
  proof (cases "count < n")
    case False
    then have "count = n" using Cons.prems by simp
    then show ?thesis by simp
  next
    case True
    then have lt: "unat count < unat n" by (simp add: word_less_nat_alt)
    have ram: "0x100 \<le> buf + of_nat k" if "k < unat n" for k using Cons.prems(3) that by (simp add: in_ram_def)
    show ?thesis
    proof (cases "tx_ready p")
      case ready: True
      define t where "t = upd_cpu (\<lambda>c. (uart_latch p c)\<lparr>uart_out := uart_out c @ [dmem (uart_latch p c) (buf + count)]\<rparr>) s"
      have up: "unat (count + 1) = unat count + 1" by (rule unat_Suc_below [OF True])
      have "sched_ok t" "devno (serial_dcbs t dcb) = 0" using Cons.prems(1,2) by (simp_all add: t_def upd_cpu_def)
      moreover have "count + 1 \<le> n" "unat n \<le> unat (count + 1) + length (filter tx_ready ps)"
        using up lt Cons.prems(5) ready by (simp_all add: word_le_nat_alt)
      ultimately obtain s' where s': "serial_write_loop dcb buf n (count + 1) ps rs t = Some (s', sint n)"
        "uart_out (cpu s') = uart_out (cpu t) @ map (\<lambda>k. dmem (cpu t) (buf + of_nat k)) [unat (count + 1)..<unat n]"
        using Cons.IH [of t "count + 1" rs] Cons.prems(3,6,7) ready by auto
      have mem: "dmem (cpu t) (buf + of_nat k) = dmem (cpu s) (buf + of_nat k)" if "k < unat n" for k
        using latch_memory [OF ram [OF that]] by (simp add: t_def)
      have "uart_out (cpu t) = uart_out (cpu s) @ [dmem (cpu s) (buf + count)]"
        using latch_memory [OF ram [OF lt]] by (simp add: t_def)
      then have "uart_out (cpu s') = uart_out (cpu s) @ map (\<lambda>k. dmem (cpu s) (buf + of_nat k)) [unat count..<unat n]"
        using s'(2) lt mem by (simp add: up upt_conv_Cons)
      then show ?thesis using s'(1) serial_write_turn(1) [OF True Cons.prems(2) ready] by (simp add: t_def)
    next
      case busy: False
      obtain r rs' where rs: "rs = r # rs'" using Cons.prems(6) busy by (cases rs) auto
      have q: "quiet buf n r" using Cons.prems(7) rs by simp
      let ?t = "upd_cpu (uart_latch p) s"
      have "sched_ok ?t" using Cons.prems(1) by simp
      then obtain u where u: "yield SCHED_IO ?t = Some u" "sched_ok u" using yield_ok [of ?t In_yield SCHED_IO] by (auto simp: yield_def)
      have out: "outside u = outside s" using outside_yield [OF u(1)] by simp
      note D = outsideD [OF out] and Q = q [unfolded quiet_def, rule_format, OF u(2)]
      obtain s' where s': "serial_write_loop dcb buf n count ps rs' (r u) = Some (s', sint n)"
        "uart_out (cpu s') = uart_out (cpu (r u)) @ map (\<lambda>k. dmem (cpu (r u)) (buf + of_nat k)) [unat count..<unat n]"
        using Cons.IH [of "r u" count rs'] Cons.prems busy rs Q D(9) by auto
      have "uart_out (cpu s') = uart_out (cpu s) @ map (\<lambda>k. dmem (cpu s) (buf + of_nat k)) [unat count..<unat n]"
        using s'(2) Q D(13) D(14) ram by simp
      then show ?thesis using s'(1) u(1) rs serial_write_turn(2) [OF True Cons.prems(2) busy] by simp
    qed
  qed
qed

section \<open>Properties\<close>

lemma inside_initialize_files [simp]: "inside (initialize_files s) = inside s"
  unfolding initialize_files_def Let_def by (subst fold_frame [where g = inside]) (simp_all only: inside_fields)

lemma inside_initialize_devices [simp]: "inside (initialize_devices s) = inside s"
  unfolding initialize_devices_def Let_def inside_fields
  by (subst fold_frame [where g = inside]) (simp_all only: inside_fields)

lemma file_kernel_sched: "sched_ok file_kernel"
  using sched_ok_inside [of file_kernel thread_kernel] thread_kernel_ok(1) by (simp add: running_ok_def file_kernel_def)

lemma files_inv_rlist: "files_inv s xs R \<Longrightarrow> rlist (file_heap s) FCB_freelist (map freelist_node xs)"
  by (auto simp: files_inv_def freelist_def dest: familyD(1))

text \<open>C10. The file table stays consistent: whatever sequence of \<open>open\<close> and \<open>close\<close> calls the processes make
  from a consistent state, interleaved with anything that does not touch the file table, an FCB is in the
  free list exactly when no process refers to it, and the \<open>refcount\<close> of every other FCB is the number of
  file ids that refer to it.\<close>

theorem file_table_consistent:
  assumes "file_system_ok s0" and "fstep\<^sup>*\<^sup>* s0 s" and "i < MAX_FILES" and "rlist (file_heap s) FCB_freelist ns"
  shows "(freelist_node i \<in> set ns \<longleftrightarrow> refs s i = {}) \<and> (refs s i \<noteq> {} \<longrightarrow> refcount (FT s i) = int (card (refs s i)))"
proof -
  have "file_system_ok s" using filesys.reachable_keeps assms(1,2) by blast
  then obtain xs where inv: "files_inv s xs {}" by (auto simp: file_system_ok_def files_ok_def)
  note D = files_invD [OF inv]
  have "ns = map freelist_node xs" by (rule rlist_unique [OF assms(4) files_inv_rlist [OF inv]])
  then show ?thesis using D(3) [of i] D(4) [of i] D(5) [of i] assms(3) by auto
qed

theorem file_table_consistent_witness:
  "\<exists>ns. rlist (file_heap file_kernel) FCB_freelist ns
    \<and> (freelist_node 2 \<in> set ns \<longleftrightarrow> refs file_kernel 2 = {})"
proof -
  obtain xs where "files_inv file_kernel xs {}" using file_kernel_ok(1) by (auto simp: file_system_ok_def files_ok_def)
  then have "rlist (file_heap file_kernel) FCB_freelist (map freelist_node xs)" by (rule files_inv_rlist)
  then show ?thesis
    using file_table_consistent [OF file_kernel_ok(1), of file_kernel 2 "map freelist_node xs"] by (auto simp: MAX_FILES_def)
qed

text \<open>C11. \<open>FCB_reserve\<close> is all or nothing, for any number of streams: when the process has \<open>num\<close> free file ids
  and the table \<open>num\<close> free FCBs it takes the lowest free file ids and \<open>num\<close> distinct free FCBs and enters each in
  its place; otherwise it gives back every FCB it had taken and changes no file id.\<close>

theorem FCB_reserve_all_or_nothing:
  assumes "files_ok s" and "cur_pcb s = Some p" and "p < MAX_PROC"
  shows "if num \<le> length (free_fids s p) \<and> num \<le> card (free_fcbs s)
    then \<exists>s' fcb. FCB_reserve num s = Some (s', Some (take num (free_fids s p), fcb)) \<and> files_ok s'
      \<and> length fcb = num \<and> distinct fcb \<and> set fcb \<subseteq> free_fcbs s \<and> free_fcbs s' = free_fcbs s - set fcb
      \<and> (\<forall>q g. FIDT (PT s' q) g = (if q = p \<and> g \<in> set (take num (free_fids s p))
             then map_of (zip (take num (free_fids s p)) fcb) g else FIDT (PT s q) g))
    else \<exists>s'. FCB_reserve num s = Some (s', None) \<and> files_ok s' \<and> PT s' = PT s \<and> free_fcbs s' = free_fcbs s"
proof -
  obtain xs where inv: "files_inv s xs {}" using assms(1) by (auto simp: files_ok_def)
  let ?fs = "free_fids s p"
  have dist: "distinct xs" "distinct ?fs" using files.apart [OF inv] by (simp_all add: free_fids_def)
  have free: "free_fcbs s = set xs" "card (free_fcbs s) = length xs"
    using free_fcbs_eq [OF inv] free_fcbs_card [OF inv] by simp_all
  consider (all) "num \<le> length ?fs" "num \<le> length xs" | (ids) "length ?fs < num" | (fcbs) "num \<le> length ?fs" "length xs < num"
    by linarith
  then show ?thesis
  proof cases
    case all
    let ?z = "zip (take num ?fs) (take num xs)"
    obtain s1 where s1: "files_only s s1" "FCB_reserve num s = Some (fold (enter p) ?z s1, Some (take num ?fs, take num xs))"
      "files_inv (fold (enter p) ?z s1) (drop num xs) {}"
      using reserve_eq(1) [OF inv assms(2,3) all] by blast
    have "set (drop num xs) = set xs - set (take num xs)"
      using dist(1) set_take_disj_set_drop_if_distinct [of xs num num] set_append [of "take num xs" "drop num xs"] by auto
    then have "free_fcbs (fold (enter p) ?z s1) = free_fcbs s - set (take num xs)" by (simp add: free free_fcbs_eq [OF s1(3)])
    moreover have "FIDT (PT (fold (enter p) ?z s1) q) g
        = (if q = p \<and> g \<in> set (take num ?fs) then map_of ?z g else FIDT (PT s q) g)" for q g
      using FIDT_enter_all [of "take num ?fs" "take num xs" p s1 q g] all dist(2) files_only_frame(1) [OF s1(1)] by simp
    ultimately show ?thesis
      using all dist(1) s1 set_take_subset [of num xs] free
      by (simp only: free if_True simp_thms) (intro exI [of _ "fold (enter p) ?z s1"] exI [of _ "take num xs"], auto simp: files_ok_def)
  next
    case ids
    then show ?thesis using reserve_eq(2) [OF inv assms(2,3)] assms(1) by simp
  next
    case fcbs
    then obtain s' where "FCB_reserve num s = Some (s', None)" "files_inv s' (rev xs) {}" "files_only s s'"
      using reserve_eq(3) [OF inv assms(2,3)] by blast
    then show ?thesis using fcbs free files_only_frame(1) files_only_ok by (auto simp: files_ok_def)
  qed
qed

theorem FCB_reserve_all_or_nothing_witness:
  "(\<exists>s' fcb. FCB_reserve 3 file_kernel = Some (s', Some ([0, 1, 2], fcb)) \<and> length fcb = 3)
   \<and> (\<exists>s'. FCB_reserve 5 file_kernel = Some (s', None) \<and> PT s' = PT file_kernel)"
  using FCB_reserve_all_or_nothing [of file_kernel 1 3] FCB_reserve_all_or_nothing [of file_kernel 1 5] file_kernel_ok
  by (auto simp: file_system_ok_def MAX_PROC_def numeral_3_eq_3)

text \<open>C12. \<open>open_stream\<close> succeeds exactly when the device exists, the process has a free file id and the table a
  free FCB. It then returns the lowest free file id, which refers to a fresh FCB with the device's object and
  operations and one reference; otherwise it returns NOFILE and no file id, no FCB in use and no free FCB is lost.\<close>

theorem open_stream_correct:
  assumes "file_system_ok s" and "cur_pcb s = Some p" and "p < MAX_PROC"
  shows "\<exists>s' fd. open_stream d m s = Some (s', fd) \<and> file_system_ok s'
    \<and> (if can_open s p d m
       then fd = int (hd (free_fids s p))
         \<and> (\<exists>i\<in>free_fcbs s. free_fcbs s' = free_fcbs s - {i} \<and> FT s' i = stream_of d \<and> (\<forall>j. j \<noteq> i \<longrightarrow> FT s' j = FT s j)
              \<and> (\<forall>q g. FIDT (PT s' q) g = (if q = p \<and> g = hd (free_fids s p) then Some i else FIDT (PT s q) g)))
       else fd = NOFILE \<and> free_fcbs s' = free_fcbs s \<and> (\<forall>q g. FIDT (PT s' q) g = FIDT (PT s q) g)
         \<and> (\<forall>j. j \<notin> free_fcbs s \<longrightarrow> FT s' j = FT s j))"
  by (rule open_stream_cases [OF assms])

theorem open_stream_correct_witness:
  "(\<exists>s'. open_stream DEV_SERIAL 0 file_kernel = Some (s', 0)) \<and> (\<exists>s'. open_stream DEV_SERIAL 1 file_kernel = Some (s', NOFILE))"
  using open_stream_correct [of file_kernel 1 DEV_SERIAL 0] open_stream_correct [of file_kernel 1 DEV_SERIAL 1] file_kernel_ok
  by (auto simp: MAX_PROC_def can_open_def)

text \<open>C13. Opening and closing is a round trip: closing the file id an open call returned succeeds with 0, and
  afterwards every file id of every process and the set of free FCBs are as before the open call.\<close>

theorem open_close_roundtrip:
  assumes "file_system_ok s" and "cur_pcb s = Some p" and "p < MAX_PROC" and "can_open s p d m"
  shows "\<exists>s1 s2 fd. open_stream d m s = Some (s1, fd) \<and> fd \<noteq> NOFILE \<and> sys_Close fd s1 = Some (s2, 0) \<and> file_system_ok s2
    \<and> (\<forall>q g. FIDT (PT s2 q) g = FIDT (PT s q) g) \<and> free_fcbs s2 = free_fcbs s"
proof -
  obtain xs where inv: "files_inv s xs {}" and dev: "devices_ok s" using assms(1) by (auto simp: file_system_ok_def files_ok_def)
  obtain f fs x ys where f: "free_fids s p = f # fs" and xs: "xs = x # ys" and d: "d \<noteq> DEV_MAX" "m = 0"
    using assms(4) unfolding can_open_def free_fcbs_eq [OF inv] by (metis list.exhaust set_empty)
  obtain s1 where s1: "open_stream d 0 s = Some (s1, int f)" "files_inv s1 ys {}"
      "\<forall>q g. FIDT (PT s1 q) g = (if q = p \<and> g = f then Some x else FIDT (PT s q) g)" "refs s1 x = {(p, f)}"
      "devtable s1 = devtable s" "serial_dcbs s1 = serial_dcbs s" "cur_pcb s1 = cur_pcb s"
    using open_stream_succeeds [OF inv [unfolded xs] dev assms(2,3) f d(1)] by blast
  note f' = free_fids_hd [OF f]
  obtain s2 where s2: "FCB_decref (Some x) (set_FIDT p f None s1) = (s2, 0)" "files_inv s2 (ys @ [x]) {}"
      "files_only (set_FIDT p f None s1) s2"
    using close_inv [OF s1(2) assms(3) f'(1), of x] s1(3,4) by auto
  have "sys_Close (int f) s1 = Some (s2, 0)"
    using s1(3,7) s2(1) f'(1) assms(2) by (simp add: sys_Close_def get_stream_fcb_def)
  moreover have "FIDT (PT s2 q) g = FIDT (PT s q) g" for q g
    using files_only_frame(1) [OF s2(3)] s1(3) f'(2) by simp
  moreover have "free_fcbs s2 = free_fcbs s" using free_fcbs_eq [OF inv] free_fcbs_eq [OF s2(2)] xs by auto
  moreover have "file_system_ok s2"
    using s2(2) dev close_keeps [of s1 p "int f" s2 0] calculation(1) s1 assms(2,3)
    by (auto simp: file_system_ok_def files_ok_def devices_ok_def)
  ultimately show ?thesis using s1(1) d(2) by (intro exI [of _ s1] exI [of _ s2] exI [of _ "int f"]) (auto simp: NOFILE_def)
qed

theorem open_close_roundtrip_witness:
  "\<exists>s1 s2 fd. open_stream DEV_NULL 0 file_kernel = Some (s1, fd) \<and> sys_Close fd s1 = Some (s2, 0)
    \<and> free_fcbs s2 = free_fcbs file_kernel"
  using open_close_roundtrip [of file_kernel 1 DEV_NULL 0] file_kernel_ok by (auto simp: MAX_PROC_def can_open_def)

text \<open>Which stream a descriptor names decides a call: outside 0..3 or on an unused file id \<open>Read\<close> and
  \<open>Write\<close> return -1 and \<open>Close\<close> 0, without a change of state; on a stream of the null device a read clears
  exactly the buffer and a write changes nothing, and both return the size asked for.\<close>

theorem descriptors_select_the_stream:
  assumes "devices_ok s" and "cur_pcb s = Some p"
  shows "(fd < 0 \<or> fd \<ge> 4 \<or> FIDT (PT s p) (nat fd) = None \<longrightarrow>
       sys_Read fd buf n ps rs s = Some (s, -1) \<and> sys_Write fd buf n ps rs s = Some (s, -1) \<and> sys_Close fd s = Some (s, 0))
    \<and> (0 \<le> fd \<and> fd < 4 \<and> FIDT (PT s p) (nat fd) = Some i \<and> streamfunc (FT s i) = Some DEV_NULL \<longrightarrow>
       sys_Write fd buf n ps rs s = Some (s, sint n)
       \<and> (\<exists>c. sys_Read fd buf n ps rs s = Some (s\<lparr>cpu := c\<rparr>, sint n)
            \<and> (\<forall>a. dmem c a = (if unat (a - buf) < unat n then 0 else dmem (cpu s) a)) \<and> uart_out c = uart_out (cpu s)))"
  using assms
  by (auto simp: sys_Read_def sys_Write_def sys_Close_def get_stream_fcb_def MAX_FILEID_def devices_ok_def
      nulldev_fops_def nulldev_read_def nulldev_write_def upd_cpu_def memset_eq)

theorem descriptors_select_the_stream_witness:
  "sys_Read 2 0x200 10 [] [] file_kernel = Some (file_kernel, -1) \<and> sys_Write (-1) 0x200 10 [] [] file_kernel = Some (file_kernel, -1)"
proof -
  have "FIDT (PT file_kernel 1) 2 = None" by (simp add: file_kernel_def thread_kernel_PT zero_PCB_def)
  then show ?thesis
    using descriptors_select_the_stream [of file_kernel 1 2 "0x200" 10 "[]" "[]"]
      descriptors_select_the_stream [of file_kernel 1 "-1" "0x200" 10 "[]" "[]"] file_kernel_ok
    by (simp add: file_system_ok_def)
qed

text \<open>C14. A write to the terminal sends every byte, in order, and returns the size, as soon as the transmitter
  has become ready often enough: while it is not, the caller yields the core, any number of times, and goes
  on where it was. Other threads may run in between, as long as they keep the scheduler consistent and leave the
  buffer and the transmitter alone.\<close>

theorem serial_write_sends_all:
  assumes "sched_ok s" and "devno (serial_dcbs s dcb) = 0" and "in_ram buf n" and "list_all (quiet buf n) rs"
    and "unat n \<le> length (filter tx_ready ps)" and "length (filter (\<lambda>p. \<not> tx_ready p) ps) \<le> length rs"
  shows "\<exists>s'. serial_write (Some dcb) buf n ps rs s = Some (s', sint n)
    \<and> uart_out (cpu s') = uart_out (cpu s) @ map (\<lambda>k. dmem (cpu s) (buf + of_nat k)) [0..<unat n]"
  using serial_write_loop_sends [OF assms(1-3), of 0 ps rs] assms(4-6) by (simp add: serial_write_def)

theorem serial_write_sends_all_witness:
  "\<exists>s'. serial_write (Some 0) 0x200 2 [\<lparr>status = 0, data = 0\<rparr>, \<lparr>status = 0x20, data = 0\<rparr>, \<lparr>status = 0x20, data = 0\<rparr>]
      [\<lambda>s. s] file_kernel = Some (s', 2)
    \<and> uart_out (cpu s') = uart_out (cpu file_kernel) @ [dmem (cpu file_kernel) 0x200, dmem (cpu file_kernel) 0x201]"
proof -
  have "k = 0 \<or> k = 1" if "k < 2" for k :: nat using that by auto
  then have ram: "in_ram 0x200 2" by (fastforce simp: in_ram_def)
  have dev: "devno (serial_dcbs file_kernel 0) = 0" using file_kernel_ok(1) by (simp add: file_system_ok_def devices_ok_def)
  have q: "list_all (quiet 0x200 2) [\<lambda>s. s]" by (simp add: quiet_def)
  have t: "tx_ready \<lparr>status = 0x20, data = d\<rparr>" "\<not> tx_ready \<lparr>status = 0, data = d\<rparr>" for d
    by (simp_all add: tx_ready_def UDRE0_def)
  have two: "[0..<2] = [0, 1 :: nat]" by (simp add: upt_conv_Cons)
  show ?thesis
    using serial_write_sends_all [OF file_kernel_sched dev ram q,
        of "[\<lparr>status = 0, data = 0\<rparr>, \<lparr>status = 0x20, data = 0\<rparr>, \<lparr>status = 0x20, data = 0\<rparr>]"] t
    by (simp add: two)
qed

end
