(* ===== verification/Proc_Props.thy ===== *)
theory Proc_Props
  imports Syscalls Streams_Props
begin

text \<open>
  Properties of processes, threads, system calls and booting.
\<close>

section \<open>Frames\<close>

lemma spawned_frame [simp]:
  "PT (spawned pcb f k s) = PT s" "proc_heap (spawned pcb f k s) = proc_heap s" "FT (spawned pcb f k s) = FT s"
  "file_heap (spawned pcb f k s) = file_heap s" "devtable (spawned pcb f k s) = devtable s"
  "serial_dcbs (spawned pcb f k s) = serial_dcbs s" "current_thread (spawned pcb f k s) = current_thread s"
  "ptcb_used (spawned pcb f k s) = ptcb_used s" "ptcb_pool (spawned pcb f k s) = ptcb_pool s"
  "ptcb_heap (spawned pcb f k s) = ptcb_heap s" "uart_out (cpu (spawned pcb f k s)) = uart_out (cpu s)"
  "interrupt_handlers (cpu (spawned pcb f k s)) = interrupt_handlers (cpu s)"
  "owner_pcb (tcbs (spawned pcb f k s) (thread_pool k)) = pcb" "ptcb (tcbs (spawned pcb f k s) (thread_pool k)) = None"
  "tcb_state (tcbs (spawned pcb f k s) (thread_pool k)) = INIT"
  "thread_func (tcbs (spawned pcb f k s) (thread_pool k)) = Some f"
  "t \<noteq> thread_pool k \<Longrightarrow> tcbs (spawned pcb f k s) t = tcbs s t"
  by (simp_all add: spawned_def case_prod_beta Let_def new_tcb_def)

text \<open>\<open>create_ptcb\<close>: with a free PTCB it fills it in and links it, without one it does nothing.\<close>

definition new_ptcb :: "tcb_ptr \<Rightarrow> Task option \<Rightarrow> int \<Rightarrow> u16 \<Rightarrow> PTCB" where
  "new_ptcb t tsk al ar = \<lparr>ptcb_thread = Some t, task = tsk, ptcb_argl = al, ptcb_args = ar, ptcb_exitval = 0,
     exited = False, detached = False, exit_cv = COND_INIT, ptcb_refcount = 0\<rparr>"

lemma create_ptcb_frame:
  assumes "owner_pcb (tcbs s t) = Some p"
  shows "\<exists>s'. create_ptcb t tsk al ar s = Some s' \<and> inside s' = inside s \<and> PT s' = PT s \<and> cpu s' = cpu s
    \<and> proc_heap s' = proc_heap s \<and> FT s' = FT s \<and> file_heap s' = file_heap s \<and> devtable s' = devtable s
    \<and> serial_dcbs s' = serial_dcbs s \<and> (\<forall>u. owner_pcb (tcbs s' u) = owner_pcb (tcbs s u) \<and> thread_func (tcbs s' u) = thread_func (tcbs s u))
    \<and> (case first_from (\<lambda>i. \<not> ptcb_used s i) 0 MAX_THREADS of
         None \<Rightarrow> s' = s
       | Some i \<Rightarrow> ptcb (tcbs s' t) = Some i \<and> ptcb_pool s' i = new_ptcb t tsk al ar \<and> ptcb_used s' = (ptcb_used s)(i := True)
           \<and> (\<forall>j. j \<noteq> i \<longrightarrow> ptcb_pool s' j = ptcb_pool s j) \<and> (\<forall>u. u \<noteq> t \<longrightarrow> ptcb (tcbs s' u) = ptcb (tcbs s u)))"
  using assms
  by (auto simp: create_ptcb_def new_ptcb_def Let_def upd_ptcb_def upd_tcb_def inside_def split: option.splits)

text \<open>The process table as a slot allocator.\<close>

interpretation procs: slot_allocator "\<lambda>s p. pstate (PT s p) \<noteq> FREE" MAX_PROC acquire_PCB release_PCB
proof
  show "acquire_PCB s = (s', Some p) \<Longrightarrow> p < MAX_PROC \<and> \<not> pstate (PT s p) \<noteq> FREE
      \<and> (\<lambda>q. pstate (PT s' q) \<noteq> FREE) = (\<lambda>q. pstate (PT s q) \<noteq> FREE)(p := True)" for s s' p
    by (auto simp: acquire_PCB_def upd_pcb_apply fun_eq_iff split: option.splits dest: first_from_SomeD)
  show "acquire_PCB s = (s', None) \<Longrightarrow> s' = s \<and> (\<forall>p<MAX_PROC. pstate (PT s p) \<noteq> FREE)" for s s'
    by (auto simp: acquire_PCB_def first_from_None_iff split: option.splits)
  show "p < MAX_PROC \<Longrightarrow> (\<lambda>q. pstate (PT (release_PCB p s) q) \<noteq> FREE) = (\<lambda>q. pstate (PT s q) \<noteq> FREE)(p := False)" for p s
    by (auto simp: release_PCB_def upd_pcb_apply fun_eq_iff)
qed

section \<open>Starting a thread\<close>

text \<open>The three calls that start a thread, common to \<open>sys_Exec\<close> and \<open>sys_CreateThread\<close>: \<open>spawn_thread\<close>,
  \<open>create_ptcb\<close> and \<open>wakeup\<close>, with a change \<open>g\<close> of the process table in between.\<close>

lemma started_thread:
  assumes ok: "sched_ok s" and slot: "first_from (\<lambda>i. \<not> thread_used s i) 0 MAX_THREADS = Some k"
    and g: "\<And>s. inside (g s) = inside s" "\<And>s. tcbs (g s) = tcbs s" "\<And>s. cpu (g s) = cpu s"
  obtains s1 s2 where "spawn_thread (Some p) f s = (spawned (Some p) f k s, Some (thread_pool k))"
    "create_ptcb (thread_pool k) tsk al ar (spawned (Some p) f k s) = Some s1"
    "wakeup (thread_pool k) (g s1) = Some (s2, 1)" "sched_ok s2" "outside s2 = outside (g s1)" "PT s1 = PT s" "proc_heap s1 = proc_heap s"
    "live s2 = insert (thread_pool k) (live s)" "thread_pool k \<notin> live s" "current_thread s2 = current_thread s"
    "tcb_state (tcbs s2 (thread_pool k)) = READY"
    "owner_pcb (tcbs s2 (thread_pool k)) = Some p" "thread_func (tcbs s2 (thread_pool k)) = Some f"
    "interrupt_handlers (cpu s2) = interrupt_handlers (cpu s)" "ptcb (tcbs s2 (thread_pool k)) = ptcb (tcbs s1 (thread_pool k))"
proof -
  let ?t = "thread_pool k" and ?s = "spawned (Some p) f k s"
  note F = first_from_SomeD [OF slot]
  have sp: "spawn_thread (Some p) f s = (?s, Some ?t)" by (rule spawn_eq [OF slot])
  obtain L c where c: "sched_inv s L c" using ok by (rule sched_okE)
  have live: "live ?s = insert ?t (live s)" using spawned_inv(2) [OF c, of k] F by simp
  have nl: "?t \<notin> live s" using F by (auto simp: live_def)
  have ok1: "sched_ok ?s" using spawn_ok(1) [OF ok, of "Some p" f] by (simp add: sp)
  obtain s1 where s1: "create_ptcb ?t tsk al ar ?s = Some s1" "inside s1 = inside ?s" "PT s1 = PT s" "cpu s1 = cpu ?s"
    "proc_heap s1 = proc_heap s" "\<forall>u. owner_pcb (tcbs s1 u) = owner_pcb (tcbs ?s u) \<and> thread_func (tcbs s1 u) = thread_func (tcbs ?s u)"
    using create_ptcb_frame [of ?s ?t p tsk al ar, OF spawned_frame(13)] unfolding spawned_frame(1,2) by blast
  have gi: "inside (g s1) = inside ?s" using s1(2) g(1) by simp
  then have ok2: "sched_ok (g s1)" "live (g s1) = insert ?t (live s)" "tcb_state (tcbs (g s1) ?t) = INIT"
    "current_thread (g s1) = current_thread s"
    using ok1 sched_ok_inside [OF gi] insideD(6) [OF gi] insideD(8) [OF gi, of ?t] insideD(3) [OF gi] live by simp_all
  from wakeup_ok [OF ok2(1), of ?t] obtain s2 where s2: "wakeup ?t (g s1) = Some (s2, 1)" "sched_ok s2"
    "live s2 = live (g s1)" "current_thread s2 = current_thread (g s1)"
    "tcbs s2 = (tcbs (g s1))(?t := make_ready_tcb (tcbs (g s1) ?t))"
    using ok2 by auto
  have out: "outside s2 = outside (g s1)" by (rule outside_wakeup [OF s2(1)])
  have t: "tcb_state (tcbs s2 ?t) = READY" "owner_pcb (tcbs s2 ?t) = Some p" "thread_func (tcbs s2 ?t) = Some f"
    "ptcb (tcbs s2 ?t) = ptcb (tcbs s1 ?t)"
    using s2(5) s1(6) by (simp_all add: make_ready_tcb_def g)
  have h: "interrupt_handlers (cpu s2) = interrupt_handlers (cpu s)"
    using outsideD(12) [OF out] s1(4) by (simp add: g)
  have l: "live s2 = insert ?t (live s)" "current_thread s2 = current_thread s" using s2(3,4) ok2(2,4) by simp_all
  show thesis by (rule that [OF sp s1(1) s2(1,2) out s1(3,5) l(1) nl l(2) t(1-3) h t(4)])
qed

lemma exec_main_thread_eq:
  assumes ok: "sched_ok s"
  shows "(\<forall>i<MAX_THREADS. thread_used s i) \<Longrightarrow> exec_main_thread new call al s =
      Some (release_PCB new (upd_pcb new (\<lambda>pcb. pcb\<lparr>main_thread := None\<rparr>) s), False)"
    and "\<not> (\<forall>i<MAX_THREADS. thread_used s i) \<Longrightarrow>
      \<exists>s' k. exec_main_thread new call al s = Some (s', True) \<and> sched_ok s' \<and> current_thread s' = current_thread s
        \<and> thread_pool k \<notin> live s \<and> live s' = insert (thread_pool k) (live s) \<and> tcb_state (tcbs s' (thread_pool k)) = READY
        \<and> owner_pcb (tcbs s' (thread_pool k)) = Some new \<and> thread_func (tcbs s' (thread_pool k)) = Some start_main_thread_fn
        \<and> interrupt_handlers (cpu s') = interrupt_handlers (cpu s) \<and> proc_heap s' = proc_heap s
        \<and> PT s' = (PT s)(new := (PT s new)\<lparr>main_thread := Some (thread_pool k), thread_count := thread_count (PT s new) + 1\<rparr>)"
proof -
  assume "\<forall>i<MAX_THREADS. thread_used s i"
  then show "exec_main_thread new call al s =
      Some (release_PCB new (upd_pcb new (\<lambda>pcb. pcb\<lparr>main_thread := None\<rparr>) s), False)"
    by (simp add: exec_main_thread_def spawn_full)
next
  assume "\<not> (\<forall>i<MAX_THREADS. thread_used s i)"
  then have "first_from (\<lambda>i. \<not> thread_used s i) 0 MAX_THREADS \<noteq> None" by (simp add: first_from_None_iff)
  then obtain k where k: "first_from (\<lambda>i. \<not> thread_used s i) 0 MAX_THREADS = Some k" by blast
  let ?t = "thread_pool k" and ?m = "\<lambda>k s. upd_pcb new (\<lambda>pcb. pcb\<lparr>main_thread := Some (thread_pool k)\<rparr>) s"
    and ?c = "\<lambda>s. upd_pcb new (\<lambda>pcb. pcb\<lparr>thread_count := thread_count pcb + 1\<rparr>) s"
  have sw: "spawned p f k (?m j s) = ?m j (spawned p f k s)" for p f j
    by (simp add: spawned_def upd_pcb_def stack_of_def case_prod_beta Let_def)
  have ok': "sched_ok (?m k s)" using ok sched_ok_inside [of "?m k s" s] by simp
  have k': "first_from (\<lambda>i. \<not> thread_used (?m k s) i) 0 MAX_THREADS = Some k" using k by (simp add: upd_pcb_def)
  let ?a = "args (PT s new)"
  show "\<exists>s' k. exec_main_thread new call al s = Some (s', True) \<and> sched_ok s' \<and> current_thread s' = current_thread s
        \<and> thread_pool k \<notin> live s \<and> live s' = insert (thread_pool k) (live s) \<and> tcb_state (tcbs s' (thread_pool k)) = READY
        \<and> owner_pcb (tcbs s' (thread_pool k)) = Some new \<and> thread_func (tcbs s' (thread_pool k)) = Some start_main_thread_fn
        \<and> interrupt_handlers (cpu s') = interrupt_handlers (cpu s) \<and> proc_heap s' = proc_heap s
        \<and> PT s' = (PT s)(new := (PT s new)\<lparr>main_thread := Some (thread_pool k), thread_count := thread_count (PT s new) + 1\<rparr>)"
  proof (rule started_thread [OF ok' k', of ?c new start_main_thread_fn call al ?a])
    fix s1 s2
    assume s: "create_ptcb ?t call al ?a (spawned (Some new) start_main_thread_fn k (?m k s)) = Some s1"
      "wakeup ?t (?c s1) = Some (s2, 1)" "sched_ok s2" "outside s2 = outside (?c s1)" "PT s1 = PT (?m k s)" "proc_heap s1 = proc_heap (?m k s)"
      "live s2 = insert ?t (live (?m k s))" "?t \<notin> live (?m k s)" "current_thread s2 = current_thread (?m k s)"
      "tcb_state (tcbs s2 ?t) = READY" "owner_pcb (tcbs s2 ?t) = Some new"
      "thread_func (tcbs s2 ?t) = Some start_main_thread_fn" "interrupt_handlers (cpu s2) = interrupt_handlers (cpu (?m k s))"
    have a: "args (PT (?m k (spawned (Some new) start_main_thread_fn k s)) new) = ?a" by (simp add: upd_pcb_apply)
    have "exec_main_thread new call al s = Some (s2, True)"
      using s(1,2) by (simp add: exec_main_thread_def spawn_eq [OF k] a sw)
    moreover have "PT s2 = (PT s)(new := (PT s new)\<lparr>main_thread := Some ?t, thread_count := thread_count (PT s new) + 1\<rparr>)"
      using outsideD(1) [OF s(4)] s(5) by (simp add: upd_pcb_def)
    moreover have "proc_heap s2 = proc_heap s" using outsideD(2) [OF s(4)] s(6) by (simp add: upd_pcb_def)
    ultimately show ?thesis using s(3,7-13)
      by (intro exI [of _ s2] exI [of _ k]) (simp add: upd_pcb_def live_def)
  qed (simp_all add: upd_pcb_def inside_def)
qed

section \<open>Processes\<close>

lemma exec_parent_eq: "new < MAX_PROC \<Longrightarrow> exec_parent new s = upd_pcb new (\<lambda>pcb. pcb\<lparr>parent := None\<rparr>) s"
  by (simp add: exec_parent_def get_pid_def MAX_PROC_def)

lemma exec_args_frame [simp]:
  "inside (exec_args new call al ar s) = inside s"
  "interrupt_handlers (cpu (exec_args new call al ar s)) = interrupt_handlers (cpu s)"
  "proc_heap (exec_args new call al ar s) = proc_heap s" "tcbs (exec_args new call al ar s) = tcbs s"
  "PT (exec_args new call al ar s) = (PT s)(new := (PT s new)\<lparr>main_task := call, argl := al,
     args := if al > 0 \<and> ar \<noteq> 0 then proc_args s new else 0\<rparr>)"
  by (auto simp: exec_args_def Let_def upd_pcb_def upd_cpu_def inside_def proc_args_def)

definition all_busy :: "kernel \<Rightarrow> bool" where
  "all_busy s \<longleftrightarrow> (\<forall>i<MAX_THREADS. thread_used s i)"

lemma sys_Exec_cases:
  assumes ok: "sched_ok s"
  shows "(\<forall>p<MAX_PROC. pstate (PT s p) \<noteq> FREE) \<Longrightarrow> sys_Exec (Some call) al ar s = Some (s, NOPROC)"
    and "first_from (\<lambda>p. pstate (PT s p) = FREE) 0 MAX_PROC = Some p \<Longrightarrow> all_busy s \<Longrightarrow>
      \<exists>s'. sys_Exec (Some call) al ar s = Some (s', NOPROC) \<and> sched_ok s' \<and> live s' = live s \<and> (\<forall>q. pstate (PT s' q) = pstate (PT s q))
        \<and> interrupt_handlers (cpu s') = interrupt_handlers (cpu s) \<and> (\<forall>q. q \<noteq> p \<longrightarrow> PT s' q = PT s q) \<and> parent (PT s' p) = None \<and> proc_heap s' = proc_heap s"
    and "first_from (\<lambda>p. pstate (PT s p) = FREE) 0 MAX_PROC = Some p \<Longrightarrow> \<not> all_busy s \<Longrightarrow>
      \<exists>s' k. sys_Exec (Some call) al ar s = Some (s', int p) \<and> sched_ok s' \<and> current_thread s' = current_thread s
        \<and> thread_pool k \<notin> live s \<and> live s' = insert (thread_pool k) (live s) \<and> tcb_state (tcbs s' (thread_pool k)) = READY
        \<and> owner_pcb (tcbs s' (thread_pool k)) = Some p \<and> thread_func (tcbs s' (thread_pool k)) = Some start_main_thread_fn
        \<and> interrupt_handlers (cpu s') = interrupt_handlers (cpu s) \<and> proc_heap s' = proc_heap s
        \<and> PT s' = (PT s)(p := (PT s p)\<lparr>pstate := ALIVE, parent := None, main_task := Some call, argl := al,
             args := (if al > 0 \<and> ar \<noteq> 0 then proc_args s p else 0), main_thread := Some (thread_pool k),
             thread_count := thread_count (PT s p) + 1\<rparr>)"
proof -
  show "(\<forall>p<MAX_PROC. pstate (PT s p) \<noteq> FREE) \<Longrightarrow> sys_Exec (Some call) al ar s = Some (s, NOPROC)"
    by (simp add: sys_Exec_def acquire_PCB_def first_from_None_iff [THEN iffD2])
  assume p: "first_from (\<lambda>p. pstate (PT s p) = FREE) 0 MAX_PROC = Some p"
  note F = first_from_SomeD [OF p]
  let ?a = "upd_pcb p (\<lambda>pcb. pcb\<lparr>parent := None\<rparr>) (upd_pcb p (\<lambda>pcb. pcb\<lparr>pstate := ALIVE\<rparr>) s)"
  let ?e = "exec_args p (Some call) al ar ?a"
  have acq: "acquire_PCB s = (upd_pcb p (\<lambda>pcb. pcb\<lparr>pstate := ALIVE\<rparr>) s, Some p)" by (simp add: acquire_PCB_def p)
  have eq: "sys_Exec (Some call) al ar s = do { (s, ok) \<leftarrow> exec_main_thread p (Some call) al ?e; Some (s, if ok then int p else NOPROC) }"
    using F by (simp add: sys_Exec_def acq exec_parent_eq get_pid_def)
  have ins: "inside ?e = inside s" by simp
  have ok': "sched_ok ?e" "live ?e = live s" using ok sched_ok_inside [OF ins] insideD(6) [OF ins] by simp_all
  have used: "thread_used ?e = thread_used s" "current_thread ?e = current_thread s" using insideD(2,3) [OF ins] by simp_all
  { assume "all_busy s"
    then have "\<forall>i<MAX_THREADS. thread_used ?e i" by (simp add: all_busy_def used)
    from exec_main_thread_eq(1) [OF ok'(1) this]
    have ex: "exec_main_thread p (Some call) al ?e = Some (release_PCB p (upd_pcb p (\<lambda>pcb. pcb\<lparr>main_thread := None\<rparr>) ?e), False)" .
    let ?s = "release_PCB p (upd_pcb p (\<lambda>pcb. pcb\<lparr>main_thread := None\<rparr>) ?e)"
    have i: "inside ?s = inside s" using ins by (simp add: release_PCB_def)
    have "pstate (PT ?s q) = pstate (PT s q)" "q \<noteq> p \<Longrightarrow> PT ?s q = PT s q" "parent (PT ?s p) = None" for q
      using F by (simp_all add: release_PCB_def upd_pcb_apply)
    moreover have "interrupt_handlers (cpu ?s) = interrupt_handlers (cpu s)" "proc_heap ?s = proc_heap s"
      unfolding release_PCB_def by (simp_all add: upd_pcb_def)
    ultimately show "\<exists>s'. sys_Exec (Some call) al ar s = Some (s', NOPROC) \<and> sched_ok s' \<and> live s' = live s \<and> (\<forall>q. pstate (PT s' q) = pstate (PT s q))
        \<and> interrupt_handlers (cpu s') = interrupt_handlers (cpu s) \<and> (\<forall>q. q \<noteq> p \<longrightarrow> PT s' q = PT s q) \<and> parent (PT s' p) = None \<and> proc_heap s' = proc_heap s"
      using ok sched_ok_inside [OF i] insideD(6) [OF i] ex by (intro exI [of _ ?s]) (simp add: eq) }
  { assume "\<not> all_busy s"
    then have "\<not> (\<forall>i<MAX_THREADS. thread_used ?e i)" by (simp add: all_busy_def used)
    from exec_main_thread_eq(2) [OF ok'(1) this, of p "Some call" al] obtain s' k where
      s': "exec_main_thread p (Some call) al ?e = Some (s', True)" "sched_ok s'" "current_thread s' = current_thread ?e"
        "thread_pool k \<notin> live ?e" "live s' = insert (thread_pool k) (live ?e)" "tcb_state (tcbs s' (thread_pool k)) = READY"
        "owner_pcb (tcbs s' (thread_pool k)) = Some p" "thread_func (tcbs s' (thread_pool k)) = Some start_main_thread_fn"
        "interrupt_handlers (cpu s') = interrupt_handlers (cpu ?e)" "proc_heap s' = proc_heap ?e"
        "PT s' = (PT ?e)(p := (PT ?e p)\<lparr>main_thread := Some (thread_pool k), thread_count := thread_count (PT ?e p) + 1\<rparr>)"
      by blast
    have "PT s' = (PT s)(p := (PT s p)\<lparr>pstate := ALIVE, parent := None, main_task := Some call, argl := al,
             args := (if al > 0 \<and> ar \<noteq> 0 then proc_args s p else 0), main_thread := Some (thread_pool k),
             thread_count := thread_count (PT s p) + 1\<rparr>)"
      unfolding s'(11) by (simp add: upd_pcb_def proc_args_def)
    moreover have "interrupt_handlers (cpu s') = interrupt_handlers (cpu s)" "proc_heap s' = proc_heap s"
      using s'(9,10) by (simp_all add: upd_pcb_def)
    ultimately show "\<exists>s' k. sys_Exec (Some call) al ar s = Some (s', int p) \<and> sched_ok s' \<and> current_thread s' = current_thread s
        \<and> thread_pool k \<notin> live s \<and> live s' = insert (thread_pool k) (live s) \<and> tcb_state (tcbs s' (thread_pool k)) = READY
        \<and> owner_pcb (tcbs s' (thread_pool k)) = Some p \<and> thread_func (tcbs s' (thread_pool k)) = Some start_main_thread_fn
        \<and> interrupt_handlers (cpu s') = interrupt_handlers (cpu s) \<and> proc_heap s' = proc_heap s
        \<and> PT s' = (PT s)(p := (PT s p)\<lparr>pstate := ALIVE, parent := None, main_task := Some call, argl := al,
             args := (if al > 0 \<and> ar \<noteq> 0 then proc_args s p else 0), main_thread := Some (thread_pool k),
             thread_count := thread_count (PT s p) + 1\<rparr>)"
      using s'(1-8) ok'(2) used(2) by (intro exI [of _ s'] exI [of _ k]) (simp add: eq) }
qed

text \<open>Ending a thread.\<close>

lemma sys_ThreadExit_eq:
  assumes ok: "sched_ok s" and c: "current_thread s = Some c" "c \<noteq> idle_thread" and p: "owner_pcb (tcbs s c) = Some p"
  obtains s' where "sys_ThreadExit v s = Some s'" "sched_ok s'" "live s' = live s - {c}" "current_thread s' \<noteq> Some c"
    "\<forall>i. ptcb (tcbs s c) = Some i \<longrightarrow> ptcb_pool s' i = (ptcb_pool s i)\<lparr>ptcb_exitval := v, exited := True\<rparr>"
    "PT s' = (PT s)(p := (PT s p)\<lparr>thread_count := thread_count (PT s p) - 1\<rparr>)" "proc_heap s' = proc_heap s"
    "interrupt_handlers (cpu s') = interrupt_handlers (cpu s)"
proof -
  define s1 where "s1 = (case ptcb (tcbs s c) of
      Some i \<Rightarrow> upd_ptcb i (\<lambda>p. p\<lparr>ptcb_exitval := v, exited := True\<rparr>) s | None \<Rightarrow> s)"
  define s2 where "s2 = upd_pcb p (\<lambda>pcb. pcb\<lparr>thread_count := thread_count pcb - 1\<rparr>) s1"
  have ins: "inside s2 = inside s" by (simp add: s2_def s1_def split: option.splits)
  have tcbs: "tcbs s1 = tcbs s" "PT s1 = PT s" "proc_heap s2 = proc_heap s" "cpu s2 = cpu s"
    by (simp_all add: s2_def s1_def upd_ptcb_def upd_pcb_def split: option.splits)
  have eq: "sys_ThreadExit v s = sleep_releasing EXITED SCHED_USER NO_TIMEOUT s2"
    using c p tcbs by (simp add: sys_ThreadExit_def cur_thread_eq s1_def [symmetric] s2_def)
  have "sched_ok s2" "current_thread s2 = Some c" "live s2 = live s"
    using ok c insideD(3,6) [OF ins] sched_ok_inside [OF ins] by simp_all
  from exit_ok [OF this(1,2) c(2), of SCHED_USER] this(3)
  obtain r where r: "sleep_releasing EXITED SCHED_USER NO_TIMEOUT s2 = Some r" "sched_ok r" "current_thread r \<noteq> Some c"
    "live r = live s - {c}" by auto
  note D = outsideD [OF outside_sleep [OF r(1)]]
  have "\<forall>i. ptcb (tcbs s c) = Some i \<longrightarrow> ptcb_pool r i = (ptcb_pool s i)\<lparr>ptcb_exitval := v, exited := True\<rparr>"
    using D(3) by (simp add: s2_def s1_def upd_ptcb_def upd_pcb_def)
  moreover have "PT r = (PT s)(p := (PT s p)\<lparr>thread_count := thread_count (PT s p) - 1\<rparr>)"
    using D(1) tcbs by (simp add: s2_def upd_pcb_def)
  moreover have "proc_heap r = proc_heap s" "interrupt_handlers (cpu r) = interrupt_handlers (cpu s)" using D(2,12) tcbs by simp_all
  ultimately show thesis using r by (intro that [of r]) (simp_all add: eq)
qed

text \<open>A wait loop ends when a condition that the other threads are about to establish holds.\<close>

lemma yield_while_ends:
  assumes "sched_ok s" "list_all (\<lambda>r. \<forall>s. sched_ok s \<longrightarrow> sched_ok (r s)) rs"
    "rs \<noteq> []" "\<And>s. sched_ok s \<Longrightarrow> \<not> c (last rs s)"
  shows "\<exists>s'. yield_while c rs s = Some s' \<and> sched_ok s' \<and> \<not> c s'"
  using assms
proof (induction rs arbitrary: s)
  case (Cons r rs)
  show ?case
  proof (cases "c s")
    case True
    obtain u where u: "yield SCHED_USER s = Some u" "sched_ok u"
      using yield_ok [OF Cons.prems(1), of In_yield SCHED_USER] by (auto simp: yield_def)
    then have ru: "sched_ok (r u)" using Cons.prems(2) by simp
    show ?thesis
    proof (cases "rs = []")
      case True
      then have "\<not> c (r u)" using Cons.prems(4) [OF u(2)] by simp
      then show ?thesis using u(1) ru True \<open>c s\<close> by simp
    next
      case False
      then have "\<exists>s'. yield_while c rs (r u) = Some s' \<and> sched_ok s' \<and> \<not> c s'" using Cons ru by auto
      then show ?thesis using u(1) \<open>c s\<close> by simp
    qed
  next
    case False
    then show ?thesis using Cons.prems(1) by simp
  qed
qed simp

section \<open>Properties\<close>

text \<open>C15. \<open>Exec\<close> creates a process or leaves everything as it was. Without a free PCB it returns NOPROC and
  changes nothing; with a free PCB and no free thread it returns NOPROC and the PCB is free again; otherwise it
  returns the lowest free pid, the process is alive with the given task, and it has one new thread, which is ready,
  belongs to the process and starts in \<open>start_main_thread\<close>. No other process changes.\<close>

theorem exec_creates_process:
  assumes "sched_ok s"
  shows "case first_from (\<lambda>p. pstate (PT s p) = FREE) 0 MAX_PROC of
      None \<Rightarrow> sys_Exec (Some call) al ar s = Some (s, NOPROC)
    | Some p \<Rightarrow> \<exists>s' ret. sys_Exec (Some call) al ar s = Some (s', ret) \<and> sched_ok s' \<and> (\<forall>q. q \<noteq> p \<longrightarrow> PT s' q = PT s q)
        \<and> (if all_busy s then ret = NOPROC \<and> pstate (PT s' p) = FREE \<and> live s' = live s
           else ret = int p \<and> pstate (PT s' p) = ALIVE \<and> main_task (PT s' p) = Some call \<and> argl (PT s' p) = al
             \<and> (\<exists>t. main_thread (PT s' p) = Some t \<and> t \<notin> live s \<and> live s' = insert t (live s) \<and> tcb_state (tcbs s' t) = READY
                  \<and> owner_pcb (tcbs s' t) = Some p \<and> thread_func (tcbs s' t) = Some start_main_thread_fn))"
proof (cases "first_from (\<lambda>p. pstate (PT s p) = FREE) 0 MAX_PROC")
  case None
  then have "\<forall>p<MAX_PROC. pstate (PT s p) \<noteq> FREE" by (simp add: first_from_None_iff)
  then show ?thesis using sys_Exec_cases(1) [OF assms] by (simp add: None)
next
  case (Some p)
  show ?thesis
  proof (cases "all_busy s")
    case True
    then show ?thesis
      using sys_Exec_cases(2) [OF assms Some True, of call al ar] first_from_SomeD [OF Some] by (auto simp: Some)
  next
    case False
    from sys_Exec_cases(3) [OF assms Some False, of call al ar] obtain s' k where
      "sys_Exec (Some call) al ar s = Some (s', int p)" "sched_ok s'" "thread_pool k \<notin> live s"
      "live s' = insert (thread_pool k) (live s)" "tcb_state (tcbs s' (thread_pool k)) = READY"
      "owner_pcb (tcbs s' (thread_pool k)) = Some p" "thread_func (tcbs s' (thread_pool k)) = Some start_main_thread_fn"
      "PT s' = (PT s)(p := (PT s p)\<lparr>pstate := ALIVE, parent := None, main_task := Some call, argl := al,
             args := (if al > 0 \<and> ar \<noteq> 0 then proc_args s p else 0), main_thread := Some (thread_pool k),
             thread_count := thread_count (PT s p) + 1\<rparr>)" by blast
    then show ?thesis using False by (auto simp: Some)
  qed
qed

theorem exec_creates_process_witness:
  "\<exists>s'. sys_Exec (Some 0x400) 0 0 file_kernel = Some (s', 0) \<and> pstate (PT s' 0) = ALIVE"
proof -
  have "first_from (\<lambda>p. pstate (PT file_kernel p) = FREE) 0 MAX_PROC = Some 0"
    by (rule first_from_eqI) (simp_all add: MAX_PROC_def file_kernel_def thread_kernel_PT zero_PCB_def)
  moreover have "thread_pool 1 \<notin> live thread_kernel" by (simp add: thread_kernel_ok)
  then have "\<not> all_busy file_kernel" by (auto simp: all_busy_def live_def MAX_THREADS_def file_kernel_def)
  ultimately show ?thesis using exec_creates_process [OF file_kernel_sched, of "0x400" 0 0] by auto
qed

text \<open>A thread that exits is seen by its joiner: after \<open>ThreadExit(v)\<close> the caller's thread is gone, its PTCB
  has the exit value, one thread less is counted for the process, and a join on that PTCB, whenever it is made,
  returns 0 at once with \<open>v\<close>.\<close>

theorem thread_exit_then_join:
  assumes "sched_ok s" and "current_thread s = Some c" and "c \<noteq> idle_thread"
    and "owner_pcb (tcbs s c) = Some p" and "ptcb (tcbs s c) = Some i"
  shows "\<exists>s'. sys_ThreadExit v s = Some s' \<and> sched_ok s' \<and> live s' = live s - {c} \<and> current_thread s' \<noteq> Some c
    \<and> thread_count (PT s' p) = thread_count (PT s p) - 1
    \<and> (\<forall>u rs. ptcb_pool u i = ptcb_pool s' i \<longrightarrow> sys_ThreadJoin (Some i) rs u = Some (u, 0, Some v))"
proof -
  obtain s' where s': "sys_ThreadExit v s = Some s'" "sched_ok s'" "live s' = live s - {c}" "current_thread s' \<noteq> Some c"
    "\<forall>i. ptcb (tcbs s c) = Some i \<longrightarrow> ptcb_pool s' i = (ptcb_pool s i)\<lparr>ptcb_exitval := v, exited := True\<rparr>"
    "PT s' = (PT s)(p := (PT s p)\<lparr>thread_count := thread_count (PT s p) - 1\<rparr>)"
    by (rule sys_ThreadExit_eq [OF assms(1-4)])
  have "sys_ThreadJoin (Some i) rs u = Some (u, 0, Some v)" if "ptcb_pool u i = ptcb_pool s' i" for u rs
    using that s'(5) assms(5) by (cases rs) (simp_all add: sys_ThreadJoin_def)
  then show ?thesis using s' by (intro exI [of _ s']) simp
qed

definition ptcb_kernel :: kernel where
  "ptcb_kernel = upd_tcb (thread_pool 0) (\<lambda>t. t\<lparr>ptcb := Some 0\<rparr>) file_kernel"

lemma ptcb_kernel_ok: "sched_ok ptcb_kernel" "current_thread ptcb_kernel = Some (thread_pool 0)"
  "owner_pcb (tcbs ptcb_kernel (thread_pool 0)) = Some 1" "ptcb (tcbs ptcb_kernel (thread_pool 0)) = Some 0"
proof -
  have "inside ptcb_kernel = inside file_kernel" by (simp add: ptcb_kernel_def inside_def upd_tcb_def fun_eq_iff)
  then show "sched_ok ptcb_kernel" using file_kernel_sched sched_ok_inside by blast
  show "current_thread ptcb_kernel = Some (thread_pool 0)"
    "owner_pcb (tcbs ptcb_kernel (thread_pool 0)) = Some 1" "ptcb (tcbs ptcb_kernel (thread_pool 0)) = Some 0"
    by (simp_all add: ptcb_kernel_def upd_tcb_def file_kernel_def thread_kernel_ok thread_kernel_PT)
qed

theorem thread_exit_then_join_witness:
  "\<exists>s'. sys_ThreadExit 7 ptcb_kernel = Some s' \<and> sys_ThreadJoin (Some 0) [] s' = Some (s', 0, Some 7)"
  using thread_exit_then_join [OF ptcb_kernel_ok(1,2) _ ptcb_kernel_ok(3,4), of 7] by auto

text \<open>A join waits, and ends when the joined thread has exited: the caller gives the core away as long as the
  PTCB is not marked, and when another thread marks it the join returns 0 with the exit value found there.\<close>

theorem join_waits_for_exit:
  assumes "sched_ok s" and "list_all (\<lambda>r. \<forall>s. sched_ok s \<longrightarrow> sched_ok (r s)) rs" and "rs \<noteq> []"
    and "\<forall>s. sched_ok s \<longrightarrow> exited (ptcb_pool (last rs s) i)"
  shows "\<exists>s'. sys_ThreadJoin (Some i) rs s = Some (s', 0, Some (ptcb_exitval (ptcb_pool s' i)))
    \<and> sched_ok s' \<and> exited (ptcb_pool s' i)"
  using yield_while_ends [OF assms(1-3), of "\<lambda>s. \<not> exited (ptcb_pool s i)"] assms(4) by (auto simp: sys_ThreadJoin_def)

theorem join_waits_for_exit_witness:
  "\<exists>s'. sys_ThreadJoin (Some 1) [\<lambda>s. s, upd_ptcb 1 (\<lambda>p. p\<lparr>exited := True\<rparr>)] file_kernel
      = Some (s', 0, Some (ptcb_exitval (ptcb_pool s' 1))) \<and> exited (ptcb_pool s' 1)"
proof -
  have "sched_ok (upd_ptcb 1 f s) = sched_ok s" for f s using sched_ok_inside [of "upd_ptcb 1 f s" s] by simp
  then show ?thesis
    using join_waits_for_exit [OF file_kernel_sched, of "[\<lambda>s. s, upd_ptcb 1 (\<lambda>p. p\<lparr>exited := True\<rparr>)]" 1]
    by (auto simp: upd_ptcb_def)
qed

text \<open>C16. \<open>Exit\<close> ends a process: the process becomes a zombie with the exit value, the calling thread leaves the
  scheduler, and when the process has a parent it moves from the parent's children to the end of its exited list,
  where \<open>WaitChild\<close> looks.\<close>

theorem exit_makes_zombie:
  assumes "sched_ok s" and "current_thread s = Some c" and "c \<noteq> idle_thread" and "owner_pcb (tcbs s c) = Some p"
  shows "\<exists>s'. sys_Exit v s = Some s' \<and> sched_ok s' \<and> live s' = live s - {c}
    \<and> pstate (PT s' p) = ZOMBIE \<and> exitval (PT s' p) = v \<and> (\<forall>q. q \<noteq> p \<longrightarrow> PT s' q = PT s q)
    \<and> proc_heap s' = (case parent (PT s p) of None \<Rightarrow> proc_heap s
        | Some q \<Rightarrow> rlist_push_back (rlist_remove (proc_heap s) (children_node p)) (exited_list q) (exited_node p))"
proof -
  define s1 where "s1 = upd_pcb p (\<lambda>pcb. pcb\<lparr>exitval := v, pstate := ZOMBIE\<rparr>) s"
  define s2 where "s2 = (case parent (PT s1 p) of
      Some q \<Rightarrow> (let s = s1\<lparr>proc_heap := rlist_remove (proc_heap s1) (children_node p)\<rparr>
                in s\<lparr>proc_heap := rlist_push_back (proc_heap s) (exited_list q) (exited_node p)\<rparr>)
    | None \<Rightarrow> s1)"
  have eq: "sys_Exit v s = sys_ThreadExit v s2"
    using assms(2,4) by (simp add: sys_Exit_def cur_pcb_def cur_thread_eq s1_def [symmetric] s2_def)
  have ins: "inside s2 = inside s" by (simp add: s2_def s1_def Let_def split: option.splits)
  have f: "tcbs s2 = tcbs s" "PT s2 = PT s1" by (simp_all add: s2_def s1_def upd_pcb_def Let_def split: option.splits)
  have "sched_ok s2" "current_thread s2 = Some c" "live s2 = live s" "owner_pcb (tcbs s2 c) = Some p"
    using assms insideD(3,6) [OF ins] sched_ok_inside [OF ins] f by simp_all
  then obtain s' where s': "sys_ThreadExit v s2 = Some s'" "sched_ok s'" "live s' = live s - {c}"
    "PT s' = (PT s2)(p := (PT s2 p)\<lparr>thread_count := thread_count (PT s2 p) - 1\<rparr>)" "proc_heap s' = proc_heap s2"
    by (metis sys_ThreadExit_eq assms(3))
  have "pstate (PT s' p) = ZOMBIE" "exitval (PT s' p) = v" "q \<noteq> p \<Longrightarrow> PT s' q = PT s q" for q
    using s'(4) f(2) by (simp_all add: s1_def upd_pcb_def)
  moreover have "proc_heap s' = (case parent (PT s p) of None \<Rightarrow> proc_heap s
        | Some q \<Rightarrow> rlist_push_back (rlist_remove (proc_heap s) (children_node p)) (exited_list q) (exited_node p))"
    using s'(5) by (simp add: s2_def s1_def upd_pcb_def split: option.splits)
  ultimately show ?thesis using s'(1-3) eq by (intro exI [of _ s']) simp
qed

theorem exit_makes_zombie_witness:
  "\<exists>s'. sys_Exit 3 ptcb_kernel = Some s' \<and> pstate (PT s' 1) = ZOMBIE \<and> exitval (PT s' 1) = 3"
  using exit_makes_zombie [OF ptcb_kernel_ok(1,2) _ ptcb_kernel_ok(3), of 3] by auto

text \<open>The process table of this configuration: with \<open>MAX_PROC\<close> 2 the pids are 0 and 1, \<open>sys_Exec\<close> gives
  neither a parent, and no list of children is ever used.\<close>

definition orphans :: "kernel \<Rightarrow> bool" where
  "orphans s \<longleftrightarrow> (\<forall>p. parent (PT s p) = None) \<and> (\<forall>p<MAX_PROC. is_rlist_empty (proc_heap s) (children_list p))"

lemma orphans_Exec:
  assumes ok: "sched_ok s" and orph: "orphans s" and ex: "sys_Exec (Some call) al ar s = Some (s', r)"
  shows "orphans s'"
proof (cases "first_from (\<lambda>p. pstate (PT s p) = FREE) 0 MAX_PROC")
  case None
  then have "\<forall>p<MAX_PROC. pstate (PT s p) \<noteq> FREE" by (simp add: first_from_None_iff)
  then show ?thesis using sys_Exec_cases(1) [OF ok] ex orph by simp
next
  case (Some p)
  show ?thesis
  proof (cases "all_busy s")
    case True
    from sys_Exec_cases(2) [OF ok Some True, of call al ar] ex
    have "\<forall>q. q \<noteq> p \<longrightarrow> PT s' q = PT s q" "parent (PT s' p) = None" "proc_heap s' = proc_heap s" by auto
    then have "parent (PT s' q) = None" for q using orph by (cases "q = p") (simp_all add: orphans_def)
    then show ?thesis using orph \<open>proc_heap s' = proc_heap s\<close> by (simp add: orphans_def)
  next
    case False
    from sys_Exec_cases(3) [OF ok Some False, of call al ar] ex show ?thesis using orph by (auto simp: orphans_def)
  qed
qed

text \<open>In this configuration no process ever has a parent, so no call of \<open>WaitChild\<close> ever waits for anything:
  from a process table without parents \<open>Exec\<close> and \<open>Exit\<close> lead to one without parents, and there
  \<open>WaitChild\<close>, for any pid or for any child, returns NOPROC at once.\<close>

theorem wait_child_never_waits:
  assumes "sched_ok s" and "orphans s" and "current_thread s = Some c" and "owner_pcb (tcbs s c) = Some p" and "p < MAX_PROC"
  shows "sys_WaitChild cpid rs s = Some (s, NOPROC, None)
    \<and> (\<forall>s' r. sys_Exec (Some call) al ar s = Some (s', r) \<longrightarrow> orphans s')
    \<and> (\<forall>s'. c \<noteq> idle_thread \<longrightarrow> sys_Exit v s = Some s' \<longrightarrow> orphans s')"
proof (intro conjI allI impI)
  have "parent (PT s q) = None" for q using assms(2) by (simp add: orphans_def)
  then show "sys_WaitChild cpid rs s = Some (s, NOPROC, None)"
    using assms(2-5) by (auto simp: sys_WaitChild_def cur_thread_eq orphans_def Let_def split: option.splits)
  show "sys_Exec (Some call) al ar s = Some (s', r) \<Longrightarrow> orphans s'" for s' r by (rule orphans_Exec [OF assms(1,2)])
  fix s' assume c: "c \<noteq> idle_thread" and ex: "sys_Exit v s = Some s'"
  let ?s = "upd_pcb p (\<lambda>pcb. pcb\<lparr>exitval := v, pstate := ZOMBIE\<rparr>) s"
  have par: "parent (PT ?s p) = None" using assms(2) by (simp add: orphans_def upd_pcb_apply)
  have "sys_Exit v s = sys_ThreadExit v ?s"
    using assms(3,4) par by (simp add: sys_Exit_def cur_pcb_def cur_thread_eq)
  moreover have "sched_ok ?s" using assms(1) sched_ok_inside [of ?s s] by simp
  moreover have "current_thread ?s = Some c" "owner_pcb (tcbs ?s c) = Some p" using assms(3,4) by (simp_all add: upd_pcb_def)
  ultimately obtain u where "sys_Exit v s = Some u" "proc_heap u = proc_heap ?s"
    "PT u = (PT ?s)(p := (PT ?s p)\<lparr>thread_count := thread_count (PT ?s p) - 1\<rparr>)"
    using sys_ThreadExit_eq [of ?s c p v] c by metis
  then show "orphans s'" using ex assms(2) by (auto simp: orphans_def upd_pcb_def)
qed

theorem wait_child_never_waits_witness:
  "\<exists>s. orphans s \<and> sys_WaitChild NOPROC [] s = Some (s, NOPROC, None) \<and> sys_WaitChild 0 [] s = Some (s, NOPROC, None)"
proof -
  let ?s = "file_kernel\<lparr>proc_heap := \<lparr>nxt = (\<lambda>n. n), prv = (\<lambda>n. n), key = (\<lambda>_. None)\<rparr>\<rparr>"
  have "PT ?s = (\<lambda>_. zero_PCB)" by (simp add: file_kernel_def thread_kernel_PT)
  then have o: "orphans ?s" by (simp add: orphans_def is_rlist_empty_def zero_PCB_def)
  have k: "sched_ok ?s" using file_kernel_sched sched_ok_inside [of ?s file_kernel] by simp
  have c: "current_thread ?s = Some (thread_pool 0)" "owner_pcb (tcbs ?s (thread_pool 0)) = Some 1" "1 < MAX_PROC"
    by (simp_all add: file_kernel_def thread_kernel_ok thread_kernel_PT MAX_PROC_def)
  have "sys_WaitChild cpid [] ?s = Some (?s, NOPROC, None)" for cpid
    by (rule wait_child_never_waits [OF k o c, THEN conjunct1])
  then show ?thesis using o by blast
qed

text \<open>PTCBs are never given back: \<open>create_ptcb\<close> takes one for every thread and nothing frees it. Once all
  are taken, \<open>CreateThread\<close> starts the new thread all the same, ready to run, without a PTCB, and returns
  NOTHREAD, the value that means that no thread was created.\<close>

theorem create_thread_without_ptcb:
  assumes "sched_ok s" and "current_thread s = Some c" and "owner_pcb (tcbs s c) = Some p"
    and "\<not> all_busy s" and "\<forall>i<MAX_THREADS. ptcb_used s i"
  shows "\<exists>s' t. sys_CreateThread (Some tsk) al ar s = Some (s', None) \<and> sched_ok s' \<and> t \<notin> live s
    \<and> live s' = insert t (live s) \<and> tcb_state (tcbs s' t) = READY \<and> ptcb (tcbs s' t) = None
    \<and> thread_count (PT s' p) = thread_count (PT s p) + 1"
proof -
  from assms(4) have "first_from (\<lambda>i. \<not> thread_used s i) 0 MAX_THREADS \<noteq> None" by (simp add: first_from_None_iff all_busy_def)
  then obtain k where k: "first_from (\<lambda>i. \<not> thread_used s i) 0 MAX_THREADS = Some k" by blast
  let ?t = "thread_pool k" and ?c = "\<lambda>s. upd_pcb p (\<lambda>pcb. pcb\<lparr>thread_count := thread_count pcb + 1\<rparr>) s"
    and ?s = "spawned (Some p) start_main_pthread_fn k s"
  have none: "create_ptcb ?t (Some tsk) al ar ?s = Some ?s"
    using assms(5) by (simp add: create_ptcb_def first_from_None_iff [THEN iffD2])
  show ?thesis
  proof (rule started_thread [OF assms(1) k, of ?c p start_main_pthread_fn "Some tsk" al ar])
    fix s1 s2
    assume s: "create_ptcb ?t (Some tsk) al ar ?s = Some s1" "wakeup ?t (?c s1) = Some (s2, 1)" "sched_ok s2"
      "outside s2 = outside (?c s1)" "PT s1 = PT s"
      "live s2 = insert ?t (live s)" "?t \<notin> live s" "tcb_state (tcbs s2 ?t) = READY"
      "ptcb (tcbs s2 ?t) = ptcb (tcbs s1 ?t)"
    have s1: "s1 = ?s" using s(1) none by simp
    have pt: "ptcb (tcbs s2 ?t) = None" using s(9) by (simp add: s1)
    have "sys_CreateThread (Some tsk) al ar s = Some (s2, None)"
      using s(2) none pt assms(2,3) by (simp add: sys_CreateThread_def cur_thread_eq spawn_eq [OF k] s1)
    moreover have "thread_count (PT s2 p) = thread_count (PT s p) + 1" using outsideD(1) [OF s(4)] s(5) by (simp add: upd_pcb_def)
    ultimately show ?thesis using s(3,6-8) pt by (intro exI [of _ s2] exI [of _ ?t]) simp
  qed (simp_all add: upd_pcb_def inside_def)
qed

theorem create_thread_without_ptcb_witness:
  "\<exists>s s' t. sys_CreateThread (Some 0x400) 0 0 s = Some (s', None) \<and> t \<notin> live s \<and> t \<in> live s'"
proof -
  let ?s = "file_kernel\<lparr>ptcb_used := \<lambda>_. True\<rparr>"
  have "sched_ok ?s" using file_kernel_sched sched_ok_inside [of ?s file_kernel] by simp
  moreover have "current_thread ?s = Some (thread_pool 0)" "owner_pcb (tcbs ?s (thread_pool 0)) = Some 1"
    by (simp_all add: file_kernel_def thread_kernel_ok thread_kernel_PT)
  moreover have "thread_pool 1 \<notin> live thread_kernel" by (simp add: thread_kernel_ok)
  then have "\<not> all_busy ?s" by (auto simp: all_busy_def live_def MAX_THREADS_def file_kernel_def)
  ultimately show ?thesis
    using create_thread_without_ptcb [of ?s "thread_pool 0" 1 "0x400" 0 0] by auto
qed

end
