(* ===== verification/Boot.thy ===== *)
theory Boot
  imports Proc_Props
begin

text \<open>
  From reset to the first user instruction: \<open>main\<close> initialises every part of the kernel, creates the
  first process, and starts the scheduler. \<open>before_start\<close> (theory Sched_Ops) is the state of the scheduler
  while there is no current thread yet.
\<close>

section \<open>A first thread, before the scheduler runs\<close>

lemma before_start_inside:
  assumes "inside s' = inside s"
  shows "before_start s' L = before_start s L"
  unfolding before_start_def thread_ok_def pool_def by (simp only: insideD [OF assms])

lemma before_start_init:
  assumes "thread_used s = (\<lambda>_. False)" "active_threads s = 0" "yield_count s = 0" "priority (tcbs s idle_thread) = 0"
  shows "before_start (initialize_scheduler s) (\<lambda>_. [])"
proof -
  have "pool (initialize_scheduler s) = {}" using assms by (simp add: pool_def)
  then show ?thesis using assms initialize_scheduler_struct [of s] by (simp add: before_start_def)
qed

lemma before_start_spawned:
  assumes b: "before_start s L" and k: "k < MAX_THREADS" "\<not> thread_used s k"
  shows "before_start (spawned pcb f k s) L" and "pool (spawned pcb f k s) = insert (thread_pool k) (pool s)"
proof -
  let ?s = "spawned pcb f k s" and ?t = "thread_pool k"
  obtain ctx where fd: "thread_used ?s = (thread_used s)(k := True)"
    "sched_heap ?s = rlnode_init (sched_heap s) (sched_node ?t) (Some ?t)"
    "tcbs ?s = (tcbs s)(?t := new_tcb pcb f ctx)" "active_threads ?s = active_threads s + 1" "yield_count ?s = yield_count s"
    by (simp add: spawned_def case_prod_beta Let_def)
  have B: "sched_struct (sched_heap s) (pool s) L" "\<forall>t\<in>pool s. thread_ok L idle_thread t (tcbs s t)"
    "L TIMEOUT_LIST = []" "priority (tcbs s idle_thread) = 0"
    "active_threads s = of_nat (card {i. i < MAX_THREADS \<and> thread_used s i})" "yield_count s = 0"
    using b by (simp_all add: before_start_def)
  show pool: "pool ?s = insert ?t (pool s)" unfolding pool_def fd(1) using k by auto
  have np: "?t \<notin> pool s" using k by (auto simp: pool_def)
  have un: "sched_node ?t \<notin> set (L l)" if "l \<in> heads" for l using sched_structD(6) [OF B(1) that] np by blast
  have "thread_ok L idle_thread ?t (new_tcb pcb f ctx)" using un by (auto simp: thread_ok_def new_tcb_def)
  then have "\<forall>t\<in>pool ?s. thread_ok L idle_thread t (tcbs ?s t)" unfolding pool fd(3) using B(2) np by auto
  moreover have "sched_struct (sched_heap ?s) (pool ?s) L" unfolding pool fd(2) by (rule struct_new [OF B(1) np])
  moreover have "{i. i < MAX_THREADS \<and> thread_used ?s i} = insert k {i. i < MAX_THREADS \<and> thread_used s i}"
    using k by (auto simp: fd(1))
  then have "active_threads ?s = of_nat (card {i. i < MAX_THREADS \<and> thread_used ?s i})"
    using B(5) k by (simp add: fd(4) add.commute)
  ultimately show "before_start ?s L" using B(3,4,6) fd(3,5) by (simp add: before_start_def)
qed

lemma before_start_wakeup:
  assumes b: "before_start s L" and t: "t \<in> pool s" "tcb_state (tcbs s t) = INIT" "wakeup_time (tcbs s t) = NO_TIMEOUT"
    "phase (tcbs s t) = CTX_CLEAN" "priority (tcbs s t) = 0"
  obtains h where "wakeup t s = Some (upd_tcb t (\<lambda>x. x\<lparr>tcb_state := READY\<rparr>) (s\<lparr>sched_heap := h\<rparr>), 1)"
    "before_start (upd_tcb t (\<lambda>x. x\<lparr>tcb_state := READY\<rparr>) (s\<lparr>sched_heap := h\<rparr>)) (L(SCHED 0 := L (SCHED 0) @ [sched_node t]))"
proof -
  let ?h = "rlist_push_back (sched_heap s) (SCHED 0) (sched_node t)" and ?L = "L(SCHED 0 := L (SCHED 0) @ [sched_node t])"
  let ?s = "upd_tcb t (\<lambda>x. x\<lparr>tcb_state := READY\<rparr>) (s\<lparr>sched_heap := ?h\<rparr>)"
  have B: "sched_struct (sched_heap s) (pool s) L" "\<forall>t\<in>pool s. thread_ok L idle_thread t (tcbs s t)"
    "L TIMEOUT_LIST = []" "priority (tcbs s idle_thread) = 0"
    "active_threads s = of_nat (card {i. i < MAX_THREADS \<and> thread_used s i})" "yield_count s = 0"
    using b by (simp_all add: before_start_def)
  have e: "cpu_disable_interrupts (cpu s) = (cli (cpu s), cpu_interrupts_enabled (cpu s))"
    by (rule cpu_disable_interrupts_eq)
  have "wakeup t s = Some (?s, 1)"
    using t preempt_bracket [of "cpu s"]
    by (auto simp: wakeup_def preempt_off_def preempt_on_def e sched_make_ready_def sched_queue_add_def upd_tcb_def upd_cpu_def
        cpu_enable_interrupts_def Let_def)
  moreover
  have un: "unlisted L t" using thread_okD(3) t(2) B(2) t(1,3) unfolding unlisted_def heads_def thread_ok_def SCHED_QUEUES_def by auto
  have ni: "t \<noteq> idle_thread" using t(1) by (auto simp: pool_def)
  have "sched_struct ?h (pool s) ?L" by (rule struct_push [OF B(1) _ t(1) un]) simp
  moreover have "thread_ok ?L idle_thread u (tcbs ?s u)" if u: "u \<in> pool s" for u
  proof (cases "u = t")
    case True
    have "thread_ok L idle_thread t (tcbs s t)" using B(2) t(1) by blast
    then show ?thesis using True t(2-5) ni un by (auto simp: thread_ok_def upd_tcb_apply unlisted_def)
  next
    case False
    then have "thread_ok ?L idle_thread u (tcbs s u) = thread_ok L idle_thread u (tcbs s u)" by (intro thread_ok_cong) auto
    then show ?thesis using False B(2) u by (simp add: upd_tcb_apply)
  qed
  moreover have "pool ?s = pool s" "active_threads ?s = active_threads s" "thread_used ?s = thread_used s" "yield_count ?s = yield_count s"
    "sched_heap ?s = ?h" "priority (tcbs ?s idle_thread) = priority (tcbs s idle_thread)"
    using ni by (simp_all add: pool_def upd_tcb_def)
  ultimately show thesis using B(3-6) by (intro that [of ?h]) (simp_all add: before_start_def)
qed

section \<open>The parts\<close>

lemma inside_initialize_processes [simp]: "inside (initialize_processes s) = inside s"
proof -
  have "inside (initialize_PCB p s) = inside s" for p s
    unfolding initialize_PCB_def Let_def inside_fields
    by (subst fold_frame [where g = inside]) (simp_all only: inside_fields set_FIDT_def)
  then show ?thesis unfolding initialize_processes_def Let_def inside_fields by (subst fold_frame [where g = inside]) simp_all
qed

lemma cpu_initialize_processes [simp]: "cpu (initialize_processes s) = cpu s"
proof -
  have "cpu (initialize_PCB p s) = cpu s" for p s
    unfolding initialize_PCB_def Let_def by (simp add: upd_pcb_def fold_frame [where g = cpu])
  then show ?thesis by (simp add: initialize_processes_def Let_def upd_pcb_def fold_frame [where g = cpu])
qed

lemma uart_initialize_devices [simp]: "uart_out (cpu (initialize_devices s)) = uart_out (cpu s)"
  by (simp add: initialize_devices_def MAX_TERMINALS_def cpu_interrupt_handler_def)

lemma set_FIDT_idem: "FIDT (PT s p) i = None \<Longrightarrow> set_FIDT p i None s = s"
  by (simp add: set_FIDT_def upd_pcb_def fun_upd_idem)

lemma clear_FIDT_idem: "FIDT (PT s p) = (\<lambda>_. None) \<Longrightarrow> fold (\<lambda>i. set_FIDT p i None) is s = s"
  by (induction "is") (simp_all add: set_FIDT_idem)

lemma initialize_processes_PT:
  assumes "PT s = (\<lambda>_. zero_PCB)"
  shows "PT (initialize_processes s) = (\<lambda>_. zero_PCB)(0 := zero_PCB\<lparr>pstate := ALIVE\<rparr>)"
proof -
  have "PT (initialize_PCB p s) = (\<lambda>_. zero_PCB)" if "PT s = (\<lambda>_. zero_PCB)" for p s
  proof -
    let ?s = "upd_pcb p (\<lambda>pcb. pcb\<lparr>pstate := FREE, argl := 0, args := 0\<rparr>) s"
    have z: "PT ?s = (\<lambda>_. zero_PCB)" using that by (simp add: upd_pcb_def zero_PCB_def fun_eq_iff)
    then have f: "fold (\<lambda>i. set_FIDT p i None) [0..<MAX_FILEID] ?s = ?s" by (intro clear_FIDT_idem) (simp add: zero_PCB_def)
    have u: "PT (upd_pcb p g x) = (PT x)(p := g (PT x p))" for g x by (simp add: upd_pcb_def)
    show ?thesis unfolding initialize_PCB_def Let_def f by (simp add: u that) (simp add: zero_PCB_def fun_eq_iff)
  qed
  then have "PT (fold initialize_PCB ps s) = (\<lambda>_. zero_PCB)" if "PT s = (\<lambda>_. zero_PCB)" for ps s
    using that by (induction ps arbitrary: s) simp_all
  then show ?thesis using assms by (simp add: initialize_processes_def Let_def upd_pcb_def zero_PCB_def fun_eq_iff)
qed

section \<open>The first process\<close>

text \<open>The stack of the first thread, whose initial frame is the only part of the memory above the registers that booting writes.\<close>

definition off_stack :: "kernel \<Rightarrow> u16 \<Rightarrow> bool" where
  "off_stack s a \<longleftrightarrow> \<not> (a - stacks_at s < THREAD_STACK_SIZE)"

lemma spawned_memory:
  assumes "off_stack s a"
  shows "memory_of (cpu (spawned pcb f 0 s)) a = memory_of (cpu s) a"
proof -
  let ?sp = "stacks_at s" and ?d = "stacks_at s + THREAD_STACK_SIZE - 1 - a"
  have small: "unat (255 - e) < 35 \<Longrightarrow> e < 256" for e :: u16 by unat_arith
  have "35 \<le> unat ?d"
  proof (rule ccontr)
    assume "\<not> 35 \<le> unat ?d"
    moreover have "?d = 255 - (a - ?sp)" by (simp add: THREAD_STACK_SIZE_def)
    ultimately have "a - ?sp < 256" using small [of "a - ?sp"] by simp
    then show False using assms by (simp add: off_stack_def THREAD_STACK_SIZE_def)
  qed
  then have "d \<noteq> 0 \<and> d \<noteq> 1 \<and> d \<noteq> 3 \<and> \<not> unat d < 35" if "d = ?d" for d using that [symmetric] by auto
  then have "fst (cpu_initialize_context (stack_of s 0) THREAD_STACK_SIZE (thread_start_at s) (dmem (cpu s))) a = dmem (cpu s) a"
    using cpu_initialize_context_eq(2) [of "stack_of s 0" THREAD_STACK_SIZE "thread_start_at s" "dmem (cpu s)" ?d] unfolding stack_of_def by simp
  then show ?thesis by (simp add: memory_of_def spawned_def case_prod_beta Let_def)
qed

definition first_process :: "Task \<Rightarrow> PCB" where
  "first_process tsk = zero_PCB\<lparr>pstate := ALIVE, main_task := Some tsk, main_thread := Some (thread_pool 0), thread_count := 1\<rparr>"

lemma exec_first:
  assumes b: "before_start s (\<lambda>_. [])" and used: "thread_used s = (\<lambda>_. False)"
    and PT: "PT s = (\<lambda>_. zero_PCB)(0 := zero_PCB\<lparr>pstate := ALIVE\<rparr>)"
  obtains s' L where "sys_Exec (Some tsk) 0 0 s = Some (s', 1)" "before_start s' L" "pool s' = {thread_pool 0}"
    "tcb_state (tcbs s' (thread_pool 0)) = READY" "owner_pcb (tcbs s' (thread_pool 0)) = Some 1"
    "thread_func (tcbs s' (thread_pool 0)) = Some start_main_thread_fn" "PT s' = (PT s)(1 := first_process tsk)"
    "FT s' = FT s" "file_heap s' = file_heap s" "devtable s' = devtable s" "serial_dcbs s' = serial_dcbs s"
    "uart_out (cpu s') = uart_out (cpu s)" "proc_heap s' = proc_heap s"
    "\<forall>a. off_stack s a \<longrightarrow> memory_of (cpu s') a = memory_of (cpu s) a"
proof -
  let ?t = "thread_pool 0"
  define s1 where "s1 = exec_args 1 (Some tsk) 0 0
      (upd_pcb 1 (\<lambda>pcb. pcb\<lparr>parent := None\<rparr>) (upd_pcb 1 (\<lambda>pcb. pcb\<lparr>pstate := ALIVE\<rparr>) s))"
  define s2 where "s2 = upd_pcb 1 (\<lambda>pcb. pcb\<lparr>main_thread := Some ?t\<rparr>) (spawned (Some 1) start_main_thread_fn 0 s1)"
  have p: "first_from (\<lambda>p. pstate (PT s p) = FREE) 0 MAX_PROC = Some 1"
    by (rule first_from_eqI) (simp_all add: PT MAX_PROC_def zero_PCB_def)
  have ins1: "inside s1 = inside s" by (simp add: s1_def)
  have used1: "thread_used s1 = (\<lambda>_. False)" using insideD(2) [OF ins1] used by simp
  have k: "first_from (\<lambda>i. \<not> thread_used s1 i) 0 MAX_THREADS = Some 0"
    by (rule first_from_eqI) (simp_all add: used1 MAX_THREADS_def)
  have b1: "before_start s1 (\<lambda>_. [])" using b before_start_inside [OF ins1] by simp
  note B1 = before_start_spawned [OF b1, of 0 "Some 1" start_main_thread_fn]
  have ins2: "inside s2 = inside (spawned (Some 1) start_main_thread_fn 0 s1)" by (simp add: s2_def)
  have b2: "before_start s2 (\<lambda>_. [])" using B1(1) used1 before_start_inside [OF ins2] by (simp add: MAX_THREADS_def)
  have t2: "owner_pcb (tcbs s2 ?t) = Some 1" by (simp add: s2_def upd_pcb_def)
  obtain s3 where s3: "create_ptcb ?t (Some tsk) 0 (args (PT s2 1)) s2 = Some s3" "inside s3 = inside s2" "PT s3 = PT s2"
    "cpu s3 = cpu s2" "FT s3 = FT s2" "file_heap s3 = file_heap s2" "devtable s3 = devtable s2" "serial_dcbs s3 = serial_dcbs s2"
    "proc_heap s3 = proc_heap s2"
    "\<forall>u. owner_pcb (tcbs s3 u) = owner_pcb (tcbs s2 u) \<and> thread_func (tcbs s3 u) = thread_func (tcbs s2 u)"
    using create_ptcb_frame [OF t2, of "Some tsk" 0 "args (PT s2 1)"] by blast
  define s4 where "s4 = upd_pcb 1 (\<lambda>pcb. pcb\<lparr>thread_count := thread_count pcb + 1\<rparr>) s3"
  have ins4: "inside s4 = inside (spawned (Some 1) start_main_thread_fn 0 s1)" using s3(2) ins2 by (simp add: s4_def)
  have b4: "before_start s4 (\<lambda>_. [])" using B1(1) used1 before_start_inside [OF ins4] by (simp add: MAX_THREADS_def)
  have pool: "pool s4 = {?t}" using B1(2) used1 insideD(2) [OF ins4] by (simp add: pool_def MAX_THREADS_def)
  have sp: "tcb_state (tcbs (spawned (Some 1) start_main_thread_fn 0 s1) ?t) = INIT"
    "wakeup_time (tcbs (spawned (Some 1) start_main_thread_fn 0 s1) ?t) = NO_TIMEOUT"
    "phase (tcbs (spawned (Some 1) start_main_thread_fn 0 s1) ?t) = CTX_CLEAN"
    "priority (tcbs (spawned (Some 1) start_main_thread_fn 0 s1) ?t) = 0"
    by (simp_all add: spawned_def case_prod_beta Let_def new_tcb_def)
  obtain h where h: "wakeup ?t s4 = Some (upd_tcb ?t (\<lambda>x. x\<lparr>tcb_state := READY\<rparr>) (s4\<lparr>sched_heap := h\<rparr>), 1)"
    "before_start (upd_tcb ?t (\<lambda>x. x\<lparr>tcb_state := READY\<rparr>) (s4\<lparr>sched_heap := h\<rparr>))
       ((\<lambda>_. [])(SCHED 0 := [] @ [sched_node ?t]))"
    using before_start_wakeup [OF b4, of ?t] pool sp insideD(7-10) [OF ins4] by (metis insertI1)
  let ?s = "upd_tcb ?t (\<lambda>x. x\<lparr>tcb_state := READY\<rparr>) (s4\<lparr>sched_heap := h\<rparr>)"
  have "exec_main_thread 1 (Some tsk) 0 s1 = Some (?s, True)"
    using s3(1) h(1) by (simp add: exec_main_thread_def spawn_eq [OF k] s2_def s4_def Let_def)
  then have ex: "sys_Exec (Some tsk) 0 0 s = Some (?s, 1)"
    using p by (simp add: sys_Exec_def acquire_PCB_def exec_parent_eq MAX_PROC_def get_pid_def s1_def)
  have "owner_pcb (tcbs ?s ?t) = Some 1" "thread_func (tcbs ?s ?t) = Some start_main_thread_fn" "tcb_state (tcbs ?s ?t) = READY"
    using s3(10) t2 by (simp_all add: upd_tcb_apply s4_def upd_pcb_def s2_def)
  moreover have "pool ?s = {?t}" using pool by (simp add: pool_def)
  moreover have "PT ?s = (PT s)(1 := first_process tsk)"
    by (simp add: s4_def s3(3) s2_def s1_def upd_pcb_def PT first_process_def zero_PCB_def fun_eq_iff)
  moreover have "FT ?s = FT s" "file_heap ?s = file_heap s" "devtable ?s = devtable s" "serial_dcbs ?s = serial_dcbs s"
    "uart_out (cpu ?s) = uart_out (cpu s)" "proc_heap ?s = proc_heap s"
    by (simp_all add: upd_tcb_def s4_def s3(4-9) s2_def s1_def exec_args_def upd_pcb_def)
  moreover have "stacks_at s1 = stacks_at s" "cpu s1 = cpu s" by (simp_all add: s1_def exec_args_def upd_pcb_def)
  then have "\<forall>a. off_stack s a \<longrightarrow> memory_of (cpu ?s) a = memory_of (cpu s) a"
    using spawned_memory [of s1 _ "Some 1" start_main_thread_fn] by (simp add: upd_tcb_def s4_def s3(4) s2_def upd_pcb_def off_stack_def)
  ultimately show thesis using ex h(2) by (intro that)
qed

lemma initialize_children_empty: "p < MAX_PROC \<Longrightarrow> is_rlist_empty (proc_heap (initialize_processes s)) (children_list p)"
proof -
  have f: "proc_heap (fold (\<lambda>i. set_FIDT q i v) is s) = proc_heap s" for q v "is" s
    by (subst fold_frame [where g = proc_heap]) (simp_all add: set_FIDT_def upd_pcb_def)
  have h: "proc_heap (initialize_PCB q s) = rlnode_init (rlnode_init (rlnode_init (rlnode_init (proc_heap s)
      (children_list q) None) (exited_list q) None) (children_node q) (Some q)) (exited_node q) (Some q)" for q s
    by (simp add: initialize_PCB_def Let_def f upd_pcb_def)
  have two: "[0..<MAX_PROC] = [0, 1]" by (simp add: MAX_PROC_def upt_conv_Cons)
  assume "p < MAX_PROC"
  then have "p = 0 \<or> p = 1" by (auto simp: MAX_PROC_def)
  then show ?thesis
    by (auto simp: initialize_processes_def two h upd_pcb_def Let_def is_rlist_empty_def rlnode_init_def rlnode_new_def)
qed

lemma io_only_trans: "io_only c d \<Longrightarrow> io_only d e \<Longrightarrow> io_only c e"
  by (simp add: io_only_def)

lemma main_hardware_only_cpu: "\<exists>c. main_hardware s = s\<lparr>cpu := c\<rparr> \<and> io_only (cpu s) c"
proof -
  have t: "\<exists>c. fold (\<lambda>i. led_toggle) xs (s\<lparr>cpu := d\<rparr>) = s\<lparr>cpu := c\<rparr> \<and> io_only d c" for xs :: "nat list" and d
  proof (induction xs arbitrary: d)
    case (Cons i xs)
    let ?d = "set_reg PORTB (reg d PORTB XOR bitmask PB5) d"
    have "io_only d ?d" by (simp add: PORTB_def)
    then show ?case using Cons [of ?d] io_only_trans by (fastforce simp: led_toggle_def upd_cpu_def)
  qed auto
  let ?d = "set_reg DDRB (reg (cpu s) DDRB OR bitmask PB5) (cpu s)"
  let ?e = "set_reg PORTB (reg ?d PORTB AND NOT (bitmask PB5)) ?d"
  obtain c where c: "fold (\<lambda>i. led_toggle) [0..<4] (s\<lparr>cpu := ?e\<rparr>) = s\<lparr>cpu := c\<rparr>" "io_only ?e c" using t by blast
  have "io_only (cpu s) ?e" by (simp add: PORTB_def DDRB_def)
  then have "io_only (cpu s) (set_reg PORTB (reg c PORTB AND NOT (bitmask PB5)) c)" using io_only_trans [OF _ c(2)] by (simp add: PORTB_def)
  moreover have "main_hardware s = s\<lparr>cpu := set_reg PORTB (reg c PORTB AND NOT (bitmask PB5)) c\<rparr>"
    using c(1) by (simp add: main_hardware_def Let_def led_off_def upd_cpu_def)
  ultimately show ?thesis by blast
qed

lemma memory_put: "put_blocking v ps c = Some (c', ps') \<Longrightarrow> memory_of c' = memory_of c"
proof (induction ps arbitrary: c)
  case (Cons p ps)
  have l: "memory_of (uart_latch p c) = memory_of c" "memory_of (d\<lparr>uart_out := vs\<rparr>) = memory_of d" for d vs
    using io_only_ops(7) [of c p] by (simp_all add: io_only_def memory_of_def fun_eq_iff)
  then show ?case using Cons by (fastforce simp: Let_def split: if_splits)
qed simp

lemma memory_puts: "puts_blocking vs ps c = Some (c', ps') \<Longrightarrow> memory_of c' = memory_of c"
  by (induction vs arbitrary: ps c) (auto split: Option.bind_splits dest: memory_put)

lemma memory_bios_init: "bios_init n ps c = Some (c', ps') \<Longrightarrow> memory_of c' = memory_of c"
proof -
  have "io_only c (bios_init_registers c)" by (simp add: bios_init_registers_def Let_def write_OCR1A_def register_defs)
  then show "bios_init n ps c = Some (c', ps') \<Longrightarrow> ?thesis" by (auto simp: bios_init_def io_only_def dest: memory_puts)
qed

lemma stacks_at_initialize [simp]:
  "stacks_at (initialize_scheduler s) = stacks_at s" "stacks_at (initialize_processes s) = stacks_at s"
  "stacks_at (initialize_files s) = stacks_at s" "stacks_at (initialize_devices s) = stacks_at s"
proof -
  have "stacks_at (initialize_PCB p s) = stacks_at s" for p s
    unfolding initialize_PCB_def Let_def by (simp add: upd_pcb_def set_FIDT_def fold_frame [where g = stacks_at])
  then show "stacks_at (initialize_processes s) = stacks_at s"
    by (simp add: initialize_processes_def Let_def upd_pcb_def fold_frame [where g = stacks_at])
qed (simp_all add: initialize_scheduler_def initialize_files_def initialize_devices_def Let_def upd_fcb_def upd_cpu_def fold_frame [where g = stacks_at])

lemma memory_initialize [simp]:
  "memory_of (cpu (initialize_scheduler s)) = memory_of (cpu s)" "memory_of (cpu (initialize_files s)) = memory_of (cpu s)"
  "memory_of (cpu (initialize_devices s)) = memory_of (cpu s)" "memory_of (cpu (run_scheduler_start s)) = memory_of (cpu s)"
proof -
  have h: "memory_of (cpu_interrupt_handler i g c) = memory_of c" "memory_of (sei c) = memory_of c" for i g c
    using io_only_ops(2) [of c] by (simp_all add: cpu_interrupt_handler_def memory_of_def fun_eq_iff io_only_def)
  show "memory_of (cpu (initialize_scheduler s)) = memory_of (cpu s)" "memory_of (cpu (initialize_files s)) = memory_of (cpu s)"
    by (simp_all add: initialize_scheduler_def initialize_files_def Let_def upd_fcb_def fold_frame [where g = cpu])
  show "memory_of (cpu (initialize_devices s)) = memory_of (cpu s)"
    by (simp add: initialize_devices_def Let_def upd_cpu_def h fold_frame [where g = cpu])
  show "memory_of (cpu (run_scheduler_start s)) = memory_of (cpu s)"
    by (simp add: run_scheduler_start_def preempt_on_def Let_def upd_cpu_def upd_tcb_def cpu_enable_interrupts_def h)
qed

lemma initialize_files_more [simp]: "proc_heap (initialize_files s) = proc_heap s"
  by (simp add: initialize_files_def Let_def upd_fcb_def fold_frame [where g = proc_heap])

lemma initialize_devices_more [simp]: "proc_heap (initialize_devices s) = proc_heap s"
  by (simp add: initialize_devices_def Let_def upd_cpu_def fold_frame [where g = proc_heap])

lemma run_scheduler_start_frame [simp]:
  "PT (run_scheduler_start s) = PT s" "FT (run_scheduler_start s) = FT s" "file_heap (run_scheduler_start s) = file_heap s"
  "proc_heap (run_scheduler_start s) = proc_heap s" "devtable (run_scheduler_start s) = devtable s"
  "serial_dcbs (run_scheduler_start s) = serial_dcbs s" "uart_out (cpu (run_scheduler_start s)) = uart_out (cpu s)"
  "current_thread (run_scheduler_start s) = Some idle_thread" "thread_used (run_scheduler_start s) = thread_used s"
  "t \<noteq> idle_thread \<Longrightarrow> tcbs (run_scheduler_start s) t = tcbs s t"
  by (simp_all add: run_scheduler_start_def preempt_on_def Let_def upd_cpu_def upd_tcb_def cpu_enable_interrupts_def
      cpu_interrupt_handler_def sei_def set_reg_def)

section \<open>The boot theorem\<close>

lemma boot_first_process:
  assumes "bss_cleared s" and "4 \<le> length (filter tx_ready ps)"
  shows "\<exists>s'. boot tsk ps s = Some s' \<and> running_ok s' \<and> file_system_ok s' \<and> orphans s'
    \<and> uart_out (cpu s') = uart_out (cpu s) @ [0x54, 0x4F, 0x53, 0x3E]
    \<and> PT s' = (\<lambda>_. zero_PCB)(0 := zero_PCB\<lparr>pstate := ALIVE\<rparr>, 1 := first_process tsk)
    \<and> (\<forall>a. off_stack s a \<longrightarrow> memory_of (cpu s') a = memory_of (cpu s) a)
    \<and> (\<exists>s''. idle_thread_entry s' = Some s'' \<and> running_ok s'' \<and> outside s'' = outside s' \<and> current_thread s'' = Some (thread_pool 0)
         \<and> cur_pcb s'' = Some 1 \<and> live s'' = {idle_thread, thread_pool 0})"
proof -
  obtain c0 where c0: "main_hardware s = s\<lparr>cpu := c0\<rparr>" "uart_out c0 = uart_out (cpu s)" "memory_of c0 = memory_of (cpu s)"
    using main_hardware_only_cpu by (auto simp: io_only_def)
  have m: "boot_message = [0x54, 0x4F, 0x53, 0x3E]" by (simp add: boot_message_def)
  have u: "uart_out (bios_init_registers c0) = uart_out c0" by (simp add: bios_init_registers_def Let_def write_OCR1A_def)
  obtain c ps' where c: "bios_init 0 ps c0 = Some (c, ps')" "uart_out c = uart_out (cpu s) @ [0x54, 0x4F, 0x53, 0x3E]"
    using puts_blocking_ready [of boot_message ps "bios_init_registers c0"] assms(2) c0(2) u by (auto simp: bios_init_def m)
  define s1 where "s1 = initialize_scheduler (s\<lparr>cpu := c\<rparr>)"
  define s2 where "s2 = initialize_devices (initialize_files (initialize_processes s1))"
  have bss: "thread_used s = (\<lambda>_. False)" "active_threads s = 0" "yield_count s = 0" "tcbs s = (\<lambda>_. zero_TCB)" "PT s = (\<lambda>_. zero_PCB)"
    using assms(1) by (simp_all add: bss_cleared_def)
  have PT1: "PT (initialize_processes s1) = (\<lambda>_. zero_PCB)(0 := zero_PCB\<lparr>pstate := ALIVE\<rparr>)"
    using bss(5) by (intro initialize_processes_PT) (simp add: s1_def)
  have ins: "inside s2 = inside s1" by (simp add: s2_def)
  have b: "before_start s2 (\<lambda>_. [])"
    using before_start_inside [OF ins] before_start_init [of "s\<lparr>cpu := c\<rparr>"] bss by (simp add: s1_def zero_TCB_def)
  have used: "thread_used s2 = (\<lambda>_. False)" using insideD(2) [OF ins] bss(1) by (simp add: s1_def)
  have PT2: "PT s2 = (\<lambda>_. zero_PCB)(0 := zero_PCB\<lparr>pstate := ALIVE\<rparr>)" using PT1 by (simp add: s2_def)
  have fs: "file_system_ok s2" unfolding s2_def by (rule initialize_file_system) (simp add: PT1 zero_PCB_def)
  obtain s3 L where s3: "sys_Exec (Some tsk) 0 0 s2 = Some (s3, 1)" "before_start s3 L" "pool s3 = {thread_pool 0}"
    "tcb_state (tcbs s3 (thread_pool 0)) = READY" "owner_pcb (tcbs s3 (thread_pool 0)) = Some 1"
    "PT s3 = (PT s2)(1 := first_process tsk)" "FT s3 = FT s2" "file_heap s3 = file_heap s2" "devtable s3 = devtable s2"
    "serial_dcbs s3 = serial_dcbs s2" "uart_out (cpu s3) = uart_out (cpu s2)" "proc_heap s3 = proc_heap s2"
    "\<forall>a. off_stack s2 a \<longrightarrow> memory_of (cpu s3) a = memory_of (cpu s2) a"
    using exec_first [OF b used PT2, of tsk] by metis
  let ?s = "run_scheduler_start s3"
  have boot: "boot tsk ps s = Some ?s"
    using c(1) s3(1) by (simp add: boot_def main_kernel_def c0(1) s1_def s2_def Let_def)
  have run: "running_ok ?s" using run_scheduler_start_ok(2,3) [OF s3(2)] by (simp add: running_ok_def)
  have "files_inv ?s xs {} = files_inv s2 xs {}" for xs
    by (rule files_inv_cong) (simp_all add: s3(6-8) PT2 first_process_def zero_PCB_def)
  then have fs': "file_system_ok ?s" using fs by (simp add: file_system_ok_def files_ok_def devices_ok_def s3(9,10))
  have "\<forall>p<MAX_PROC. is_rlist_empty (proc_heap ?s) (children_list p)"
    using initialize_children_empty [of _ s1] by (simp add: s3(12) s2_def)
  then have orph: "orphans ?s" by (simp add: orphans_def s3(6) PT2 first_process_def zero_PCB_def)
  have out: "uart_out (cpu ?s) = uart_out (cpu s) @ [0x54, 0x4F, 0x53, 0x3E]"
    using c(2) by (simp add: s3(11) s2_def s1_def)
  have "off_stack s2 = off_stack s" by (simp add: off_stack_def fun_eq_iff s2_def s1_def)
  then have mem: "\<forall>a. off_stack s a \<longrightarrow> memory_of (cpu ?s) a = memory_of (cpu s) a"
    using s3(13) memory_bios_init [OF c(1)] c0(3) by (simp add: s2_def s1_def)
  have live: "live ?s = {idle_thread, thread_pool 0}" using s3(3) by (auto simp: live_def pool_def)
  obtain r n where r: "yield SCHED_IDLE ?s = Some r" "sched_ok r" "current_thread r = Some n" "n \<noteq> idle_thread"
    "live r = live ?s" "interrupt_handlers (cpu r) = interrupt_handlers (cpu ?s)"
    using yield_to_ready [of ?s idle_thread "thread_pool 0" SCHED_IDLE] run s3(4) live by (auto simp: running_ok_def)
  obtain L' d where "sched_inv r L' d" "current_thread r = Some d" using r(2) by (rule sched_okE)
  then have "n \<in> live r" using sched_invD(4) r(3) by auto
  then have n: "n = thread_pool 0" using r(4,5) live by auto
  have "owner_pcb (tcbs r (thread_pool 0)) = Some 1" using outsideD(10) [OF outside_yield [OF r(1)]] s3(5) by simp
  then have "cur_pcb r = Some 1" using r(3) n by (simp add: cur_pcb_def cur_thread_eq)
  then have "idle_thread_entry ?s = Some r \<and> running_ok r \<and> outside r = outside ?s \<and> current_thread r = Some (thread_pool 0) \<and> cur_pcb r = Some 1
      \<and> live r = {idle_thread, thread_pool 0}"
    using live r run n outside_yield [OF r(1)] by (simp add: idle_thread_entry_def running_ok_def)
  then show ?thesis using boot run fs' orph out mem by (intro exI [of _ ?s]) (simp add: s3(6) PT2)
qed

text \<open>C9. Booting works: from the cleared memory of a reset, once the transmitter has become ready four times,
  \<open>main\<close> gets through all its initialisations with no failure, sends its message, and leaves a kernel in which
  the invariants of the scheduler, the file system and the process table hold; process 1 is alive with the given
  program, and the first thing the idle thread does gives the core to the main thread of process 1.\<close>

theorem boot_starts_the_first_process:
  assumes "bss_cleared s" and "4 \<le> length (filter tx_ready ps)"
  shows "\<exists>s'. boot tsk ps s = Some s' \<and> running_ok s' \<and> file_system_ok s' \<and> orphans s'
    \<and> uart_out (cpu s') = uart_out (cpu s) @ [0x54, 0x4F, 0x53, 0x3E]
    \<and> pstate (PT s' 1) = ALIVE \<and> main_task (PT s' 1) = Some tsk
    \<and> (\<exists>s''. idle_thread_entry s' = Some s'' \<and> running_ok s'' \<and> current_thread s'' = Some (thread_pool 0)
         \<and> cur_pcb s'' = Some 1)"
proof -
  obtain s' s'' where "boot tsk ps s = Some s'" "running_ok s'" "file_system_ok s'" "orphans s'"
    "uart_out (cpu s') = uart_out (cpu s) @ [0x54, 0x4F, 0x53, 0x3E]" "PT s' 1 = first_process tsk" "idle_thread_entry s' = Some s''"
    "running_ok s''" "current_thread s'' = Some (thread_pool 0)" "cur_pcb s'' = Some 1"
    using boot_first_process [OF assms, of tsk] by auto
  then show ?thesis by (intro exI [of _ s']) (simp add: first_process_def)
qed

theorem boot_starts_the_first_process_witness:
  "\<exists>s'. boot 0x400 (replicate 4 \<lparr>status = 0x20, data = 0\<rparr>) blank_kernel = Some s' \<and> running_ok s'
    \<and> main_task (PT s' 1) = Some 0x400"
proof -
  have "tx_ready \<lparr>status = 0x20, data = 0\<rparr>" by (simp add: tx_ready_def UDRE0_def)
  then show ?thesis
    using boot_starts_the_first_process [OF bss_blank, of "replicate 4 \<lparr>status = 0x20, data = 0\<rparr>" "0x400"] by auto
qed

end
