(* ===== verification/First_Program.thy ===== *)
theory First_Program
  imports Boot
begin

text \<open>
  The program that \<open>main\<close> starts, \<open>test_process\<close> of \<open>src/kernel/kernel_init.c\<close>, from the reset of the machine to its output: boot, first
  switch, system calls, file table, device and UART together, with the alarms that interrupt its delays. The program is the only thread
  beside the idle thread, so the core comes back to it from every \<open>yield\<close> and every alarm.
\<close>

section \<open>The program\<close>




section \<open>The only thread\<close>



section \<open>A process with a terminal\<close>











section \<open>One turn\<close>




section \<open>From reset to the terminal\<close>







end
