(* ===== verification/Lib_Stubs.thy ===== *)
theory Lib_Stubs
  imports Cstring
begin

text \<open>
  The rest of the C library of the kernel, \<open>src/lib/stdlib.c\<close>, \<open>stdio.c\<close>, \<open>assert.c\<close>, \<open>errno.c\<close> and \<open>strerror\<close> of \<open>string.c\<close>, and the checks of
  \<open>include/util.h\<close> that are made of them. The state \<open>'s\<close> is whatever the caller works on; a run that does not return is \<open>None\<close>, which is
  what the other theories write for a failed assertion and for \<open>FATAL\<close>.
\<close>

section \<open>The library\<close>

text \<open>\<open>abort\<close> is \<open>while(1);\<close>.\<close>

partial_function (option) abort :: "'s \<Rightarrow> 's option" where
  "abort s = abort s"

definition malloc :: "u16 \<Rightarrow> u16" where
  "malloc n = 0"

definition free :: "u16 \<Rightarrow> 's \<Rightarrow> 's" where
  "free ptr s = s"

definition aligned_alloc :: "u16 \<Rightarrow> u16 \<Rightarrow> u16" where
  "aligned_alloc alignment n = 0"

definition fprintf :: "string \<Rightarrow> string list \<Rightarrow> 's \<Rightarrow> 's \<times> int" where
  "fprintf format xs s = (s, 0)"

definition assert_fail :: "string \<Rightarrow> string \<Rightarrow> nat \<Rightarrow> string \<Rightarrow> 's \<Rightarrow> 's option" where
  "assert_fail assertion file line function_name s = abort s"

definition strerror :: "int \<Rightarrow> string" where
  "strerror errnum = ''Unknown error''"

text \<open>\<open>errno\<close> is a variable of the state; \<open>__errno_location\<close> gives its address.\<close>

definition errno_location :: "u16 \<Rightarrow> u16" where
  "errno_location errno_at = errno_at"

section \<open>Checks\<close>

definition assert_macro :: "bool \<Rightarrow> 's \<Rightarrow> 's option" where
  "assert_macro expr s = (if expr then Some s else assert_fail [] [] 0 [] s)"

definition FATAL :: "string \<Rightarrow> 's \<Rightarrow> 's option" where
  "FATAL msg s = (let (s, r) = fprintf ''FATAL %s(%d):%s: %s'' [msg] s in abort s)"

definition FATALERR :: "int \<Rightarrow> 's \<Rightarrow> 's option" where
  "FATALERR errcode s = FATAL (strerror errcode) s"

definition CHECKRC :: "('s \<Rightarrow> 's \<times> int) \<Rightarrow> 's \<Rightarrow> 's option" where
  "CHECKRC cmd s = (let (s, rc) = cmd s in if rc \<noteq> 0 then FATALERR rc s else Some s)"

definition CHECK :: "('s \<Rightarrow> int) \<Rightarrow> ('s \<Rightarrow> 's \<times> int) \<Rightarrow> 's \<Rightarrow> 's option" where
  "CHECK errno cmd s = (let (s, r) = cmd s in if r = -1 then FATALERR (errno s) s else Some s)"

definition CHECK_CONDITION :: "bool \<Rightarrow> 's \<Rightarrow> 's option" where
  "CHECK_CONDITION expr s = (if \<not> expr then FATAL ''Failed constraint: '' s else Some s)"

definition xmalloc :: "u16 \<Rightarrow> 's \<Rightarrow> ('s \<times> u16) option" where
  "xmalloc n s =
     (let v = malloc n
      in if v = 0 then do { s \<leftarrow> FATAL ''virtual memory exhausted'' s; Some (s, v) } else Some (s, v))"

section \<open>Functions of the port that do nothing\<close>

text \<open>With one core there is nobody to wait for, to interrupt or to restart, and a mutex is never contended: the calls of
  \<open>src/arch/avr/cpu.c\<close> for this have empty bodies.\<close>

definition cpu_core_barrier_sync :: "'s \<Rightarrow> 's" where
  "cpu_core_barrier_sync s = s"

definition cpu_ici :: "nat \<Rightarrow> 's \<Rightarrow> 's" where
  "cpu_ici n s = s"

definition cpu_core_restart :: "nat \<Rightarrow> 's \<Rightarrow> 's" where
  "cpu_core_restart c s = s"

definition cpu_core_restart_one :: "'s \<Rightarrow> 's" where
  "cpu_core_restart_one s = s"

definition cpu_core_restart_all :: "'s \<Rightarrow> 's" where
  "cpu_core_restart_all s = s"

definition Mutex_Lock_avr :: "u16 \<Rightarrow> 's \<Rightarrow> 's" where
  "Mutex_Lock_avr mx s = s"

definition Mutex_Unlock_avr :: "u16 \<Rightarrow> 's \<Rightarrow> 's" where
  "Mutex_Unlock_avr mx s = s"

definition bios_serial_interrupt_core :: "nat \<Rightarrow> nat \<Rightarrow> nat \<Rightarrow> 's \<Rightarrow> 's" where
  "bios_serial_interrupt_core serial intno n s = s"

section \<open>What returns\<close>

lemma abort_never_returns [simp]: "abort s = None"
proof -
  have "abort s = Some t \<Longrightarrow> False" for t by (rule abort.raw_induct) auto
  then show ?thesis by (cases "abort s") auto
qed

lemma FATAL_never_returns [simp]: "FATAL msg s = None" "FATALERR n s = None"
  by (simp_all add: FATAL_def FATALERR_def fprintf_def)

text \<open>A check returns exactly when what it checks is right, and changes nothing beyond the checked call. With the library of this
  kernel, which has no allocator, \<open>xmalloc\<close> never returns.\<close>

lemma check_macros:
  "assert_macro expr s = (if expr then Some s else None)"
  "CHECKRC cmd s = (if snd (cmd s) = 0 then Some (fst (cmd s)) else None)"
  "CHECK errno cmd s = (if snd (cmd s) = -1 then None else Some (fst (cmd s)))"
  "CHECK_CONDITION expr s = (if expr then Some s else None)"
  "xmalloc n s = None"
  by (simp_all add: assert_macro_def assert_fail_def CHECKRC_def CHECK_def CHECK_CONDITION_def xmalloc_def malloc_def case_prod_beta)

end
