(* ===== verification/Mutex.thy ===== *)
theory Mutex
  imports Prelude
begin

text \<open>
  The preemption-aware mutex of the earlier kernel, \<open>Mutex_Lock\<close> and \<open>Mutex_Unlock\<close> of \<open>old/kernel_cc.c\<close>, for any
  number of threads on any number of cores. A step is one access to the lock word: the atomic test-and-set, the load of
  the inner loop, the clear.
\<close>

section \<open>State and steps\<close>

text \<open>Where a thread is: outside, before the test-and-set, in the inner loop with its counter \<open>spin\<close>, or past \<open>Mutex_Lock\<close>.\<close>

datatype mutex_pc = Outside | Before_test | Spinning nat | Inside

record mutex_system =
  lock_word :: bool
  pc_of :: "nat \<Rightarrow> mutex_pc"
  yields_of :: "nat \<Rightarrow> nat"

definition MUTEX_SPINS :: "nat \<Rightarrow> nat" where
  "MUTEX_SPINS cpu_cores = (if cpu_cores > 1 then 1000 else 10000)"

definition set_pc :: "nat \<Rightarrow> mutex_pc \<Rightarrow> mutex_system \<Rightarrow> mutex_system" where
  "set_pc t p s = s\<lparr>pc_of := (pc_of s)(t := p)\<rparr>"

text \<open>One step of thread \<open>t\<close> in \<open>Mutex_Lock\<close>; \<open>ints\<close> is \<open>cpu_interrupts_enabled()\<close> of its core.\<close>

definition Mutex_Lock_step :: "nat \<Rightarrow> bool \<Rightarrow> nat \<Rightarrow> mutex_system \<Rightarrow> mutex_system" where
  "Mutex_Lock_step cores ints t s =
     (case pc_of s t of
        Before_test \<Rightarrow>
          (if lock_word s then set_pc t (Spinning (MUTEX_SPINS cores)) s
           else (set_pc t Inside s)\<lparr>lock_word := True\<rparr>)
      | Spinning spin \<Rightarrow>
          (if \<not> lock_word s then set_pc t Before_test s
           else if spin > 0 then set_pc t (Spinning (spin - 1)) s
           else (let s = set_pc t (Spinning (MUTEX_SPINS cores)) s
                 in if ints then s\<lparr>yields_of := (yields_of s)(t := yields_of s t + 1)\<rparr> else s))
      | _ \<Rightarrow> s)"

definition Mutex_Unlock :: "nat \<Rightarrow> mutex_system \<Rightarrow> mutex_system" where
  "Mutex_Unlock t s = (set_pc t Outside s)\<lparr>lock_word := False\<rparr>"

text \<open>A thread calls \<open>Mutex_Lock\<close> when it is outside and \<open>Mutex_Unlock\<close> when it is inside.\<close>

inductive mstep :: "nat \<Rightarrow> mutex_system \<Rightarrow> mutex_system \<Rightarrow> bool" for cores where
  m_call: "pc_of s t = Outside \<Longrightarrow> mstep cores s (set_pc t Before_test s)"
| m_lock: "pc_of s t \<noteq> Outside \<Longrightarrow> pc_of s t \<noteq> Inside \<Longrightarrow> mstep cores s (Mutex_Lock_step cores ints t s)"
| m_unlock: "pc_of s t = Inside \<Longrightarrow> mstep cores s (Mutex_Unlock t s)"

section \<open>Mutual exclusion\<close>

definition mutex_inv :: "mutex_system \<Rightarrow> bool" where
  "mutex_inv s \<longleftrightarrow> (lock_word s \<longleftrightarrow> (\<exists>t. pc_of s t = Inside)) \<and> (\<forall>t u. pc_of s t = Inside \<and> pc_of s u = Inside \<longrightarrow> t = u)"

text \<open>Moves of a thread that is not inside.\<close>

lemma mutex_inv_moves [simp]:
  "mutex_inv (s\<lparr>yields_of := y\<rparr>) = mutex_inv s"
  "pc_of s t \<noteq> Inside \<Longrightarrow> p \<noteq> Inside \<Longrightarrow> mutex_inv (set_pc t p s) = mutex_inv s"
proof -
  show "mutex_inv (s\<lparr>yields_of := y\<rparr>) = mutex_inv s" by (simp add: mutex_inv_def)
  assume "pc_of s t \<noteq> Inside" "p \<noteq> Inside"
  then have "pc_of (set_pc t p s) u = Inside \<longleftrightarrow> pc_of s u = Inside" for u by (simp add: set_pc_def)
  then show "mutex_inv (set_pc t p s) = mutex_inv s" by (simp add: mutex_inv_def) (simp add: set_pc_def)
qed

lemma mstep_keeps: "mstep cores s s' \<Longrightarrow> mutex_inv s \<Longrightarrow> mutex_inv s'"
proof (induction rule: mstep.induct)
  case (m_lock s t ints)
  show ?case
  proof (cases "pc_of s t = Before_test \<and> \<not> lock_word s")
    case True
    then show ?thesis using m_lock by (auto simp: mutex_inv_def set_pc_def Mutex_Lock_step_def)
  next
    case False
    then show ?thesis using m_lock by (cases "pc_of s t") (auto simp: Mutex_Lock_step_def Let_def)
  qed
next
  case (m_unlock s t)
  then show ?case by (auto simp: mutex_inv_def set_pc_def Mutex_Unlock_def)
qed simp

interpretation mtx: invariant_system "mstep cores" mutex_inv for cores
  by unfold_locales (rule mstep_keeps)

definition mutex_init :: mutex_system where
  "mutex_init = \<lparr>lock_word = False, pc_of = (\<lambda>_. Outside), yields_of = (\<lambda>_. 0)\<rparr>"

lemma mutex_init_inv: "mutex_inv mutex_init"
  by (simp add: mutex_inv_def mutex_init_def)

section \<open>Progress\<close>

abbreviation lock_steps :: "nat \<Rightarrow> bool \<Rightarrow> nat \<Rightarrow> nat \<Rightarrow> mutex_system \<Rightarrow> mutex_system" where
  "lock_steps n ints cores t s \<equiv> (Mutex_Lock_step cores ints t ^^ n) s"

text \<open>While the lock is taken, \<open>spin\<close> loads use the counter up, and one more starts it again with a yield.\<close>

lemma spin_down:
  assumes "lock_word s" and "pc_of s t = Spinning spin"
  shows "lock_steps spin ints cores t s = set_pc t (Spinning 0) s"
  using assms
proof (induction spin arbitrary: s)
  case 0
  then show ?case by (simp add: set_pc_def fun_upd_idem)
next
  case (Suc spin)
  have "Mutex_Lock_step cores ints t s = set_pc t (Spinning spin) s" using Suc.prems by (simp add: Mutex_Lock_step_def)
  then show ?case using Suc.IH [of "set_pc t (Spinning spin) s"] Suc.prems(1) by (simp add: funpow_Suc_right set_pc_def del: funpow.simps)
qed

text \<open>C33. The mutex excludes and does not lock up. From the free mutex, whatever the interleaving of any number of
  threads: at most one thread is inside, and the lock word is set exactly when one is; a thread in \<open>Mutex_Lock\<close> that finds the lock
  free is inside after at most two steps of its own; and one that finds the lock taken yields the core, if its interrupts
  are enabled, once in every \<open>MUTEX_SPINS\<close> + 1 loads, so that a holder on the same core can go on.\<close>

theorem mutex_correct:
  assumes "(mstep cores)\<^sup>*\<^sup>* mutex_init s"
  shows "(\<forall>u v. pc_of s u = Inside \<and> pc_of s v = Inside \<longrightarrow> u = v) \<and> (lock_word s \<longleftrightarrow> (\<exists>u. pc_of s u = Inside))
    \<and> (\<not> lock_word s \<and> pc_of s t \<noteq> Outside \<longrightarrow> (\<exists>n\<le>2. pc_of (lock_steps n ints cores t s) t = Inside))
    \<and> (\<forall>spin. lock_word s \<and> pc_of s t = Spinning spin \<longrightarrow>
         lock_steps (spin + 1) ints cores t s
           = (set_pc t (Spinning (MUTEX_SPINS cores)) s)\<lparr>yields_of := (yields_of s)(t := yields_of s t + of_bool ints)\<rparr>)"
proof -
  have inv: "mutex_inv s" using mtx.reachable_keeps [OF assms mutex_init_inv] .
  have "\<exists>n\<le>2. pc_of (lock_steps n ints cores t s) t = Inside" if free: "\<not> lock_word s" "pc_of s t \<noteq> Outside"
  proof (cases "pc_of s t")
    case Before_test
    then have "pc_of (lock_steps 1 ints cores t s) t = Inside" using free by (simp add: Mutex_Lock_step_def set_pc_def)
    then show ?thesis by (intro exI [of _ 1]) simp
  next
    case (Spinning spin)
    then have "pc_of (lock_steps 2 ints cores t s) t = Inside" using free by (simp add: Mutex_Lock_step_def set_pc_def numeral_2_eq_2)
    then show ?thesis by (intro exI [of _ 2]) simp
  qed (use free inv in \<open>auto simp: mutex_inv_def\<close>)
  moreover have "lock_steps (spin + 1) ints cores t s
      = (set_pc t (Spinning (MUTEX_SPINS cores)) s)\<lparr>yields_of := (yields_of s)(t := yields_of s t + of_bool ints)\<rparr>"
    if "lock_word s" "pc_of s t = Spinning spin" for spin
    using that by (auto simp: spin_down Mutex_Lock_step_def set_pc_def Let_def fun_upd_idem)
  ultimately show ?thesis using inv by (auto simp: mutex_inv_def)
qed

theorem mutex_correct_witness:
  "\<exists>s. (mstep 1)\<^sup>*\<^sup>* mutex_init s \<and> pc_of s 0 = Inside \<and> pc_of s 1 = Spinning 10000 \<and> yields_of (lock_steps 10001 True 1 1 s) 1 = 1"
proof -
  let ?a = "set_pc 0 Before_test mutex_init" and ?b = "\<lambda>s. set_pc 1 Before_test s" and ?l = "\<lambda>t. Mutex_Lock_step 1 True t"
  let ?s = "?l 1 (?b (?l 0 ?a))"
  have st: "mstep 1 mutex_init ?a" "mstep 1 ?a (?l 0 ?a)" "mstep 1 (?l 0 ?a) (?b (?l 0 ?a))" "mstep 1 (?b (?l 0 ?a)) ?s"
    by (intro m_call m_lock; simp add: mutex_init_def set_pc_def Mutex_Lock_step_def)+
  then have r: "(mstep 1)\<^sup>*\<^sup>* mutex_init ?s" by (meson converse_rtranclp_into_rtranclp rtranclp.rtrancl_refl)
  have p: "pc_of ?s 0 = Inside" "pc_of ?s 1 = Spinning 10000" "lock_word ?s" "yields_of ?s 1 = 0"
    by (simp_all add: mutex_init_def set_pc_def Mutex_Lock_step_def MUTEX_SPINS_def)
  have "lock_steps (10000 + 1) True 1 1 ?s
      = (set_pc 1 (Spinning (MUTEX_SPINS 1)) ?s)\<lparr>yields_of := (yields_of ?s)(1 := yields_of ?s 1 + of_bool True)\<rparr>"
    using mutex_correct [OF r, of 1 True] p(2,3) by blast
  then have "yields_of (lock_steps 10001 True 1 1 ?s) 1 = 1" using p(4) by simp
  then show ?thesis using r p by blast
qed

end
