(* ===== verification/Condvar.thy ===== *)
theory Condvar
  imports Sched_Frame
begin

text \<open>
  Condition variables and the kernel semaphore of the earlier kernel, \<open>old/kernel_cc.c\<close>. The scheduler of that kernel is not part of
  the repository: its state and its two functions that are called here are parameters. \<open>kernel_sched\<close> is the scheduler of
  \<open>src/kernel/kernel_sched.c\<close>, which has the same interface.

  A thread that waits keeps a \<open>__cv_waiter\<close> on its stack, known here by a number; the \<open>node\<close>s of the waiters
  form rings without a sentinel, one for each condition variable, whose \<open>waitset\<close> points to the first waiter. Every
  function here runs with the lock that protects the waitset held (theory Mutex). What happens while
  a thread sleeps is input, a \<open>cv_pause\<close>.
\<close>

section \<open>State\<close>

text \<open>A scheduler with states \<open>'k\<close> and threads \<open>'t\<close>: \<open>sleep_releasing\<close> called by a thread, and \<open>wakeup\<close>.\<close>

record ('t, 'k) sched =
  sleep_op :: "'t \<Rightarrow> Thread_state \<Rightarrow> SCHED_CAUSE \<Rightarrow> u32 \<Rightarrow> 'k \<Rightarrow> 'k option"
  wakeup_op :: "'t \<Rightarrow> 'k \<Rightarrow> ('k \<times> int) option"

definition kernel_sched :: "(tcb_ptr, kernel) sched" where
  "kernel_sched = \<lparr>sleep_op = (\<lambda>t. sleep_releasing), wakeup_op = wakeup\<rparr>"

record 't cv_waiter =
  w_thread :: 't
  signalled :: bool
  removed :: bool

datatype cv_name = kernel_sem_cv | user_cv nat

record ('t, 'k) cvs =
  cv_kernel :: 'k
  cv_ring :: "(nat, nat) rlheap"
  waiters :: "nat \<Rightarrow> 't cv_waiter"
  waitset :: "cv_name \<Rightarrow> nat option"
  kernel_sem :: int

type_synonym condvars = "(tcb_ptr, kernel) cvs"
type_synonym ('t, 'k) cv_pause = "('t, 'k) cvs \<Rightarrow> ('t, 'k) cvs"

definition upd_waiter :: "nat \<Rightarrow> ('t cv_waiter \<Rightarrow> 't cv_waiter) \<Rightarrow> ('t, 'k) cvs \<Rightarrow> ('t, 'k) cvs" where
  "upd_waiter w f s = s\<lparr>waiters := (waiters s)(w := f (waiters s w))\<rparr>"

section \<open>Waiting and signalling\<close>

text \<open>\<open>S\<close> is the scheduler and \<open>t\<close> the thread that makes the call, \<open>cur_thread()\<close>.\<close>

definition remove_from_ring :: "cv_name \<Rightarrow> nat \<Rightarrow> ('t, 'k) cvs \<Rightarrow> ('t, 'k) cvs" where
  "remove_from_ring cv w s =
     (let s = (if waitset s cv = Some w then
                 (let nextw = key (cv_ring s) (nxt (cv_ring s) w)
                  in s\<lparr>waitset := (waitset s)(cv := if nextw = w then None else Some nextw)\<rparr>)
               else s)
      in s\<lparr>cv_ring := rlist_remove (cv_ring s) w\<rparr>)"

text \<open>\<open>cv_wait\<close> before the thread goes to sleep \dots\<close>

definition cv_enqueue :: "cv_name \<Rightarrow> nat \<Rightarrow> 't \<Rightarrow> ('t, 'k) cvs \<Rightarrow> ('t, 'k) cvs" where
  "cv_enqueue cv w t s =
     (let s = upd_waiter w (\<lambda>_. \<lparr>w_thread = t, signalled = False, removed = False\<rparr>) s;
          s = s\<lparr>cv_ring := rlnode_init (cv_ring s) w w\<rparr>
      in case waitset s cv of
           Some wset \<Rightarrow> s\<lparr>cv_ring := rlist_push_back (cv_ring s) wset w\<rparr>
         | None \<Rightarrow> s\<lparr>waitset := (waitset s)(cv := Some w)\<rparr>)"

text \<open>\dots and after it has been woken. The assertion fails with \<open>None\<close>.\<close>

definition cv_leave :: "cv_name \<Rightarrow> nat \<Rightarrow> ('t, 'k) cvs \<Rightarrow> (('t, 'k) cvs \<times> bool) option" where
  "cv_leave cv w s =
     (if \<not> removed (waiters s w) then
        (if signalled (waiters s w) then None
         else let s = remove_from_ring cv w s in Some (s, signalled (waiters s w)))
      else Some (s, signalled (waiters s w)))"

definition cv_wait :: "('t, 'k) sched \<Rightarrow> 't \<Rightarrow> cv_name \<Rightarrow> SCHED_CAUSE \<Rightarrow> u32 \<Rightarrow> nat \<Rightarrow> ('t, 'k) cv_pause \<Rightarrow> ('t, 'k) cvs \<Rightarrow> (('t, 'k) cvs \<times> bool) option" where
  "cv_wait S t cv cause timeout w r s = do {
     let s = cv_enqueue cv w t s;
     k \<leftarrow> sleep_op S t STOPPED cause timeout (cv_kernel s);
     cv_leave cv w (r (s\<lparr>cv_kernel := k\<rparr>)) }"

partial_function (option) cv_signal :: "('t, 'k) sched \<Rightarrow> cv_name \<Rightarrow> ('t, 'k) cvs \<Rightarrow> ('t, 'k) cvs option" where
  "cv_signal S cv s =
     (case waitset s cv of
        None \<Rightarrow> Some s
      | Some w \<Rightarrow> do {
          let s = remove_from_ring cv w s;
          let s = upd_waiter w (\<lambda>x. x\<lparr>removed := True\<rparr>) s;
          (k, ret) \<leftarrow> wakeup_op S (w_thread (waiters s w)) (cv_kernel s);
          let s = s\<lparr>cv_kernel := k\<rparr>;
          if ret \<noteq> 0 then Some (upd_waiter w (\<lambda>x. x\<lparr>signalled := True\<rparr>) s) else cv_signal S cv s })"

definition Cond_Wait :: "('t, 'k) sched \<Rightarrow> 't \<Rightarrow> cv_name \<Rightarrow> nat \<Rightarrow> ('t, 'k) cv_pause \<Rightarrow> ('t, 'k) cvs \<Rightarrow> (('t, 'k) cvs \<times> bool) option" where
  "Cond_Wait S t cv w r s = cv_wait S t cv SCHED_USER NO_TIMEOUT w r s"

definition Cond_TimedWait :: "('t, 'k) sched \<Rightarrow> 't \<Rightarrow> cv_name \<Rightarrow> u32 \<Rightarrow> nat \<Rightarrow> ('t, 'k) cv_pause \<Rightarrow> ('t, 'k) cvs \<Rightarrow> (('t, 'k) cvs \<times> bool) option" where
  "Cond_TimedWait S t cv timeout w r s = cv_wait S t cv SCHED_USER (timeout * 1000) w r s"

definition Cond_Signal :: "('t, 'k) sched \<Rightarrow> cv_name \<Rightarrow> ('t, 'k) cvs \<Rightarrow> ('t, 'k) cvs option" where
  "Cond_Signal S cv s = cv_signal S cv s"

partial_function (option) Cond_Broadcast :: "('t, 'k) sched \<Rightarrow> cv_name \<Rightarrow> ('t, 'k) cvs \<Rightarrow> ('t, 'k) cvs option" where
  "Cond_Broadcast S cv s =
     (if waitset s cv \<noteq> None then do { s \<leftarrow> cv_signal S cv s; Cond_Broadcast S cv s } else Some s)"

section \<open>The kernel semaphore\<close>

text \<open>\<open>while (kernel_sem <= 0) Cond_Wait(...)\<close>, over the waiters and pauses of the waits to come.\<close>

fun wait_kernel_sem :: "('t, 'k) sched \<Rightarrow> 't \<Rightarrow> (nat \<times> ('t, 'k) cv_pause) list \<Rightarrow> ('t, 'k) cvs \<Rightarrow> ('t, 'k) cvs option" where
  "wait_kernel_sem S t [] s = (if kernel_sem s \<le> 0 then None else Some s)"
| "wait_kernel_sem S t ((w, r) # wrs) s =
     (if kernel_sem s \<le> 0 then do { (s, b) \<leftarrow> Cond_Wait S t kernel_sem_cv w r s; wait_kernel_sem S t wrs s } else Some s)"

definition kernel_lock_sem :: "('t, 'k) sched \<Rightarrow> 't \<Rightarrow> (nat \<times> ('t, 'k) cv_pause) list \<Rightarrow> ('t, 'k) cvs \<Rightarrow> ('t, 'k) cvs option" where
  "kernel_lock_sem S t wrs s = do { s \<leftarrow> wait_kernel_sem S t wrs s; Some (s\<lparr>kernel_sem := kernel_sem s - 1\<rparr>) }"

definition kernel_unlock_sem :: "('t, 'k) sched \<Rightarrow> ('t, 'k) cvs \<Rightarrow> ('t, 'k) cvs option" where
  "kernel_unlock_sem S s = Cond_Signal S kernel_sem_cv (s\<lparr>kernel_sem := kernel_sem s + 1\<rparr>)"

definition kernel_wait_wchan ::
    "('t, 'k) sched \<Rightarrow> 't \<Rightarrow> cv_name \<Rightarrow> SCHED_CAUSE \<Rightarrow> u32 \<Rightarrow> nat \<Rightarrow> ('t, 'k) cv_pause \<Rightarrow> (nat \<times> ('t, 'k) cv_pause) list \<Rightarrow> ('t, 'k) cvs \<Rightarrow> (('t, 'k) cvs \<times> bool) option" where
  "kernel_wait_wchan S t cv cause timeout w r wrs s = do {
     s \<leftarrow> Cond_Signal S kernel_sem_cv (s\<lparr>kernel_sem := kernel_sem s + 1\<rparr>);
     (s, ret) \<leftarrow> cv_wait S t cv cause timeout w r s;
     s \<leftarrow> wait_kernel_sem S t wrs s;
     Some (s\<lparr>kernel_sem := kernel_sem s - 1\<rparr>, ret) }"

definition kernel_signal :: "('t, 'k) sched \<Rightarrow> cv_name \<Rightarrow> ('t, 'k) cvs \<Rightarrow> ('t, 'k) cvs option" where
  "kernel_signal S cv s = Cond_Signal S cv s"

definition kernel_broadcast_cv :: "('t, 'k) sched \<Rightarrow> cv_name \<Rightarrow> ('t, 'k) cvs \<Rightarrow> ('t, 'k) cvs option" where
  "kernel_broadcast_cv S cv s = Cond_Broadcast S cv s"

definition kernel_sleep :: "('t, 'k) sched \<Rightarrow> 't \<Rightarrow> Thread_state \<Rightarrow> SCHED_CAUSE \<Rightarrow> ('t, 'k) cvs \<Rightarrow> ('t, 'k) cvs option" where
  "kernel_sleep S t newstate cause s = do {
     s \<leftarrow> Cond_Signal S kernel_sem_cv (s\<lparr>kernel_sem := kernel_sem s + 1\<rparr>);
     k \<leftarrow> sleep_op S t newstate cause NO_TIMEOUT (cv_kernel s);
     Some (s\<lparr>cv_kernel := k\<rparr>) }"

section \<open>The ring of waiters\<close>

definition cv_inv :: "condvars \<Rightarrow> cv_name \<Rightarrow> nat list \<Rightarrow> bool" where
  "cv_inv s cv ws \<longleftrightarrow> waitset s cv = (case ws of [] \<Rightarrow> None | w # _ \<Rightarrow> Some w) \<and> (ws \<noteq> [] \<longrightarrow> ring (cv_ring s) ws)
     \<and> (\<forall>w\<in>set ws. key (cv_ring s) w = w \<and> \<not> removed (waiters s w) \<and> w_thread (waiters s w) \<in> live (cv_kernel s))"

definition blocked :: "condvars \<Rightarrow> nat \<Rightarrow> bool" where
  "blocked s w \<longleftrightarrow> tcb_state (tcbs (cv_kernel s) (w_thread (waiters s w))) \<in> {STOPPED, INIT}"

lemma remove_first_ring:
  assumes "ring h (w # v # vs)"
  shows "ring (rlist_remove h w) (v # vs)"
proof -
  have "rlist h v (vs @ w # [])" using assms ring_rotate [of h "[w]" "v # vs"] by (simp add: rlist_def)
  from rlist_remove_node(1) [OF this] show ?thesis by (simp add: rlist_def)
qed

lemma remove_from_ring_inv:
  assumes inv: "cv_inv s cv (w # ws)"
  shows "cv_inv (upd_waiter w (\<lambda>x. x\<lparr>removed := True\<rparr>) (remove_from_ring cv w s)) cv ws"
    and "cv_kernel (remove_from_ring cv w s) = cv_kernel s" "waiters (remove_from_ring cv w s) = waiters s"
proof -
  have r: "ring (cv_ring s) (w # ws)" "waitset s cv = Some w"
    and ok: "\<forall>u\<in>set (w # ws). key (cv_ring s) u = u \<and> \<not> removed (waiters s u) \<and> w_thread (waiters s u) \<in> live (cv_kernel s)"
    using inv by (simp_all add: cv_inv_def)
  have nx: "nxt (cv_ring s) w = hd (ws @ [w])" using r(1) by (simp add: ring_Cons)
  have d: "w \<notin> set ws" using ring_distinct [OF r(1)] by simp
  show kw: "cv_kernel (remove_from_ring cv w s) = cv_kernel s" "waiters (remove_from_ring cv w s) = waiters s"
    by (simp_all add: remove_from_ring_def Let_def)
  have "waitset (remove_from_ring cv w s) cv = (case ws of [] \<Rightarrow> None | v # _ \<Rightarrow> Some v)"
    using r(2) nx ok d by (cases ws) (auto simp: remove_from_ring_def Let_def)
  moreover have "ws \<noteq> [] \<Longrightarrow> ring (cv_ring (remove_from_ring cv w s)) ws"
    using r(1) remove_first_ring [of "cv_ring s" w] by (cases ws) (simp_all add: remove_from_ring_def Let_def)
  moreover have "key (cv_ring (remove_from_ring cv w s)) = key (cv_ring s)"
    by (simp add: remove_from_ring_def Let_def rlist_remove_def)
  ultimately show "cv_inv (upd_waiter w (\<lambda>x. x\<lparr>removed := True\<rparr>) (remove_from_ring cv w s)) cv ws"
    using ok d kw by (auto simp: cv_inv_def upd_waiter_def)
qed

lemma cv_inv_kernel:
  "cv_inv s cv ws \<Longrightarrow> live k = live (cv_kernel s) \<Longrightarrow> cv_inv (s\<lparr>cv_kernel := k\<rparr>) cv ws"
  by (simp add: cv_inv_def)

lemma cv_inv_signalled:
  "cv_inv s cv ws \<Longrightarrow> w \<notin> set ws \<Longrightarrow> cv_inv (upd_waiter w (\<lambda>x. x\<lparr>signalled := True\<rparr>) s) cv ws"
  by (auto simp: cv_inv_def upd_waiter_def)

definition signal_result :: "condvars \<Rightarrow> cv_name \<Rightarrow> nat list \<Rightarrow> condvars \<Rightarrow> bool" where
  "signal_result s cv ws s' \<longleftrightarrow> sched_ok (cv_kernel s') \<and> live (cv_kernel s') = live (cv_kernel s)
     \<and> (\<forall>u. w_thread (waiters s' u) = w_thread (waiters s u))
     \<and> (case dropWhile (\<lambda>w. \<not> blocked s w) ws of
          [] \<Rightarrow> cv_inv s' cv [] \<and> tcbs (cv_kernel s') = tcbs (cv_kernel s)
        | w # vs \<Rightarrow> cv_inv s' cv vs \<and> removed (waiters s' w) \<and> signalled (waiters s' w)
            \<and> tcbs (cv_kernel s') = (tcbs (cv_kernel s))(w_thread (waiters s w) := make_ready_tcb (tcbs (cv_kernel s) (w_thread (waiters s w)))))"

lemma cv_signal_spec:
  "cv_inv s cv ws \<Longrightarrow> sched_ok (cv_kernel s) \<Longrightarrow> \<exists>s'. cv_signal kernel_sched cv s = Some s' \<and> signal_result s cv ws s'"
proof (induction ws arbitrary: s)
  case Nil
  then show ?case by (simp add: cv_signal.simps [of kernel_sched cv s] signal_result_def cv_inv_def)
next
  case (Cons w ws)
  define s1 where "s1 = upd_waiter w (\<lambda>x. x\<lparr>removed := True\<rparr>) (remove_from_ring cv w s)"
  note R = remove_from_ring_inv [OF Cons.prems(1)]
  have ws: "waitset s cv = Some w" "w_thread (waiters s w) \<in> live (cv_kernel s)" "w \<notin> set ws"
    using Cons.prems(1) ring_distinct [of "cv_ring s" "w # ws"] by (auto simp: cv_inv_def)
  have inv1: "cv_inv s1 cv ws" using R(1) by (simp add: s1_def)
  have f1: "cv_kernel s1 = cv_kernel s" "w_thread (waiters s1 u) = w_thread (waiters s u)" "removed (waiters s1 w)" for u
    using R(2,3) by (simp_all add: s1_def upd_waiter_def)
  let ?t = "w_thread (waiters s w)"
  let ?up = "tcb_state (tcbs (cv_kernel s) ?t) = STOPPED \<or> tcb_state (tcbs (cv_kernel s) ?t) = INIT"
  from wakeup_ok [OF Cons.prems(2) ws(2)] obtain k where k: "wakeup ?t (cv_kernel s) = Some (k, if ?up then 1 else 0)"
    "sched_ok k" "live k = live (cv_kernel s)"
    "tcbs k = (tcbs (cv_kernel s))(?t := (if ?up then make_ready_tcb (tcbs (cv_kernel s) ?t) else tcbs (cv_kernel s) ?t))" by blast
  have b: "blocked s w \<longleftrightarrow> ?up" by (auto simp: blocked_def)
  have eq: "cv_signal kernel_sched cv s = (if ?up then Some (upd_waiter w (\<lambda>x. x\<lparr>signalled := True\<rparr>) (s1\<lparr>cv_kernel := k\<rparr>))
      else cv_signal kernel_sched cv (s1\<lparr>cv_kernel := k\<rparr>))"
    using ws(1) k(1) f1 by (subst cv_signal.simps) (simp add: kernel_sched_def s1_def [symmetric] del: fun_upd_apply)
  have inv2: "cv_inv (s1\<lparr>cv_kernel := k\<rparr>) cv ws" using inv1 k(3) f1(1) by (intro cv_inv_kernel) simp_all
  show ?case
  proof (cases ?up)
    case True
    then show ?thesis
      using eq k b f1 cv_inv_signalled [OF inv2 ws(3)] by (auto simp: signal_result_def upd_waiter_def)
  next
    case False
    then have same: "tcbs k = tcbs (cv_kernel s)" using k(4) by simp
    have bl: "blocked (s1\<lparr>cv_kernel := k\<rparr>) = blocked s" by (simp add: blocked_def fun_eq_iff same f1)
    from Cons.IH [OF inv2] k(2) obtain s' where s': "cv_signal kernel_sched cv (s1\<lparr>cv_kernel := k\<rparr>) = Some s'"
      "signal_result (s1\<lparr>cv_kernel := k\<rparr>) cv ws s'" by auto
    have "signal_result s cv (w # ws) s'"
      using s'(2) False b k(3) by (simp add: signal_result_def bl same f1 cong: list.case_cong)
    then show ?thesis using eq False s'(1) by simp
  qed
qed

text \<open>A broadcast reaches everybody.\<close>

lemma broadcast_spec:
  "cv_inv s cv ws \<Longrightarrow> sched_ok (cv_kernel s) \<Longrightarrow>
   \<exists>s'. Cond_Broadcast kernel_sched cv s = Some s' \<and> sched_ok (cv_kernel s') \<and> cv_inv s' cv []
     \<and> (\<forall>t. tcb_state (tcbs (cv_kernel s') t) = tcb_state (tcbs (cv_kernel s) t) \<or> tcb_state (tcbs (cv_kernel s') t) = READY)
     \<and> (\<forall>w\<in>set ws. blocked s w \<longrightarrow> tcb_state (tcbs (cv_kernel s') (w_thread (waiters s w))) = READY)"
proof (induction "length ws" arbitrary: s ws rule: less_induct)
  case less
  show ?case
  proof (cases ws)
    case Nil
    then show ?thesis using less.prems by (auto simp: Cond_Broadcast.simps [of kernel_sched cv s] cv_inv_def)
  next
    case (Cons v us)
    then have ne: "waitset s cv \<noteq> None" using less.prems(1) by (simp add: cv_inv_def)
    obtain s1 where s1: "cv_signal kernel_sched cv s = Some s1" "signal_result s cv ws s1" using cv_signal_spec [OF less.prems] by blast
    note S = s1(2) [unfolded signal_result_def]
    have eq: "Cond_Broadcast kernel_sched cv s = Cond_Broadcast kernel_sched cv s1" using ne s1(1) by (subst Cond_Broadcast.simps) simp
    show ?thesis
    proof (cases "dropWhile (\<lambda>w. \<not> blocked s w) ws")
      case dn: Nil
      then have "\<forall>w\<in>set ws. \<not> blocked s w" by simp
      moreover have "Cond_Broadcast kernel_sched cv s1 = Some s1" using S dn by (subst Cond_Broadcast.simps) (simp add: cv_inv_def)
      ultimately show ?thesis using S dn eq by simp
    next
      case dw: (Cons w vs)
      have split: "ws = takeWhile (\<lambda>w. \<not> blocked s w) ws @ w # vs" using takeWhile_dropWhile_id [of _ ws] dw by metis
      let ?t = "w_thread (waiters s w)"
      have T: "tcbs (cv_kernel s1) = (tcbs (cv_kernel s))(?t := make_ready_tcb (tcbs (cv_kernel s) ?t))" "cv_inv s1 cv vs"
        "sched_ok (cv_kernel s1)" "\<forall>u. w_thread (waiters s1 u) = w_thread (waiters s u)"
        using S dw by simp_all
      have "length vs < length ws" by (subst split) simp
      from less.hyps [OF this T(2,3)] obtain s' where s': "Cond_Broadcast kernel_sched cv s1 = Some s'" "sched_ok (cv_kernel s')" "cv_inv s' cv []"
        "\<forall>t. tcb_state (tcbs (cv_kernel s') t) = tcb_state (tcbs (cv_kernel s1) t) \<or> tcb_state (tcbs (cv_kernel s') t) = READY"
        "\<forall>u\<in>set vs. blocked s1 u \<longrightarrow> tcb_state (tcbs (cv_kernel s') (w_thread (waiters s1 u))) = READY" by blast
      have st: "tcb_state (tcbs (cv_kernel s1) t) = (if t = ?t then READY else tcb_state (tcbs (cv_kernel s) t))" for t
        using T(1) by (simp add: make_ready_tcb_def)
      have "tcb_state (tcbs (cv_kernel s') (w_thread (waiters s u))) = READY" if u: "u \<in> set ws" "blocked s u" for u
      proof (cases "w_thread (waiters s u) = ?t")
        case True
        then show ?thesis using s'(4) st by metis
      next
        case False
        have "u \<in> set vs"
        proof -
          have "u \<in> set (takeWhile (\<lambda>w. \<not> blocked s w) ws) \<union> insert w (set vs)" using u(1) by (subst (asm) split) simp
          then show ?thesis using u(2) False by (auto dest: set_takeWhileD)
        qed
        moreover have "blocked s1 u" using u(2) False T(4) st by (simp add: blocked_def)
        ultimately show ?thesis using s'(5) T(4) by metis
      qed
      moreover have "\<forall>t. tcb_state (tcbs (cv_kernel s') t) = tcb_state (tcbs (cv_kernel s) t) \<or> tcb_state (tcbs (cv_kernel s') t) = READY"
        using s'(4) st by metis
      ultimately show ?thesis using s'(1-3) eq by simp
    qed
  qed
qed

section \<open>Property\<close>

text \<open>C32. A signal wakes the longest waiting thread that can be woken, and a broadcast all of them. With the
  waiters \<open>ws\<close> in the order in which they came, \<open>cv_signal\<close> ends, removes every waiter up to the first one whose
  thread is still asleep, makes that thread ready and marks its waiter as signalled, and leaves the others waiting
  in order; when nobody sleeps any more it empties the ring. \<open>Cond_Broadcast\<close> ends with an empty ring and every
  waiter that was asleep ready. The scheduler is that of \<open>kernel_sched.c\<close>.\<close>

theorem signal_wakes_first_sleeper:
  assumes "cv_inv s cv ws" and "sched_ok (cv_kernel s)"
  shows "(\<exists>s'. Cond_Signal kernel_sched cv s = Some s' \<and> sched_ok (cv_kernel s')
      \<and> (case dropWhile (\<lambda>w. \<not> blocked s w) ws of
          [] \<Rightarrow> waitset s' cv = None \<and> tcbs (cv_kernel s') = tcbs (cv_kernel s)
        | w # vs \<Rightarrow> cv_inv s' cv vs \<and> removed (waiters s' w) \<and> signalled (waiters s' w)
            \<and> tcb_state (tcbs (cv_kernel s') (w_thread (waiters s w))) = READY
            \<and> (\<forall>t. t \<noteq> w_thread (waiters s w) \<longrightarrow> tcbs (cv_kernel s') t = tcbs (cv_kernel s) t)))
    \<and> (\<exists>s'. Cond_Broadcast kernel_sched cv s = Some s' \<and> sched_ok (cv_kernel s') \<and> waitset s' cv = None
      \<and> (\<forall>w\<in>set ws. blocked s w \<longrightarrow> tcb_state (tcbs (cv_kernel s') (w_thread (waiters s w))) = READY))"
proof
  obtain s' where s': "cv_signal kernel_sched cv s = Some s'" "signal_result s cv ws s'" using cv_signal_spec [OF assms] by blast
  show "\<exists>s'. Cond_Signal kernel_sched cv s = Some s' \<and> sched_ok (cv_kernel s')
      \<and> (case dropWhile (\<lambda>w. \<not> blocked s w) ws of
          [] \<Rightarrow> waitset s' cv = None \<and> tcbs (cv_kernel s') = tcbs (cv_kernel s)
        | w # vs \<Rightarrow> cv_inv s' cv vs \<and> removed (waiters s' w) \<and> signalled (waiters s' w)
            \<and> tcb_state (tcbs (cv_kernel s') (w_thread (waiters s w))) = READY
            \<and> (\<forall>t. t \<noteq> w_thread (waiters s w) \<longrightarrow> tcbs (cv_kernel s') t = tcbs (cv_kernel s) t))"
  proof (cases "dropWhile (\<lambda>w. \<not> blocked s w) ws")
    case Nil
    then show ?thesis using s' unfolding Cond_Signal_def signal_result_def by (simp only: Nil list.case) (auto simp: cv_inv_def)
  next
    case (Cons w vs)
    then show ?thesis using s' unfolding Cond_Signal_def signal_result_def by (simp only: Cons list.case) (auto simp: make_ready_tcb_def)
  qed
  show "\<exists>s'. Cond_Broadcast kernel_sched cv s = Some s' \<and> sched_ok (cv_kernel s') \<and> waitset s' cv = None
      \<and> (\<forall>w\<in>set ws. blocked s w \<longrightarrow> tcb_state (tcbs (cv_kernel s') (w_thread (waiters s w))) = READY)"
    using broadcast_spec [OF assms] by (auto simp: cv_inv_def)
qed

theorem signal_wakes_first_sleeper_witness:
  "\<exists>s'. Cond_Signal kernel_sched (user_cv 0) \<lparr>cv_kernel = one_thread, cv_ring = \<lparr>nxt = (\<lambda>n. n), prv = (\<lambda>n. n), key = (\<lambda>n. n)\<rparr>,
      waiters = (\<lambda>_. \<lparr>w_thread = thread_pool 0, signalled = False, removed = False\<rparr>), waitset = (\<lambda>_. Some 5), kernel_sem = 1\<rparr> = Some s'
    \<and> tcb_state (tcbs (cv_kernel s') (thread_pool 0)) = READY"
proof -
  let ?s = "\<lparr>cv_kernel = one_thread, cv_ring = \<lparr>nxt = (\<lambda>n. n), prv = (\<lambda>n. n), key = (\<lambda>n. n)\<rparr>,
      waiters = (\<lambda>_. \<lparr>w_thread = thread_pool 0, signalled = False, removed = False\<rparr>), waitset = (\<lambda>_. Some 5), kernel_sem = 1\<rparr>"
  have "cv_inv ?s (user_cv 0) [5]" by (simp add: cv_inv_def ring_singleton)
  moreover have "sched_ok (cv_kernel ?s)" using one_thread_ok by (simp add: running_ok_def)
  moreover have "blocked ?s 5" by (simp add: blocked_def)
  ultimately show ?thesis using signal_wakes_first_sleeper [of ?s "user_cv 0" "[5]"] by auto
qed

end
