(* ===== verification/Kernel_Lock.thy ===== *)
theory Kernel_Lock
  imports Condvar
begin

text \<open>
  The kernel lock of the earlier kernel, \<open>kernel_lock\<close>, \<open>kernel_unlock\<close>, \<open>kernel_wait_wchan\<close> and \<open>kernel_sleep\<close> of \<open>old/kernel_cc.c\<close>,
  as a protocol that any number of threads on any number of cores follow.

  Each of these functions runs with \<open>kernel_mutex\<close> held from one sleep to the next, so a step is one such stretch of code. A thread enters
  the ring of a condition variable and goes to sleep in one step: it holds \<open>waitset_lock\<close> from before the first until
  \<open>sleep_releasing\<close> has put it to sleep, and nobody can take it out of the ring in between.

  The scheduler of that kernel is not part of the repository. It is a parameter, with what \<open>kernel_sched.h\<close> promises of
  \<open>sleep_releasing\<close> and \<open>wakeup\<close> as the laws of the locale \<open>scheduler\<close>.
\<close>

section \<open>The contract of the scheduler\<close>

text \<open>What there is to see of a scheduler: the threads in use and their states, which threads run (one on each core), who sleeps
  without a timeout, which timeouts can be used, and what happens by itself: other threads run, timeouts pass, threads are created
  and started.\<close>

record ('t, 'k) sched_view =
  valid :: "'k \<Rightarrow> bool"
  in_use :: "'k \<Rightarrow> 't set"
  runs :: "'k \<Rightarrow> 't \<Rightarrow> bool"
  state_of :: "'k \<Rightarrow> 't \<Rightarrow> Thread_state"
  untimed :: "'k \<Rightarrow> 't \<Rightarrow> bool"
  usable :: "'k \<Rightarrow> u32 \<Rightarrow> bool"
  goes_on :: "'k \<Rightarrow> 'k \<Rightarrow> bool"

definition asleep :: "('t, 'k) sched_view \<Rightarrow> 'k \<Rightarrow> 't \<Rightarrow> bool" where
  "asleep V k t \<longleftrightarrow> state_of V k t = STOPPED \<and> untimed V k t"

definition awake :: "('t, 'k) sched_view \<Rightarrow> 'k \<Rightarrow> 't \<Rightarrow> bool" where
  "awake V k t \<longleftrightarrow> state_of V k t = READY \<or> state_of V k t = RUNNING"

text \<open>What an operation may not do to a thread that it is not about, and to the caller that goes on after it.\<close>

definition same_sleep :: "('t, 'k) sched_view \<Rightarrow> 't set \<Rightarrow> 'k \<Rightarrow> 'k \<Rightarrow> bool" where
  "same_sleep V T k k' \<longleftrightarrow> (\<forall>t\<in>T. (asleep V k t \<longrightarrow> asleep V k' t) \<and> (awake V k t \<longrightarrow> awake V k' t))"

definition still :: "('t, 'k) sched_view \<Rightarrow> 'k \<Rightarrow> 'k \<Rightarrow> bool" where
  "still V k k' \<longleftrightarrow> in_use V k' = in_use V k \<and> (\<forall>t. runs V k t \<longrightarrow> runs V k' t) \<and> (\<forall>d. usable V k d \<longrightarrow> usable V k' d)"

lemma still_refl [simp]: "still V k k"
  by (simp add: still_def)

lemma still_trans: "still V k k' \<Longrightarrow> still V k' k'' \<Longrightarrow> still V k k''"
  by (simp add: still_def)

lemma stillD: "still V k k' \<Longrightarrow> runs V k t \<Longrightarrow> runs V k' t" "still V k k' \<Longrightarrow> usable V k d \<Longrightarrow> usable V k' d"
  by (simp_all add: still_def)

section \<open>The stretches of code between two sleeps\<close>

definition cv_sleep :: "('t, 'k) sched \<Rightarrow> 't \<Rightarrow> cv_name \<Rightarrow> SCHED_CAUSE \<Rightarrow> u32 \<Rightarrow> nat \<Rightarrow> ('t, 'k) cvs \<Rightarrow> ('t, 'k) cvs option" where
  "cv_sleep S t cv cause timeout w s = do {
     let s = cv_enqueue cv w t s;
     k \<leftarrow> sleep_op S t STOPPED cause timeout (cv_kernel s);
     Some (s\<lparr>cv_kernel := k\<rparr>) }"

text \<open>One turn of the loop of \<open>kernel_lock\<close>: the caller has the lock, or it has gone to sleep.\<close>

definition lock_turn :: "('t, 'k) sched \<Rightarrow> 't \<Rightarrow> nat \<Rightarrow> ('t, 'k) cvs \<Rightarrow> (('t, 'k) cvs \<times> bool) option" where
  "lock_turn S t w s =
     (if kernel_sem s \<le> 0 then do { s \<leftarrow> cv_sleep S t kernel_sem_cv SCHED_USER NO_TIMEOUT w s; Some (s, False) }
      else Some (s\<lparr>kernel_sem := kernel_sem s - 1\<rparr>, True))"

text \<open>\<open>kernel_wait_wchan\<close> up to its sleep.\<close>

definition wait_release :: "('t, 'k) sched \<Rightarrow> 't \<Rightarrow> cv_name \<Rightarrow> SCHED_CAUSE \<Rightarrow> u32 \<Rightarrow> nat \<Rightarrow> ('t, 'k) cvs \<Rightarrow> ('t, 'k) cvs option" where
  "wait_release S t cv cause timeout w s = do { s \<leftarrow> kernel_unlock_sem S s; cv_sleep S t cv cause timeout w s }"

text \<open>The two macros through which the kernel calls \<open>kernel_wait_wchan\<close>.\<close>

definition kernel_wait ::
    "('t, 'k) sched \<Rightarrow> 't \<Rightarrow> cv_name \<Rightarrow> SCHED_CAUSE \<Rightarrow> nat \<Rightarrow> ('t, 'k) cv_pause \<Rightarrow> (nat \<times> ('t, 'k) cv_pause) list \<Rightarrow> ('t, 'k) cvs
     \<Rightarrow> (('t, 'k) cvs \<times> bool) option" where
  "kernel_wait S t cv cause w r wrs s = kernel_wait_wchan S t cv cause NO_TIMEOUT w r wrs s"

definition kernel_timedwait ::
    "('t, 'k) sched \<Rightarrow> 't \<Rightarrow> cv_name \<Rightarrow> SCHED_CAUSE \<Rightarrow> u32 \<Rightarrow> nat \<Rightarrow> ('t, 'k) cv_pause \<Rightarrow> (nat \<times> ('t, 'k) cv_pause) list \<Rightarrow> ('t, 'k) cvs
     \<Rightarrow> (('t, 'k) cvs \<times> bool) option" where
  "kernel_timedwait S t cv cause timeout w r wrs s = kernel_wait_wchan S t cv cause timeout w r wrs s"

text \<open>The functions of theory Condvar are made of these stretches; what happens in between is the pause \<open>r\<close>.\<close>

lemma kernel_lock_stretches:
  "kernel_lock_sem S t ((w, r) # wrs) s = do {
     (s, got) \<leftarrow> lock_turn S t w s;
     if got then Some s else do { (s, b) \<leftarrow> cv_leave kernel_sem_cv w (r s); kernel_lock_sem S t wrs s } }"
  by (auto simp: kernel_lock_sem_def lock_turn_def cv_sleep_def Cond_Wait_def cv_wait_def Let_def split: Option.bind_split)

lemma kernel_wait_stretches:
  "kernel_wait_wchan S t cv cause timeout w r wrs s = do {
     s \<leftarrow> wait_release S t cv cause timeout w s;
     (s, ret) \<leftarrow> cv_leave cv w (r s);
     s \<leftarrow> kernel_lock_sem S t wrs s;
     Some (s, ret) }"
  by (auto simp: kernel_wait_wchan_def wait_release_def kernel_unlock_sem_def kernel_lock_sem_def cv_sleep_def cv_wait_def Let_def
      split: Option.bind_split)

section \<open>The protocol\<close>

text \<open>The threads are numbered; \<open>tcb i\<close> is the TCB of thread \<open>i\<close>, and its waiter, on its stack, has the number \<open>i\<close>. A thread is in user code,
  in the queue of the semaphore (or woken from it), on the way to the next turn of the loop, inside a system call, or
  in the queue of a condition variable of the kernel.\<close>

datatype place = In_user | Sem_queue | Turning | In_call | Cond_queue nat

fun place_of :: "cv_name \<Rightarrow> place" where
  "place_of kernel_sem_cv = Sem_queue"
| "place_of (user_cv n) = Cond_queue n"

record ('t, 'k) monitor =
  mon :: "('t, 'k) cvs"
  at :: "nat \<Rightarrow> place"

text \<open>The steps of a thread that has a core, and what the scheduler does by itself.\<close>

inductive lstep :: "('t, 'k) sched \<Rightarrow> ('t, 'k) sched_view \<Rightarrow> (nat \<Rightarrow> 't) \<Rightarrow> ('t, 'k) monitor \<Rightarrow> ('t, 'k) monitor \<Rightarrow> bool" for S V tcb where
  l_lock: "runs V (cv_kernel (mon m)) (tcb i) \<Longrightarrow> at m i = In_user \<or> at m i = Turning \<Longrightarrow> lock_turn S (tcb i) i (mon m) = Some (c, got) \<Longrightarrow>
    lstep S V tcb m \<lparr>mon = c, at = (at m)(i := if got then In_call else Sem_queue)\<rparr>"
| l_leave: "runs V (cv_kernel (mon m)) (tcb i) \<Longrightarrow> at m i = place_of cv \<Longrightarrow> cv_leave cv i (mon m) = Some (c, ret) \<Longrightarrow>
    lstep S V tcb m \<lparr>mon = c, at = (at m)(i := Turning)\<rparr>"
| l_unlock: "runs V (cv_kernel (mon m)) (tcb i) \<Longrightarrow> at m i = In_call \<Longrightarrow> kernel_unlock_sem S (mon m) = Some c \<Longrightarrow>
    lstep S V tcb m \<lparr>mon = c, at = (at m)(i := In_user)\<rparr>"
| l_wait: "runs V (cv_kernel (mon m)) (tcb i) \<Longrightarrow> at m i = In_call \<Longrightarrow> usable V (cv_kernel (mon m)) timeout \<Longrightarrow>
    wait_release S (tcb i) (user_cv n) cause timeout i (mon m) = Some c \<Longrightarrow> lstep S V tcb m \<lparr>mon = c, at = (at m)(i := Cond_queue n)\<rparr>"
| l_signal: "runs V (cv_kernel (mon m)) (tcb i) \<Longrightarrow> at m i = In_call \<Longrightarrow> kernel_signal S (user_cv n) (mon m) = Some c \<Longrightarrow>
    lstep S V tcb m (m\<lparr>mon := c\<rparr>)"
| l_broadcast: "runs V (cv_kernel (mon m)) (tcb i) \<Longrightarrow> at m i = In_call \<Longrightarrow> kernel_broadcast_cv S (user_cv n) (mon m) = Some c \<Longrightarrow>
    lstep S V tcb m (m\<lparr>mon := c\<rparr>)"
| l_exit: "runs V (cv_kernel (mon m)) (tcb i) \<Longrightarrow> at m i = In_call \<Longrightarrow> kernel_sleep S (tcb i) EXITED cause (mon m) = Some c \<Longrightarrow>
    lstep S V tcb m \<lparr>mon = c, at = (at m)(i := In_user)\<rparr>"
| l_sched: "goes_on V (cv_kernel (mon m)) k \<Longrightarrow> lstep S V tcb m (m\<lparr>mon := (mon m)\<lparr>cv_kernel := k\<rparr>\<rparr>)"

inductive_cases lstepE: "lstep S V tcb m m'"

lemma place_of_inj [simp]: "place_of a = place_of b \<longleftrightarrow> a = b" "place_of a \<noteq> In_user" "place_of a \<noteq> In_call" "place_of a \<noteq> Turning"
  "In_user \<noteq> place_of a" "In_call \<noteq> place_of a" "Turning \<noteq> place_of a"
  by (cases a; cases b; simp)+

lemma place_of_sem [simp]: "place_of cv = Sem_queue \<longleftrightarrow> cv = kernel_sem_cv" "Sem_queue = place_of cv \<longleftrightarrow> cv = kernel_sem_cv"
  by (cases cv; simp)+

lemma place_upd: "p i \<noteq> x \<Longrightarrow> q \<noteq> x \<Longrightarrow> (p(i := q)) j = x \<longleftrightarrow> p j = x" for p :: "nat \<Rightarrow> place"
  by simp

lemma cv_enqueue_fields [simp]:
  "cv_kernel (cv_enqueue cv w t c) = cv_kernel c" "kernel_sem (cv_enqueue cv w t c) = kernel_sem c"
  "waiters (cv_enqueue cv w t c) = (waiters c)(w := \<lparr>w_thread = t, signalled = False, removed = False\<rparr>)"
  by (simp_all add: cv_enqueue_def upd_waiter_def Let_def split: option.splits)

section \<open>Any scheduler that keeps the contract\<close>

text \<open>\<open>sleep_releasing\<close> blocks the calling thread, with no timeout until a \<open>wakeup\<close>, or takes it out of use; \<open>wakeup\<close> makes a thread in use ready
  and returns whether it was stopped or new. Neither wakes or stops another thread, and \<open>wakeup\<close> does not take the core from its
  caller. What happens by itself does not wake a thread that sleeps without a timeout and stops none that is awake.\<close>

locale scheduler =
  fixes S :: "('t, 'k) sched" and V :: "('t, 'k) sched_view" and tcb :: "nat \<Rightarrow> 't"
  assumes tcb_inj: "tcb i = tcb j \<longleftrightarrow> i = j"
    and running: "valid V k \<Longrightarrow> runs V k t \<Longrightarrow> t \<in> in_use V k \<and> state_of V k t = RUNNING"
    and forever: "usable V k NO_TIMEOUT"
    and sleeps: "valid V k \<Longrightarrow> runs V k (tcb i) \<Longrightarrow> usable V k timeout \<Longrightarrow> st = STOPPED \<or> st = EXITED \<Longrightarrow>
      \<exists>k'. sleep_op S (tcb i) st cause timeout k = Some k' \<and> valid V k' \<and> same_sleep V (in_use V k - {tcb i}) k k'
        \<and> in_use V k' = (if st = EXITED then in_use V k - {tcb i} else in_use V k)
        \<and> (st = STOPPED \<and> timeout = NO_TIMEOUT \<longrightarrow> asleep V k' (tcb i))"
    and wakes: "valid V k \<Longrightarrow> t \<in> in_use V k \<Longrightarrow>
      \<exists>k' ret. wakeup_op S t k = Some (k', ret) \<and> (ret \<noteq> 0 \<longleftrightarrow> state_of V k t = STOPPED \<or> state_of V k t = INIT) \<and> valid V k'
        \<and> still V k k' \<and> awake V k' t \<and> same_sleep V (in_use V k - {t}) k k'"
    and others: "valid V k \<Longrightarrow> goes_on V k k' \<Longrightarrow> valid V k' \<and> in_use V k \<subseteq> in_use V k' \<and> same_sleep V (in_use V k) k k'"
begin

text \<open>\<open>W cv\<close> is the queue of \<open>cv\<close>. A waiter is in the queue of its place with its thread, or has been removed from it; in the queue
  of the semaphore all are asleep, and who has been taken from it, but for \<open>X\<close>, or is on the way to the next turn, is awake.\<close>

definition queues :: "nat set \<Rightarrow> ('t, 'k) cvs \<Rightarrow> (nat \<Rightarrow> place) \<Rightarrow> (cv_name \<Rightarrow> nat list) \<Rightarrow> bool" where
  "queues X c p W \<longleftrightarrow> valid V (cv_kernel c)
     \<and> (\<forall>cv. waitset c cv = (case W cv of [] \<Rightarrow> None | w # _ \<Rightarrow> Some w) \<and> (W cv \<noteq> [] \<longrightarrow> ring (cv_ring c) (W cv)))
     \<and> (\<forall>cv. \<forall>w\<in>set (W cv). p w = place_of cv \<and> key (cv_ring c) w = w
          \<and> waiters c w = \<lparr>w_thread = tcb w, signalled = False, removed = False\<rparr>)
     \<and> (\<forall>w\<in>set (W kernel_sem_cv). asleep V (cv_kernel c) (tcb w))
     \<and> (\<forall>cv i. p i = place_of cv \<and> i \<notin> set (W cv) \<longrightarrow> removed (waiters c i))
     \<and> (\<forall>i. p i \<noteq> In_user \<longrightarrow> tcb i \<in> in_use V (cv_kernel c))
     \<and> (\<forall>i. p i = Sem_queue \<and> i \<notin> set (W kernel_sem_cv) \<and> i \<notin> X \<longrightarrow> awake V (cv_kernel c) (tcb i))
     \<and> (\<forall>i. p i = Turning \<longrightarrow> awake V (cv_kernel c) (tcb i))"

lemma queuesD:
  assumes "queues X c p W"
  shows "valid V (cv_kernel c)" "waitset c cv = (case W cv of [] \<Rightarrow> None | w # _ \<Rightarrow> Some w)" "W cv \<noteq> [] \<Longrightarrow> ring (cv_ring c) (W cv)"
    "w \<in> set (W cv) \<Longrightarrow> p w = place_of cv" "w \<in> set (W cv) \<Longrightarrow> key (cv_ring c) w = w"
    "w \<in> set (W cv) \<Longrightarrow> waiters c w = \<lparr>w_thread = tcb w, signalled = False, removed = False\<rparr>"
    "w \<in> set (W kernel_sem_cv) \<Longrightarrow> asleep V (cv_kernel c) (tcb w)" "p i = place_of cv \<Longrightarrow> i \<notin> set (W cv) \<Longrightarrow> removed (waiters c i)"
    "p i \<noteq> In_user \<Longrightarrow> tcb i \<in> in_use V (cv_kernel c)"
    "p i = Sem_queue \<Longrightarrow> i \<notin> set (W kernel_sem_cv) \<Longrightarrow> i \<notin> X \<Longrightarrow> awake V (cv_kernel c) (tcb i)"
    "p i = Turning \<Longrightarrow> awake V (cv_kernel c) (tcb i)"
  using assms unfolding queues_def by blast+

lemma queuesI:
  assumes "valid V (cv_kernel c)" "\<And>cv. waitset c cv = (case W cv of [] \<Rightarrow> None | w # _ \<Rightarrow> Some w)" "\<And>cv. W cv \<noteq> [] \<Longrightarrow> ring (cv_ring c) (W cv)"
    "\<And>cv w. w \<in> set (W cv) \<Longrightarrow> p w = place_of cv" "\<And>cv w. w \<in> set (W cv) \<Longrightarrow> key (cv_ring c) w = w"
    "\<And>cv w. w \<in> set (W cv) \<Longrightarrow> waiters c w = \<lparr>w_thread = tcb w, signalled = False, removed = False\<rparr>"
    "\<And>w. w \<in> set (W kernel_sem_cv) \<Longrightarrow> asleep V (cv_kernel c) (tcb w)" "\<And>cv i. p i = place_of cv \<Longrightarrow> i \<notin> set (W cv) \<Longrightarrow> removed (waiters c i)"
    "\<And>i. p i \<noteq> In_user \<Longrightarrow> tcb i \<in> in_use V (cv_kernel c)"
    "\<And>i. p i = Sem_queue \<Longrightarrow> i \<notin> set (W kernel_sem_cv) \<Longrightarrow> i \<notin> X \<Longrightarrow> awake V (cv_kernel c) (tcb i)"
    "\<And>i. p i = Turning \<Longrightarrow> awake V (cv_kernel c) (tcb i)"
  shows "queues X c p W"
  using assms unfolding queues_def by blast

lemma queues_disjoint: "queues X c p W \<Longrightarrow> w \<in> set (W a) \<Longrightarrow> w \<in> set (W b) \<Longrightarrow> a = b"
  using queuesD(4) [of X c p W w a] queuesD(4) [of X c p W w b] by simp

lemma queues_distinct: "queues X c p W \<Longrightarrow> distinct (W cv)"
  using queuesD(3) [of X c p W cv] ring_distinct by (cases "W cv = []") auto

lemma queues_sem [simp]: "queues X (c\<lparr>kernel_sem := n\<rparr>) p W = queues X c p W"
  by (simp add: queues_def)

text \<open>A move between user code and the inside of a call.\<close>

lemma queues_move:
  assumes "queues X c p W" and "p i \<in> {In_user, Turning, In_call}" and "q \<in> {In_user, In_call}" and "q = In_call \<Longrightarrow> tcb i \<in> in_use V (cv_kernel c)"
  shows "queues X c (p(i := q)) W"
proof (rule queuesI)
  fix cv w assume w: "w \<in> set (W cv)"
  then have "w \<noteq> i" using queuesD(4) [OF assms(1) w] assms(2) by auto
  then show "(p(i := q)) w = place_of cv" using queuesD(4) [OF assms(1) w] by simp
qed (use assms queuesD [OF assms(1)] in \<open>auto split: if_splits\<close>)

text \<open>A scheduler operation that is not about the threads of the queues.\<close>

lemma queues_kernel:
  assumes "queues X c p W" and "valid V k" and "\<And>i. p i \<noteq> In_user \<Longrightarrow> tcb i \<in> in_use V k"
    and "\<And>i. p i = Sem_queue \<and> i \<notin> X \<or> p i = Turning \<Longrightarrow> (asleep V (cv_kernel c) (tcb i) \<longrightarrow> asleep V k (tcb i))
      \<and> (awake V (cv_kernel c) (tcb i) \<longrightarrow> awake V k (tcb i))"
    and "set (W kernel_sem_cv) \<inter> X = {}"
  shows "queues X (c\<lparr>cv_kernel := k\<rparr>) p W"
proof (rule queuesI)
  fix w assume w: "w \<in> set (W kernel_sem_cv)"
  then show "asleep V (cv_kernel (c\<lparr>cv_kernel := k\<rparr>)) (tcb w)"
    using queuesD(4,7) [OF assms(1) w] assms(4) [of w] assms(5) by auto
qed (use assms queuesD [OF assms(1)] in auto)

lemma queues_same_sleep:
  assumes "queues {} c p W" and "valid V k" and "in_use V (cv_kernel c) \<subseteq> in_use V k" and "same_sleep V (in_use V (cv_kernel c)) (cv_kernel c) k"
  shows "queues {} (c\<lparr>cv_kernel := k\<rparr>) p W"
proof (rule queues_kernel [OF assms(1,2)])
  fix i assume "p i \<noteq> In_user"
  then show "tcb i \<in> in_use V k" using queuesD(9) [OF assms(1)] assms(3) by blast
next
  fix i assume "p i = Sem_queue \<and> i \<notin> {} \<or> p i = Turning"
  then have "tcb i \<in> in_use V (cv_kernel c)" using queuesD(9) [OF assms(1), of i] by auto
  then show "(asleep V (cv_kernel c) (tcb i) \<longrightarrow> asleep V k (tcb i)) \<and> (awake V (cv_kernel c) (tcb i) \<longrightarrow> awake V k (tcb i))"
    using assms(4) by (simp add: same_sleep_def)
qed simp

text \<open>A waiter leaves a ring.\<close>

lemma remove_from_ring_queue:
  assumes q: "queues X c p W" and w: "W cv = us @ w # vs"
  defines "c' \<equiv> remove_from_ring cv w c"
  shows "waitset c' d = (case (W(cv := us @ vs)) d of [] \<Rightarrow> None | u # _ \<Rightarrow> Some u)"
    and "(W(cv := us @ vs)) d \<noteq> [] \<Longrightarrow> ring (cv_ring c') ((W(cv := us @ vs)) d)" and "key (cv_ring c') = key (cv_ring c)"
    and "waiters c' = waiters c" "cv_kernel c' = cv_kernel c" "kernel_sem c' = kernel_sem c"
proof -
  show k: "key (cv_ring c') = key (cv_ring c)" "waiters c' = waiters c" "cv_kernel c' = cv_kernel c" "kernel_sem c' = kernel_sem c"
    by (simp_all add: c'_def remove_from_ring_def Let_def rlist_remove_def)
  have r: "ring (cv_ring c) (us @ w # vs)" using queuesD(3) [OF q, of cv] w by simp
  have dw: "w \<notin> set us" "w \<notin> set vs" using ring_distinct [OF r] by simp_all
  have rg: "cv_ring c' = rlist_remove (cv_ring c) w" by (simp add: c'_def remove_from_ring_def Let_def)
  show "ring (cv_ring c') ((W(cv := us @ vs)) d)" if ne: "(W(cv := us @ vs)) d \<noteq> []"
  proof (cases "d = cv")
    case True
    then show ?thesis using rlist_remove_ring(2) [OF r] ne rg by simp
  next
    case False
    then have "set (W d) \<inter> set (us @ w # vs) = {}" using queues_disjoint [OF q, of _ d cv] w by auto
    then show ?thesis using remove_frame [OF r, of w "W d"] queuesD(3) [OF q, of d] ne False rg by simp
  qed
  show "waitset c' d = (case (W(cv := us @ vs)) d of [] \<Rightarrow> None | u # _ \<Rightarrow> Some u)"
  proof (cases "d = cv")
    case False
    then show ?thesis using queuesD(2) [OF q, of d] by (simp add: c'_def remove_from_ring_def Let_def)
  next
    case d: True
    have ws: "waitset c cv = Some (hd (us @ [w]))" using queuesD(2) [OF q, of cv] w by (cases us) simp_all
    show ?thesis
    proof (cases us)
      case Nil
      then have "nxt (cv_ring c) w = hd (vs @ [w])" using r by (simp add: ring_Cons)
      moreover have "key (cv_ring c) (hd (vs @ [w])) = hd (vs @ [w])" using queuesD(5) [OF q, of _ cv] w by (cases vs) simp_all
      ultimately show ?thesis using d ws Nil dw by (cases vs) (auto simp: c'_def remove_from_ring_def Let_def)
    next
      case (Cons u us')
      then show ?thesis using d ws dw by (simp add: c'_def remove_from_ring_def Let_def)
    qed
  qed
qed

text \<open>The first waiter of a queue is taken out, and then its thread is woken.\<close>

lemma queues_pop:
  assumes q: "queues {} c p W" and w: "W cv = w # ws"
  shows "queues {w} (upd_waiter w (\<lambda>x. x\<lparr>removed := True\<rparr>) (remove_from_ring cv w c)) p (W(cv := ws))" (is "queues {w} ?c p ?W")
proof (rule queuesI)
  have "W cv = [] @ w # ws" using w by simp
  note R = remove_from_ring_queue [OF q this, unfolded append_Nil]
  note Q = queuesD [OF q]
  have sub: "u \<in> set (W a)" if "u \<in> set (?W a)" for u a using that w by (auto split: if_splits)
  have nw: "u \<noteq> w" if u: "u \<in> set (?W a)" for u a
    using u w queues_distinct [OF q, of cv] queues_disjoint [OF q, of w a cv] by (auto split: if_splits)
  show "waitset ?c a = (case ?W a of [] \<Rightarrow> None | u # _ \<Rightarrow> Some u)" for a using R(1) [of a] by (simp add: upd_waiter_def)
  show "ring (cv_ring ?c) (?W a)" if "?W a \<noteq> []" for a using R(2) [OF that] by (simp add: upd_waiter_def)
  fix a u assume u: "u \<in> set (?W a)"
  show "p u = place_of a" "key (cv_ring ?c) u = u" using Q(4,5) [OF sub [OF u]] R(3) by (simp_all add: upd_waiter_def)
  show "waiters ?c u = \<lparr>w_thread = tcb u, signalled = False, removed = False\<rparr>"
    using Q(6) [OF sub [OF u]] nw [OF u] R(4) by (simp add: upd_waiter_def)
next
  note Q = queuesD [OF q]
  have R: "waiters (remove_from_ring cv w c) = waiters c" "cv_kernel (remove_from_ring cv w c) = cv_kernel c"
    by (simp_all add: remove_from_ring_def Let_def)
  show "valid V (cv_kernel ?c)" using Q(1) R(2) by (simp add: upd_waiter_def)
  show "asleep V (cv_kernel ?c) (tcb u)" if "u \<in> set (?W kernel_sem_cv)" for u
    using Q(7) [of u] that w R(2) by (auto simp: upd_waiter_def split: if_splits)
  show "removed (waiters ?c i)" if "p i = place_of a" "i \<notin> set (?W a)" for a i
    using Q(8) [of i a] that w R(1) by (auto simp: upd_waiter_def split: if_splits)
  show "tcb i \<in> in_use V (cv_kernel ?c)" if "p i \<noteq> In_user" for i using Q(9) [OF that] R(2) by (simp add: upd_waiter_def)
  show "awake V (cv_kernel ?c) (tcb i)" if "p i = Sem_queue" "i \<notin> set (?W kernel_sem_cv)" "i \<notin> {w}" for i
    using Q(10) [of i] that w R(2) by (auto simp: upd_waiter_def split: if_splits)
  show "awake V (cv_kernel ?c) (tcb i)" if "p i = Turning" for i using Q(11) [OF that] R(2) by (simp add: upd_waiter_def)
qed

lemma queues_shrink: "queues {w} c p W \<Longrightarrow> awake V (cv_kernel c) (tcb w) \<Longrightarrow> queues {} c p W"
proof (rule queuesI)
  assume q: "queues {w} c p W" "awake V (cv_kernel c) (tcb w)"
  show "awake V (cv_kernel c) (tcb i)" if "p i = Sem_queue" "i \<notin> set (W kernel_sem_cv)" for i
    using queuesD(10) [OF q(1) that] q(2) by (cases "i = w") auto
qed (use queuesD in \<open>auto dest: queuesD\<close>)

lemma queues_woken:
  assumes q: "queues {w} c p W" and w: "\<And>a. w \<notin> set (W a)" "p w \<noteq> In_user" and k: "wakeup_op S (tcb w) (cv_kernel c) = Some (k, ret)"
  shows "queues {} (c\<lparr>cv_kernel := k\<rparr>) p W" "still V (cv_kernel c) k"
    "ret \<noteq> 0 \<longleftrightarrow> state_of V (cv_kernel c) (tcb w) = STOPPED \<or> state_of V (cv_kernel c) (tcb w) = INIT"
proof -
  have K: "valid V k" "still V (cv_kernel c) k" "awake V k (tcb w)" "same_sleep V (in_use V (cv_kernel c) - {tcb w}) (cv_kernel c) k"
    using wakes [OF queuesD(1,9) [OF q], of w] w(2) k by auto
  have "queues {w} (c\<lparr>cv_kernel := k\<rparr>) p W"
  proof (rule queues_kernel [OF q K(1)])
    show "tcb i \<in> in_use V k" if "p i \<noteq> In_user" for i using queuesD(9) [OF q that] K(2) by (simp add: still_def)
    show "(asleep V (cv_kernel c) (tcb i) \<longrightarrow> asleep V k (tcb i)) \<and> (awake V (cv_kernel c) (tcb i) \<longrightarrow> awake V k (tcb i))"
      if "p i = Sem_queue \<and> i \<notin> {w} \<or> p i = Turning" for i
    proof (cases "i = w")
      case True
      then show ?thesis using that K(3) queuesD(11) [OF q, of i] by (auto simp: asleep_def awake_def)
    next
      case False
      then show ?thesis using queuesD(9) [OF q, of i] that K(4) by (auto simp: same_sleep_def tcb_inj)
    qed
  qed (use w in simp)
  then show "queues {} (c\<lparr>cv_kernel := k\<rparr>) p W" using K(3) by (intro queues_shrink) simp_all
qed (use wakes [OF queuesD(1,9) [OF q], of w] w(2) k in auto)

lemma queues_signalled:
  assumes "queues X c p W" and "\<And>a. w \<notin> set (W a)"
  shows "queues X (upd_waiter w (\<lambda>x. x\<lparr>signalled := True\<rparr>) c) p W"
  using assms unfolding queues_def upd_waiter_def by auto

lemma queues_signal:
  "queues {} c p W \<Longrightarrow> \<exists>c' ws. cv_signal S cv c = Some c' \<and> queues {} c' p (W(cv := ws)) \<and> kernel_sem c' = kernel_sem c
     \<and> still V (cv_kernel c) (cv_kernel c') \<and> set ws \<subseteq> set (W cv) \<and> (W cv \<noteq> [] \<longrightarrow> length ws < length (W cv)) \<and> (cv = kernel_sem_cv \<longrightarrow> ws = tl (W cv))"
proof (induction "W cv" arbitrary: c W)
  case Nil
  then have "cv_signal S cv c = Some c" using queuesD(2) [OF Nil.prems, of cv] by (simp add: cv_signal.simps [of S cv c])
  then show ?case using Nil by (intro exI [of _ c] exI [of _ "[]"]) (auto simp: fun_upd_idem)
next
  case (Cons w ws)
  let ?c = "upd_waiter w (\<lambda>x. x\<lparr>removed := True\<rparr>) (remove_from_ring cv w c)" and ?W = "W(cv := ws)"
  note w = Cons.hyps(2) [symmetric]
  note P = queues_pop [OF Cons.prems w]
  have wW: "w \<in> set (W cv)" using w by simp
  have out: "w \<notin> set (?W a)" for a
    using w queues_distinct [OF Cons.prems, of cv] queues_disjoint [OF Cons.prems wW, of a] by auto
  have pw: "p w \<noteq> In_user" "w_thread (waiters ?c w) = tcb w" "cv_kernel ?c = cv_kernel c" "kernel_sem ?c = kernel_sem c"
    using queuesD(4,6) [OF Cons.prems wW] by (simp_all add: upd_waiter_def remove_from_ring_def Let_def)
  obtain k ret where k: "wakeup_op S (tcb w) (cv_kernel ?c) = Some (k, ret)"
    using wakes [OF queuesD(1,9) [OF P], of w] pw(1) by blast
  note K = queues_woken [where W = ?W, OF P out pw(1) k]
  have ws: "waitset c cv = Some w" using queuesD(2) [OF Cons.prems, of cv] w by simp
  have eq: "cv_signal S cv c = (if ret \<noteq> 0 then Some (upd_waiter w (\<lambda>x. x\<lparr>signalled := True\<rparr>) (?c\<lparr>cv_kernel := k\<rparr>)) else cv_signal S cv (?c\<lparr>cv_kernel := k\<rparr>))"
    using ws k pw(2,3) by (subst cv_signal.simps) (simp del: fun_upd_apply)
  show ?case
  proof (cases "ret = 0")
    case False
    have "queues {} (upd_waiter w (\<lambda>x. x\<lparr>signalled := True\<rparr>) (?c\<lparr>cv_kernel := k\<rparr>)) p ?W" by (rule queues_signalled [OF K(1) out])
    with False show ?thesis using eq K(2) pw(3,4) w
      by (intro exI [of _ "upd_waiter w (\<lambda>x. x\<lparr>signalled := True\<rparr>) (?c\<lparr>cv_kernel := k\<rparr>)"] exI [of _ ws]) (auto simp: upd_waiter_def)
  next
    case True
    then have ns: "cv \<noteq> kernel_sem_cv" using K(3) queuesD(7) [OF Cons.prems, of w] wW pw(3) by (auto simp: asleep_def)
    have "ws = ?W cv" by simp
    from Cons.hyps(1) [OF this K(1)] obtain c' vs where c': "cv_signal S cv (?c\<lparr>cv_kernel := k\<rparr>) = Some c'" "queues {} c' p (?W(cv := vs))"
      "kernel_sem c' = kernel_sem c" "still V k (cv_kernel c')" "set vs \<subseteq> set ws" "ws \<noteq> [] \<longrightarrow> length vs < length ws"
      using pw(4) by auto
    have "still V (cv_kernel c) (cv_kernel c')" using still_trans [OF K(2) c'(4)] pw(3) by simp
    then show ?thesis using eq True c' ns w by (intro exI [of _ c'] exI [of _ vs]) (cases ws; auto)
  qed
qed

lemma queues_broadcast:
  "queues {} c p W \<Longrightarrow> \<exists>c'. Cond_Broadcast S cv c = Some c' \<and> queues {} c' p (W(cv := [])) \<and> kernel_sem c' = kernel_sem c"
proof (induction "length (W cv)" arbitrary: c W rule: less_induct)
  case less
  show ?case
  proof (cases "W cv = []")
    case True
    then show ?thesis using queuesD(2) [OF less.prems, of cv] less.prems
      by (intro exI [of _ c]) (simp add: Cond_Broadcast.simps [of S cv c] fun_upd_idem)
  next
    case False
    obtain c' ws where c': "cv_signal S cv c = Some c'" "queues {} c' p (W(cv := ws))" "kernel_sem c' = kernel_sem c" "length ws < length (W cv)"
      using queues_signal [OF less.prems, of cv] False by blast
    have "waitset c cv \<noteq> None" using queuesD(2) [OF less.prems, of cv] False by (auto split: list.splits)
    then have "Cond_Broadcast S cv c = Cond_Broadcast S cv c'" using c'(1) by (subst Cond_Broadcast.simps) simp
    then show ?thesis using less.hyps [OF _ c'(2)] c'(3,4) by simp
  qed
qed

lemma cv_enqueue_queue:
  fixes cv :: cv_name
  assumes q: "queues {} c p W" and w: "\<And>a. w \<notin> set (W a)"
  defines "c' \<equiv> cv_enqueue cv w (tcb w) c" and "W' \<equiv> W(cv := W cv @ [w])"
  shows "waitset c' d = (case W' d of [] \<Rightarrow> None | u # _ \<Rightarrow> Some u)" and "W' d \<noteq> [] \<Longrightarrow> ring (cv_ring c') (W' d)"
    and "u \<in> set (W' d) \<Longrightarrow> key (cv_ring c') u = u"
proof -
  let ?h = "rlnode_init (cv_ring c) w w"
  have init: "ring ?h zs" if "ring (cv_ring c) zs" "w \<notin> set zs" for zs using ring_init_keep [OF that] .
  have k: "key ?h u = u" if "u \<in> set (W' d)" for u d
    using that queuesD(5) [OF q] w by (auto simp: W'_def split: if_splits)
  show "waitset c' d = (case W' d of [] \<Rightarrow> None | u # _ \<Rightarrow> Some u)"
    using queuesD(2) [OF q] by (auto simp: c'_def W'_def cv_enqueue_def upd_waiter_def Let_def split: option.splits list.splits)
  show "key (cv_ring c') u = u" if "u \<in> set (W' d)"
    using k [OF that] by (simp add: c'_def cv_enqueue_def upd_waiter_def Let_def rlist_push_back_def split: option.splits)
  show "ring (cv_ring c') (W' d)" if ne: "W' d \<noteq> []"
  proof (cases "W cv")
    case Nil
    then have "cv_ring c' = ?h" using queuesD(2) [OF q, of cv] by (simp add: c'_def cv_enqueue_def upd_waiter_def Let_def)
    then show ?thesis using init [of "W d"] queuesD(3) [OF q, of d] w [of d] ne Nil by (auto simp: W'_def ring_rlnode_init)
  next
    case (Cons v vs)
    then have h: "cv_ring c' = rlist_push_back ?h v w" using queuesD(2) [OF q, of cv] by (simp add: c'_def cv_enqueue_def upd_waiter_def Let_def)
    have "ring ?h (W cv)" using init [of "W cv"] queuesD(3) [OF q, of cv] w [of cv] Cons by simp
    then have rv: "rlist ?h v vs" using Cons by (simp add: rlist_def)
    show ?thesis
    proof (cases "d = cv")
      case True
      then show ?thesis using rlist_push_back [OF rv ring_rlnode_init] w [of cv] h Cons by (simp add: W'_def rlist_def)
    next
      case False
      then have "set (W d) \<inter> set (v # vs) = {}" using queues_disjoint [OF q, of _ d cv] Cons by auto
      moreover have "ring ?h (W d)" using init [of "W d"] queuesD(3) [OF q, of d] w ne False by (simp add: W'_def)
      ultimately show ?thesis using push_back_frame [OF rv ring_rlnode_init] w [of d] h False by (simp add: W'_def)
    qed
  qed
qed

lemma queues_enqueue:
  assumes q: "queues {} c p W" and i: "runs V (cv_kernel c) (tcb i)" "p i \<in> {In_user, Turning, In_call}"
    and fits: "usable V (cv_kernel c) timeout" and sem: "cv = kernel_sem_cv \<longrightarrow> timeout = NO_TIMEOUT"
  shows "\<exists>c'. cv_sleep S (tcb i) cv cause timeout i c = Some c' \<and> queues {} c' (p(i := place_of cv)) (W(cv := W cv @ [i])) \<and> kernel_sem c' = kernel_sem c"
proof -
  let ?c = "cv_enqueue cv i (tcb i) c" and ?p = "p(i := place_of cv)" and ?W = "W(cv := W cv @ [i])"
  have out: "i \<notin> set (W a)" for a using queuesD(4) [OF q, of i a] i(2) by auto
  obtain k where k: "sleep_op S (tcb i) STOPPED cause timeout (cv_kernel c) = Some k" "valid V k"
    "same_sleep V (in_use V (cv_kernel c) - {tcb i}) (cv_kernel c) k" "in_use V k = in_use V (cv_kernel c)" "timeout = NO_TIMEOUT \<longrightarrow> asleep V k (tcb i)"
    using sleeps [OF queuesD(1) [OF q] i(1) fits, of STOPPED cause] by auto
  have li: "tcb i \<in> in_use V (cv_kernel c)" using running [OF queuesD(1) [OF q] i(1)] by simp
  note E = cv_enqueue_queue [where cv = cv, OF q out]
  have run: "cv_sleep S (tcb i) cv cause timeout i c = Some (?c\<lparr>cv_kernel := k\<rparr>)" using i(1) k(1) by (simp add: cv_sleep_def Let_def)
  have others: "(asleep V (cv_kernel c) (tcb u) \<longrightarrow> asleep V k (tcb u)) \<and> (awake V (cv_kernel c) (tcb u) \<longrightarrow> awake V k (tcb u))"
    if "p u \<noteq> In_user" "u \<noteq> i" for u using that k(3) queuesD(9) [OF q, of u] by (simp add: same_sleep_def tcb_inj)
  have "queues {} (?c\<lparr>cv_kernel := k\<rparr>) ?p ?W"
  proof (rule queuesI)
    fix a u assume u: "u \<in> set (?W a)"
    show "?p u = place_of a" using u queuesD(4) [OF q, of u a] out [of a] by (auto split: if_splits)
    show "key (cv_ring (?c\<lparr>cv_kernel := k\<rparr>)) u = u" using E(3) [OF u] by simp
    show "waiters (?c\<lparr>cv_kernel := k\<rparr>) u = \<lparr>w_thread = tcb u, signalled = False, removed = False\<rparr>"
      using u queuesD(6) [OF q, of u a] by (auto split: if_splits)
  next
    fix u assume u: "u \<in> set (?W kernel_sem_cv)"
    show "asleep V (cv_kernel (?c\<lparr>cv_kernel := k\<rparr>)) (tcb u)"
    proof (cases "u = i")
      case True
      then show ?thesis using u sem k(5) out [of kernel_sem_cv] by (auto split: if_splits)
    next
      case False
      then have "u \<in> set (W kernel_sem_cv)" using u by (auto split: if_splits)
      then show ?thesis using queuesD(4) [OF q, of u kernel_sem_cv] queuesD(7) [OF q, of u] others [of u] False by simp
    qed
  next
    fix a u assume "?p u = place_of a" "u \<notin> set (?W a)"
    then show "removed (waiters (?c\<lparr>cv_kernel := k\<rparr>) u)" using queuesD(8) [OF q, of u a] by (auto split: if_splits)
  next
    fix u assume "?p u \<noteq> In_user"
    then show "tcb u \<in> in_use V (cv_kernel (?c\<lparr>cv_kernel := k\<rparr>))" using queuesD(9) [OF q, of u] li k(4) by (auto split: if_splits)
  next
    fix u assume u: "?p u = Sem_queue" "u \<notin> set (?W kernel_sem_cv)"
    then have "u \<noteq> i" by auto
    then show "awake V (cv_kernel (?c\<lparr>cv_kernel := k\<rparr>)) (tcb u)"
      using u queuesD(10) [OF q, of u] others [of u] by (auto split: if_splits)
  next
    fix u assume u: "?p u = Turning"
    then have "u \<noteq> i" by auto
    then show "awake V (cv_kernel (?c\<lparr>cv_kernel := k\<rparr>)) (tcb u)" using u queuesD(11) [OF q, of u] others [of u] by simp
  qed (use k(2) E(1,2) in auto)
  then show ?thesis using run by simp
qed

text \<open>A thread that has been woken leaves its condition variable.\<close>

lemma queues_leave:
  assumes q: "queues {} c p W" and i: "runs V (cv_kernel c) (tcb i)" "p i = place_of cv"
  shows "\<exists>c' ret W'. cv_leave cv i c = Some (c', ret) \<and> queues {} c' (p(i := Turning)) W' \<and> kernel_sem c' = kernel_sem c
    \<and> cv_kernel c' = cv_kernel c \<and> W' kernel_sem_cv = W kernel_sem_cv"
proof -
  have d: "state_of V (cv_kernel c) (tcb i) = RUNNING" "tcb i \<in> in_use V (cv_kernel c)" using running [OF queuesD(1) [OF q] i(1)] by simp_all
  then have aw: "awake V (cv_kernel c) (tcb i)" by (simp add: awake_def)
  have ns: "i \<notin> set (W kernel_sem_cv)" using queuesD(7) [OF q, of i] d(1) by (auto simp: asleep_def)
  have move: "queues {} c' (p(i := Turning)) W'" if q': "queues {} c' p W'" and "i \<notin> set (W' cv)" "cv_kernel c' = cv_kernel c" for c' W'
  proof (rule queuesI)
    fix a u assume u: "u \<in> set (W' a)"
    then have "u \<noteq> i" using queuesD(4) [OF q' u] i(2) that(2) by auto
    then show "(p(i := Turning)) u = place_of a" using queuesD(4) [OF q' u] by simp
  qed (use queuesD [OF q'] d(2) aw that(3) in \<open>auto split: if_splits\<close>)
  show ?thesis
  proof (cases "i \<in> set (W cv)")
    case False
    then have "removed (waiters c i)" using queuesD(8) [OF q i(2)] by simp
    then have "cv_leave cv i c = Some (c, signalled (waiters c i))" by (simp add: cv_leave_def)
    then show ?thesis using move [OF q False refl] by blast
  next
    case True
    then obtain us vs where w: "W cv = us @ i # vs" by (auto simp: in_set_conv_decomp)
    let ?c = "remove_from_ring cv i c" and ?W = "W(cv := us @ vs)"
    note R = remove_from_ring_queue [OF q w]
    have ncv: "cv \<noteq> kernel_sem_cv" using True ns by auto
    have run: "cv_leave cv i c = Some (?c, False)" using queuesD(6) [OF q True] R(4) by (simp add: cv_leave_def Let_def)
    have sub: "u \<in> set (W a) \<and> u \<noteq> i" if "u \<in> set (?W a)" for u a
      using that w queues_distinct [OF q, of cv] queues_disjoint [OF q, of u a cv] by (auto split: if_splits)
    have "queues {} ?c (p(i := Turning)) ?W"
    proof (rule queuesI)
      fix a u assume u: "u \<in> set (?W a)"
      show "(p(i := Turning)) u = place_of a" "key (cv_ring ?c) u = u" "waiters ?c u = \<lparr>w_thread = tcb u, signalled = False, removed = False\<rparr>"
        using queuesD(4-6) [OF q, of u a] sub [OF u] R(3,4) by simp_all
    next
      fix a u assume "(p(i := Turning)) u = place_of a" "u \<notin> set (?W a)"
      then show "removed (waiters ?c u)" using queuesD(8) [OF q, of u a] w R(4) by (auto split: if_splits)
    qed (use queuesD [OF q] R ncv d(2) aw in \<open>auto split: if_splits\<close>)
    then show ?thesis using run R(5,6) ncv by (intro exI [of _ ?c] exI [of _ False] exI [of _ ?W]) simp
  qed
qed

definition sem_ok :: "('t, 'k) cvs \<Rightarrow> (nat \<Rightarrow> place) \<Rightarrow> bool" where
  "sem_ok c p \<longleftrightarrow> kernel_sem c = (if \<exists>i. p i = In_call then 0 else 1) \<and> (\<forall>i j. p i = In_call \<and> p j = In_call \<longrightarrow> i = j)"

text \<open>When the lock is free and somebody is in its queue, somebody is on the way to a turn of the loop.\<close>

definition wanting :: "(nat \<Rightarrow> place) \<Rightarrow> nat list \<Rightarrow> nat \<Rightarrow> bool" where
  "wanting p ws i \<longleftrightarrow> p i = Turning \<or> p i = Sem_queue \<and> i \<notin> set ws"

definition lock_inv :: "('t, 'k) monitor \<Rightarrow> bool" where
  "lock_inv m \<longleftrightarrow> (\<exists>W. queues {} (mon m) (at m) W \<and> sem_ok (mon m) (at m)
     \<and> (kernel_sem (mon m) = 1 \<and> W kernel_sem_cv \<noteq> [] \<longrightarrow> (\<exists>i. wanting (at m) (W kernel_sem_cv) i)))"

lemma lock_turn_ok:
  assumes q: "queues {} c p W" and sem: "sem_ok c p" and i: "runs V (cv_kernel c) (tcb i)" "p i = In_user \<or> p i = Turning"
  shows "\<exists>c' got. lock_turn S (tcb i) i c = Some (c', got) \<and> lock_inv \<lparr>mon = c', at = p(i := if got then In_call else Sem_queue)\<rparr>"
proof (cases "\<exists>j. p j = In_call")
  case True
  then have z: "kernel_sem c = 0" using sem by (simp add: sem_ok_def)
  have ni: "p i \<noteq> In_call" using i(2) by auto
  obtain c' where c': "cv_sleep S (tcb i) kernel_sem_cv SCHED_USER NO_TIMEOUT i c = Some c'"
    "queues {} c' (p(i := Sem_queue)) (W(kernel_sem_cv := W kernel_sem_cv @ [i]))" "kernel_sem c' = 0"
    using queues_enqueue [OF q i(1) _ forever, of kernel_sem_cv SCHED_USER] i(2) z by auto
  have "sem_ok c' (p(i := Sem_queue))" using sem c'(3) z ni by (simp add: sem_ok_def place_upd del: fun_upd_apply)
  then have "lock_inv \<lparr>mon = c', at = p(i := Sem_queue)\<rparr>" using c'(2,3) by (auto simp: lock_inv_def simp del: fun_upd_apply)
  then show ?thesis using c'(1) z by (intro exI [of _ c'] exI [of _ False]) (simp add: lock_turn_def)
next
  case False
  let ?c = "c\<lparr>kernel_sem := kernel_sem c - 1\<rparr>"
  have o: "kernel_sem c = 1" using sem False by (simp add: sem_ok_def)
  have "queues {} ?c (p(i := In_call)) W" using queues_move [OF q, of i In_call] i running [OF queuesD(1) [OF q] i(1)] by auto
  moreover have "sem_ok ?c (p(i := In_call))" using o False by (auto simp: sem_ok_def)
  ultimately have "lock_inv \<lparr>mon = ?c, at = p(i := In_call)\<rparr>" using o by (auto simp: lock_inv_def simp del: fun_upd_apply)
  then show ?thesis using o by (intro exI [of _ ?c] exI [of _ True]) (simp add: lock_turn_def)
qed

text \<open>What \<open>kernel_unlock\<close> does, also as the first part of a wait.\<close>

lemma unlock_ok:
  assumes q: "queues {} c p W" and sem: "sem_ok c p" and i: "p i = In_call"
  shows "\<exists>c'. kernel_unlock_sem S c = Some c' \<and> queues {} c' p (W(kernel_sem_cv := tl (W kernel_sem_cv))) \<and> kernel_sem c' = 1
    \<and> still V (cv_kernel c) (cv_kernel c') \<and> (tl (W kernel_sem_cv) \<noteq> [] \<longrightarrow> (\<exists>j. wanting p (tl (W kernel_sem_cv)) j))"
proof -
  have z: "kernel_sem c = 0" using sem i by (auto simp: sem_ok_def)
  have q1: "queues {} (c\<lparr>kernel_sem := kernel_sem c + 1\<rparr>) p W" using q by simp
  obtain c' where "cv_signal S kernel_sem_cv (c\<lparr>kernel_sem := kernel_sem c + 1\<rparr>) = Some c'" "queues {} c' p (W(kernel_sem_cv := tl (W kernel_sem_cv)))"
    "kernel_sem c' = 1" "still V (cv_kernel c) (cv_kernel c')"
    using queues_signal [OF q1, of kernel_sem_cv] z by auto
  moreover have "\<exists>j. wanting p (tl (W kernel_sem_cv)) j" if "tl (W kernel_sem_cv) \<noteq> []"
  proof -
    obtain w ws where w: "W kernel_sem_cv = w # ws" using \<open>tl (W kernel_sem_cv) \<noteq> []\<close> by (cases "W kernel_sem_cv") auto
    then show ?thesis using queuesD(4) [OF q, of w kernel_sem_cv] queues_distinct [OF q, of kernel_sem_cv] by (intro exI [of _ w]) (simp add: wanting_def)
  qed
  ultimately show ?thesis by (auto simp: kernel_unlock_sem_def Cond_Signal_def simp del: fun_upd_apply)
qed

lemma sem_ok_left: "sem_ok c p \<Longrightarrow> p i = In_call \<Longrightarrow> q \<noteq> In_call \<Longrightarrow> kernel_sem c' = 1 \<Longrightarrow> sem_ok c' (p(i := q))"
  by (auto simp: sem_ok_def)

lemma lock_leave_ok:
  assumes inv: "lock_inv m" and i: "runs V (cv_kernel (mon m)) (tcb i)" "at m i = place_of cv"
  shows "\<exists>c ret. cv_leave cv i (mon m) = Some (c, ret) \<and> lock_inv \<lparr>mon = c, at = (at m)(i := Turning)\<rparr>"
proof -
  obtain W where W: "queues {} (mon m) (at m) W" "sem_ok (mon m) (at m)" using inv by (auto simp: lock_inv_def)
  obtain c ret W' where c: "cv_leave cv i (mon m) = Some (c, ret)" "queues {} c ((at m)(i := Turning)) W'" "kernel_sem c = kernel_sem (mon m)"
    using queues_leave [OF W(1) i] by blast
  have "sem_ok c ((at m)(i := Turning))" using W(2) c(3) i(2) by (simp add: sem_ok_def place_upd del: fun_upd_apply)
  moreover have "wanting ((at m)(i := Turning)) ws i" for ws by (simp add: wanting_def)
  ultimately have "lock_inv \<lparr>mon = c, at = (at m)(i := Turning)\<rparr>" using c(2) by (auto simp: lock_inv_def simp del: fun_upd_apply)
  then show ?thesis using c(1) by blast
qed

lemma lock_unlock_ok:
  assumes inv: "lock_inv m" and i: "at m i = In_call"
  shows "\<exists>c. kernel_unlock_sem S (mon m) = Some c \<and> lock_inv \<lparr>mon = c, at = (at m)(i := In_user)\<rparr>"
proof -
  obtain W where W: "queues {} (mon m) (at m) W" "sem_ok (mon m) (at m)" using inv by (auto simp: lock_inv_def)
  obtain c where c: "kernel_unlock_sem S (mon m) = Some c" "queues {} c (at m) (W(kernel_sem_cv := tl (W kernel_sem_cv)))" "kernel_sem c = 1"
    "tl (W kernel_sem_cv) \<noteq> [] \<longrightarrow> (\<exists>j. wanting (at m) (tl (W kernel_sem_cv)) j)" using unlock_ok [OF W i] by blast
  have "queues {} c ((at m)(i := In_user)) (W(kernel_sem_cv := tl (W kernel_sem_cv)))" by (rule queues_move [OF c(2)]) (use i in auto)
  moreover have "\<exists>j. wanting ((at m)(i := In_user)) (tl (W kernel_sem_cv)) j" if "tl (W kernel_sem_cv) \<noteq> []"
    using c(4) that i by (simp add: wanting_def place_upd del: fun_upd_apply)
  ultimately have "lock_inv \<lparr>mon = c, at = (at m)(i := In_user)\<rparr>"
    unfolding lock_inv_def using sem_ok_left [OF W(2) i _ c(3), of In_user]
    by (intro exI [of _ "W(kernel_sem_cv := tl (W kernel_sem_cv))"]) simp
  then show ?thesis using c(1) by blast
qed

lemma lock_wait_ok:
  assumes inv: "lock_inv m" and i: "runs V (cv_kernel (mon m)) (tcb i)" "at m i = In_call" and fits: "usable V (cv_kernel (mon m)) timeout"
  shows "\<exists>c. wait_release S (tcb i) (user_cv n) cause timeout i (mon m) = Some c \<and> lock_inv \<lparr>mon = c, at = (at m)(i := Cond_queue n)\<rparr>"
proof -
  obtain W where W: "queues {} (mon m) (at m) W" "sem_ok (mon m) (at m)" using inv by (auto simp: lock_inv_def)
  let ?W = "W(kernel_sem_cv := tl (W kernel_sem_cv))"
  obtain c where c: "kernel_unlock_sem S (mon m) = Some c" "queues {} c (at m) ?W" "kernel_sem c = 1" "runs V (cv_kernel c) (tcb i)"
    "tl (W kernel_sem_cv) \<noteq> [] \<longrightarrow> (\<exists>j. wanting (at m) (tl (W kernel_sem_cv)) j)" "still V (cv_kernel (mon m)) (cv_kernel c)"
    using unlock_ok [OF W i(2)] i(1) stillD(1) by metis
  have "usable V (cv_kernel c) timeout" by (rule stillD(2) [OF c(6) fits])
  from queues_enqueue [OF c(2,4) _ this, of "user_cv n" cause] i(2) c(3)
  obtain d where d: "cv_sleep S (tcb i) (user_cv n) cause timeout i c = Some d"
    "queues {} d ((at m)(i := Cond_queue n)) (?W(user_cv n := ?W (user_cv n) @ [i]))" "kernel_sem d = 1" by auto
  have "\<exists>j. wanting ((at m)(i := Cond_queue n)) (tl (W kernel_sem_cv)) j" if "tl (W kernel_sem_cv) \<noteq> []"
    using c(5) that i(2) by (simp add: wanting_def place_upd del: fun_upd_apply)
  then have "lock_inv \<lparr>mon = d, at = (at m)(i := Cond_queue n)\<rparr>"
    unfolding lock_inv_def using d(2) sem_ok_left [OF W(2) i(2) _ d(3), of "Cond_queue n"]
    by (intro exI [of _ "?W(user_cv n := ?W (user_cv n) @ [i])"]) simp
  then show ?thesis using c(1) d(1) by (simp add: wait_release_def)
qed

lemma lock_exit_ok:
  assumes inv: "lock_inv m" and i: "runs V (cv_kernel (mon m)) (tcb i)" "at m i = In_call"
  shows "\<exists>c. kernel_sleep S (tcb i) EXITED cause (mon m) = Some c \<and> lock_inv \<lparr>mon = c, at = (at m)(i := In_user)\<rparr>"
proof -
  obtain W where W: "queues {} (mon m) (at m) W" "sem_ok (mon m) (at m)" using inv by (auto simp: lock_inv_def)
  let ?W = "W(kernel_sem_cv := tl (W kernel_sem_cv))" and ?p = "(at m)(i := In_user)"
  obtain c where c: "kernel_unlock_sem S (mon m) = Some c" "queues {} c (at m) ?W" "kernel_sem c = 1" "runs V (cv_kernel c) (tcb i)"
    "tl (W kernel_sem_cv) \<noteq> [] \<longrightarrow> (\<exists>j. wanting (at m) (tl (W kernel_sem_cv)) j)"
    using unlock_ok [OF W i(2)] i(1) stillD(1) by metis
  obtain k where k: "sleep_op S (tcb i) EXITED cause NO_TIMEOUT (cv_kernel c) = Some k" "valid V k"
    "same_sleep V (in_use V (cv_kernel c) - {tcb i}) (cv_kernel c) k" "in_use V k = in_use V (cv_kernel c) - {tcb i}"
    using sleeps [OF queuesD(1) [OF c(2)] c(4) forever, of EXITED cause] by auto
  have m: "queues {} c ?p ?W" by (rule queues_move [OF c(2)]) (use i in auto)
  have "queues {} (c\<lparr>cv_kernel := k\<rparr>) ?p ?W"
  proof (rule queues_kernel [OF m k(2)])
    fix j assume j: "?p j \<noteq> In_user"
    then have "j \<noteq> i" by auto
    then show "tcb j \<in> in_use V k" using queuesD(9) [OF m j] unfolding k(4) by (simp add: tcb_inj)
  next
    fix j assume j: "?p j = Sem_queue \<and> j \<notin> {} \<or> ?p j = Turning"
    then show "(asleep V (cv_kernel c) (tcb j) \<longrightarrow> asleep V k (tcb j)) \<and> (awake V (cv_kernel c) (tcb j) \<longrightarrow> awake V k (tcb j))"
      using queuesD(9) [OF m, of j] k(3) by (cases "j = i") (auto simp: same_sleep_def tcb_inj)
  qed simp
  moreover have "\<exists>j. wanting ?p (tl (W kernel_sem_cv)) j" if "tl (W kernel_sem_cv) \<noteq> []"
    using c(5) that i(2) by (simp add: wanting_def place_upd del: fun_upd_apply)
  ultimately have "lock_inv \<lparr>mon = c\<lparr>cv_kernel := k\<rparr>, at = ?p\<rparr>"
    unfolding lock_inv_def using sem_ok_left [OF W(2) i(2), of In_user "c\<lparr>cv_kernel := k\<rparr>"] c(3) by (intro exI [of _ ?W]) simp
  then show ?thesis using c(1) k(1) by (simp add: kernel_sleep_def kernel_unlock_sem_def)
qed

lemma lock_signal_ok:
  assumes "lock_inv m"
  shows "\<exists>c. kernel_signal S (user_cv n) (mon m) = Some c \<and> lock_inv (m\<lparr>mon := c\<rparr>)"
    and "\<exists>c. kernel_broadcast_cv S (user_cv n) (mon m) = Some c \<and> lock_inv (m\<lparr>mon := c\<rparr>)"
proof -
  obtain W where W: "queues {} (mon m) (at m) W" "sem_ok (mon m) (at m)"
    "kernel_sem (mon m) = 1 \<and> W kernel_sem_cv \<noteq> [] \<longrightarrow> (\<exists>i. wanting (at m) (W kernel_sem_cv) i)"
    using assms by (auto simp: lock_inv_def)
  have keep: "lock_inv (m\<lparr>mon := c\<rparr>)" if "queues {} c (at m) (W(user_cv n := ws))" "kernel_sem c = kernel_sem (mon m)" for c ws
    unfolding lock_inv_def using that W by (intro exI [of _ "W(user_cv n := ws)"]) (simp add: sem_ok_def)
  show "\<exists>c. kernel_signal S (user_cv n) (mon m) = Some c \<and> lock_inv (m\<lparr>mon := c\<rparr>)"
    using queues_signal [OF W(1), of "user_cv n"] keep unfolding kernel_signal_def Cond_Signal_def by blast
  show "\<exists>c. kernel_broadcast_cv S (user_cv n) (mon m) = Some c \<and> lock_inv (m\<lparr>mon := c\<rparr>)"
    using queues_broadcast [OF W(1), of "user_cv n"] keep unfolding kernel_broadcast_cv_def by blast
qed

lemma lock_sched_ok:
  assumes "lock_inv m" and "goes_on V (cv_kernel (mon m)) k"
  shows "lock_inv (m\<lparr>mon := (mon m)\<lparr>cv_kernel := k\<rparr>\<rparr>)"
proof -
  obtain W where W: "queues {} (mon m) (at m) W" "sem_ok (mon m) (at m)"
    "kernel_sem (mon m) = 1 \<and> W kernel_sem_cv \<noteq> [] \<longrightarrow> (\<exists>i. wanting (at m) (W kernel_sem_cv) i)"
    using assms(1) by (auto simp: lock_inv_def)
  have "valid V k" "in_use V (cv_kernel (mon m)) \<subseteq> in_use V k" "same_sleep V (in_use V (cv_kernel (mon m))) (cv_kernel (mon m)) k"
    using others [OF queuesD(1) [OF W(1)] assms(2)] by simp_all
  from queues_same_sleep [OF W(1) this] show ?thesis unfolding lock_inv_def using W by (intro exI [of _ W]) (simp add: sem_ok_def)
qed

lemma lock_lock_ok:
  assumes "lock_inv m" and "runs V (cv_kernel (mon m)) (tcb i)" and "at m i = In_user \<or> at m i = Turning"
  shows "\<exists>c got. lock_turn S (tcb i) i (mon m) = Some (c, got) \<and> lock_inv \<lparr>mon = c, at = (at m)(i := if got then In_call else Sem_queue)\<rparr>"
  using assms lock_turn_ok [of "mon m" "at m"] unfolding lock_inv_def by blast

lemma lstep_keeps: "lstep S V tcb m m' \<Longrightarrow> lock_inv m \<Longrightarrow> lock_inv m'"
proof (induction rule: lstep.induct)
  case (l_lock m i c got)
  then show ?case using lock_lock_ok [of m i] by auto
next
  case (l_leave m i cv c ret)
  then show ?case using lock_leave_ok [of m i cv] by auto
next
  case (l_unlock m i c)
  then show ?case using lock_unlock_ok [of m i] by auto
next
  case (l_wait m i timeout n cause c)
  then show ?case using lock_wait_ok [of m i timeout n cause] by auto
next
  case (l_signal m i n c)
  then show ?case using lock_signal_ok(1) [of m n] by auto
next
  case (l_broadcast m i n c)
  then show ?case using lock_signal_ok(2) [of m n] by auto
next
  case (l_exit m i cause c)
  then show ?case using lock_exit_ok [of m i cause] by auto
next
  case (l_sched m k)
  then show ?case using lock_sched_ok by blast
qed

end

sublocale scheduler \<subseteq> klock: invariant_system "lstep S V tcb" lock_inv
  by unfold_locales (rule lstep_keeps)

section \<open>The scheduler of \<open>kernel_sched.c\<close> keeps the contract\<close>

definition kernel_view :: "(tcb_ptr, kernel) sched_view" where
  "kernel_view = \<lparr>valid = sched_ok, in_use = live, runs = (\<lambda>k t. current_thread k = Some t), state_of = (\<lambda>k t. tcb_state (tcbs k t)),
     untimed = (\<lambda>k t. wakeup_time (tcbs k t) = NO_TIMEOUT), usable = timeout_fits,
     goes_on = (\<lambda>k k'. (\<exists>cause. yield cause k = Some k') \<or> (\<exists>h. k' = k\<lparr>cpu := h\<rparr>) \<or> (\<exists>pcb func. k' = fst (spawn_thread pcb func k))
       \<or> (\<exists>t ret. t \<in> live k \<and> tcb_state (tcbs k t) = INIT \<and> wakeup t k = Some (k', ret)))\<rparr>"

lemma kview: "asleep kernel_view k t \<longleftrightarrow> tcb_state (tcbs k t) = STOPPED \<and> wakeup_time (tcbs k t) = NO_TIMEOUT"
  "awake kernel_view k t \<longleftrightarrow> tcb_state (tcbs k t) = READY \<or> tcb_state (tcbs k t) = RUNNING"
  by (simp_all add: asleep_def awake_def kernel_view_def)

lemma yield_others:
  assumes inv: "sched_inv s L c" and st: "tcb_state (tcbs s c) \<in> {RUNNING, STOPPED, EXITED}"
    and y: "0 \<le> yield_count s" "yield_count s < YIELD_RUNS" and r: "yield_in mk cause s = Some r"
  shows "same_sleep kernel_view (live s - {c}) s r" and "tcb_state (tcbs s c) = RUNNING \<Longrightarrow> awake kernel_view r c"
proof -
  let ?r = "snd (bios_cancel_timer (cpu s))"
  obtain r' sw Lw where y: "yield_in mk cause s = Some r'" "at_choice cause s c sw" "sched_inv sw Lw c" "live sw = live s"
    "tcbs r' = after_switch (tcbs sw) c (next_thread sw Lw c)"
    by (rule yield_in_inv [OF inv st y, of mk cause]) metis
  let ?n = "next_thread sw Lw c"
  from y(2) obtain sb where sb: "maybe_boost (yield_enter s) = Some sb" "sched_wakeup_expired_timeouts (upd_tcb c (account cause ?r) sb) = Some sw"
    by (auto simp: at_choice_def)
  obtain N h L' where mb: "sb = (if yield_count s + 1 = YIELD_RUNS then (raise_all (yield_enter s) N h)\<lparr>yield_count := 0\<rparr> else yield_enter s)"
    "sched_inv sb L' c"
    by (rule maybe_boost_inv [OF inv]) (use sb(1) in auto)
  let ?sa = "upd_tcb c (account cause ?r) sb"
  have inva: "sched_inv ?sa L' c"
    using mb(2) account_ok sched_invD(2) [OF mb(2) sched_invD(4) [OF mb(2)]] by (intro sched_inv_upd_tcb) simp_all
  obtain h' where sw: "sw = wake_all ?sa (bios_clock (cpu ?sa)) h'"
    by (rule wakeup_expired_inv [OF inva, of "bios_clock (cpu ?sa)"]) (use sb(2) in \<open>auto simp: sched_wakeup_expired_timeouts_def\<close>)
  have t: "tcb_state (tcbs sb t) = tcb_state (tcbs s t)" "wakeup_time (tcbs sb t) = wakeup_time (tcbs s t)" for t
    by (simp_all add: mb(1) yield_enter_def)
  have keep: "(asleep kernel_view s t \<longrightarrow> asleep kernel_view sw t) \<and> (awake kernel_view s t \<longrightarrow> awake kernel_view sw t)" for t
    by (auto simp: kview sw upd_tcb_apply t expired_def make_ready_tcb_def)
  have n: "tcb_state (tcbs sw ?n) = READY \<or> ?n = idle_thread \<or> ?n = c" using next_thread_facts(3) [OF y(3)] by blast
  have idle: "\<not> asleep kernel_view sw idle_thread" using thread_okD(11) [OF sched_invD(2) [OF y(3) live_idle]] by (auto simp: kview)
  show "same_sleep kernel_view (live s - {c}) s r"
    using y(1,5) r keep n idle by (auto simp: same_sleep_def after_switch_def kview)
  show "awake kernel_view r c" if "tcb_state (tcbs s c) = RUNNING"
    using that y(1,5) r keep [of c] by (auto simp: after_switch_def kview)
qed

lemma yield_sleep:
  assumes "sched_ok k" and "yield cause k = Some k'"
  shows "sched_ok k'" "live k' = live k" "same_sleep kernel_view (live k) k k'"
proof -
  obtain L c where c: "sched_inv k L c" "tcb_state (tcbs k c) = RUNNING" "0 \<le> yield_count k" "yield_count k < YIELD_RUNS"
    using assms(1) by (rule sched_okE)
  have st: "tcb_state (tcbs k c) \<in> {RUNNING, STOPPED, EXITED}" using c(2) by simp
  obtain r where r: "yield_in In_yield cause k = Some r" "sched_ok r" "live r = live k"
    by (rule yield_in_inv [OF c(1) st c(3,4), of In_yield cause]) (use c(2) in auto)
  then show "sched_ok k'" "live k' = live k" using assms(2) by (simp_all add: yield_def)
  show "same_sleep kernel_view (live k) k k'"
  proof -
    have "k' = r" using assms(2) r(1) by (simp add: yield_def)
    moreover have "\<not> asleep kernel_view k c" using c(2) by (simp add: kview)
    ultimately show ?thesis using yield_others(1) [OF c(1) st c(3,4) r(1)] yield_others(2) [OF c(1) st c(3,4) r(1) c(2)]
      unfolding same_sleep_def by blast
  qed
qed

text \<open>Going to sleep, and exiting.\<close>

lemma sleep_sleep:
  assumes "sched_ok k" and "current_thread k = Some c" and "c \<noteq> idle_thread" and "timeout_fits k timeout" and st: "st = STOPPED \<or> st = EXITED"
  shows "\<exists>k'. sleep_releasing st cause timeout k = Some k' \<and> sched_ok k' \<and> same_sleep kernel_view (live k - {c}) k k' \<and> live k' = (if st = EXITED then live k - {c} else live k)
    \<and> (st = STOPPED \<and> timeout = NO_TIMEOUT \<longrightarrow> asleep kernel_view k' c)"
proof -
  obtain L d where d: "sched_inv k L d" "tcb_state (tcbs k d) = RUNNING" "0 \<le> yield_count k" "yield_count k < YIELD_RUNS" "current_thread k = Some d"
    using assms(1) by (rule sched_okE)
  then have dc: "d = c" using assms(2) by simp
  note c = d(1,2) [unfolded dc] d(3,4)
  obtain z Lz where z: "sleep_releasing st cause timeout k = yield_in (In_sleep (cpu_interrupts_enabled (cpu k))) cause z"
    "sched_inv z Lz c" "tcb_state (tcbs z c) = st" "live z = live k" "yield_count z = yield_count k" "\<forall>u. u \<noteq> c \<longrightarrow> tcbs z u = tcbs k u"
    by (rule sleep_before_yield [OF c(1,2) assms(3) st assms(4)])
  obtain r where r: "sleep_releasing st cause timeout k = Some r" "sched_ok r"
    "st = STOPPED \<longrightarrow> timeout = NO_TIMEOUT \<or> bios_clock (cpu k) < bios_clock (cpu k) + timeout \<longrightarrow>
      c \<in> live r \<and> tcb_state (tcbs r c) = STOPPED \<and> current_thread r \<noteq> Some c
      \<and> wakeup_time (tcbs r c) = (if timeout = NO_TIMEOUT then NO_TIMEOUT else bios_clock (cpu k) + timeout)"
    by (rule sleep_inv [OF c(1,2) assms(3) st assms(4) c(3,4)])
  have sz: "tcb_state (tcbs z c) \<in> {RUNNING, STOPPED, EXITED}" "0 \<le> yield_count z" "yield_count z < YIELD_RUNS" using z st c by auto
  have ry: "yield_in (In_sleep (cpu_interrupts_enabled (cpu k))) cause z = Some r" using z(1) r(1) by simp
  have "same_sleep kernel_view (live k - {c}) k r"
    using yield_others(1) [OF z(2) sz ry] z(4,6) by (simp add: same_sleep_def kview)
  moreover have "live r = (if st = EXITED then live k - {c} else live k)"
    by (rule yield_in_inv [OF z(2) sz, of "In_sleep (cpu_interrupts_enabled (cpu k))" cause]) (use ry z(3,4) in simp)
  ultimately show ?thesis using r by (auto simp: kview)
qed

lemma wakeup_sleep:
  assumes "sched_ok k" and "t \<in> live k"
  shows "\<exists>k' ret. wakeup t k = Some (k', ret) \<and> (ret \<noteq> 0 \<longleftrightarrow> tcb_state (tcbs k t) = STOPPED \<or> tcb_state (tcbs k t) = INIT) \<and> sched_ok k'
    \<and> live k' = live k \<and> current_thread k' = current_thread k \<and> cpu k' = cpu k \<and> awake kernel_view k' t \<and> same_sleep kernel_view (live k - {t}) k k'"
proof -
  obtain L c where c: "sched_inv k L c" "tcb_state (tcbs k c) = RUNNING" using assms(1) by (rule sched_okE)
  have "tcb_state (tcbs k t) \<noteq> EXITED" using thread_okD(8) [OF sched_invD(2) [OF c(1) assms(2)]] c(2) by auto
  then have "tcb_state (tcbs k t) \<noteq> STOPPED \<Longrightarrow> tcb_state (tcbs k t) \<noteq> INIT \<Longrightarrow> awake kernel_view k t"
    by (cases "tcb_state (tcbs k t)") (simp_all add: kview)
  then show ?thesis using wakeup_ok [OF assms] by (auto simp: same_sleep_def kview make_ready_tcb_def)
qed

lemma spawn_sleep:
  assumes "sched_ok k"
  shows "sched_ok (fst (spawn_thread pcb func k))" "live k \<subseteq> live (fst (spawn_thread pcb func k))"
    "same_sleep kernel_view (live k) k (fst (spawn_thread pcb func k))"
proof -
  show "sched_ok (fst (spawn_thread pcb func k))" by (rule spawn_ok(1) [OF assms])
  have "live k \<subseteq> live (fst (spawn_thread pcb func k)) \<and> same_sleep kernel_view (live k) k (fst (spawn_thread pcb func k))"
  proof (cases "first_from (\<lambda>i. \<not> thread_used k i) 0 MAX_THREADS")
    case None
    then show ?thesis by (simp add: spawn_thread_def same_sleep_def)
  next
    case (Some slot)
    note F = first_from_SomeD [OF Some]
    obtain L c where c: "sched_inv k L c" using assms by (rule sched_okE)
    have "thread_pool slot \<notin> live k" using F by (auto simp: live_def)
    then have "tcbs (spawned pcb func slot k) t = tcbs k t" if "t \<in> live k" for t
      using that by (auto simp: spawned_def case_prod_beta Let_def)
    then show ?thesis using spawned_inv(2) [OF c, of slot] F spawn_eq [OF Some] by (auto simp: same_sleep_def kview)
  qed
  then show "live k \<subseteq> live (fst (spawn_thread pcb func k))" "same_sleep kernel_view (live k) k (fst (spawn_thread pcb func k))" by blast+
qed

lemma start_sleep:
  assumes "sched_ok k" and "t \<in> live k" and "tcb_state (tcbs k t) = INIT" and "wakeup t k = Some (k', ret)"
  shows "sched_ok k'" "live k' = live k" "same_sleep kernel_view (live k) k k'"
proof -
  have K: "sched_ok k'" "live k' = live k" "same_sleep kernel_view (live k - {t}) k k'" using wakeup_sleep [OF assms(1,2)] assms(4) by auto
  then show "sched_ok k'" "live k' = live k" by simp_all
  have "\<not> asleep kernel_view k t" "\<not> awake kernel_view k t" using assms(3) by (simp_all add: kview)
  then show "same_sleep kernel_view (live k) k k'" using K(3) unfolding same_sleep_def by blast
qed

interpretation ks: scheduler kernel_sched kernel_view thread_pool
proof (unfold_locales, goal_cases)
  case (1 i j)
  then show ?case by simp
next
  case (2 k t)
  then show ?case using sched_invD(4) by (auto simp: kernel_view_def elim!: sched_okE)
next
  case (3 k)
  then show ?case by (simp add: kernel_view_def timeout_fits_def)
next
  case (4 k i timeout st cause)
  then show ?case using sleep_sleep [of k "thread_pool i" timeout st cause] by (auto simp: kernel_sched_def kernel_view_def)
next
  case (5 k t)
  then have "sched_ok k" "t \<in> live k" by (simp_all add: kernel_view_def)
  from wakeup_sleep [OF this] show ?case by (auto simp: kernel_sched_def kernel_view_def still_def timeout_fits_def)
next
  case (6 k k')
  then have k: "sched_ok k" by (simp add: kernel_view_def)
  have h: "same_sleep kernel_view T k (k\<lparr>cpu := h\<rparr>)" for T h by (simp add: same_sleep_def kview)
  have v: "valid kernel_view = sched_ok" "in_use kernel_view = live" by (simp_all add: kernel_view_def)
  from 6(2) consider cause where "yield cause k = Some k'" | h where "k' = k\<lparr>cpu := h\<rparr>" | pcb func where "k' = fst (spawn_thread pcb func k)"
    | t ret where "t \<in> live k" "tcb_state (tcbs k t) = INIT" "wakeup t k = Some (k', ret)" unfolding kernel_view_def by auto
  then show ?case unfolding v
  proof cases
    case (1 cause)
    then show "sched_ok k' \<and> live k \<subseteq> live k' \<and> same_sleep kernel_view (live k) k k'" using yield_sleep [OF k] by blast
  next
    case (2 h')
    then show "sched_ok k' \<and> live k \<subseteq> live k' \<and> same_sleep kernel_view (live k) k k'" using k h by simp
  next
    case (3 pcb func)
    then show "sched_ok k' \<and> live k \<subseteq> live k' \<and> same_sleep kernel_view (live k) k k'" using spawn_sleep [OF k] by simp
  next
    case (4 t ret)
    then show "sched_ok k' \<and> live k \<subseteq> live k' \<and> same_sleep kernel_view (live k) k k'" using start_sleep [OF k] by blast
  qed
qed

section \<open>The kernel is a monitor\<close>

definition lock_free :: "('t, 'k) sched_view \<Rightarrow> ('t, 'k) monitor \<Rightarrow> bool" where
  "lock_free V m \<longleftrightarrow> valid V (cv_kernel (mon m)) \<and> waitset (mon m) = (\<lambda>_. None) \<and> kernel_sem (mon m) = 1 \<and> at m = (\<lambda>_. In_user)"

context scheduler begin

lemma lock_free_inv: "lock_free V m \<Longrightarrow> lock_inv m"
  unfolding lock_inv_def by (intro exI [of _ "\<lambda>_. []"]) (simp add: lock_free_def queues_def sem_ok_def)

lemma lock_reachable: "lock_free V m0 \<Longrightarrow> (lstep S V tcb)\<^sup>*\<^sup>* m0 m \<Longrightarrow> lock_inv m"
  using klock.reachable_keeps lock_free_inv by blast

lemma lock_inv_sem:
  assumes "lock_inv m"
  shows "kernel_sem (mon m) = (if \<exists>i. at m i = In_call then 0 else 1)" "at m i = In_call \<Longrightarrow> at m j = In_call \<Longrightarrow> i = j"
  using assms unfolding lock_inv_def sem_ok_def by blast+

lemma lock_inv_wakeup:
  assumes "lock_inv m" and "kernel_sem (mon m) = 1" and "at m i = Sem_queue \<or> at m i = Turning"
  shows "\<exists>j. (at m j = Sem_queue \<or> at m j = Turning) \<and> awake V (cv_kernel (mon m)) (tcb j)"
proof -
  obtain W where W: "queues {} (mon m) (at m) W" "kernel_sem (mon m) = 1 \<and> W kernel_sem_cv \<noteq> [] \<longrightarrow> (\<exists>i. wanting (at m) (W kernel_sem_cv) i)"
    using assms(1) by (auto simp: lock_inv_def)
  have "\<exists>j. wanting (at m) (W kernel_sem_cv) j"
  proof (cases "W kernel_sem_cv")
    case Nil
    then show ?thesis using assms(3) by (auto simp: wanting_def)
  qed (use W(2) assms(2) in auto)
  then obtain j where "wanting (at m) (W kernel_sem_cv) j" by blast
  then show ?thesis using queuesD(10,11) [OF W(1), of j] by (auto simp: wanting_def)
qed

end

text \<open>C18. The kernel lock makes the kernel a monitor, for any number of threads on any number of cores, over any scheduler that keeps the
  contract (locale \<open>scheduler\<close>). From the free lock, whatever threads call, wait, signal, exit and
  are preempted, and in whatever order: at most one thread is inside a system call, and the semaphore is 0 when there is one and
  1 when there is none; no wakeup is lost, for when the lock is free and threads want it, one of them is ready to run or runs and will
  try again; and no call of the lock fails, for a thread that has a core can always take the next step of the protocol,
  whether it locks, comes back from a sleep, unlocks, signals, waits with any usable timeout, or exits.\<close>

theorem kernel_lock_monitor:
  assumes "scheduler S V tcb" and "lock_free V m0" and "(lstep S V tcb)\<^sup>*\<^sup>* m0 m"
  shows "(\<forall>i j. at m i = In_call \<and> at m j = In_call \<longrightarrow> i = j)
    \<and> kernel_sem (mon m) = (if \<exists>i. at m i = In_call then 0 else 1)
    \<and> (kernel_sem (mon m) = 1 \<and> (\<exists>i. at m i = Sem_queue \<or> at m i = Turning) \<longrightarrow>
         (\<exists>i. (at m i = Sem_queue \<or> at m i = Turning) \<and> awake V (cv_kernel (mon m)) (tcb i)))
    \<and> (\<forall>i. runs V (cv_kernel (mon m)) (tcb i) \<longrightarrow>
         (at m i = In_user \<or> at m i = Turning \<longrightarrow> lock_turn S (tcb i) i (mon m) \<noteq> None)
       \<and> (\<forall>cv. at m i = place_of cv \<longrightarrow> cv_leave cv i (mon m) \<noteq> None)
       \<and> (at m i = In_call \<longrightarrow> kernel_unlock_sem S (mon m) \<noteq> None \<and> kernel_sleep S (tcb i) EXITED cause (mon m) \<noteq> None
            \<and> kernel_signal S (user_cv n) (mon m) \<noteq> None \<and> kernel_broadcast_cv S (user_cv n) (mon m) \<noteq> None
            \<and> (usable V (cv_kernel (mon m)) timeout \<longrightarrow> wait_release S (tcb i) (user_cv n) cause timeout i (mon m) \<noteq> None)))"
proof (intro conjI allI impI)
  note A = assms(1)
  have inv: "scheduler.lock_inv V tcb m" using scheduler.lock_reachable [OF A assms(2,3)] .
  note B = scheduler.lock_inv_sem [OF A inv]
  show "i = j" if "at m i = In_call \<and> at m j = In_call" for i j using B(2) that by blast
  show "kernel_sem (mon m) = (if \<exists>i. at m i = In_call then 0 else 1)" by (rule B(1))
  show "\<exists>i. (at m i = Sem_queue \<or> at m i = Turning) \<and> awake V (cv_kernel (mon m)) (tcb i)"
    if "kernel_sem (mon m) = 1 \<and> (\<exists>i. at m i = Sem_queue \<or> at m i = Turning)"
    using that scheduler.lock_inv_wakeup [OF A inv] by blast
  fix i assume i: "runs V (cv_kernel (mon m)) (tcb i)"
  show "lock_turn S (tcb i) i (mon m) \<noteq> None" if "at m i = In_user \<or> at m i = Turning" using scheduler.lock_lock_ok [OF A inv i that] by auto
  show "cv_leave cv i (mon m) \<noteq> None" if "at m i = place_of cv" for cv using scheduler.lock_leave_ok [OF A inv i that] by auto
  assume c: "at m i = In_call"
  show "kernel_unlock_sem S (mon m) \<noteq> None" using scheduler.lock_unlock_ok [OF A inv c] by auto
  show "kernel_sleep S (tcb i) EXITED cause (mon m) \<noteq> None" using scheduler.lock_exit_ok [OF A inv i c, of cause] by auto
  show "kernel_signal S (user_cv n) (mon m) \<noteq> None" "kernel_broadcast_cv S (user_cv n) (mon m) \<noteq> None"
    using scheduler.lock_signal_ok [OF A inv, of n] by auto
  show "wait_release S (tcb i) (user_cv n) cause timeout i (mon m) \<noteq> None" if "usable V (cv_kernel (mon m)) timeout"
    using scheduler.lock_wait_ok [OF A inv i c that, of n cause] by auto
qed

text \<open>A machine with a core for every thread and no timeouts. Thread 0 has the lock, 1 and 2 have gone to sleep for it; when 0 unlocks, one of
  them is awake.\<close>

definition multi :: "(nat, nat \<Rightarrow> Thread_state) sched" where
  "multi = \<lparr>sleep_op = (\<lambda>t st cause timeout k. Some (k(t := st))),
     wakeup_op = (\<lambda>t k. if k t = STOPPED \<or> k t = INIT then Some (k(t := READY), 1) else Some (k, 0))\<rparr>"

definition multi_view :: "(nat, nat \<Rightarrow> Thread_state) sched_view" where
  "multi_view = \<lparr>valid = (\<lambda>_. True), in_use = (\<lambda>k. {t. k t \<noteq> EXITED}), runs = (\<lambda>k t. k t = RUNNING), state_of = (\<lambda>k. k),
     untimed = (\<lambda>_ _. True), usable = (\<lambda>_ _. True),
     goes_on = (\<lambda>k k'. \<forall>t. k' t = k t \<or> k t = INIT \<and> k' t = READY \<or> k t = READY \<and> k' t = RUNNING \<or> k t = RUNNING \<and> k' t = READY)\<rparr>"

lemma multi_ok: "scheduler multi multi_view (\<lambda>i. i)"
proof (unfold_locales, goal_cases)
  case (4 k i timeout st cause)
  then show ?case by (auto simp: multi_def multi_view_def same_sleep_def asleep_def awake_def)
next
  case (5 k t)
  then show ?case by (cases "k t") (auto simp: multi_def multi_view_def same_sleep_def asleep_def awake_def still_def)
next
  case (6 k k')
  then have g: "k' t = k t \<or> k t = INIT \<and> k' t = READY \<or> k t = READY \<and> k' t = RUNNING \<or> k t = RUNNING \<and> k' t = READY" for t
    by (simp add: multi_view_def)
  show ?case unfolding same_sleep_def asleep_def awake_def multi_view_def using g by (simp add: subset_iff) (metis Thread_state.distinct)
qed (simp_all add: multi_view_def)

definition multi_start :: "(nat, nat \<Rightarrow> Thread_state) monitor" where
  "multi_start = \<lparr>mon = \<lparr>cv_kernel = (\<lambda>_. RUNNING), cv_ring = \<lparr>nxt = (\<lambda>n. n), prv = (\<lambda>n. n), key = (\<lambda>n. n)\<rparr>,
     waiters = (\<lambda>w. \<lparr>w_thread = w, signalled = False, removed = False\<rparr>), waitset = (\<lambda>_. None), kernel_sem = 1\<rparr>, at = (\<lambda>_. In_user)\<rparr>"

lemma lock_asleep: "kernel_sem c \<le> 0 \<Longrightarrow> lock_turn multi i i c =
    Some ((cv_enqueue kernel_sem_cv i i c)\<lparr>cv_kernel := (cv_kernel c)(i := STOPPED)\<rparr>, False)"
  by (simp add: lock_turn_def cv_sleep_def multi_def Let_def)

theorem kernel_lock_monitor_witness:
  "\<exists>m m'. lock_free multi_view multi_start \<and> (lstep multi multi_view (\<lambda>i. i))\<^sup>*\<^sup>* multi_start m
    \<and> at m 0 = In_call \<and> at m 1 = Sem_queue \<and> at m 2 = Sem_queue \<and> lstep multi multi_view (\<lambda>i. i) m m'
    \<and> kernel_sem (mon m') = 1 \<and> (\<exists>i. (at m' i = Sem_queue \<or> at m' i = Turning) \<and> awake multi_view (cv_kernel (mon m')) i)"
proof -
  have f: "lock_free multi_view multi_start" by (simp add: lock_free_def multi_start_def multi_view_def)
  let ?L = "lstep multi multi_view (\<lambda>i. i)"
  let ?c0 = "(mon multi_start)\<lparr>kernel_sem := 0\<rparr>"
  let ?m0 = "\<lparr>mon = ?c0, at = (at multi_start)(0 := if True then In_call else Sem_queue)\<rparr>"
  have r: "runs multi_view k i \<longleftrightarrow> k i = RUNNING" for k i by (simp add: multi_view_def)
  have 0: "?L multi_start ?m0" by (rule l_lock) (simp_all add: r multi_start_def lock_turn_def)
  let ?c1 = "(cv_enqueue kernel_sem_cv 1 1 ?c0)\<lparr>cv_kernel := (cv_kernel ?c0)(1 := STOPPED)\<rparr>"
  let ?m1 = "\<lparr>mon = ?c1, at = (at ?m0)(1 := if False then In_call else Sem_queue)\<rparr>"
  have 1: "?L ?m0 ?m1" by (rule l_lock) (simp_all add: r lock_asleep, simp_all add: multi_start_def)
  let ?c2 = "(cv_enqueue kernel_sem_cv 2 2 ?c1)\<lparr>cv_kernel := (cv_kernel ?c1)(2 := STOPPED)\<rparr>"
  let ?m2 = "\<lparr>mon = ?c2, at = (at ?m1)(2 := if False then In_call else Sem_queue)\<rparr>"
  have 2: "?L ?m1 ?m2" by (rule l_lock) (simp_all add: r lock_asleep, simp_all add: multi_start_def)
  define m where "m = ?m2"
  have run: "?L\<^sup>*\<^sup>* multi_start m" using 0 1 2 unfolding m_def by (meson r_into_rtranclp rtranclp_trans)
  have at: "at m 0 = In_call" "at m 1 = Sem_queue" "at m 2 = Sem_queue" "runs multi_view (cv_kernel (mon m)) 0" "i \<noteq> 0 \<Longrightarrow> at m i \<noteq> In_call" for i
    by (simp_all add: m_def r multi_start_def)
  obtain c where c: "kernel_unlock_sem multi (mon m) = Some c"
    using kernel_lock_monitor [OF multi_ok f run, of SCHED_USER 0 NO_TIMEOUT] at(1,4) by auto
  let ?m3 = "\<lparr>mon = c, at = (at m)(0 := In_user)\<rparr>"
  have 3: "?L m ?m3" by (rule l_unlock [where i = 0]) (use at(1,4) c in simp_all)
  from run 3 have run3: "?L\<^sup>*\<^sup>* multi_start ?m3" by (rule rtranclp.rtrancl_into_rtrancl)
  note K = kernel_lock_monitor [OF multi_ok f run3, of SCHED_USER 0 NO_TIMEOUT]
  have n: "\<not> (\<exists>i. at ?m3 i = In_call)" using at(5) by auto
  have s: "kernel_sem (mon ?m3) = 1" using K n by (simp only: if_False)
  have w: "\<exists>i. at ?m3 i = Sem_queue \<or> at ?m3 i = Turning" using at(2) by (intro exI [of _ 1]) simp
  have "\<exists>i. (at ?m3 i = Sem_queue \<or> at ?m3 i = Turning) \<and> awake multi_view (cv_kernel (mon ?m3)) i" using K s w by blast
  then show ?thesis using f run at(1-3) 3 s by blast
qed

end
