(* ===== verification/Pipe.thy ===== *)
theory Pipe
  imports Kernel_State
begin

text \<open>
  The pipes of the earlier kernel, \<open>old/kernel_pipe.c\<close> with \<open>old/kernel_streams.h\<close>: a bounded
  buffer in a circular list of one-character nodes, with a reading and a writing position.

  The nodes live in a heap of their own, addressed by numbers; NULL is \<open>None\<close>. \<open>malloc\<close> returns the next
  unused address. On the machine of that kernel an \<open>int\<close> and an \<open>unsigned int\<close> have 32 bits.

  \<open>kernel_wait\<close> releases the kernel and returns when somebody has signalled: what happens to the pipe in
  between is input, a list of \<open>pipe_pause\<close>s, one for each wait; a call that waits more often has not
  returned. A condition variable is the list of its waiters, which \<open>kernel_broadcast\<close> empties.
\<close>

section \<open>The circular list\<close>

record c_heap =
  c_next :: "nat \<Rightarrow> nat option"
  c_prev :: "nat \<Rightarrow> nat option"
  c_char :: "nat \<Rightarrow> u8"
  c_brk :: nat

definition malloc_node :: "c_heap \<Rightarrow> c_heap \<times> nat" where
  "malloc_node h = (h\<lparr>c_brk := c_brk h + 1\<rparr>, c_brk h)"

text \<open>The body of the loop: \<open>start_node\<close> is the last node of the list so far. \<open>new_node->next\<close> is not NULL
  after its assignment.\<close>

definition init_list_step :: "(nat \<Rightarrow> u8) option \<Rightarrow> nat \<Rightarrow> c_heap \<times> nat \<Rightarrow> c_heap \<times> nat" where
  "init_list_step dat i hs =
     (let (h, start_node) = hs;
          (h, new_node) = malloc_node h;
          new_next = (case c_next h start_node of Some n \<Rightarrow> n | None \<Rightarrow> start_node);
          h = h\<lparr>c_next := (c_next h)(new_node := Some new_next)\<rparr>;
          h = h\<lparr>c_prev := (c_prev h)(new_node := Some start_node)\<rparr>;
          h = h\<lparr>c_next := (c_next h)(start_node := Some new_node)\<rparr>;
          h = h\<lparr>c_prev := (c_prev h)(new_next := Some new_node)\<rparr>;
          h = h\<lparr>c_char := (c_char h)(new_node := (case dat of Some d \<Rightarrow> d i | None \<Rightarrow> 0))\<rparr>
      in (h, new_node))"

definition init_list :: "nat \<Rightarrow> (nat \<Rightarrow> u8) option \<Rightarrow> c_heap \<Rightarrow> c_heap \<times> nat" where
  "init_list n dat h =
     (let (h, start_node) = malloc_node h;
          h = h\<lparr>c_char := (c_char h)(start_node := (case dat of Some d \<Rightarrow> d 0 | None \<Rightarrow> 0))\<rparr>;
          h = h\<lparr>c_next := (c_next h)(start_node := None), c_prev := (c_prev h)(start_node := None)\<rparr>
      in (fst (fold (init_list_step dat) [0..<n] (h, start_node)), start_node))"

section \<open>The pipe\<close>

definition PIPE_BUFFER_SIZE :: u32 where "PIPE_BUFFER_SIZE = 4096"

record pipe_cb =
  p_writer :: "nat option"
  p_reader :: "nat option"
  hasSpace :: CondVar
  hasData :: CondVar
  buffer_node :: nat
  w_pos :: nat
  r_pos :: nat
  bufferBytes :: u32
  p_heap :: c_heap

type_synonym pipe_pause = "pipe_cb \<Rightarrow> pipe_cb"

definition kernel_broadcast :: "((CondVar \<Rightarrow> CondVar) \<Rightarrow> pipe_cb \<Rightarrow> pipe_cb) \<Rightarrow> pipe_cb \<Rightarrow> pipe_cb" where
  "kernel_broadcast cv_update p = cv_update (\<lambda>_. []) p"

text \<open>\<open>have_memory\<close> is whether \<open>malloc\<close> finds room for the control block. The fields \<open>writer\<close> and \<open>reader\<close>
  are not set here.\<close>

definition pipe_init :: "bool \<Rightarrow> nat option \<Rightarrow> nat option \<Rightarrow> c_heap \<Rightarrow> pipe_cb option" where
  "pipe_init have_memory junk_writer junk_reader h =
     (if \<not> have_memory then None
      else let (h, b) = init_list (unat PIPE_BUFFER_SIZE) None h
           in Some \<lparr>p_writer = junk_writer, p_reader = junk_reader, hasSpace = COND_INIT, hasData = COND_INIT,
                    buffer_node = b, w_pos = b, r_pos = b, bufferBytes = 0, p_heap = h\<rparr>)"

text \<open>\<open>while (bytesAvailable == 0 && pipe_w->reader != NULL) kernel_wait(...)\<close>\<close>

fun wait_for_space :: "pipe_pause list \<Rightarrow> pipe_cb \<Rightarrow> pipe_cb option" where
  "wait_for_space [] p = (if PIPE_BUFFER_SIZE - bufferBytes p = 0 \<and> p_reader p \<noteq> None then None else Some p)"
| "wait_for_space (r # rs) p =
     (if PIPE_BUFFER_SIZE - bufferBytes p = 0 \<and> p_reader p \<noteq> None then wait_for_space rs (r p) else Some p)"

text \<open>The loop that writes the bytes, with \<open>False\<close> when it stops at an occupied node. \<open>w_pos->next\<close> is
  dereferenced in the next turn or the next call, where NULL is the outer \<open>None\<close>.\<close>

fun pipe_write_loop :: "u8 list \<Rightarrow> pipe_cb \<Rightarrow> (pipe_cb \<times> bool) option" where
  "pipe_write_loop [] p = Some (p, True)"
| "pipe_write_loop (b # bs) p =
     (if c_char (p_heap p) (w_pos p) \<noteq> 0 then Some (p, False)
      else do {
        let h = (p_heap p)\<lparr>c_char := (c_char (p_heap p))(w_pos p := b)\<rparr>;
        n \<leftarrow> c_next h (w_pos p);
        pipe_write_loop bs (p\<lparr>p_heap := h, w_pos := n, bufferBytes := bufferBytes p + 1\<rparr>) })"

text \<open>\<open>buf\<close> holds the \<open>n\<close> bytes of the caller. The comparison \<open>n < bytesAvailable\<close> is between unsigned
  numbers, the bound of the loop is an \<open>int\<close>.\<close>

definition pipe_write :: "pipe_cb option \<Rightarrow> u8 list \<Rightarrow> pipe_pause list \<Rightarrow> (pipe_cb option \<times> int) option" where
  "pipe_write obj buf rs =
     (case obj of
        None \<Rightarrow> Some (None, -1)
      | Some p \<Rightarrow>
          if p_writer p = None \<or> p_reader p = None then Some (Some p, -1)
          else do {
            p \<leftarrow> wait_for_space rs p;
            if p_reader p = None then Some (Some p, -1)
            else do {
              let bytesAvailable = PIPE_BUFFER_SIZE - bufferBytes p;
              let n = (of_nat (length buf) :: u32);
              let w_bytes = (if n < bytesAvailable then n else bytesAvailable);
              (p, ok) \<leftarrow> pipe_write_loop (take (nat (sint w_bytes)) buf) p;
              if \<not> ok then Some (Some p, -1)
              else Some (Some (kernel_broadcast hasData_update p), sint w_bytes) } })"

fun wait_for_data :: "pipe_pause list \<Rightarrow> pipe_cb \<Rightarrow> pipe_cb option" where
  "wait_for_data [] p = (if bufferBytes p = 0 \<and> p_writer p \<noteq> None then None else Some p)"
| "wait_for_data (r # rs) p =
     (if bufferBytes p = 0 \<and> p_writer p \<noteq> None then wait_for_data rs (r p) else Some p)"

fun pipe_read_loop :: "nat \<Rightarrow> pipe_cb \<Rightarrow> (pipe_cb \<times> u8 list) option" where
  "pipe_read_loop 0 p = Some (p, [])"
| "pipe_read_loop (Suc k) p = do {
     let b = c_char (p_heap p) (r_pos p);
     let h = (p_heap p)\<lparr>c_char := (c_char (p_heap p))(r_pos p := 0)\<rparr>;
     n \<leftarrow> c_next h (r_pos p);
     (p, bs) \<leftarrow> pipe_read_loop k (p\<lparr>p_heap := h, r_pos := n, bufferBytes := bufferBytes p - 1\<rparr>);
     Some (p, b # bs) }"

text \<open>The last component is what \<open>buf\<close> receives.\<close>

definition pipe_read :: "pipe_cb option \<Rightarrow> u32 \<Rightarrow> pipe_pause list \<Rightarrow> (pipe_cb option \<times> int \<times> u8 list) option" where
  "pipe_read obj n rs =
     (case obj of
        None \<Rightarrow> Some (None, -1, [])
      | Some p \<Rightarrow>
          if p_reader p = None then Some (Some p, -1, [])
          else if p_writer p = None \<and> bufferBytes p = 0 then Some (Some p, 0, [])
          else do {
            p \<leftarrow> wait_for_data rs p;
            if p_writer p = None \<and> bufferBytes p = 0 then Some (Some p, 0, [])
            else do {
              let r_bytes = (if n < bufferBytes p then n else bufferBytes p);
              (p, bs) \<leftarrow> pipe_read_loop (nat (sint r_bytes)) p;
              Some (Some (kernel_broadcast hasSpace_update p), sint r_bytes, bs) } })"

section \<open>Closing\<close>

text \<open>The result of a close call: the pipe, or \<open>None\<close> when it has been freed (or was NULL).\<close>

definition pipe_writer_close :: "pipe_cb option \<Rightarrow> pipe_cb option \<times> int" where
  "pipe_writer_close obj =
     (case obj of
        None \<Rightarrow> (None, -1)
      | Some p \<Rightarrow>
          (let p = p\<lparr>p_writer := None\<rparr>
           in if p_reader p = None then (None, 0)
              else (Some (kernel_broadcast hasData_update p), 0)))"

text \<open>\<open>(c_pipe->reader = NULL) && ...\<close> assigns, and its value is false.\<close>

definition pipe_reader_close :: "pipe_cb option \<Rightarrow> pipe_cb option \<times> int" where
  "pipe_reader_close obj =
     (case obj of
        None \<Rightarrow> (None, -1)
      | Some p \<Rightarrow>
          if p_reader p = None then (Some p, -1)
          else let p = p\<lparr>p_reader := None\<rparr>
               in if False \<and> p_writer p = None then (None, 0)
                  else (Some (kernel_broadcast hasSpace_update p), 0))"

definition pipe_error :: int where "pipe_error = -1"

definition pipe_write_error :: "pipe_cb option \<Rightarrow> u8 list \<Rightarrow> int" where
  "pipe_write_error obj buf = -1"

definition pipe_read_error :: "pipe_cb option \<Rightarrow> u32 \<Rightarrow> int" where
  "pipe_read_error obj n = -1"

section \<open>The two ends\<close>

datatype pipe_fops = reader_fo | writer_fo

text \<open>The functions an entry of a file table leads to when it is an end of a pipe.\<close>

fun pipe_Read :: "pipe_fops \<Rightarrow> pipe_cb option \<Rightarrow> u32 \<Rightarrow> pipe_pause list \<Rightarrow> (pipe_cb option \<times> int \<times> u8 list) option" where
  "pipe_Read reader_fo obj n rs = pipe_read obj n rs"
| "pipe_Read writer_fo obj n rs = Some (obj, pipe_read_error obj n, [])"

fun pipe_Write :: "pipe_fops \<Rightarrow> pipe_cb option \<Rightarrow> u8 list \<Rightarrow> pipe_pause list \<Rightarrow> (pipe_cb option \<times> int) option" where
  "pipe_Write reader_fo obj buf rs = Some (obj, pipe_write_error obj buf)"
| "pipe_Write writer_fo obj buf rs = pipe_write obj buf rs"

fun pipe_Close :: "pipe_fops \<Rightarrow> pipe_cb option \<Rightarrow> pipe_cb option \<times> int" where
  "pipe_Close reader_fo obj = pipe_reader_close obj"
| "pipe_Close writer_fo obj = pipe_writer_close obj"

end
