(* ===== verification/Pipe_Props.thy ===== *)
theory Pipe_Props
  imports Pipe
begin

text \<open>
  The pipe is a bounded first-in first-out queue. \<open>pipe_inv p xs\<close> relates the circular list, its two positions
  and the byte count to the queue \<open>xs\<close> of the bytes in the pipe; \<open>pipe_write\<close> and \<open>pipe_read\<close> are the
  queue operations.
\<close>

section \<open>The circular list\<close>

text \<open>The list \<open>init_list\<close> builds, written down at once: \<open>n + 1\<close> nodes from address \<open>b\<close> on, each linked to the
  next, the last to the first.\<close>

definition circular :: "nat \<Rightarrow> (nat \<Rightarrow> u8) option \<Rightarrow> c_heap \<Rightarrow> c_heap" where
  "circular n dat h =
     (let b = c_brk h
      in h\<lparr>c_next := (\<lambda>a. if b \<le> a \<and> a \<le> b + n then Some (b + (a - b + 1) mod (n + 1)) else c_next h a),
           c_prev := (\<lambda>a. if b \<le> a \<and> a \<le> b + n then Some (b + (a - b + n) mod (n + 1)) else c_prev h a),
           c_char := (\<lambda>a. if b \<le> a \<and> a \<le> b + n then (case dat of Some d \<Rightarrow> d (a - b - 1) | None \<Rightarrow> 0) else c_char h a),
           c_brk := b + n + 1\<rparr>)"

definition partial_list :: "nat \<Rightarrow> (nat \<Rightarrow> u8) option \<Rightarrow> c_heap \<Rightarrow> c_heap" where
  "partial_list i dat h =
     (let b = c_brk h
      in h\<lparr>c_next := (\<lambda>a. if b \<le> a \<and> a < b + i then Some (a + 1)
                      else if a = b + i then (if i = 0 then None else Some b) else c_next h a),
           c_prev := (\<lambda>a. if a = b then (if i = 0 then None else Some (b + i))
                      else if b < a \<and> a \<le> b + i then Some (a - 1) else c_prev h a),
           c_char := (\<lambda>a. if b \<le> a \<and> a \<le> b + i then (case dat of Some d \<Rightarrow> d (a - b - 1) | None \<Rightarrow> 0) else c_char h a),
           c_brk := b + i + 1\<rparr>)"

lemma init_list_step_partial:
  "init_list_step dat i (partial_list i dat h, c_brk h + i) = (partial_list (Suc i) dat h, c_brk h + Suc i)"
proof -
  have nx: "(case c_next (partial_list i dat h) (c_brk h + i) of Some n \<Rightarrow> n | None \<Rightarrow> c_brk h + i) = c_brk h"
    by (simp add: partial_list_def Let_def)
  show ?thesis
    unfolding init_list_step_def malloc_node_def Let_def prod.case
    by (simp add: nx) (auto simp: partial_list_def Let_def fun_eq_iff split: option.splits)
qed

lemma init_list_partial: "init_list n dat h = (partial_list n dat h, c_brk h)"
proof -
  let ?h0 = "h\<lparr>c_brk := c_brk h + 1, c_char := (c_char h)(c_brk h := (case dat of Some d \<Rightarrow> d 0 | None \<Rightarrow> 0)),
     c_next := (c_next h)(c_brk h := None), c_prev := (c_prev h)(c_brk h := None)\<rparr>"
  have z: "?h0 = partial_list 0 dat h" by (auto simp: partial_list_def Let_def fun_eq_iff split: option.splits)
  have "fold (init_list_step dat) [0..<n] (partial_list 0 dat h, c_brk h) = (partial_list n dat h, c_brk h + n)" for n
    by (induction n) (simp_all add: init_list_step_partial)
  then show ?thesis using z by (simp add: init_list_def malloc_node_def Let_def)
qed

lemma partial_circular: "0 < n \<Longrightarrow> partial_list n dat h = circular n dat h"
proof -
  assume n: "0 < n"
  have nx: "(if c_brk h \<le> a \<and> a < c_brk h + n then Some (a + 1) else if a = c_brk h + n then Some (c_brk h) else c_next h a)
      = (if c_brk h \<le> a \<and> a \<le> c_brk h + n then Some (c_brk h + (a - c_brk h + 1) mod (n + 1)) else c_next h a)" for a
    by auto
  have pv: "(if a = c_brk h then Some (c_brk h + n) else if c_brk h < a \<and> a \<le> c_brk h + n then Some (a - 1) else c_prev h a)
      = (if c_brk h \<le> a \<and> a \<le> c_brk h + n then Some (c_brk h + (a - c_brk h + n) mod (n + 1)) else c_prev h a)" for a
  proof -
    have "(a - c_brk h + n) mod (n + 1) = a - c_brk h - 1" if "c_brk h < a" "a \<le> c_brk h + n"
    proof -
      define k where "k = a - c_brk h - 1"
      then have k: "a = c_brk h + Suc k" "k < n" using that by auto
      have "(k + (n + 1)) mod (n + 1) = k" unfolding mod_add_self2 using k(2) by simp
      then show ?thesis by (simp add: k(1))
    qed
    then show ?thesis by auto
  qed
  show ?thesis using n by (simp add: partial_list_def circular_def Let_def nx pv)
qed

section \<open>The invariant\<close>

definition PIPE_NODES :: nat where "PIPE_NODES = 4097"

definition node :: "pipe_cb \<Rightarrow> nat \<Rightarrow> nat" where
  "node p k = buffer_node p + k mod PIPE_NODES"

definition pipe_inv :: "pipe_cb \<Rightarrow> u8 list \<Rightarrow> bool" where
  "pipe_inv p xs \<longleftrightarrow> length xs < PIPE_NODES \<and> bufferBytes p = of_nat (length xs)
     \<and> (\<forall>k. c_next (p_heap p) (node p k) = Some (node p (k + 1)))
     \<and> (\<exists>r. r_pos p = node p r \<and> w_pos p = node p (r + length xs)
          \<and> (\<forall>k<length xs. c_char (p_heap p) (node p (r + k)) = xs ! k)
          \<and> (\<forall>k. length xs \<le> k \<and> k < PIPE_NODES \<longrightarrow> c_char (p_heap p) (node p (r + k)) = 0))"

lemma mod_shift_inj:
  assumes "i < n" "j < n" "(r + i) mod n = (r + j) mod (n :: nat)"
  shows "i = j"
proof -
  have "i = j" if "i \<le> j" "j < n" "(r + i) mod n = (r + j) mod n" for i j
  proof -
    have "n dvd (r + j) - (r + i)" using that by (intro mod_eq_dvd_iff_nat [THEN iffD1]) simp_all
    then have "n dvd j - i" by simp
    then have "j - i = 0" using that(2) by (auto dest: dvd_imp_le)
    then show ?thesis using that(1) by simp
  qed
  then show ?thesis using assms by (metis linear)
qed

lemma node_inj: "i < PIPE_NODES \<Longrightarrow> j < PIPE_NODES \<Longrightarrow> node p (r + i) = node p (r + j) \<longleftrightarrow> i = j"
  by (auto simp: node_def dest: mod_shift_inj)

lemma node_wrap: "node p (k + PIPE_NODES) = node p k"
  by (simp add: node_def)

lemma node_cong: "buffer_node q = buffer_node p \<Longrightarrow> node q = node p"
  by (simp add: node_def fun_eq_iff)

text \<open>One byte in, one byte out.\<close>

lemma write_one:
  assumes inv: "pipe_inv p xs" and room: "length xs + 1 < PIPE_NODES"
  shows "c_char (p_heap p) (w_pos p) = 0"
    and "\<exists>n. c_next (p_heap p) (w_pos p) = Some n
      \<and> pipe_inv (p\<lparr>p_heap := (p_heap p)\<lparr>c_char := (c_char (p_heap p))(w_pos p := b)\<rparr>, w_pos := n, bufferBytes := bufferBytes p + 1\<rparr>) (xs @ [b])"
proof -
  obtain r where r: "r_pos p = node p r" "w_pos p = node p (r + length xs)"
    "\<forall>k<length xs. c_char (p_heap p) (node p (r + k)) = xs ! k"
    "\<forall>k. length xs \<le> k \<and> k < PIPE_NODES \<longrightarrow> c_char (p_heap p) (node p (r + k)) = 0"
    and p: "bufferBytes p = of_nat (length xs)" "\<forall>k. c_next (p_heap p) (node p k) = Some (node p (k + 1))"
    using inv by (auto simp: pipe_inv_def)
  show "c_char (p_heap p) (w_pos p) = 0" using r(2,4) room by simp
  let ?q = "p\<lparr>p_heap := (p_heap p)\<lparr>c_char := (c_char (p_heap p))(w_pos p := b)\<rparr>, w_pos := node p (r + length xs + 1),
      bufferBytes := bufferBytes p + 1\<rparr>"
  have nq: "node ?q = node p" by (rule node_cong) simp
  have ch: "c_char (p_heap ?q) (node p (r + k)) = (if k = length xs then b else c_char (p_heap p) (node p (r + k)))" if "k < PIPE_NODES" for k
    using that room r(2) by (simp add: node_inj)
  have "pipe_inv ?q (xs @ [b])"
    unfolding pipe_inv_def nq
  proof (intro conjI exI [of _ r] allI impI)
    fix k assume "k < length (xs @ [b])"
    then show "c_char (p_heap ?q) (node p (r + k)) = (xs @ [b]) ! k"
      using ch [of k] r(3) room by (auto simp: nth_append less_Suc_eq)
  next
    fix k assume "length (xs @ [b]) \<le> k \<and> k < PIPE_NODES"
    then show "c_char (p_heap ?q) (node p (r + k)) = 0" using ch [of k] r(4) by simp
  qed (use r p room in \<open>simp_all add: add.commute\<close>)
  then show "\<exists>n. c_next (p_heap p) (w_pos p) = Some n
      \<and> pipe_inv (p\<lparr>p_heap := (p_heap p)\<lparr>c_char := (c_char (p_heap p))(w_pos p := b)\<rparr>, w_pos := n, bufferBytes := bufferBytes p + 1\<rparr>) (xs @ [b])"
    using p(2) r(2) by simp
qed

lemma read_one:
  assumes inv: "pipe_inv p (x # xs)"
  shows "c_char (p_heap p) (r_pos p) = x"
    and "\<exists>n. c_next (p_heap p) (r_pos p) = Some n
      \<and> pipe_inv (p\<lparr>p_heap := (p_heap p)\<lparr>c_char := (c_char (p_heap p))(r_pos p := 0)\<rparr>, r_pos := n, bufferBytes := bufferBytes p - 1\<rparr>) xs"
proof -
  obtain r where r: "r_pos p = node p r" "w_pos p = node p (r + length (x # xs))"
    "\<forall>k<length (x # xs). c_char (p_heap p) (node p (r + k)) = (x # xs) ! k"
    "\<forall>k. length (x # xs) \<le> k \<and> k < PIPE_NODES \<longrightarrow> c_char (p_heap p) (node p (r + k)) = 0"
    and p: "bufferBytes p = of_nat (length (x # xs))" "\<forall>k. c_next (p_heap p) (node p k) = Some (node p (k + 1))"
      "length (x # xs) < PIPE_NODES"
    using inv by (auto simp: pipe_inv_def)
  show "c_char (p_heap p) (r_pos p) = x" using r(1) r(3) [rule_format, of 0] by simp
  let ?q = "p\<lparr>p_heap := (p_heap p)\<lparr>c_char := (c_char (p_heap p))(r_pos p := 0)\<rparr>, r_pos := node p (r + 1), bufferBytes := bufferBytes p - 1\<rparr>"
  have nq: "node ?q = node p" by (rule node_cong) simp
  have ch: "c_char (p_heap ?q) (node p (r + k)) = (if k = 0 then 0 else c_char (p_heap p) (node p (r + k)))" if "k < PIPE_NODES" for k
    using that r(1) node_inj [of k 0 p r] p(3) by simp
  have "pipe_inv ?q xs"
    unfolding pipe_inv_def nq
  proof (intro conjI exI [of _ "r + 1"] allI impI)
    fix k assume k: "k < length xs"
    then show "c_char (p_heap ?q) (node p (r + 1 + k)) = xs ! k"
      using ch [of "k + 1"] r(3) [rule_format, of "k + 1"] p(3) by simp
  next
    fix k assume k: "length xs \<le> k \<and> k < PIPE_NODES"
    show "c_char (p_heap ?q) (node p (r + 1 + k)) = 0"
    proof (cases "k + 1 = PIPE_NODES")
      case True
      then have e: "r + 1 + k = r + PIPE_NODES" by simp
      have "node p (r + 1 + k) = node p (r + 0)" unfolding e by (simp add: node_wrap)
      then show ?thesis using ch [of 0] by (simp add: PIPE_NODES_def)
    next
      case False
      then show ?thesis using ch [of "k + 1"] r(4) [rule_format, of "k + 1"] k by simp
    qed
  qed (use r p in simp_all)
  then show "\<exists>n. c_next (p_heap p) (r_pos p) = Some n
      \<and> pipe_inv (p\<lparr>p_heap := (p_heap p)\<lparr>c_char := (c_char (p_heap p))(r_pos p := 0)\<rparr>, r_pos := n, bufferBytes := bufferBytes p - 1\<rparr>) xs"
    using p(2) r(1) by simp
qed

section \<open>Whole calls\<close>

text \<open>The loops touch the buffer, its positions and its count only.\<close>

lemma write_loop_queue:
  "pipe_inv p xs \<Longrightarrow> length xs + length bs < PIPE_NODES \<Longrightarrow>
   \<exists>q. pipe_write_loop bs p = Some (q, True) \<and> pipe_inv q (xs @ bs) \<and> p_reader q = p_reader p \<and> p_writer q = p_writer p"
proof (induction bs arbitrary: p xs)
  case (Cons b bs)
  note w = write_one [OF Cons.prems(1)]
  have "length xs + 1 < PIPE_NODES" using Cons.prems(2) by simp
  with w(2) [of b] obtain n where n: "c_next (p_heap p) (w_pos p) = Some n"
    "pipe_inv (p\<lparr>p_heap := (p_heap p)\<lparr>c_char := (c_char (p_heap p))(w_pos p := b)\<rparr>, w_pos := n, bufferBytes := bufferBytes p + 1\<rparr>) (xs @ [b])"
    (is "pipe_inv ?p _") by blast
  from Cons.IH [OF n(2)] Cons.prems(2) obtain q where "pipe_write_loop bs ?p = Some (q, True)" "pipe_inv q (xs @ b # bs)"
    "p_reader q = p_reader p" "p_writer q = p_writer p" by auto
  then show ?case using w(1) n(1) Cons.prems(2) by simp
qed auto

lemma read_loop_queue:
  "pipe_inv p xs \<Longrightarrow> k \<le> length xs \<Longrightarrow>
   \<exists>q. pipe_read_loop k p = Some (q, take k xs) \<and> pipe_inv q (drop k xs) \<and> p_reader q = p_reader p \<and> p_writer q = p_writer p"
proof (induction k arbitrary: p xs)
  case (Suc k)
  then obtain x ys where xs: "xs = x # ys" by (cases xs) auto
  note r = read_one [OF Suc.prems(1) [unfolded xs]]
  from r(2) obtain n where n: "c_next (p_heap p) (r_pos p) = Some n"
    "pipe_inv (p\<lparr>p_heap := (p_heap p)\<lparr>c_char := (c_char (p_heap p))(r_pos p := 0)\<rparr>, r_pos := n, bufferBytes := bufferBytes p - 1\<rparr>) ys"
    (is "pipe_inv ?p _") by blast
  from Suc.IH [OF n(2)] Suc.prems(2) xs obtain q where "pipe_read_loop k ?p = Some (q, take k ys)" "pipe_inv q (drop k ys)"
    "p_reader q = p_reader p" "p_writer q = p_writer p" by auto
  then show ?case using r(1) n(1) xs by simp
qed auto

lemma pipe_inv_broadcast [simp]:
  "pipe_inv (kernel_broadcast hasData_update p) xs = pipe_inv p xs" "pipe_inv (kernel_broadcast hasSpace_update p) xs = pipe_inv p xs"
  "p_reader (kernel_broadcast hasData_update p) = p_reader p" "p_reader (kernel_broadcast hasSpace_update p) = p_reader p"
  "p_writer (kernel_broadcast hasData_update p) = p_writer p" "p_writer (kernel_broadcast hasSpace_update p) = p_writer p"
  by (simp_all add: kernel_broadcast_def pipe_inv_def node_def)

lemma pipe_inv_ends [simp]:
  "pipe_inv (p\<lparr>p_reader := a\<rparr>) xs = pipe_inv p xs" "pipe_inv (p\<lparr>p_writer := b\<rparr>) xs = pipe_inv p xs"
  by (simp_all add: pipe_inv_def node_def)

lemma pipe_inv_count: "pipe_inv p xs \<Longrightarrow> length xs \<le> 4096" "pipe_inv p xs \<Longrightarrow> bufferBytes p = of_nat (length xs)"
  "pipe_inv p xs \<Longrightarrow> unat (bufferBytes p) = length xs"
proof -
  assume "pipe_inv p xs"
  then show l: "length xs \<le> 4096" and "bufferBytes p = of_nat (length xs)" by (auto simp: pipe_inv_def PIPE_NODES_def)
  then show "unat (bufferBytes p) = length xs" by (simp add: unat_of_nat take_bit_nat_eq_self)
qed

lemma sint_small:
  assumes "unat (w :: u32) \<le> 4096"
  shows "sint w = int (unat w)"
proof -
  have "int (unat w) \<le> 4096" using assms by linarith
  then have "uint w < 2 ^ 31" by simp
  moreover have "- (2 ^ 31) \<le> uint w" by (rule order_trans [of _ 0]) simp_all
  ultimately have b: "- (2 ^ 31) \<le> uint w" "uint w < 2 ^ 31" by blast+
  have "sint w = signed_take_bit 31 (uint w)" by (simp add: sint_uint)
  also have "\<dots> = uint w" by (rule signed_take_bit_int_eq_self [OF b])
  finally show ?thesis by simp
qed

lemma small_min:
  assumes "unat (m :: u32) \<le> 4096"
  shows "sint (if n < m then n else m) = int (min (unat n) (unat m))"
proof -
  have u: "unat (if n < m then n else m) = min (unat n) (unat m)" by (auto simp: word_less_nat_alt min_def)
  then have "unat (if n < m then n else m) \<le> 4096" using assms by simp
  from sint_small [OF this] show ?thesis by (simp only: u)
qed

lemma fresh_pipe:
  assumes "pipe_init True w r h = Some p"
  shows "pipe_inv p []" "p_reader p = r" "p_writer p = w"
proof -
  have n: "unat PIPE_BUFFER_SIZE = 4096" by (simp add: PIPE_BUFFER_SIZE_def)
  have p: "p = \<lparr>p_writer = w, p_reader = r, hasSpace = COND_INIT, hasData = COND_INIT, buffer_node = c_brk h, w_pos = c_brk h,
      r_pos = c_brk h, bufferBytes = 0, p_heap = circular 4096 None h\<rparr>"
    using assms by (simp add: pipe_init_def n init_list_partial partial_circular)
  have b: "c_brk h \<le> node p k \<and> node p k \<le> c_brk h + 4096" for k
    using mod_less_divisor [of PIPE_NODES k] by (simp add: node_def p PIPE_NODES_def)
  have "(node p k - c_brk h + 1) mod 4097 = (k + 1) mod 4097" for k by (simp add: node_def p PIPE_NODES_def mod_Suc_eq)
  then have nx: "c_next (p_heap p) (node p k) = Some (node p (k + 1))" for k
    using b [of k] by (simp add: p circular_def Let_def) (simp add: node_def PIPE_NODES_def)
  have ch: "c_char (p_heap p) (node p k) = 0" for k using b [of k] by (simp add: p circular_def Let_def)
  have "r_pos p = node p 0" "w_pos p = node p 0" "bufferBytes p = 0" by (simp_all add: p node_def)
  then show "pipe_inv p []" using nx ch by (auto simp: pipe_inv_def PIPE_NODES_def intro!: exI [of _ 0])
  show "p_reader p = r" "p_writer p = w" by (simp_all add: p)
qed

text \<open>A write and a read, when there is no need to wait.\<close>

lemma pipe_write_queue:
  assumes "pipe_inv p xs" and "p_reader p = Some i" and A: "p_writer p = Some j \<and> length xs < 4096 \<and> length buf < 2 ^ 32"
  shows "\<exists>q. pipe_write (Some p) buf rs = Some (Some q, int (min (length buf) (4096 - length xs)))
      \<and> pipe_inv q (xs @ take (4096 - length xs) buf) \<and> p_reader q = Some i \<and> p_writer q = Some j"
proof -
  note C = pipe_inv_count [OF assms(1)]
  let ?a = "PIPE_BUFFER_SIZE - bufferBytes p" and ?n = "of_nat (length buf) :: u32"
  have ua: "unat ?a = 4096 - length xs"
    using C(1,3) by (subst unat_sub) (simp_all add: PIPE_BUFFER_SIZE_def word_le_nat_alt)
  have ne: "?a \<noteq> 0" using ua A by (metis unat_0 zero_less_diff less_irrefl)
  have un: "unat ?n = length buf" using A by (simp add: unat_of_nat take_bit_nat_eq_self)
  have m: "sint (if ?n < ?a then ?n else ?a) = int (min (length buf) (4096 - length xs))"
    using small_min [of ?a ?n] ua un by simp
  have wait: "wait_for_space rs p = Some p" using ne by (cases rs) simp_all
  let ?k = "min (length buf) (4096 - length xs)"
  have "length xs + length (take ?k buf) < PIPE_NODES" using A unfolding PIPE_NODES_def by auto
  from write_loop_queue [OF assms(1) this] obtain q where q: "pipe_write_loop (take ?k buf) p = Some (q, True)"
    "pipe_inv q (xs @ take ?k buf)" "p_reader q = p_reader p" "p_writer q = p_writer p" by blast
  have t: "take ?k buf = take (4096 - length xs) buf" by (cases "length buf \<le> 4096 - length xs") simp_all
  have "pipe_write (Some p) buf rs = Some (Some (kernel_broadcast hasData_update q), int ?k)"
    unfolding pipe_write_def using A assms(2) wait q(1) by (simp add: m Let_def)
  then show "\<exists>q. pipe_write (Some p) buf rs = Some (Some q, int ?k)
      \<and> pipe_inv q (xs @ take (4096 - length xs) buf) \<and> p_reader q = Some i \<and> p_writer q = Some j"
    using q t A assms(2) by auto
qed

lemma pipe_read_queue:
  assumes "pipe_inv p xs" and "p_reader p = Some i" and xs: "xs \<noteq> []"
  shows "\<exists>q. pipe_read (Some p) n rs = Some (Some q, int (min (unat n) (length xs)), take (unat n) xs)
      \<and> pipe_inv q (drop (unat n) xs) \<and> p_reader q = Some i \<and> p_writer q = p_writer p"
proof -
  note C = pipe_inv_count [OF assms(1)]
  have ne: "bufferBytes p \<noteq> 0" using C(3) xs by auto
  have m: "sint (if n < bufferBytes p then n else bufferBytes p) = int (min (unat n) (length xs))"
    using small_min [of "bufferBytes p" n] C by simp
  have wait: "wait_for_data rs p = Some p" using ne by (cases rs) simp_all
  from read_loop_queue [OF assms(1), of "min (unat n) (length xs)"] obtain q where
    q: "pipe_read_loop (min (unat n) (length xs)) p = Some (q, take (min (unat n) (length xs)) xs)"
      "pipe_inv q (drop (min (unat n) (length xs)) xs)" "p_reader q = p_reader p" "p_writer q = p_writer p" by auto
  have t: "take (min (unat n) (length xs)) xs = take (unat n) xs" "drop (min (unat n) (length xs)) xs = drop (unat n) xs"
    by (simp_all add: min_def)
  have "pipe_read (Some p) n rs = Some (Some (kernel_broadcast hasSpace_update q), int (min (unat n) (length xs)), take (unat n) xs)"
    unfolding pipe_read_def using assms(2) ne wait q(1) t by (simp add: m Let_def)
  then show "\<exists>q. pipe_read (Some p) n rs = Some (Some q, int (min (unat n) (length xs)), take (unat n) xs)
      \<and> pipe_inv q (drop (unat n) xs) \<and> p_reader q = Some i \<and> p_writer q = p_writer p"
    using q t assms(2) by auto
qed

lemma pipe_read_end:
  assumes "pipe_inv p []" and "p_reader p = Some i" and "p_writer p = None"
  shows "pipe_read (Some p) n rs = Some (Some p, 0, [])"
  using assms pipe_inv_count(2) [OF assms(1)] by (simp add: pipe_read_def)

section \<open>Properties\<close>

text \<open>C31. The loop that builds the buffer of a pipe is equivalent to writing the links of a circular list down at
  once: \<open>init_list\<close> for a size of \<open>n\<close> gives \<open>n + 1\<close> nodes at consecutive addresses, each linked forwards
  and backwards to its neighbours around the circle, and leaves every other node alone.\<close>

theorem init_list_circular:
  assumes "0 < n"
  shows "init_list n dat h = (circular n dat h, c_brk h)"
  using assms by (simp add: init_list_partial partial_circular)

theorem init_list_circular_witness:
  "c_next (fst (init_list 2 None \<lparr>c_next = (\<lambda>_. None), c_prev = (\<lambda>_. None), c_char = (\<lambda>_. 7), c_brk = 10\<rparr>)) 12 = Some 10
   \<and> c_brk (fst (init_list 2 None \<lparr>c_next = (\<lambda>_. None), c_prev = (\<lambda>_. None), c_char = (\<lambda>_. 7), c_brk = 10\<rparr>)) = 13"
  using init_list_circular [of 2 None "\<lparr>c_next = (\<lambda>_. None), c_prev = (\<lambda>_. None), c_char = (\<lambda>_. 7), c_brk = 10\<rparr>"]
  by (simp add: circular_def)

text \<open>C29. A pipe implements a bounded queue of 4096 bytes. With both ends open, a write to a pipe that is not full
  appends as many bytes as fit and returns their number, never failing half way; a read from a pipe that is not
  empty returns the oldest bytes, at most as many as asked for, and removes exactly those, also when the writer is
  gone. The positions wrap around the circular list, and every pipe that \<open>pipe_init\<close> makes is an empty queue.\<close>

theorem pipe_refines_queue:
  assumes "pipe_inv p xs" and "p_reader p = Some i"
  shows "(p_writer p = Some j \<and> length xs < 4096 \<and> length buf < 2 ^ 32 \<longrightarrow>
       (\<exists>q. pipe_write (Some p) buf rs = Some (Some q, int (min (length buf) (4096 - length xs)))
          \<and> pipe_inv q (xs @ take (4096 - length xs) buf) \<and> p_reader q = Some i \<and> p_writer q = Some j))
    \<and> (xs \<noteq> [] \<longrightarrow>
       (\<exists>q. pipe_read (Some p) n rs = Some (Some q, int (min (unat n) (length xs)), take (unat n) xs)
          \<and> pipe_inv q (drop (unat n) xs) \<and> p_reader q = Some i \<and> p_writer q = p_writer p))
    \<and> (xs = [] \<and> p_writer p = None \<longrightarrow> pipe_read (Some p) n rs = Some (Some p, 0, []))
    \<and> (\<forall>q. pipe_init True w r h = Some q \<longrightarrow> pipe_inv q [])"
  using pipe_write_queue [OF assms, of j buf rs] pipe_read_queue [OF assms, of n rs] pipe_read_end [of p i n rs] assms
    fresh_pipe(1) [of w r h] by blast

theorem pipe_refines_queue_witness:
  "\<exists>p q. pipe_init True (Some 1) (Some 0) \<lparr>c_next = (\<lambda>_. None), c_prev = (\<lambda>_. None), c_char = (\<lambda>_. 0), c_brk = 0\<rparr> = Some p
    \<and> pipe_write (Some p) [1, 2, 3] [] = Some (Some q, 3) \<and> pipe_inv q [1, 2, 3]"
proof -
  let ?h = "\<lparr>c_next = (\<lambda>_. None), c_prev = (\<lambda>_. None), c_char = (\<lambda>_. 0), c_brk = 0\<rparr>"
  obtain p where p: "pipe_init True (Some 1) (Some 0) ?h = Some p" by (simp add: pipe_init_def case_prod_beta)
  note F = fresh_pipe [OF p]
  from pipe_refines_queue [OF F(1,2), of 1 "[1, 2, 3]" "[]" 0 None None ?h] F(3) obtain q where
    "pipe_write (Some p) [1, 2, 3] [] = Some (Some q, 3)" "pipe_inv q [1, 2, 3]" by auto
  then show ?thesis using p by blast
qed

text \<open>C30. What closing does: once the reader is gone every write returns -1 and changes nothing, and once the writer
  is gone a reader still gets everything that was written, and then 0. When the reader closes first, closing the
  writer frees the pipe; when the writer closes first, closing the reader does not: the test of
  \<open>pipe_reader_close\<close> assigns NULL instead of comparing, and the pipe stays allocated with both ends closed.\<close>

theorem pipe_after_close:
  assumes "pipe_inv p xs" and "p_reader p = Some i" and "p_writer p = Some j"
  shows "(\<exists>q. pipe_reader_close (Some p) = (Some q, 0) \<and> pipe_inv q xs \<and> pipe_write (Some q) buf rs = Some (Some q, -1)
       \<and> pipe_writer_close (Some q) = (None, 0))
    \<and> (\<exists>q. pipe_writer_close (Some p) = (Some q, 0) \<and> pipe_inv q xs
       \<and> (\<exists>q'. pipe_read (Some q) 4096 rs = Some (Some q', int (length xs), xs) \<and> pipe_read (Some q') n rs' = Some (Some q', 0, []))
       \<and> (\<exists>z. pipe_reader_close (Some q) = (Some z, 0) \<and> p_reader z = None \<and> p_writer z = None))"
proof (rule conjI)
  show "\<exists>q. pipe_reader_close (Some p) = (Some q, 0) \<and> pipe_inv q xs \<and> pipe_write (Some q) buf rs = Some (Some q, -1)
       \<and> pipe_writer_close (Some q) = (None, 0)"
    using assms by (simp add: pipe_reader_close_def pipe_write_def pipe_writer_close_def Let_def)
  let ?q = "kernel_broadcast hasData_update (p\<lparr>p_writer := None\<rparr>)"
  have close: "pipe_writer_close (Some p) = (Some ?q, 0)" using assms by (simp add: pipe_writer_close_def)
  have inv: "pipe_inv ?q xs" "p_reader ?q = Some i" "p_writer ?q = None" using assms by simp_all
  note C = pipe_inv_count [OF inv(1)]
  have "\<exists>q'. pipe_read (Some ?q) 4096 rs = Some (Some q', int (length xs), xs) \<and> pipe_read (Some q') n rs' = Some (Some q', 0, [])"
  proof (cases "xs = []")
    case True
    then show ?thesis using inv C(2) by (simp add: pipe_read_def)
  next
    case False
    have ne: "bufferBytes ?q \<noteq> 0" using C(3) False by auto
    have m: "sint (if 4096 < bufferBytes ?q then 4096 else bufferBytes ?q) = int (length xs)"
      using small_min [of "bufferBytes ?q" 4096] unfolding C(3) using C(1) by simp
    have wait: "wait_for_data rs ?q = Some ?q" using ne by (cases rs) simp_all
    from read_loop_queue [OF inv(1), of "length xs"] obtain z where
      z: "pipe_read_loop (length xs) ?q = Some (z, xs)" "pipe_inv z []" "p_reader z = Some i" "p_writer z = None"
      using inv by auto
    let ?z = "kernel_broadcast hasSpace_update z"
    have "pipe_read (Some ?q) 4096 rs = Some (Some ?z, int (length xs), xs)"
      unfolding pipe_read_def using inv ne wait z(1) by (simp add: m Let_def)
    moreover have zi: "pipe_inv ?z []" "p_reader ?z = Some i" "p_writer ?z = None" using z by simp_all
    then have "pipe_read (Some ?z) n rs' = Some (Some ?z, 0, [])" using pipe_inv_count(2) [OF zi(1)] by (simp add: pipe_read_def)
    ultimately show ?thesis by blast
  qed
  moreover have "\<exists>z. pipe_reader_close (Some ?q) = (Some z, 0) \<and> p_reader z = None \<and> p_writer z = None"
    using inv by (simp add: pipe_reader_close_def Let_def)
  ultimately show "\<exists>q. pipe_writer_close (Some p) = (Some q, 0) \<and> pipe_inv q xs
       \<and> (\<exists>q'. pipe_read (Some q) 4096 rs = Some (Some q', int (length xs), xs) \<and> pipe_read (Some q') n rs' = Some (Some q', 0, []))
       \<and> (\<exists>z. pipe_reader_close (Some q) = (Some z, 0) \<and> p_reader z = None \<and> p_writer z = None)"
    using close inv(1) by blast
qed

theorem pipe_after_close_witness:
  "\<exists>p q z. pipe_init True (Some 1) (Some 0) \<lparr>c_next = (\<lambda>_. None), c_prev = (\<lambda>_. None), c_char = (\<lambda>_. 0), c_brk = 0\<rparr> = Some p
    \<and> pipe_writer_close (Some p) = (Some q, 0) \<and> pipe_reader_close (Some q) = (Some z, 0)"
proof -
  let ?h = "\<lparr>c_next = (\<lambda>_. None), c_prev = (\<lambda>_. None), c_char = (\<lambda>_. 0), c_brk = 0\<rparr>"
  obtain p where p: "pipe_init True (Some 1) (Some 0) ?h = Some p" by (simp add: pipe_init_def case_prod_beta)
  note F = fresh_pipe [OF p]
  from pipe_after_close [OF F(1-3)] show ?thesis using p by blast
qed

end
