(* ===== verification/Old_Kernel.thy ===== *)
theory Old_Kernel
  imports Pipe_Props
begin

text \<open>
  The state of the earlier kernel under \<open>old/\<close>, and the part of \<open>old/kernel_streams.c\<close> that hands out file ids and
  FCBs, with \<open>Pipe\<close> of \<open>old/kernel_pipe.c\<close>.

  The header that fixed the size of its tables is not part of the repository (\<open>include/tinyos.h\<close> has the sizes of the
  microcontroller): \<open>MAX_PROC\<close> and \<open>MAX_FILEID\<close> are the fields \<open>n_proc\<close> and \<open>n_fileid\<close> of the state, which no
  operation changes. An \<open>int\<close> and a \<open>uint\<close> have 32 bits.

  A list of \<open>util.h\<close> is the list of its elements; theory Rlist shows that the list functions act in this way. Control
  blocks from \<open>malloc\<close> are entries of partial maps, \<open>None\<close> where nothing is allocated or where it has been freed. A new
  block gets the address \<open>fresh\<close>. A condition variable is the list of its waiters.

  \<open>None\<close> as the result of an operation stands for a failed assertion, a dereference of NULL or of a freed block, an
  array index out of range, or a block used as one of another type.
\<close>

section \<open>Streams\<close>

text \<open>What a \<open>void* streamobj\<close> points to, and the \<open>file_ops\<close> records of the kernel.\<close>

datatype stream_obj = Null_obj | Serial_obj nat | Pipe_obj nat | Socket_obj nat | Procinfo_obj nat

datatype stream_func = nulldev_ops | serial_ops | pipe_ops pipe_fops | socket_ops | procinfo_ops

record old_FCB =
  f_refcount :: u32
  f_streamobj :: stream_obj
  f_streamfunc :: stream_func

section \<open>Processes and threads\<close>

text \<open>The argument of a process is the block it owns, \<open>None\<close> for NULL. A \<open>Task\<close> is an address.\<close>

record old_PCB =
  q_pstate :: pid_state
  q_parent :: "nat option"
  q_exitval :: int
  q_main_thread :: "nat option"
  q_main_task :: "Task option"
  q_argl :: int
  q_args :: "u8 list option"
  q_children_list :: "nat list"
  q_exited_list :: "nat list"
  q_child_exit :: CondVar
  q_FIDT :: "nat \<Rightarrow> nat option"
  q_ptcb_list :: "nat list"
  q_thread_count :: int

record old_PTCB =
  t_task :: "Task option"
  t_argl :: int
  t_args :: "u8 list option"
  t_exitval :: int
  t_exited :: bool
  t_detached :: bool
  t_exit_cv :: CondVar
  t_refcount :: int

section \<open>Sockets\<close>

datatype socket_type = SOCKET_LISTENER | SOCKET_UNBOUND | SOCKET_PEER

text \<open>The union of a socket control block: nothing stored in it yet, a \<open>listener_socket\<close> with the queue of its
  requests, or a \<open>peer_socket\<close> with the pipes it writes to and reads from.\<close>

datatype socket_union =
    unbound_s
  | listener_s (l_queue: "nat list") (l_req_available: CondVar)
  | peer_s (write_pipe: "nat option") (read_pipe: "nat option")

record socket_cb =
  s_refcount :: u32
  s_fcb :: nat
  s_type :: socket_type
  s_port :: int
  s_union :: socket_union

record connection_request =
  admitted :: bool
  c_peer :: nat
  connected_cv :: CondVar

definition MAX_PORT :: int where "MAX_PORT = 1023"
definition NOPORT :: int where "NOPORT = 0"

section \<open>Process information\<close>

definition PROCINFO_MAX_ARGS_SIZE :: nat where "PROCINFO_MAX_ARGS_SIZE = 128"

record procinfo =
  i_pid :: int
  i_ppid :: int
  i_alive :: bool
  i_thread_count :: int
  i_main_task :: "Task option"
  i_argl :: int
  i_args :: "u8 list"

record procinfo_cb =
  info :: procinfo
  cursor :: int

section \<open>Devices\<close>

record old_serial_dcb =
  d_devno :: nat
  d_spinlock :: bool
  d_rx_ready :: CondVar

record old_DCB =
  d_type :: Device_type
  d_devnum :: nat
  d_fops :: stream_func

datatype serial_irq = SERIAL_RX | SERIAL_TX

datatype serial_handler = old_rx_handler | old_tx_handler

section \<open>The state\<close>

text \<open>\<open>curproc\<close> and \<open>curptcb\<close> are the process and the thread that make the call; a thread is known by its PTCB, and
  \<open>woken\<close> are the threads that have been started with \<open>wakeup\<close>. The machine has \<open>n_serial\<close> serial
  ports (\<open>bios_serial_ports()\<close>); \<open>preempt\<close> is whether its interrupts are enabled and \<open>sent\<close> what has gone out of
  each port.\<close>

record okernel =
  n_proc :: nat
  n_fileid :: nat
  o_FT :: "nat \<Rightarrow> old_FCB"
  o_FCB_freelist :: "nat list"
  o_PT :: "nat \<Rightarrow> old_PCB"
  pcb_freelist :: "nat option"
  process_count :: u32
  ptcbs :: "nat \<Rightarrow> old_PTCB option"
  woken :: "nat list"
  curproc :: nat
  curptcb :: nat
  pipes :: "nat \<Rightarrow> pipe_cb option"
  sockets :: "nat \<Rightarrow> socket_cb option"
  requests :: "nat \<Rightarrow> connection_request option"
  procinfos :: "nat \<Rightarrow> procinfo_cb option"
  PORT_MAP :: "int \<Rightarrow> nat option"
  fresh :: nat
  n_serial :: nat
  o_devtable :: "Device_type \<Rightarrow> old_DCB"
  o_serial_dcb :: "nat \<Rightarrow> old_serial_dcb"
  o_handler :: "serial_irq \<Rightarrow> serial_handler option"
  preempt :: bool
  sent :: "nat \<Rightarrow> u8 list"

type_synonym opause = "okernel \<Rightarrow> okernel"

definition upd_ofcb :: "nat \<Rightarrow> (old_FCB \<Rightarrow> old_FCB) \<Rightarrow> okernel \<Rightarrow> okernel" where
  "upd_ofcb i f s = s\<lparr>o_FT := (o_FT s)(i := f (o_FT s i))\<rparr>"

definition upd_opcb :: "nat \<Rightarrow> (old_PCB \<Rightarrow> old_PCB) \<Rightarrow> okernel \<Rightarrow> okernel" where
  "upd_opcb p f s = s\<lparr>o_PT := (o_PT s)(p := f (o_PT s p))\<rparr>"

definition set_oFIDT :: "nat \<Rightarrow> nat \<Rightarrow> nat option \<Rightarrow> okernel \<Rightarrow> okernel" where
  "set_oFIDT p f v s = upd_opcb p (\<lambda>pcb. pcb\<lparr>q_FIDT := (q_FIDT pcb)(f := v)\<rparr>) s"

section \<open>File ids and FCBs\<close>

text \<open>\<open>MAX_FILES\<close> is \<open>MAX_PROC\<close>.\<close>

definition old_initialize_files :: "okernel \<Rightarrow> okernel" where
  "old_initialize_files s =
     fold (\<lambda>i s. (upd_ofcb i (\<lambda>f. f\<lparr>f_refcount := 0\<rparr>) s)\<lparr>o_FCB_freelist := o_FCB_freelist s @ [i]\<rparr>)
       [0..<n_proc s] (s\<lparr>o_FCB_freelist := []\<rparr>)"

definition old_acquire_FCB :: "okernel \<Rightarrow> okernel \<times> nat option" where
  "old_acquire_FCB s =
     (case o_FCB_freelist s of
        i # is \<Rightarrow> (upd_ofcb i (\<lambda>f. f\<lparr>f_refcount := 0\<rparr>) (s\<lparr>o_FCB_freelist := is\<rparr>), Some i)
      | [] \<Rightarrow> (s, None))"

definition old_release_FCB :: "nat \<Rightarrow> okernel \<Rightarrow> okernel" where
  "old_release_FCB i s = s\<lparr>o_FCB_freelist := o_FCB_freelist s @ [i]\<rparr>"

definition old_FCB_incref :: "nat \<Rightarrow> okernel \<Rightarrow> okernel" where
  "old_FCB_incref i s = upd_ofcb i (\<lambda>f. f\<lparr>f_refcount := f_refcount f + 1\<rparr>) s"

text \<open>The first loop of \<open>FCB_reserve\<close>: the next \<open>num\<close> free file ids from \<open>f\<close> on.\<close>

fun old_find_fids :: "nat \<Rightarrow> (nat \<Rightarrow> nat option) \<Rightarrow> nat \<Rightarrow> nat \<Rightarrow> nat list option" where
  "old_find_fids n fidt f 0 = Some []"
| "old_find_fids n fidt f (Suc num) =
     (case first_from (\<lambda>f. fidt f = None) f n of
        None \<Rightarrow> None
      | Some g \<Rightarrow> map_option (\<lambda>gs. g # gs) (old_find_fids n fidt (g + 1) num))"

text \<open>The second loop: the FCBs acquired, and whether there were enough.\<close>

fun old_acquire_FCBs :: "nat \<Rightarrow> okernel \<Rightarrow> okernel \<times> nat list \<times> bool" where
  "old_acquire_FCBs 0 s = (s, [], True)"
| "old_acquire_FCBs (Suc num) s =
     (case old_acquire_FCB s of
        (s, None) \<Rightarrow> (s, [], False)
      | (s, Some i) \<Rightarrow> (let (s, is, ok) = old_acquire_FCBs num s in (s, i # is, ok)))"

definition old_FCB_reserve :: "nat \<Rightarrow> okernel \<Rightarrow> okernel \<times> (nat list \<times> nat list) option" where
  "old_FCB_reserve num s =
     (let cur = curproc s
      in case old_find_fids (n_fileid s) (q_FIDT (o_PT s cur)) 0 num of
           None \<Rightarrow> (s, None)
         | Some fid \<Rightarrow>
             (case old_acquire_FCBs num s of
                (s, fcb, False) \<Rightarrow> (fold old_release_FCB (rev fcb) s, None)
              | (s, fcb, True) \<Rightarrow>
                  (fold (\<lambda>(f, i) s. old_FCB_incref i (set_oFIDT cur f (Some i) s)) (zip fid fcb) s,
                   Some (fid, fcb))))"

definition old_FCB_unreserve :: "nat list \<Rightarrow> nat list \<Rightarrow> okernel \<Rightarrow> okernel option" where
  "old_FCB_unreserve fid fcb s =
     (let cur = curproc s
      in for_each (\<lambda>(f, i) s.
           if q_FIDT (o_PT s cur) f = Some i then Some (old_release_FCB i (set_oFIDT cur f None s)) else None)
         (zip fid fcb) s)"

definition get_fcb :: "int \<Rightarrow> okernel \<Rightarrow> nat option" where
  "get_fcb fid s =
     (if fid < 0 \<or> fid \<ge> int (n_fileid s) then None else q_FIDT (o_PT s (curproc s)) (nat fid))"

section \<open>Allocation\<close>

text \<open>A pipe, when \<open>malloc\<close> finds room for its control block.\<close>

definition new_pipe :: "bool \<Rightarrow> c_heap \<Rightarrow> okernel \<Rightarrow> okernel \<times> nat option" where
  "new_pipe have_memory h s =
     (case pipe_init have_memory None None h of
        None \<Rightarrow> (s, None)
      | Some p \<Rightarrow> (s\<lparr>pipes := (pipes s)(fresh s \<mapsto> p), fresh := fresh s + 1\<rparr>, Some (fresh s)))"

text \<open>The results are the two file ids and the return value; without memory for the control block its fields are
  written through a null pointer.\<close>

definition sys_Pipe :: "bool \<Rightarrow> c_heap \<Rightarrow> okernel \<Rightarrow> (okernel \<times> (nat \<times> nat) option \<times> int) option" where
  "sys_Pipe have_memory h s =
     (case old_FCB_reserve 2 s of
        (s, None) \<Rightarrow> Some (s, None, -1)
      | (s, Some (fid, fcb)) \<Rightarrow> do {
          let (s, r) = new_pipe have_memory h s;
          k \<leftarrow> r;
          let s = upd_ofcb (fcb ! 0) (\<lambda>f. f\<lparr>f_streamfunc := pipe_ops reader_fo, f_streamobj := Pipe_obj k\<rparr>) s;
          p \<leftarrow> pipes s k;
          let s = s\<lparr>pipes := (pipes s)(k \<mapsto> p\<lparr>p_reader := Some (fcb ! 0)\<rparr>)\<rparr>;
          let s = upd_ofcb (fcb ! 1) (\<lambda>f. f\<lparr>f_streamfunc := pipe_ops writer_fo, f_streamobj := Pipe_obj k\<rparr>) s;
          p \<leftarrow> pipes s k;
          let s = s\<lparr>pipes := (pipes s)(k \<mapsto> p\<lparr>p_writer := Some (fcb ! 1)\<rparr>)\<rparr>;
          Some (s, Some (fid ! 0, fid ! 1), 0) })"

end
