(* ===== verification/Old_Socket.thy ===== *)
theory Old_Socket
  imports Old_Kernel
begin

text \<open>
  The sockets of the earlier kernel, \<open>old/kernel_socket.c\<close>: listening on a port, connecting, accepting, shutting
  down, and the operations of a socket stream.

  \<open>Accept\<close> and \<open>Connect\<close> wait: what the rest of the system does during the waits is input, one \<open>opause\<close> for each,
  and for \<open>Connect\<close> also what \<open>kernel_timedwait\<close> returns, whether the caller was signalled. A call that waits
  more often than the list is long has not returned, \<open>None\<close>. \<open>xmalloc\<close> does not return NULL.
\<close>

section \<open>Access to control blocks\<close>

text \<open>The cast \<open>(socket_cb*) fcb->streamobj\<close>: NULL, a socket, or a block of another type.\<close>

fun socket_of :: "stream_obj \<Rightarrow> nat option option" where
  "socket_of Null_obj = Some None"
| "socket_of (Socket_obj k) = Some (Some k)"
| "socket_of (Serial_obj _) = None"
| "socket_of (Pipe_obj _) = None"
| "socket_of (Procinfo_obj _) = None"

definition upd_socket :: "nat \<Rightarrow> (socket_cb \<Rightarrow> socket_cb) \<Rightarrow> okernel \<Rightarrow> okernel" where
  "upd_socket k f s = s\<lparr>sockets := (sockets s)(k := map_option f (sockets s k))\<rparr>"

text \<open>\<open>PORT_MAP[port]\<close>\<close>

definition port_entry :: "int \<Rightarrow> okernel \<Rightarrow> nat option option" where
  "port_entry port s = (if 0 \<le> port \<and> port < MAX_PORT then Some (PORT_MAP s port) else None)"

text \<open>\<open>l->listener_s.queue\<close>\<close>

fun queue_of :: "socket_union \<Rightarrow> nat list option" where
  "queue_of (listener_s q cv) = Some q"
| "queue_of unbound_s = None"
| "queue_of (peer_s w r) = None"

fun set_queue :: "nat list \<Rightarrow> socket_union \<Rightarrow> socket_union" where
  "set_queue q (listener_s _ cv) = listener_s q cv"
| "set_queue q unbound_s = unbound_s"
| "set_queue q (peer_s w r) = peer_s w r"

text \<open>\<open>kernel_signal\<close> and \<open>kernel_broadcast\<close> on \<open>l->listener_s.req_available\<close>: the first waiter leaves, or all.\<close>

fun signal_listener :: "socket_union \<Rightarrow> socket_union" where
  "signal_listener (listener_s q cv) = listener_s q (tl cv)"
| "signal_listener unbound_s = unbound_s"
| "signal_listener (peer_s w r) = peer_s w r"

fun broadcast_listener :: "socket_union \<Rightarrow> socket_union" where
  "broadcast_listener (listener_s q cv) = listener_s q []"
| "broadcast_listener unbound_s = unbound_s"
| "broadcast_listener (peer_s w r) = peer_s w r"

section \<open>Making sockets and listening\<close>

definition socket_cb_init :: "int \<Rightarrow> nat \<Rightarrow> okernel \<Rightarrow> okernel \<times> nat" where
  "socket_cb_init port junk_fcb s =
     (s\<lparr>sockets := (sockets s)(fresh s \<mapsto>
          \<lparr>s_refcount = 0, s_fcb = junk_fcb, s_type = SOCKET_UNBOUND, s_port = port, s_union = unbound_s\<rparr>),
        fresh := fresh s + 1\<rparr>, fresh s)"

definition sys_Socket :: "int \<Rightarrow> okernel \<Rightarrow> okernel \<times> int" where
  "sys_Socket port s =
     (if port < 0 \<or> port > MAX_PORT then (s, NOFILE)
      else case old_FCB_reserve 1 s of
             (s, None) \<Rightarrow> (s, NOFILE)
           | (s, Some (fid, fcb)) \<Rightarrow>
               (let (s, k) = socket_cb_init port 0 s;
                    s = upd_socket k (\<lambda>c. c\<lparr>s_fcb := hd fcb\<rparr>) s;
                    s = upd_ofcb (hd fcb) (\<lambda>f. f\<lparr>f_streamobj := Socket_obj k, f_streamfunc := socket_ops\<rparr>) s
                in (s, int (hd fid))))"

definition sys_Listen :: "int \<Rightarrow> okernel \<Rightarrow> (okernel \<times> int) option" where
  "sys_Listen sock s =
     (if sock < 0 \<or> sock > int (n_fileid s) - 1 \<or> get_fcb sock s = None then Some (s, -1)
      else do {
        i \<leftarrow> get_fcb sock s;
        obj \<leftarrow> socket_of (f_streamobj (o_FT s i));
        case obj of
          None \<Rightarrow> Some (s, -1)
        | Some k \<Rightarrow> do {
            listener \<leftarrow> sockets s k;
            if s_port listener = NOPORT then Some (s, -1)
            else do {
              used \<leftarrow> port_entry (s_port listener) s;
              if used \<noteq> None \<or> s_type listener \<noteq> SOCKET_UNBOUND then Some (s, -1)
              else (let s = s\<lparr>PORT_MAP := (PORT_MAP s)(s_port listener := Some k)\<rparr>;
                        s = upd_socket k (\<lambda>c. c\<lparr>s_type := SOCKET_LISTENER, s_union := listener_s [] COND_INIT\<rparr>) s
                    in Some (s, 0)) } } })"

section \<open>Accepting\<close>

text \<open>\<open>while (is_rlist_empty(&listener->listener_s.queue) && PORT_MAP[port] != NULL) kernel_wait(...)\<close>\<close>

definition must_wait :: "nat \<Rightarrow> int \<Rightarrow> okernel \<Rightarrow> bool option" where
  "must_wait k port s = do {
     listener \<leftarrow> sockets s k;
     q \<leftarrow> queue_of (s_union listener);
     if q \<noteq> [] then Some False
     else do { used \<leftarrow> port_entry port s; Some (used \<noteq> None) } }"

fun accept_wait :: "nat \<Rightarrow> int \<Rightarrow> opause list \<Rightarrow> okernel \<Rightarrow> okernel option" where
  "accept_wait k port [] s = do { w \<leftarrow> must_wait k port s; if w then None else Some s }"
| "accept_wait k port (r # rs) s = do {
     w \<leftarrow> must_wait k port s;
     if w then accept_wait k port rs (r s) else Some s }"

text \<open>From \<open>request->admitted = 1\<close> to \<open>kernel_signal(&request->connected_cv)\<close>: the two peers, and the two pipes
  between them. \<open>m1\<close> and \<open>m2\<close> are whether there is memory for the control blocks of the pipes.\<close>

definition accept_connect :: "bool \<Rightarrow> bool \<Rightarrow> c_heap \<Rightarrow> nat \<Rightarrow> nat \<Rightarrow> okernel \<Rightarrow> okernel option" where
  "accept_connect m1 m2 h req peer_fcb s = do {
     request \<leftarrow> requests s req;
     let s = s\<lparr>requests := (requests s)(req \<mapsto> request\<lparr>admitted := True\<rparr>)\<rparr>;
     obj \<leftarrow> socket_of (f_streamobj (o_FT s peer_fcb));
     peer_socket \<leftarrow> obj;
     let req_socket = c_peer request;
     a \<leftarrow> sockets s peer_socket;
     b \<leftarrow> sockets s req_socket;
     let s = upd_socket peer_socket (\<lambda>c. c\<lparr>s_type := SOCKET_PEER\<rparr>) s;
     let s = upd_socket req_socket (\<lambda>c. c\<lparr>s_type := SOCKET_PEER\<rparr>) s;
     let (s, r1) = new_pipe m1 h s;
     let (s, r2) = new_pipe m2 h s;
     pipe1 \<leftarrow> r1;
     p1 \<leftarrow> pipes s pipe1;
     let s = s\<lparr>pipes := (pipes s)(pipe1 \<mapsto> p1\<lparr>p_reader := Some (s_fcb a), p_writer := Some (s_fcb b)\<rparr>)\<rparr>;
     let s = upd_socket peer_socket (\<lambda>c. c\<lparr>s_union := peer_s r2 (Some pipe1)\<rparr>) s;
     pipe2 \<leftarrow> r2;
     p2 \<leftarrow> pipes s pipe2;
     let s = s\<lparr>pipes := (pipes s)(pipe2 \<mapsto> p2\<lparr>p_reader := Some (s_fcb b), p_writer := Some (s_fcb a)\<rparr>)\<rparr>;
     let s = upd_socket req_socket (\<lambda>c. c\<lparr>s_union := peer_s (Some pipe1) (Some pipe2)\<rparr>) s;
     request \<leftarrow> requests s req;
     Some (s\<lparr>requests := (requests s)(req \<mapsto> request\<lparr>connected_cv := tl (connected_cv request)\<rparr>)\<rparr>) }"

definition drop_ref :: "nat \<Rightarrow> okernel \<Rightarrow> okernel" where
  "drop_ref k s = upd_socket k (\<lambda>c. c\<lparr>s_refcount := s_refcount c - 1\<rparr>) s"

text \<open>What \<open>Accept\<close> does once it has stopped waiting.\<close>

definition accept_request :: "bool \<Rightarrow> bool \<Rightarrow> c_heap \<Rightarrow> nat \<Rightarrow> int \<Rightarrow> okernel \<Rightarrow> (okernel \<times> int) option" where
  "accept_request m1 m2 h k port s = do {
     used \<leftarrow> port_entry port s;
     if used = None then Some (drop_ref k s, -1)
     else do {
       listener \<leftarrow> sockets s k;
       if s_type listener \<noteq> SOCKET_LISTENER then Some (drop_ref k s, -1)
       else do {
         used \<leftarrow> port_entry (s_port listener) s;
         if used \<noteq> Some k then Some (drop_ref k s, -1)
         else do {
           q \<leftarrow> queue_of (s_union listener);
           case q of
             [] \<Rightarrow> None
           | req # reqs \<Rightarrow> do {
               let s = upd_socket k (\<lambda>c. c\<lparr>s_union := set_queue reqs (s_union c)\<rparr>) s;
               let (s, peer_fid) = sys_Socket (s_port listener) s;
               if peer_fid = -1 \<or> get_fcb peer_fid s = None then Some (drop_ref k s, -1)
               else do {
                 peer_fcb \<leftarrow> get_fcb peer_fid s;
                 s \<leftarrow> accept_connect m1 m2 h req peer_fcb s;
                 Some (drop_ref k s, peer_fid) } } } } } }"

definition sys_Accept :: "bool \<Rightarrow> bool \<Rightarrow> c_heap \<Rightarrow> int \<Rightarrow> opause list \<Rightarrow> okernel \<Rightarrow> (okernel \<times> int) option" where
  "sys_Accept m1 m2 h lsock rs s =
     (if lsock < 0 \<or> lsock > int (n_fileid s) - 1 \<or> get_fcb lsock s = None then Some (s, -1)
      else do {
        i \<leftarrow> get_fcb lsock s;
        obj \<leftarrow> socket_of (f_streamobj (o_FT s i));
        case obj of
          None \<Rightarrow> Some (s, -1)
        | Some k \<Rightarrow> do {
            listener \<leftarrow> sockets s k;
            if s_type listener \<noteq> SOCKET_LISTENER then Some (s, -1)
            else do {
              let s = upd_socket k (\<lambda>c. c\<lparr>s_refcount := s_refcount c + 1\<rparr>) s;
              s \<leftarrow> accept_wait k (s_port listener) rs s;
              accept_request m1 m2 h k (s_port listener) s } } })"

section \<open>Connecting\<close>

text \<open>\<open>while (request->admitted == 0) { wait_time = kernel_timedwait(...); if (wait_time == 0) break; }\<close>\<close>

fun connect_wait :: "nat \<Rightarrow> (opause \<times> bool) list \<Rightarrow> okernel \<Rightarrow> okernel option" where
  "connect_wait req [] s = do { request \<leftarrow> requests s req; if admitted request then Some s else None }"
| "connect_wait req ((r, sig) # rs) s = do {
     request \<leftarrow> requests s req;
     if admitted request then Some s
     else if sig then connect_wait req rs (r s)
     else Some (r s) }"

text \<open>The request, its place in the queue of the listener, and the signal to the listener.\<close>

definition connect_enqueue :: "nat \<Rightarrow> nat \<Rightarrow> okernel \<Rightarrow> (okernel \<times> nat) option" where
  "connect_enqueue k r_socket s = do {
     let s = upd_socket k (\<lambda>c. c\<lparr>s_refcount := s_refcount c + 1\<rparr>) s;
     let req = fresh s;
     let s = s\<lparr>requests := (requests s)(req \<mapsto> \<lparr>admitted = False, c_peer = r_socket, connected_cv = COND_INIT\<rparr>),
               fresh := fresh s + 1\<rparr>;
     c_socket \<leftarrow> sockets s k;
     q \<leftarrow> queue_of (s_union c_socket);
     let s = upd_socket k (\<lambda>c. c\<lparr>s_union := signal_listener (set_queue (q @ [req]) (s_union c))\<rparr>) s;
     Some (s, req) }"

definition sys_Connect :: "int \<Rightarrow> int \<Rightarrow> (opause \<times> bool) list \<Rightarrow> okernel \<Rightarrow> (okernel \<times> int) option" where
  "sys_Connect sock port rs s =
     (if sock < 0 \<or> sock > int (n_fileid s) - 1 \<or> get_fcb sock s = None then Some (s, -1)
      else if port \<le> NOPORT \<or> port \<ge> MAX_PORT - 1 then Some (s, NOFILE)
      else do {
        used \<leftarrow> port_entry port s;
        case used of
          None \<Rightarrow> Some (s, -1)
        | Some k \<Rightarrow> do {
            c_socket \<leftarrow> sockets s k;
            if s_type c_socket \<noteq> SOCKET_LISTENER then Some (s, -1)
            else do {
              sock_fcb \<leftarrow> get_fcb sock s;
              obj \<leftarrow> socket_of (f_streamobj (o_FT s sock_fcb));
              r_socket \<leftarrow> obj;
              r \<leftarrow> sockets s r_socket;
              if s_type r \<noteq> SOCKET_UNBOUND then Some (s, -1)
              else do {
                (s, req) \<leftarrow> connect_enqueue k r_socket s;
                s \<leftarrow> connect_wait req rs s;
                c_socket \<leftarrow> sockets s k;
                request \<leftarrow> requests s req;
                Some (drop_ref k s, if admitted request then 0 else -1) } } } })"

section \<open>Shutting down\<close>

text \<open>\<open>pipe_reader_close\<close> and \<open>pipe_writer_close\<close> on a pipe pointer of a peer.\<close>

definition close_reader :: "nat option \<Rightarrow> okernel \<Rightarrow> okernel option" where
  "close_reader k s =
     (case k of
        None \<Rightarrow> Some s
      | Some k \<Rightarrow> do { p \<leftarrow> pipes s k; Some (s\<lparr>pipes := (pipes s)(k := fst (pipe_reader_close (Some p)))\<rparr>) })"

definition close_writer :: "nat option \<Rightarrow> okernel \<Rightarrow> okernel option" where
  "close_writer k s =
     (case k of
        None \<Rightarrow> Some s
      | Some k \<Rightarrow> do { p \<leftarrow> pipes s k; Some (s\<lparr>pipes := (pipes s)(k := fst (pipe_writer_close (Some p)))\<rparr>) })"

text \<open>\<open>c_socket->peer_s\<close>, the write pipe and the read pipe\<close>

fun peer_of :: "socket_union \<Rightarrow> (nat option \<times> nat option) option" where
  "peer_of (peer_s w r) = Some (w, r)"
| "peer_of unbound_s = None"
| "peer_of (listener_s q cv) = None"

definition SHUTDOWN_READ :: int where "SHUTDOWN_READ = 1"
definition SHUTDOWN_WRITE :: int where "SHUTDOWN_WRITE = 2"
definition SHUTDOWN_BOTH :: int where "SHUTDOWN_BOTH = 3"

definition sys_ShutDown :: "int \<Rightarrow> int \<Rightarrow> okernel \<Rightarrow> (okernel \<times> int) option" where
  "sys_ShutDown sock how s =
     (if sock < 0 \<or> sock > int (n_fileid s) - 1 \<or> get_fcb sock s = None then Some (s, -1)
      else do {
        i \<leftarrow> get_fcb sock s;
        obj \<leftarrow> socket_of (f_streamobj (o_FT s i));
        if how = SHUTDOWN_READ then do {
          k \<leftarrow> obj;
          c_socket \<leftarrow> sockets s k;
          (w, r) \<leftarrow> peer_of (s_union c_socket);
          s \<leftarrow> close_reader r s;
          Some (upd_socket k (\<lambda>c. c\<lparr>s_union := peer_s w None\<rparr>) s, 0) }
        else if how = SHUTDOWN_WRITE then do {
          k \<leftarrow> obj;
          c_socket \<leftarrow> sockets s k;
          (w, r) \<leftarrow> peer_of (s_union c_socket);
          s \<leftarrow> close_writer w s;
          Some (upd_socket k (\<lambda>c. c\<lparr>s_union := peer_s None r\<rparr>) s, 0) }
        else if how = SHUTDOWN_BOTH then do {
          k \<leftarrow> obj;
          c_socket \<leftarrow> sockets s k;
          (w, r) \<leftarrow> peer_of (s_union c_socket);
          s \<leftarrow> close_writer w s;
          s \<leftarrow> close_reader r s;
          Some (upd_socket k (\<lambda>c. c\<lparr>s_union := peer_s None None\<rparr>) s, 0) }
        else Some (s, -1) })"

section \<open>The operations of a socket stream\<close>

text \<open>A call of \<open>pipe_write\<close> or \<open>pipe_read\<close> through a pipe pointer. What happens to the pipe during its waits is
  input as in theory Pipe; the rest of the state is not touched by the call.\<close>

definition write_to_pipe :: "nat option \<Rightarrow> u8 list \<Rightarrow> pipe_pause list \<Rightarrow> okernel \<Rightarrow> (okernel \<times> int) option" where
  "write_to_pipe k buf rs s =
     (case k of
        None \<Rightarrow> do { (p, r) \<leftarrow> pipe_write None buf rs; Some (s, r) }
      | Some k \<Rightarrow> do {
          p \<leftarrow> pipes s k;
          (p, r) \<leftarrow> pipe_write (Some p) buf rs;
          Some (s\<lparr>pipes := (pipes s)(k := p)\<rparr>, r) })"

definition read_from_pipe :: "nat option \<Rightarrow> u32 \<Rightarrow> pipe_pause list \<Rightarrow> okernel \<Rightarrow> (okernel \<times> int \<times> u8 list) option" where
  "read_from_pipe k n rs s =
     (case k of
        None \<Rightarrow> do { (p, r, bs) \<leftarrow> pipe_read None n rs; Some (s, r, bs) }
      | Some k \<Rightarrow> do {
          p \<leftarrow> pipes s k;
          (p, r, bs) \<leftarrow> pipe_read (Some p) n rs;
          Some (s\<lparr>pipes := (pipes s)(k := p)\<rparr>, r, bs) })"

definition socket_write :: "nat option \<Rightarrow> u8 list \<Rightarrow> pipe_pause list \<Rightarrow> okernel \<Rightarrow> (okernel \<times> int) option" where
  "socket_write obj buf rs s =
     (case obj of
        None \<Rightarrow> Some (s, -1)
      | Some k \<Rightarrow> do {
          w_socket \<leftarrow> sockets s k;
          if s_type w_socket \<noteq> SOCKET_PEER then Some (s, -1)
          else do { (w, r) \<leftarrow> peer_of (s_union w_socket); write_to_pipe w buf rs s } })"

definition socket_read :: "nat option \<Rightarrow> u32 \<Rightarrow> pipe_pause list \<Rightarrow> okernel \<Rightarrow> (okernel \<times> int \<times> u8 list) option" where
  "socket_read obj n rs s =
     (case obj of
        None \<Rightarrow> Some (s, -1, [])
      | Some k \<Rightarrow> do {
          r_socket \<leftarrow> sockets s k;
          if s_type r_socket \<noteq> SOCKET_PEER then Some (s, -1, [])
          else do { (w, r) \<leftarrow> peer_of (s_union r_socket); read_from_pipe r n rs s } })"

definition socket_close :: "nat option \<Rightarrow> okernel \<Rightarrow> (okernel \<times> int) option" where
  "socket_close obj s =
     (case obj of
        None \<Rightarrow> Some (s, -1)
      | Some k \<Rightarrow> do {
          c_socket \<leftarrow> sockets s k;
          s \<leftarrow> (case s_type c_socket of
                  SOCKET_UNBOUND \<Rightarrow> Some s
                | SOCKET_LISTENER \<Rightarrow> do {
                    used \<leftarrow> port_entry (s_port c_socket) s;
                    let s = s\<lparr>PORT_MAP := (PORT_MAP s)(s_port c_socket := None)\<rparr>;
                    Some (upd_socket k (\<lambda>c. c\<lparr>s_union := broadcast_listener (s_union c)\<rparr>) s) }
                | SOCKET_PEER \<Rightarrow> do {
                    (w, r) \<leftarrow> peer_of (s_union c_socket);
                    s \<leftarrow> close_reader r s;
                    let s = upd_socket k (\<lambda>c. c\<lparr>s_union := peer_s w None\<rparr>) s;
                    s \<leftarrow> close_writer w s;
                    Some (upd_socket k (\<lambda>c. c\<lparr>s_union := peer_s None None\<rparr>) s) });
          if s_refcount c_socket = 0 then Some (s\<lparr>sockets := (sockets s)(k := None)\<rparr>, 0) else Some (s, 0) })"

end
