(* ===== verification/Old_Dev.thy ===== *)
theory Old_Dev
  imports Old_Kernel
begin

text \<open>
  The devices of the earlier kernel, \<open>old/kernel_dev.c\<close>: the null device, the interrupt-driven reader and the
  polling writer of the serial ports, the device table.

  The BIOS of the simulated machine is not part of the repository: what \<open>bios_read_serial\<close> and
  \<open>bios_write_serial\<close> return is input, one event for each call. When a call finds nothing (or the port is busy) and
  the driver waits, the event carries what the rest of the system does in the meantime.
\<close>

section \<open>The null device\<close>

definition old_nulldev_read :: "u32 \<Rightarrow> int \<times> u8 list" where
  "old_nulldev_read n = (sint n, replicate (unat n) 0)"

definition old_nulldev_write :: "u8 list \<Rightarrow> int" where
  "old_nulldev_write buf = sint (of_nat (length buf) :: u32)"

definition old_nulldev_close :: int where "old_nulldev_close = 0"

definition old_nulldev_open :: "nat \<Rightarrow> stream_obj" where
  "old_nulldev_open minor = Null_obj"

section \<open>The serial device\<close>

text \<open>The interrupt wakes the readers of every port. \<open>int pre = preempt_off; ... if(pre) preempt_on;\<close>\<close>

definition old_serial_rx_handler :: "okernel \<Rightarrow> okernel" where
  "old_serial_rx_handler s =
     (let pre = preempt s;
          s = s\<lparr>preempt := False\<rparr>;
          s = fold (\<lambda>i s. s\<lparr>o_serial_dcb := (o_serial_dcb s)(i := (o_serial_dcb s i)\<lparr>d_rx_ready := []\<rparr>)\<rparr>) [0..<n_serial s] s
      in if pre then s\<lparr>preempt := True\<rparr> else s)"

definition old_serial_tx_handler :: "okernel \<Rightarrow> okernel" where
  "old_serial_tx_handler s = s"

datatype rx_event = Received u8 | Nothing opause

text \<open>The loop with \<open>count\<close> bytes read: it stops at \<open>size\<close> bytes, or when there is no more after the first.\<close>

fun old_serial_read_loop :: "u32 \<Rightarrow> u32 \<Rightarrow> rx_event list \<Rightarrow> okernel \<Rightarrow> (okernel \<times> u32 \<times> u8 list) option" where
  "old_serial_read_loop n count [] s = (if count < n then None else Some (s, count, []))"
| "old_serial_read_loop n count (Received b # es) s =
     (if count < n then do { (s, c, bs) \<leftarrow> old_serial_read_loop n (count + 1) es s; Some (s, c, b # bs) }
      else Some (s, count, []))"
| "old_serial_read_loop n count (Nothing r # es) s =
     (if count < n then
        (if count = 0 then old_serial_read_loop n count es (r s) else Some (s, count, []))
      else Some (s, count, []))"

definition old_serial_read :: "nat \<Rightarrow> u32 \<Rightarrow> rx_event list \<Rightarrow> okernel \<Rightarrow> (okernel \<times> int \<times> u8 list) option" where
  "old_serial_read dcb n es s = do {
     let s = s\<lparr>preempt := False\<rparr>;
     (s, count, bs) \<leftarrow> old_serial_read_loop n 0 es s;
     Some (s\<lparr>preempt := True\<rparr>, sint count, bs) }"

datatype tx_event = Taken | Busy opause

text \<open>The loop with \<open>count\<close> bytes written and \<open>bs\<close> left.\<close>

fun old_serial_write_loop :: "nat \<Rightarrow> u8 list \<Rightarrow> u32 \<Rightarrow> tx_event list \<Rightarrow> okernel \<Rightarrow> (okernel \<times> u32) option" where
  "old_serial_write_loop dcb [] count es s = Some (s, count)"
| "old_serial_write_loop dcb (b # bs) count [] s = None"
| "old_serial_write_loop dcb (b # bs) count (Taken # es) s =
     (let port = d_devno (o_serial_dcb s dcb)
      in old_serial_write_loop dcb bs (count + 1) es (s\<lparr>sent := (sent s)(port := sent s port @ [b])\<rparr>))"
| "old_serial_write_loop dcb (b # bs) count (Busy r # es) s =
     (if count = 0 then old_serial_write_loop dcb (b # bs) count es (r s) else Some (s, count))"

definition old_serial_write :: "nat \<Rightarrow> u8 list \<Rightarrow> tx_event list \<Rightarrow> okernel \<Rightarrow> (okernel \<times> int) option" where
  "old_serial_write dcb buf es s = do {
     (s, count) \<leftarrow> old_serial_write_loop dcb buf 0 es s;
     Some (s, sint count) }"

definition old_serial_close :: int where "old_serial_close = 0"

definition old_serial_open :: "nat \<Rightarrow> okernel \<Rightarrow> stream_obj option" where
  "old_serial_open term s = (if term < n_serial s then Some (Serial_obj term) else None)"

section \<open>The device table\<close>

definition old_initialize_devices :: "okernel \<Rightarrow> okernel" where
  "old_initialize_devices s =
     (let s = s\<lparr>o_devtable := (o_devtable s)(DEV_NULL := \<lparr>d_type = DEV_NULL, d_devnum = 1, d_fops = nulldev_ops\<rparr>)\<rparr>;
          s = s\<lparr>o_devtable := (o_devtable s)(DEV_SERIAL := \<lparr>d_type = DEV_SERIAL, d_devnum = n_serial s, d_fops = serial_ops\<rparr>)\<rparr>;
          s = fold (\<lambda>i s. s\<lparr>o_serial_dcb := (o_serial_dcb s)(i := \<lparr>d_devno = i, d_spinlock = False, d_rx_ready = COND_INIT\<rparr>)\<rparr>)
                [0..<n_serial s] s
      in s\<lparr>o_handler := (o_handler s)(SERIAL_RX \<mapsto> old_rx_handler, SERIAL_TX \<mapsto> old_tx_handler)\<rparr>)"

text \<open>The call \<open>dev_fops.Open(minor)\<close>; the other records have no \<open>Open\<close> that is ever called.\<close>

fun old_call_Open :: "stream_func \<Rightarrow> nat \<Rightarrow> okernel \<Rightarrow> stream_obj option" where
  "old_call_Open nulldev_ops minor s = Some (old_nulldev_open minor)"
| "old_call_Open serial_ops minor s = old_serial_open minor s"
| "old_call_Open (pipe_ops _) minor s = None"
| "old_call_Open socket_ops minor s = None"
| "old_call_Open procinfo_ops minor s = None"

text \<open>The inner \<open>None\<close> is the error -1; otherwise the stream object and the operations.\<close>

definition old_device_open :: "Device_type \<Rightarrow> nat \<Rightarrow> okernel \<Rightarrow> (stream_obj \<times> stream_func) option option" where
  "old_device_open major minor s =
     (if major = DEV_MAX then None
      else if minor \<ge> d_devnum (o_devtable s major) then Some None
      else do { obj \<leftarrow> old_call_Open (d_fops (o_devtable s major)) minor s; Some (Some (obj, d_fops (o_devtable s major))) })"

definition old_device_no :: "Device_type \<Rightarrow> okernel \<Rightarrow> nat" where
  "old_device_no major s = d_devnum (o_devtable s major)"

end
