(* ===== verification/Old_Streams.thy ===== *)
theory Old_Streams
  imports Old_Socket Old_Dev
begin

text \<open>
  The streams of the earlier kernel: information streams on processes (\<open>old/kernel_proc.c\<close>), the calls through the
  \<open>file_ops\<close> of an FCB, and the system calls of \<open>old/kernel_streams.c\<close>.

  A read delivers bytes, or for an information stream a \<open>procinfo\<close>. The input of a call that waits is a record
  \<open>io_env\<close> with one list for each kind of stream.
\<close>

section \<open>Information streams\<close>

definition old_get_pid :: "nat option \<Rightarrow> int" where
  "old_get_pid pcb = (case pcb of None \<Rightarrow> NOPROC | Some p \<Rightarrow> int p)"

definition procinfo_write :: int where "procinfo_write = -1"

text \<open>The argument bytes of a process: \<open>memcpy(info.args, PT[cursor].args, n)\<close>, where \<open>args\<close> may be NULL only if \<open>n\<close> is 0.\<close>

definition copy_args :: "u8 list option \<Rightarrow> int \<Rightarrow> u8 list \<Rightarrow> u8 list option" where
  "copy_args from n to =
     (if n < 0 then None
      else if n = 0 then Some to
      else do { bs \<leftarrow> from; Some (take (nat n) bs @ drop (nat n) to) })"

text \<open>The search for the next process and the record on it; the last component is what \<open>buf\<close> receives.\<close>

definition procinfo_read :: "nat option \<Rightarrow> okernel \<Rightarrow> (okernel \<times> int \<times> procinfo option) option" where
  "procinfo_read pi s =
     (case pi of
        None \<Rightarrow> Some (s, -1, None)
      | Some k \<Rightarrow> do {
          pi_cb \<leftarrow> procinfos s k;
          if cursor pi_cb < 1 \<or> cursor pi_cb > int (n_proc s) then Some (s, -1, None)
          else if cursor pi_cb = int (n_proc s) then Some (s, 0, None)
          else case first_from (\<lambda>p. q_pstate (o_PT s p) \<noteq> FREE) (nat (cursor pi_cb)) (n_proc s) of
                 None \<Rightarrow> Some (s\<lparr>procinfos := (procinfos s)(k \<mapsto> pi_cb\<lparr>cursor := int (n_proc s)\<rparr>)\<rparr>, 0, None)
               | Some c \<Rightarrow> do {
                   let p = o_PT s c;
                   a \<leftarrow> copy_args (q_args p)
                          (if q_argl p > int PROCINFO_MAX_ARGS_SIZE then int PROCINFO_MAX_ARGS_SIZE else q_argl p) (i_args (info pi_cb));
                   let i = \<lparr>i_pid = int c, i_ppid = old_get_pid (q_parent p), i_alive = (q_pstate p = ALIVE),
                            i_thread_count = q_thread_count p, i_main_task = q_main_task p, i_argl = q_argl p, i_args = a\<rparr>;
                   Some (s\<lparr>procinfos := (procinfos s)(k \<mapsto> \<lparr>info = i, cursor = int c + 1\<rparr>)\<rparr>, 1, Some i) } })"

definition procinfo_close :: "nat option \<Rightarrow> okernel \<Rightarrow> okernel \<times> int" where
  "procinfo_close pi s = (case pi of None \<Rightarrow> (s, 0) | Some k \<Rightarrow> (s\<lparr>procinfos := (procinfos s)(k := None)\<rparr>, 0))"

text \<open>\<open>junk\<close> is what the new block contains.\<close>

definition sys_OpenInfo :: "procinfo \<Rightarrow> okernel \<Rightarrow> okernel \<times> int" where
  "sys_OpenInfo junk s =
     (case old_FCB_reserve 1 s of
        (s, None) \<Rightarrow> (s, NOFILE)
      | (s, Some (fid, fcb)) \<Rightarrow>
          (let k = fresh s;
               s = s\<lparr>procinfos := (procinfos s)(k \<mapsto> \<lparr>info = junk, cursor = 1\<rparr>), fresh := k + 1\<rparr>;
               s = upd_ofcb (hd fcb) (\<lambda>f. f\<lparr>f_streamobj := Procinfo_obj k, f_streamfunc := procinfo_ops\<rparr>) s
           in (s, int (hd fid))))"

section \<open>Calls through a \<open>file_ops\<close>\<close>

record io_env =
  io_pipe :: "pipe_pause list"
  io_rx :: "rx_event list"
  io_tx :: "tx_event list"

datatype read_data = Bytes "u8 list" | Info "procinfo option"

fun old_call_Read :: "stream_func \<Rightarrow> stream_obj \<Rightarrow> u32 \<Rightarrow> io_env \<Rightarrow> okernel \<Rightarrow> (okernel \<times> int \<times> read_data) option" where
  "old_call_Read nulldev_ops obj n e s = (let (r, bs) = old_nulldev_read n in Some (s, r, Bytes bs))"
| "old_call_Read serial_ops (Serial_obj d) n e s = do { (s, r, bs) \<leftarrow> old_serial_read d n (io_rx e) s; Some (s, r, Bytes bs) }"
| "old_call_Read (pipe_ops reader_fo) (Pipe_obj k) n e s = do { (s, r, bs) \<leftarrow> read_from_pipe (Some k) n (io_pipe e) s; Some (s, r, Bytes bs) }"
| "old_call_Read (pipe_ops writer_fo) (Pipe_obj k) n e s = Some (s, pipe_read_error (pipes s k) n, Bytes [])"
| "old_call_Read socket_ops obj n e s = do {
     k \<leftarrow> socket_of obj; (s, r, bs) \<leftarrow> socket_read k n (io_pipe e) s; Some (s, r, Bytes bs) }"
| "old_call_Read procinfo_ops (Procinfo_obj k) n e s = do { (s, r, i) \<leftarrow> procinfo_read (Some k) s; Some (s, r, Info i) }"
| "old_call_Read _ _ n e s = None"

fun old_call_Write :: "stream_func \<Rightarrow> stream_obj \<Rightarrow> u8 list \<Rightarrow> io_env \<Rightarrow> okernel \<Rightarrow> (okernel \<times> int) option" where
  "old_call_Write nulldev_ops obj buf e s = Some (s, old_nulldev_write buf)"
| "old_call_Write serial_ops (Serial_obj d) buf e s = old_serial_write d buf (io_tx e) s"
| "old_call_Write (pipe_ops writer_fo) (Pipe_obj k) buf e s = write_to_pipe (Some k) buf (io_pipe e) s"
| "old_call_Write (pipe_ops reader_fo) (Pipe_obj k) buf e s = Some (s, pipe_write_error (pipes s k) buf)"
| "old_call_Write socket_ops obj buf e s = do { k \<leftarrow> socket_of obj; socket_write k buf (io_pipe e) s }"
| "old_call_Write procinfo_ops (Procinfo_obj k) buf e s = Some (s, procinfo_write)"
| "old_call_Write _ _ buf e s = None"

fun old_call_Close :: "stream_func \<Rightarrow> stream_obj \<Rightarrow> okernel \<Rightarrow> (okernel \<times> int) option" where
  "old_call_Close nulldev_ops obj s = Some (s, old_nulldev_close)"
| "old_call_Close serial_ops obj s = Some (s, old_serial_close)"
| "old_call_Close (pipe_ops reader_fo) (Pipe_obj k) s = do {
     p \<leftarrow> pipes s k; let (p, r) = pipe_reader_close (Some p); Some (s\<lparr>pipes := (pipes s)(k := p)\<rparr>, r) }"
| "old_call_Close (pipe_ops writer_fo) (Pipe_obj k) s = do {
     p \<leftarrow> pipes s k; let (p, r) = pipe_writer_close (Some p); Some (s\<lparr>pipes := (pipes s)(k := p)\<rparr>, r) }"
| "old_call_Close socket_ops obj s = do { k \<leftarrow> socket_of obj; socket_close k s }"
| "old_call_Close procinfo_ops (Procinfo_obj k) s = Some (procinfo_close (Some k) s)"
| "old_call_Close _ _ s = None"

section \<open>System calls\<close>

definition old_FCB_decref :: "nat \<Rightarrow> okernel \<Rightarrow> (okernel \<times> int) option" where
  "old_FCB_decref i s =
     (let s = upd_ofcb i (\<lambda>f. f\<lparr>f_refcount := f_refcount f - 1\<rparr>) s
      in if f_refcount (o_FT s i) = 0 then do {
           (s, retval) \<leftarrow> old_call_Close (f_streamfunc (o_FT s i)) (f_streamobj (o_FT s i)) s;
           Some (old_release_FCB i s, retval) }
         else Some (s, 0))"

definition old_sys_Read :: "int \<Rightarrow> u32 \<Rightarrow> io_env \<Rightarrow> okernel \<Rightarrow> (okernel \<times> int \<times> read_data) option" where
  "old_sys_Read fd n e s =
     (case get_fcb fd s of
        None \<Rightarrow> Some (s, -1, Bytes [])
      | Some i \<Rightarrow> do {
          let sobj = f_streamobj (o_FT s i);
          let devread = f_streamfunc (o_FT s i);
          let s = old_FCB_incref i s;
          (s, retcode, d) \<leftarrow> old_call_Read devread sobj n e s;
          (s, r) \<leftarrow> old_FCB_decref i s;
          Some (s, retcode, d) })"

definition old_sys_Write :: "int \<Rightarrow> u8 list \<Rightarrow> io_env \<Rightarrow> okernel \<Rightarrow> (okernel \<times> int) option" where
  "old_sys_Write fd buf e s =
     (case get_fcb fd s of
        None \<Rightarrow> Some (s, -1)
      | Some i \<Rightarrow> do {
          let sobj = f_streamobj (o_FT s i);
          let devwrite = f_streamfunc (o_FT s i);
          let s = old_FCB_incref i s;
          (s, retcode) \<leftarrow> old_call_Write devwrite sobj buf e s;
          (s, r) \<leftarrow> old_FCB_decref i s;
          Some (s, retcode) })"

definition old_sys_Close :: "int \<Rightarrow> okernel \<Rightarrow> (okernel \<times> int) option" where
  "old_sys_Close fd s =
     (case get_fcb fd s of
        None \<Rightarrow> Some (s, if 0 \<le> fd \<and> fd < int (n_fileid s) then 0 else -1)
      | Some i \<Rightarrow> old_FCB_decref i (set_oFIDT (curproc s) (nat fd) None s))"

definition sys_Dup2 :: "int \<Rightarrow> int \<Rightarrow> okernel \<Rightarrow> (okernel \<times> int) option" where
  "sys_Dup2 oldfd newfd s =
     (if oldfd < 0 \<or> newfd < 0 \<or> oldfd \<ge> int (n_fileid s) \<or> newfd \<ge> int (n_fileid s) then Some (s, -1)
      else (let old = get_fcb oldfd s;
                new = get_fcb newfd s
            in case old of
                 None \<Rightarrow> Some (s, -1)
               | Some i \<Rightarrow>
                   if old \<noteq> new then do {
                     s \<leftarrow> (case new of
                             Some j \<Rightarrow> do { (s, r) \<leftarrow> old_FCB_decref j s; Some s }
                           | None \<Rightarrow> Some s);
                     let s = old_FCB_incref i s;
                     Some (set_oFIDT (curproc s) (nat newfd) (Some i) s, 0) }
                   else Some (s, 0)))"

definition sys_GetTerminalDevices :: "okernel \<Rightarrow> nat" where
  "sys_GetTerminalDevices s = old_device_no DEV_SERIAL s"

definition old_open_stream :: "Device_type \<Rightarrow> nat \<Rightarrow> okernel \<Rightarrow> (okernel \<times> int) option" where
  "old_open_stream major minor s =
     (case old_FCB_reserve 1 s of
        (s, None) \<Rightarrow> Some (s, NOFILE)
      | (s, Some (fid, fcb)) \<Rightarrow> do {
          d \<leftarrow> old_device_open major minor s;
          case d of
            None \<Rightarrow> do { s \<leftarrow> old_FCB_unreserve fid fcb s; Some (s, NOFILE) }
          | Some (obj, ops) \<Rightarrow>
              Some (upd_ofcb (hd fcb) (\<lambda>f. f\<lparr>f_streamobj := obj, f_streamfunc := ops\<rparr>) s, int (hd fid)) })"

definition old_sys_OpenNull :: "okernel \<Rightarrow> (okernel \<times> int) option" where
  "old_sys_OpenNull s = old_open_stream DEV_NULL 0 s"

definition old_sys_OpenTerminal :: "nat \<Rightarrow> okernel \<Rightarrow> (okernel \<times> int) option" where
  "old_sys_OpenTerminal termno s = old_open_stream DEV_SERIAL termno s"

end
