(* ===== verification/Old_Proc.thy ===== *)
theory Old_Proc
  imports Old_Streams
begin

text \<open>
  The processes and threads of the earlier kernel, \<open>old/kernel_proc.c\<close> and \<open>old/kernel_threads.c\<close>.

  Its scheduler is not part of the repository. A thread is known by its PTCB: \<open>create_ptcb\<close> has the text it has in
  \<open>src/kernel/kernel_sched.c\<close>, with the block from \<open>malloc\<close>; \<open>spawn_thread\<close> gives the new thread its process, and
  \<open>wakeup\<close> is recorded in \<open>woken\<close>. What the rest of the system does during a \<open>kernel_wait\<close> is an \<open>opause\<close>.
  User programs are the parameter \<open>run\<close>.
\<close>

section \<open>The process table\<close>

definition old_get_pcb :: "int \<Rightarrow> okernel \<Rightarrow> nat option" where
  "old_get_pcb pid s = (if q_pstate (o_PT s (nat pid)) = FREE then None else Some (nat pid))"

definition old_initialize_PCB :: "nat \<Rightarrow> okernel \<Rightarrow> okernel" where
  "old_initialize_PCB p s =
     (let s = upd_opcb p (\<lambda>c. c\<lparr>q_pstate := FREE, q_argl := 0, q_args := None\<rparr>) s;
          s = fold (\<lambda>i. set_oFIDT p i None) [0..<n_fileid s] s
      in upd_opcb p (\<lambda>c. c\<lparr>q_children_list := [], q_exited_list := [], q_ptcb_list := [],
           q_thread_count := 0, q_child_exit := COND_INIT\<rparr>) s)"

text \<open>The loop that links the free PCBs through their \<open>parent\<close> fields, from the last to the first.\<close>

definition link_free_PCBs :: "okernel \<Rightarrow> okernel" where
  "link_free_PCBs s =
     fold (\<lambda>p s. (upd_opcb p (\<lambda>c. c\<lparr>q_parent := pcb_freelist s\<rparr>) s)\<lparr>pcb_freelist := Some p\<rparr>)
       (rev [0..<n_proc s]) (s\<lparr>pcb_freelist := None\<rparr>)"

definition old_acquire_PCB :: "okernel \<Rightarrow> okernel \<times> nat option" where
  "old_acquire_PCB s =
     (case pcb_freelist s of
        None \<Rightarrow> (s, None)
      | Some p \<Rightarrow>
          (let s = upd_opcb p (\<lambda>c. c\<lparr>q_pstate := ALIVE\<rparr>) s
           in (s\<lparr>pcb_freelist := q_parent (o_PT s p), process_count := process_count s + 1\<rparr>, Some p)))"

definition old_release_PCB :: "nat \<Rightarrow> okernel \<Rightarrow> okernel" where
  "old_release_PCB p s =
     (upd_opcb p (\<lambda>c. c\<lparr>q_pstate := FREE, q_parent := pcb_freelist s\<rparr>) s)\<lparr>pcb_freelist := Some p, process_count := process_count s - 1\<rparr>"

section \<open>Creating processes and threads\<close>

text \<open>\<open>spawn_thread\<close> followed by \<open>create_ptcb\<close>, for process \<open>p\<close>: the new thread.\<close>

definition old_create_ptcb :: "nat \<Rightarrow> Task option \<Rightarrow> int \<Rightarrow> u8 list option \<Rightarrow> okernel \<Rightarrow> okernel \<times> nat" where
  "old_create_ptcb p tsk al ar s =
     (let t = fresh s;
          s = s\<lparr>ptcbs := (ptcbs s)(t \<mapsto> \<lparr>t_task = tsk, t_argl = al, t_args = ar, t_exitval = 0, t_exited = False,
                 t_detached = False, t_exit_cv = COND_INIT, t_refcount = 0\<rparr>), fresh := t + 1\<rparr>
      in (upd_opcb p (\<lambda>c. c\<lparr>q_ptcb_list := q_ptcb_list c @ [t]\<rparr>) s, t))"

definition old_wakeup :: "nat \<Rightarrow> okernel \<Rightarrow> okernel" where
  "old_wakeup t s = s\<lparr>woken := woken s @ [t]\<rparr>"

text \<open>The body of the loop that inherits the file ids.\<close>

definition inherit_file :: "nat \<Rightarrow> nat \<Rightarrow> nat \<Rightarrow> okernel \<Rightarrow> okernel" where
  "inherit_file cur newproc i s =
     (let s = set_oFIDT newproc i (q_FIDT (o_PT s cur) i) s
      in case q_FIDT (o_PT s newproc) i of Some f \<Rightarrow> old_FCB_incref f s | None \<Rightarrow> s)"

text \<open>The parent of a new process and what it inherits (\<open>sys_Exec\<close>, lines 127 to 146).\<close>

definition old_exec_parent :: "nat \<Rightarrow> okernel \<Rightarrow> okernel" where
  "old_exec_parent newproc s =
     (if old_get_pid (Some newproc) \<le> 1 then upd_opcb newproc (\<lambda>c. c\<lparr>q_parent := None\<rparr>) s
      else (let cur = curproc s;
                s = upd_opcb newproc (\<lambda>c. c\<lparr>q_parent := Some cur\<rparr>) s;
                s = upd_opcb cur (\<lambda>c. c\<lparr>q_children_list := newproc # q_children_list c\<rparr>) s
            in fold (inherit_file cur newproc) [0..<n_fileid s] s))"

text \<open>The copy of the arguments: \<open>argl\<close> bytes from \<open>args\<close>.\<close>

definition old_copy_args :: "int \<Rightarrow> u8 list option \<Rightarrow> u8 list option" where
  "old_copy_args al ar =
     (if al < 0 then None
      else if al = 0 then Some []
      else do { bs \<leftarrow> ar; if length bs < nat al then None else Some (take (nat al) bs) })"

definition old_sys_Exec :: "Task option \<Rightarrow> int \<Rightarrow> u8 list option \<Rightarrow> okernel \<Rightarrow> (okernel \<times> int) option" where
  "old_sys_Exec call al ar s =
     (case old_acquire_PCB s of
        (s, None) \<Rightarrow> Some (s, old_get_pid None)
      | (s, Some newproc) \<Rightarrow> do {
          let s = old_exec_parent newproc s;
          block \<leftarrow> old_copy_args al ar;
          let s = upd_opcb newproc (\<lambda>c. c\<lparr>q_main_task := call, q_argl := al, q_args := Some block\<rparr>) s;
          if call \<noteq> None then
            (let (s, t) = old_create_ptcb newproc call al ar s;
                 s = upd_opcb newproc (\<lambda>c. c\<lparr>q_main_thread := Some t, q_thread_count := q_thread_count c + 1\<rparr>) s
             in Some (old_wakeup t s, old_get_pid (Some newproc)))
          else Some (s, old_get_pid (Some newproc)) })"

definition old_initialize_processes :: "okernel \<Rightarrow> okernel option" where
  "old_initialize_processes s = do {
     let s = fold old_initialize_PCB [0..<n_proc s] s;
     let s = (link_free_PCBs s)\<lparr>process_count := 0\<rparr>;
     (s, pid) \<leftarrow> old_sys_Exec None 0 None s;
     if pid \<noteq> 0 then None else Some s }"

definition old_sys_GetPid :: "okernel \<Rightarrow> int" where
  "old_sys_GetPid s = old_get_pid (Some (curproc s))"

definition old_sys_GetPPid :: "okernel \<Rightarrow> int" where
  "old_sys_GetPPid s = old_get_pid (q_parent (o_PT s (curproc s)))"

section \<open>Waiting for a child\<close>

text \<open>\<open>rlist_remove\<close> of the two nodes of a PCB takes it out of the lists it is in.\<close>

definition unlink_child :: "nat \<Rightarrow> okernel \<Rightarrow> okernel" where
  "unlink_child p s = s\<lparr>o_PT := (\<lambda>q. (o_PT s q)\<lparr>q_children_list := removeAll p (q_children_list (o_PT s q)),
      q_exited_list := removeAll p (q_exited_list (o_PT s q))\<rparr>)\<rparr>"

text \<open>The second component is what \<open>*status\<close> receives.\<close>

definition old_cleanup_zombie :: "nat \<Rightarrow> okernel \<Rightarrow> okernel \<times> int" where
  "old_cleanup_zombie p s = (let status = q_exitval (o_PT s p) in (old_release_PCB p (unlink_child p s), status))"

text \<open>\<open>while (cond) kernel_wait(...)\<close>\<close>

fun wait_while :: "(okernel \<Rightarrow> bool) \<Rightarrow> opause list \<Rightarrow> okernel \<Rightarrow> okernel option" where
  "wait_while c [] s = (if c s then None else Some s)"
| "wait_while c (r # rs) s = (if c s then wait_while c rs (r s) else Some s)"

definition wait_for_specific_child :: "int \<Rightarrow> opause list \<Rightarrow> okernel \<Rightarrow> (okernel \<times> int \<times> int option) option" where
  "wait_for_specific_child cpid rs s =
     (if cpid < 0 \<or> cpid \<ge> int (n_proc s) then Some (s, NOPROC, None)
      else case old_get_pcb cpid s of
             None \<Rightarrow> Some (s, NOPROC, None)
           | Some child \<Rightarrow>
               if q_parent (o_PT s child) \<noteq> Some (curproc s) then Some (s, NOPROC, None)
               else do {
                 s \<leftarrow> wait_while (\<lambda>s. q_pstate (o_PT s child) = ALIVE) rs s;
                 let (s, status) = old_cleanup_zombie child s;
                 Some (s, cpid, Some status) })"

definition wait_for_any_child :: "opause list \<Rightarrow> okernel \<Rightarrow> (okernel \<times> int \<times> int option) option" where
  "wait_for_any_child rs s = do {
     let par = curproc s;
     s \<leftarrow> wait_while (\<lambda>s. q_children_list (o_PT s par) \<noteq> [] \<and> q_exited_list (o_PT s par) = []) rs s;
     if q_children_list (o_PT s par) = [] then Some (s, NOPROC, None)
     else case q_exited_list (o_PT s par) of
            [] \<Rightarrow> None
          | child # _ \<Rightarrow>
              if q_pstate (o_PT s child) \<noteq> ZOMBIE then None
              else (let cpid = old_get_pid (Some child);
                        (s, status) = old_cleanup_zombie child s
                    in Some (s, cpid, Some status)) }"

definition old_sys_WaitChild :: "int \<Rightarrow> opause list \<Rightarrow> okernel \<Rightarrow> (okernel \<times> int \<times> int option) option" where
  "old_sys_WaitChild cpid rs s =
     (if cpid \<noteq> NOPROC then wait_for_specific_child cpid rs s else wait_for_any_child rs s)"

section \<open>Threads\<close>

definition upd_optcb :: "nat \<Rightarrow> (old_PTCB \<Rightarrow> old_PTCB) \<Rightarrow> okernel \<Rightarrow> okernel" where
  "upd_optcb t f s = s\<lparr>ptcbs := (ptcbs s)(t := map_option f (ptcbs s t))\<rparr>"

definition old_sys_CreateThread :: "Task option \<Rightarrow> int \<Rightarrow> u8 list option \<Rightarrow> okernel \<Rightarrow> okernel \<times> nat option" where
  "old_sys_CreateThread tsk al ar s =
     (if tsk = None then (s, None)
      else (let (s, t) = old_create_ptcb (curproc s) tsk al ar s;
                s = upd_opcb (curproc s) (\<lambda>c. c\<lparr>q_thread_count := q_thread_count c + 1\<rparr>) s
            in (old_wakeup t s, Some t)))"

definition old_sys_ThreadSelf :: "okernel \<Rightarrow> nat" where
  "old_sys_ThreadSelf s = curptcb s"

text \<open>The loop condition of \<open>ThreadJoin\<close> reads the PTCB at every turn.\<close>

fun join_wait :: "nat \<Rightarrow> opause list \<Rightarrow> okernel \<Rightarrow> okernel option" where
  "join_wait t [] s = do { c \<leftarrow> ptcbs s t; if \<not> t_exited c \<and> \<not> t_detached c then None else Some s }"
| "join_wait t (r # rs) s = do {
     c \<leftarrow> ptcbs s t;
     if \<not> t_exited c \<and> \<not> t_detached c then join_wait t rs (r s) else Some s }"

definition old_sys_ThreadJoin :: "nat \<Rightarrow> opause list \<Rightarrow> okernel \<Rightarrow> (okernel \<times> int \<times> int option) option" where
  "old_sys_ThreadJoin tid rs s =
     (if old_sys_ThreadSelf s = tid then Some (s, -1, None)
      else if tid \<notin> set (q_ptcb_list (o_PT s (curproc s))) then Some (s, -1, None)
      else do {
        c \<leftarrow> ptcbs s tid;
        if t_detached c then Some (s, -1, None)
        else do {
          s \<leftarrow> join_wait tid rs (upd_optcb tid (\<lambda>c. c\<lparr>t_refcount := t_refcount c + 1\<rparr>) s);
          c \<leftarrow> ptcbs s tid;
          if t_detached c then Some (s, -1, None)
          else do {
            let s = upd_optcb tid (\<lambda>c. c\<lparr>t_refcount := t_refcount c - 1\<rparr>) s;
            let v = t_exitval c;
            c \<leftarrow> ptcbs s tid;
            if t_refcount c = 0 then
              (let s = s\<lparr>o_PT := (\<lambda>q. (o_PT s q)\<lparr>q_ptcb_list := removeAll tid (q_ptcb_list (o_PT s q))\<rparr>)\<rparr>
               in Some (s\<lparr>ptcbs := (ptcbs s)(tid := None)\<rparr>, 0, Some v))
            else Some (s, 0, Some v) } } })"

definition old_sys_ThreadDetach :: "nat \<Rightarrow> okernel \<Rightarrow> (okernel \<times> int) option" where
  "old_sys_ThreadDetach tid s =
     (if tid \<notin> set (q_ptcb_list (o_PT s (curproc s))) then Some (s, -1)
      else do {
        c \<leftarrow> ptcbs s tid;
        if t_exited c then Some (s, -1)
        else Some (upd_optcb tid (\<lambda>c. c\<lparr>t_detached := True, t_exit_cv := []\<rparr>) s, 0) })"

section \<open>Exit\<close>

text \<open>The children of the exiting process go to the initial process, and the process into the list of its parent
  (\<open>sys_ThreadExit\<close>, lines 133 to 152).\<close>

definition exit_reparent :: "nat \<Rightarrow> okernel \<Rightarrow> okernel option" where
  "exit_reparent cur s = do {
     initpcb \<leftarrow> old_get_pcb 1 s;
     let s = fold (\<lambda>child s.
               let s = upd_opcb cur (\<lambda>c. c\<lparr>q_children_list := tl (q_children_list c)\<rparr>) s;
                   s = upd_opcb child (\<lambda>c. c\<lparr>q_parent := Some initpcb\<rparr>) s
               in upd_opcb initpcb (\<lambda>c. c\<lparr>q_children_list := child # q_children_list c\<rparr>) s)
             (q_children_list (o_PT s cur)) s;
     let s = (if q_exited_list (o_PT s cur) \<noteq> [] then
                (let ex = q_exited_list (o_PT s cur);
                     s = upd_opcb cur (\<lambda>c. c\<lparr>q_exited_list := []\<rparr>) s
                 in upd_opcb initpcb (\<lambda>c. c\<lparr>q_exited_list := q_exited_list c @ ex, q_child_exit := []\<rparr>) s)
              else s);
     par \<leftarrow> q_parent (o_PT s cur);
     Some (upd_opcb par (\<lambda>c. c\<lparr>q_exited_list := cur # q_exited_list c, q_child_exit := []\<rparr>) s) }"

text \<open>\<open>while (is_rlist_empty(&curproc->ptcb_list) != 0)\<close>: popping from an empty list leaves it empty.\<close>

definition exit_free_ptcbs :: "nat \<Rightarrow> okernel \<Rightarrow> okernel option" where
  "exit_free_ptcbs cur s = (if q_ptcb_list (o_PT s cur) = [] then None else Some s)"

text \<open>The loop over the file id table.\<close>

definition exit_close_files :: "nat \<Rightarrow> okernel \<Rightarrow> okernel option" where
  "exit_close_files cur s =
     for_each (\<lambda>i s. case q_FIDT (o_PT s cur) i of
                       None \<Rightarrow> Some s
                     | Some f \<Rightarrow> do { (s, r) \<leftarrow> old_FCB_decref f s; Some (set_oFIDT cur i None s) })
       [0..<n_fileid s] s"

text \<open>What the last thread of a process does.\<close>

definition exit_process :: "nat \<Rightarrow> okernel \<Rightarrow> okernel option" where
  "exit_process cur s = do {
     s \<leftarrow> (if old_get_pid (Some cur) \<noteq> 1 then exit_reparent cur s else Some s);
     if q_children_list (o_PT s cur) \<noteq> [] \<or> q_exited_list (o_PT s cur) \<noteq> [] then None
     else do {
       s \<leftarrow> exit_free_ptcbs cur s;
       let s = upd_opcb cur (\<lambda>c. c\<lparr>q_args := None\<rparr>) s;
       s \<leftarrow> exit_close_files cur s;
       Some (upd_opcb cur (\<lambda>c. c\<lparr>q_main_thread := None, q_pstate := ZOMBIE\<rparr>) s) } }"

text \<open>The state in which the thread goes to sleep for ever, \<open>kernel_sleep(EXITED, SCHED_USER)\<close>.\<close>

definition old_sys_ThreadExit :: "int \<Rightarrow> okernel \<Rightarrow> okernel option" where
  "old_sys_ThreadExit v s = do {
     c \<leftarrow> ptcbs s (curptcb s);
     let s = upd_optcb (curptcb s) (\<lambda>c. c\<lparr>t_exitval := v, t_exited := True, t_exit_cv := []\<rparr>) s;
     let cur = curproc s;
     let s = upd_opcb cur (\<lambda>c. c\<lparr>q_thread_count := q_thread_count c - 1\<rparr>) s;
     if q_thread_count (o_PT s cur) = 0 then exit_process cur s else Some s }"

text \<open>\<open>while (sys_WaitChild(NOPROC, NULL) != NOPROC);\<close>, with the waits of each call.\<close>

fun reap_children :: "opause list list \<Rightarrow> okernel \<Rightarrow> okernel option" where
  "reap_children [] s = None"
| "reap_children (rs # rss) s = do {
     (s, pid, status) \<leftarrow> old_sys_WaitChild NOPROC rs s;
     if pid \<noteq> NOPROC then reap_children rss s else Some s }"

definition old_sys_Exit :: "int \<Rightarrow> opause list list \<Rightarrow> okernel \<Rightarrow> okernel option" where
  "old_sys_Exit v rss s = do {
     let s = upd_opcb (curproc s) (\<lambda>c. c\<lparr>q_exitval := v\<rparr>) s;
     s \<leftarrow> (if old_get_pid (Some (curproc s)) = 1 then reap_children rss s else Some s);
     old_sys_ThreadExit v s }"

text \<open>The first functions of a thread.\<close>

definition old_start_main_thread ::
    "(Task \<Rightarrow> int \<Rightarrow> u8 list option \<Rightarrow> okernel \<Rightarrow> okernel \<times> int) \<Rightarrow> opause list list \<Rightarrow> okernel \<Rightarrow> okernel option" where
  "old_start_main_thread run rss s = do {
     call \<leftarrow> q_main_task (o_PT s (curproc s));
     let (s, v) = run call (q_argl (o_PT s (curproc s))) (q_args (o_PT s (curproc s))) s;
     old_sys_Exit v rss s }"

definition old_start_main_pthread ::
    "(Task \<Rightarrow> int \<Rightarrow> u8 list option \<Rightarrow> okernel \<Rightarrow> okernel \<times> int) \<Rightarrow> okernel \<Rightarrow> okernel option" where
  "old_start_main_pthread run s = do {
     c \<leftarrow> ptcbs s (curptcb s);
     call \<leftarrow> t_task c;
     let (s, v) = run call (t_argl c) (t_args c) s;
     old_sys_ThreadExit v s }"

section \<open>Boot\<close>

text \<open>\<open>boot_tinyos_kernel\<close> up to the barrier. The scheduler of the earlier kernel is the parameter \<open>init_sched\<close>.\<close>

definition old_boot_tinyos_kernel :: "(okernel \<Rightarrow> okernel) \<Rightarrow> Task option \<Rightarrow> int \<Rightarrow> u8 list option \<Rightarrow> okernel \<Rightarrow> okernel option" where
  "old_boot_tinyos_kernel init_sched init_task al ar s = do {
     s \<leftarrow> old_initialize_processes s;
     let s = old_initialize_devices s;
     let s = old_initialize_files s;
     let s = init_sched s;
     (s, pid) \<leftarrow> old_sys_Exec init_task al ar s;
     if pid \<noteq> 1 then None else Some s }"

end
