(* ===== verification/Old_Files.thy ===== *)
theory Old_Files
  imports Old_Proc
begin

text \<open>
  The file table of the earlier kernel stays consistent: the free list holds exactly the FCBs nobody refers to, and a
  reference count is the number of file ids that lead to the FCB, over all processes.
\<close>

section \<open>The invariant\<close>

definition orefs :: "okernel \<Rightarrow> nat \<Rightarrow> (nat \<times> nat) set" where
  "orefs s i = {(p, f). p < n_proc s \<and> f < n_fileid s \<and> q_FIDT (o_PT s p) f = Some i}"

text \<open>The references to FCB \<open>i\<close>: the file ids that lead to it and \<open>held i\<close> more, by which the count is ahead of the tables
  in the middle of an operation.\<close>

definition ocount :: "okernel \<Rightarrow> (nat \<Rightarrow> int) \<Rightarrow> nat \<Rightarrow> int" where
  "ocount s held i = int (card (orefs s i)) + held i"

text \<open>\<open>xs\<close> is the free list, and \<open>R\<close> are FCBs that have been acquired and not yet entered.\<close>

definition ofiles_inv :: "okernel \<Rightarrow> nat list \<Rightarrow> nat set \<Rightarrow> (nat \<Rightarrow> int) \<Rightarrow> bool" where
  "ofiles_inv s xs R held \<longleftrightarrow>
     o_FCB_freelist s = xs \<and> distinct xs \<and> set xs \<inter> R = {} \<and> set xs \<union> R \<subseteq> {..<n_proc s}
     \<and> (\<forall>i<n_proc s. (i \<in> set xs \<union> R \<longleftrightarrow> ocount s held i = 0) \<and> 0 \<le> ocount s held i \<and> ocount s held i < 2 ^ 32)
     \<and> (\<forall>i<n_proc s. i \<notin> set xs \<longrightarrow> f_refcount (o_FT s i) = of_int (ocount s held i))
     \<and> (\<forall>p f i. p < n_proc s \<and> f < n_fileid s \<and> q_FIDT (o_PT s p) f = Some i \<longrightarrow> i < n_proc s)"

abbreviation no_holds :: "nat \<Rightarrow> int" where "no_holds \<equiv> (\<lambda>_. 0)"

text \<open>The references held by calls in progress, \<open>H\<close>, and those of all file ids fit in the counter together.\<close>

definition room :: "nat \<Rightarrow> (nat \<Rightarrow> int) \<Rightarrow> bool" where
  "room n H \<longleftrightarrow> (\<forall>i. 0 \<le> H i \<and> int n + H i < 2 ^ 32)"

definition ofiles_with :: "(nat \<Rightarrow> int) \<Rightarrow> okernel \<Rightarrow> bool" where
  "ofiles_with H s \<longleftrightarrow> ofiles_inv s (o_FCB_freelist s) {} H \<and> curproc s < n_proc s \<and> room (n_proc s * n_fileid s) H"

text \<open>The table while no call holds a reference of its own.\<close>

abbreviation ofiles_ok :: "okernel \<Rightarrow> bool" where "ofiles_ok \<equiv> ofiles_with no_holds"

lemma room_none [simp]: "room n no_holds \<longleftrightarrow> n < 2 ^ 32"
proof -
  have "int n < 2 ^ 32 \<longleftrightarrow> n < 2 ^ 32" by (metis of_nat_less_iff of_nat_numeral of_nat_power)
  then show ?thesis by (simp add: room_def)
qed

lemma roomD: "room n H \<Longrightarrow> 0 \<le> H i" "room n H \<Longrightarrow> int n + H i < 2 ^ 32"
  by (simp_all add: room_def)

lemma ofiles_invD:
  assumes "ofiles_inv s xs R held"
  shows "o_FCB_freelist s = xs" "distinct xs" "set xs \<inter> R = {}" "\<And>i. i \<in> set xs \<union> R \<Longrightarrow> i < n_proc s"
    "\<And>i. i < n_proc s \<Longrightarrow> i \<in> set xs \<union> R \<longleftrightarrow> ocount s held i = 0"
    "\<And>i. i < n_proc s \<Longrightarrow> 0 \<le> ocount s held i \<and> ocount s held i < 2 ^ 32"
    "\<And>i. i < n_proc s \<Longrightarrow> i \<notin> set xs \<Longrightarrow> f_refcount (o_FT s i) = of_int (ocount s held i)"
    "\<And>p f i. p < n_proc s \<Longrightarrow> f < n_fileid s \<Longrightarrow> q_FIDT (o_PT s p) f = Some i \<Longrightarrow> i < n_proc s"
  using assms unfolding ofiles_inv_def by blast+

lemma ofiles_invI:
  assumes "o_FCB_freelist s = xs" "distinct xs" "set xs \<inter> R = {}" "\<And>i. i \<in> set xs \<union> R \<Longrightarrow> i < n_proc s"
    "\<And>i. i < n_proc s \<Longrightarrow> (i \<in> set xs \<union> R \<longleftrightarrow> ocount s held i = 0) \<and> 0 \<le> ocount s held i \<and> ocount s held i < 2 ^ 32"
    "\<And>i. i < n_proc s \<Longrightarrow> i \<notin> set xs \<Longrightarrow> f_refcount (o_FT s i) = of_int (ocount s held i)"
    "\<And>p f i. p < n_proc s \<Longrightarrow> f < n_fileid s \<Longrightarrow> q_FIDT (o_PT s p) f = Some i \<Longrightarrow> i < n_proc s"
  shows "ofiles_inv s xs R held"
  using assms unfolding ofiles_inv_def by blast

lemma orefs_bounded: "finite (orefs s i)" "card (orefs s i) \<le> n_proc s * n_fileid s"
proof -
  have sub: "orefs s i \<subseteq> {..<n_proc s} \<times> {..<n_fileid s}" by (auto simp: orefs_def)
  show "finite (orefs s i)" by (rule finite_subset [OF sub]) simp
  have "card (orefs s i) \<le> card ({..<n_proc s} \<times> {..<n_fileid s})" by (rule card_mono [OF _ sub]) simp
  then show "card (orefs s i) \<le> n_proc s * n_fileid s" by (simp add: card_cartesian_product)
qed

text \<open>The counter is 0 only if there is no reference: it has not wrapped around.\<close>

lemma word_count_zero: "0 \<le> n \<Longrightarrow> n < 2 ^ 32 \<Longrightarrow> (of_int n :: u32) = 0 \<longleftrightarrow> n = 0"
proof -
  assume n: "0 \<le> n" "n < 2 ^ 32"
  have "uint (of_int n :: u32) = n" using n by (simp add: unsigned_of_int take_bit_int_eq_self)
  then show ?thesis by (metis of_int_0 unsigned_0)
qed

text \<open>What the invariant depends on.\<close>

definition ofiles_same :: "okernel \<Rightarrow> okernel \<Rightarrow> bool" where
  "ofiles_same s s' \<longleftrightarrow> n_proc s' = n_proc s \<and> n_fileid s' = n_fileid s \<and> o_FCB_freelist s' = o_FCB_freelist s
     \<and> (\<forall>i. f_refcount (o_FT s' i) = f_refcount (o_FT s i)) \<and> o_PT s' = o_PT s \<and> pcb_freelist s' = pcb_freelist s
     \<and> curproc s' = curproc s"

lemma ofiles_same_refl [simp]: "ofiles_same s s"
  by (simp add: ofiles_same_def)

lemma ofiles_same_trans: "ofiles_same s s' \<Longrightarrow> ofiles_same s' s'' \<Longrightarrow> ofiles_same s s''"
  by (simp add: ofiles_same_def)

lemma ofiles_inv_same:
  assumes "ofiles_same s s'"
  shows "ofiles_inv s' xs R held = ofiles_inv s xs R held"
proof -
  note S = assms [unfolded ofiles_same_def]
  have r: "orefs s' = orefs s" by (rule ext) (use S in \<open>simp add: orefs_def\<close>)
  then have "ocount s' held = ocount s held" by (simp add: ocount_def fun_eq_iff)
  then show ?thesis unfolding ofiles_inv_def by (simp add: S)
qed

lemma ofiles_ok_same: "ofiles_same s s' \<Longrightarrow> ofiles_with H s' = ofiles_with H s"
  unfolding ofiles_with_def using ofiles_inv_same [of s s'] by (simp add: ofiles_same_def)

section \<open>The elementary steps\<close>

text \<open>A file id that is redirected moves one reference from the tables to the hands of the caller, or back.\<close>

definition moved :: "okernel \<Rightarrow> nat \<Rightarrow> nat \<Rightarrow> nat option \<Rightarrow> (nat \<Rightarrow> int) \<Rightarrow> nat \<Rightarrow> int" where
  "moved s p f v held i = held i + of_bool (q_FIDT (o_PT s p) f = Some i) - of_bool (v = Some i)"

lemma set_oFIDT_simps [simp]:
  "n_proc (set_oFIDT p f v s) = n_proc s" "n_fileid (set_oFIDT p f v s) = n_fileid s" "o_FT (set_oFIDT p f v s) = o_FT s"
  "o_FCB_freelist (set_oFIDT p f v s) = o_FCB_freelist s" "curproc (set_oFIDT p f v s) = curproc s"
  "q_FIDT (o_PT (set_oFIDT p f v s) q) = (if q = p then (q_FIDT (o_PT s p))(f := v) else q_FIDT (o_PT s q))"
  by (simp_all add: set_oFIDT_def upd_opcb_def)

lemma incref_simps [simp]:
  "n_proc (old_FCB_incref i s) = n_proc s" "n_fileid (old_FCB_incref i s) = n_fileid s" "o_PT (old_FCB_incref i s) = o_PT s"
  "o_FCB_freelist (old_FCB_incref i s) = o_FCB_freelist s" "curproc (old_FCB_incref i s) = curproc s"
  "f_refcount (o_FT (old_FCB_incref i s) j) = f_refcount (o_FT s j) + of_bool (j = i)"
  by (simp_all add: old_FCB_incref_def upd_ofcb_def)

lemma ocount_set_oFIDT:
  assumes "p < n_proc s" and "f < n_fileid s"
  shows "ocount (set_oFIDT p f v s) (moved s p f v held) i = ocount s held i"
proof -
  let ?s = "set_oFIDT p f v s" and ?a = "(p, f)"
  have r: "orefs ?s i = (if v = Some i then insert ?a (orefs s i) else orefs s i - {?a})"
    using assms by (auto simp: orefs_def split: if_splits)
  have a: "?a \<in> orefs s i \<longleftrightarrow> q_FIDT (o_PT s p) f = Some i" using assms by (simp add: orefs_def)
  have "finite (orefs s i)" by (rule orefs_bounded)
  then have "int (card (orefs ?s i)) = int (card (orefs s i)) + of_bool (v = Some i) - of_bool (q_FIDT (o_PT s p) f = Some i)"
    unfolding r using a card_gt_0_iff [of "orefs s i"] by (auto simp: card_insert_if card_Diff_singleton of_nat_diff)
  then show ?thesis by (simp add: ocount_def moved_def)
qed

lemma set_oFIDT_inv:
  assumes "ofiles_inv s xs R held" and "p < n_proc s" and "f < n_fileid s" and "\<And>i. v = Some i \<Longrightarrow> i < n_proc s"
  shows "ofiles_inv (set_oFIDT p f v s) xs R (moved s p f v held)"
  using assms(1,4) unfolding ofiles_inv_def ocount_set_oFIDT [OF assms(2,3)] by auto

lemma ocount_incref: "ocount (old_FCB_incref i s) (held(i := held i + 1)) j = ocount s held j + of_bool (j = i)"
  by (simp add: ocount_def orefs_def)

lemma incref_inv:
  assumes "ofiles_inv s xs R held" and "i < n_proc s" and "i \<notin> set xs" and "ocount s held i + 1 < 2 ^ 32"
  shows "ofiles_inv (old_FCB_incref i s) xs (R - {i}) (held(i := held i + 1))"
proof -
  note I = ofiles_invD [OF assms(1)]
  have c: "(j \<in> set xs \<union> (R - {i}) \<longleftrightarrow> ocount s held j + of_bool (j = i) = 0)
      \<and> 0 \<le> ocount s held j + of_bool (j = i) \<and> ocount s held j + of_bool (j = i) < 2 ^ 32" if j: "j < n_proc s" for j
    using I(5,6) [OF j] assms(3,4) by (cases "j = i") auto
  have r: "f_refcount (o_FT s j) + of_bool (j = i) = of_int (ocount s held j + of_bool (j = i))" if "j < n_proc s" "j \<notin> set xs" for j
    using I(7) [OF that] by simp
  show ?thesis
  proof (rule ofiles_invI)
    show "set xs \<inter> (R - {i}) = {}" "\<And>j. j \<in> set xs \<union> (R - {i}) \<Longrightarrow> j < n_proc (old_FCB_incref i s)" using I(3,4) by auto
  qed (use I(1,2) I(8) c r in \<open>simp_all add: ocount_incref\<close>)
qed

section \<open>What does not touch the file table\<close>

lemma same_upd_socket [simp]: "ofiles_same s (upd_socket k f t) = ofiles_same s t"
  by (simp add: ofiles_same_def upd_socket_def)

lemma same_fields [simp]:
  "ofiles_same s (t\<lparr>pipes := x\<rparr>) = ofiles_same s t" "ofiles_same s (t\<lparr>sockets := y\<rparr>) = ofiles_same s t"
  "ofiles_same s (t\<lparr>PORT_MAP := z\<rparr>) = ofiles_same s t" "ofiles_same s (t\<lparr>requests := u\<rparr>) = ofiles_same s t"
  "ofiles_same s (t\<lparr>procinfos := v\<rparr>) = ofiles_same s t" "ofiles_same s (t\<lparr>fresh := w\<rparr>) = ofiles_same s t"
  "ofiles_same s (t\<lparr>preempt := a\<rparr>) = ofiles_same s t" "ofiles_same s (t\<lparr>sent := b\<rparr>) = ofiles_same s t"
  by (simp_all add: ofiles_same_def)

lemma same_close_reader: "close_reader k s = Some s' \<Longrightarrow> ofiles_same s s'"
  by (cases k) (auto simp: close_reader_def split: Option.bind_splits)

lemma same_close_writer: "close_writer k s = Some s' \<Longrightarrow> ofiles_same s s'"
  by (cases k) (auto simp: close_writer_def split: Option.bind_splits)

lemma socket_close_same:
  assumes "socket_close obj s = Some (s', r)"
  shows "ofiles_same s s'"
proof (cases obj)
  case None
  then show ?thesis using assms by (simp add: socket_close_def)
next
  case (Some k)
  with assms obtain c where c: "sockets s k = Some c" by (auto simp: socket_close_def split: Option.bind_splits)
  show ?thesis
  proof (cases "s_type c")
    case SOCKET_PEER
    with assms Some c obtain w q t u where t: "peer_of (s_union c) = Some (w, q)" "close_reader q s = Some t"
      "close_writer w (upd_socket k (\<lambda>c. c\<lparr>s_union := peer_s w None\<rparr>) t) = Some u"
      by (auto simp: socket_close_def split: Option.bind_splits)
    have "ofiles_same s t" by (rule same_close_reader [OF t(2)])
    then have "ofiles_same s (upd_socket k (\<lambda>c. c\<lparr>s_union := peer_s w None\<rparr>) t)" by simp
    from ofiles_same_trans [OF this same_close_writer [OF t(3)]] have "ofiles_same s u" .
    then show ?thesis using assms Some c SOCKET_PEER t by (auto simp: socket_close_def split: if_splits)
  qed (use assms Some c in \<open>auto simp: socket_close_def split: if_splits Option.bind_splits\<close>)
qed

lemma old_call_Close_same: "old_call_Close fo obj s = Some (s', r) \<Longrightarrow> ofiles_same s s'"
  by (induction fo obj s rule: old_call_Close.induct)
     (auto simp: procinfo_close_def case_prod_beta dest: socket_close_same split: Option.bind_splits)

section \<open>Giving a reference back\<close>

lemma ocount_same: "ofiles_same s t \<Longrightarrow> ocount t held i = ocount s held i"
  by (simp add: ocount_def orefs_def ofiles_same_def)

lemma decref_inv:
  assumes inv: "ofiles_inv s xs R held" and i: "i < n_proc s" "i \<notin> set xs" "i \<notin> R"
    and run: "old_FCB_decref i s = Some (s', r)"
  shows "ofiles_inv s' (if ocount s held i = 1 then xs @ [i] else xs) R (held(i := held i - 1))"
    and "n_proc s' = n_proc s" "n_fileid s' = n_fileid s" "curproc s' = curproc s" "o_PT s' = o_PT s" "pcb_freelist s' = pcb_freelist s"
proof -
  note I = ofiles_invD [OF inv]
  let ?t = "upd_ofcb i (\<lambda>f. f\<lparr>f_refcount := f_refcount f - 1\<rparr>) s" and ?h = "held(i := held i - 1)"
  have c1: "1 \<le> ocount s held i" "ocount s held i < 2 ^ 32" using I(5,6) [OF i(1)] i(2,3) by auto
  have ct: "ocount ?t ?h j = ocount s held j - of_bool (j = i)" for j by (simp add: ocount_def orefs_def upd_ofcb_def)
  have rt: "f_refcount (o_FT ?t j) = f_refcount (o_FT s j) - of_bool (j = i)" for j by (simp add: upd_ofcb_def)
  have ri: "f_refcount (o_FT ?t i) = of_int (ocount s held i - 1)" using rt [of i] I(7) [OF i(1,2)] by simp
  have z: "f_refcount (o_FT ?t i) = 0 \<longleftrightarrow> ocount s held i = 1" unfolding ri using c1 by (subst word_count_zero) auto
  have fr: "n_proc ?t = n_proc s" "n_fileid ?t = n_fileid s" "curproc ?t = curproc s" "o_PT ?t = o_PT s" "o_FCB_freelist ?t = o_FCB_freelist s"
    "pcb_freelist ?t = pcb_freelist s"
    by (simp_all add: upd_ofcb_def)
  have cnt: "(j \<in> set xs \<union> R \<longleftrightarrow> ocount ?t ?h j = 0 \<and> j \<noteq> i) \<and> 0 \<le> ocount ?t ?h j \<and> ocount ?t ?h j < 2 ^ 32" if j: "j < n_proc s" for j
    using I(5,6) [OF j] i(2,3) c1 unfolding ct by (cases "j = i") auto
  have ref: "f_refcount (o_FT ?t j) = of_int (ocount ?t ?h j)" if "j < n_proc s" "j \<notin> set xs" for j
    using I(7) [OF that] unfolding ct rt by simp
  have "ofiles_inv s' (if ocount s held i = 1 then xs @ [i] else xs) R ?h
      \<and> n_proc s' = n_proc s \<and> n_fileid s' = n_fileid s \<and> curproc s' = curproc s \<and> o_PT s' = o_PT s \<and> pcb_freelist s' = pcb_freelist s"
  proof (cases "ocount s held i = 1")
    case False
    have nz: "ocount ?t ?h i \<noteq> 0" using False c1(1) unfolding ct by simp
    have "s' = ?t" using run False z by (simp add: old_FCB_decref_def Let_def)
    moreover have "ofiles_inv ?t xs R ?h"
    proof (rule ofiles_invI)
      show "(j \<in> set xs \<union> R \<longleftrightarrow> ocount ?t ?h j = 0) \<and> 0 \<le> ocount ?t ?h j \<and> ocount ?t ?h j < 2 ^ 32" if "j < n_proc ?t" for j
        using cnt [of j] that nz fr by (cases "j = i") auto
    qed (use I(1-3) I(4) I(8) ref fr in simp_all)
    ultimately show ?thesis using False fr by simp
  next
    case True
    then have "f_refcount (o_FT ?t i) = 0" using z by simp
    with run obtain u where u: "old_call_Close (f_streamfunc (o_FT ?t i)) (f_streamobj (o_FT ?t i)) ?t = Some (u, r)" "s' = old_release_FCB i u"
      by (auto simp: old_FCB_decref_def Let_def split: Option.bind_splits)
    note S = old_call_Close_same [OF u(1)]
    have sf: "n_proc s' = n_proc s" "n_fileid s' = n_fileid s" "curproc s' = curproc s" "o_PT s' = o_PT s"
      "o_FCB_freelist s' = xs @ [i]" "f_refcount (o_FT s' j) = f_refcount (o_FT ?t j)" "pcb_freelist s' = pcb_freelist s" for j
      using S fr I(1) by (simp_all add: u(2) old_release_FCB_def ofiles_same_def)
    have os: "ocount s' ?h j = ocount ?t ?h j" for j using sf fr by (simp add: ocount_def orefs_def)
    have ci: "ocount ?t ?h i = 0" using True unfolding ct by simp
    have c2: "(j \<in> set (xs @ [i]) \<union> R \<longleftrightarrow> ocount ?t ?h j = 0) \<and> 0 \<le> ocount ?t ?h j \<and> ocount ?t ?h j < 2 ^ 32" if j: "j < n_proc s" for j
      using cnt [OF j] ci by (cases "j = i") auto
    have "ofiles_inv s' (xs @ [i]) R ?h"
    proof (rule ofiles_invI)
      show "distinct (xs @ [i])" "set (xs @ [i]) \<inter> R = {}" using I(2,3) i by auto
      show "j < n_proc s'" if "j \<in> set (xs @ [i]) \<union> R" for j using that I(4) [of j] i(1) by (auto simp: sf)
    qed (use I(8) c2 ref sf os in simp_all)
    then show ?thesis using True sf by simp
  qed
  then show "ofiles_inv s' (if ocount s held i = 1 then xs @ [i] else xs) R ?h" "n_proc s' = n_proc s" "n_fileid s' = n_fileid s"
    "curproc s' = curproc s" "o_PT s' = o_PT s" "pcb_freelist s' = pcb_freelist s" by blast+
qed

section \<open>Reserving\<close>

lemma acquire_inv:
  assumes inv: "ofiles_inv s (x # xs) R held"
  shows "old_acquire_FCB s = (upd_ofcb x (\<lambda>f. f\<lparr>f_refcount := 0\<rparr>) (s\<lparr>o_FCB_freelist := xs\<rparr>), Some x)"
    and "ofiles_inv (upd_ofcb x (\<lambda>f. f\<lparr>f_refcount := 0\<rparr>) (s\<lparr>o_FCB_freelist := xs\<rparr>)) xs (insert x R) held"
proof -
  note I = ofiles_invD [OF inv]
  let ?s = "upd_ofcb x (\<lambda>f. f\<lparr>f_refcount := 0\<rparr>) (s\<lparr>o_FCB_freelist := xs\<rparr>)"
  show "old_acquire_FCB s = (?s, Some x)" using I(1) by (simp add: old_acquire_FCB_def)
  have x: "x < n_proc s" "ocount s held x = 0" using I(4) [of x] I(5) [of x] by auto
  have c: "ocount ?s held j = ocount s held j" for j by (simp add: ocount_def orefs_def upd_ofcb_def)
  have fr: "n_proc ?s = n_proc s" "n_fileid ?s = n_fileid s" "o_PT ?s = o_PT s" "o_FCB_freelist ?s = xs" by (simp_all add: upd_ofcb_def)
  show "ofiles_inv ?s xs (insert x R) held"
  proof (rule ofiles_invI)
    show "distinct xs" "set xs \<inter> insert x R = {}" using I(2,3) by auto
    show "f_refcount (o_FT ?s j) = of_int (ocount ?s held j)" if "j < n_proc ?s" "j \<notin> set xs" for j
      using I(7) [of j] that x by (cases "j = x") (simp_all add: c, simp_all add: upd_ofcb_def)
    show "(j \<in> set xs \<union> insert x R \<longleftrightarrow> ocount ?s held j = 0) \<and> 0 \<le> ocount ?s held j \<and> ocount ?s held j < 2 ^ 32" if "j < n_proc ?s" for j
      using that I(5,6) [of j] by (simp add: c fr)
    show "j < n_proc ?s" if "j \<in> set xs \<union> insert x R" for j using that I(4) [of j] by (auto simp: fr)
  qed (use I(8) fr in simp_all)
qed

lemma old_release_inv:
  assumes inv: "ofiles_inv s xs R held" and i: "i \<in> R"
  shows "ofiles_inv (old_release_FCB i s) (xs @ [i]) (R - {i}) held"
proof -
  note I = ofiles_invD [OF inv]
  have c: "ocount (old_release_FCB i s) held j = ocount s held j" for j by (simp add: ocount_def orefs_def old_release_FCB_def)
  have fr: "n_proc (old_release_FCB i s) = n_proc s" "n_fileid (old_release_FCB i s) = n_fileid s" "o_PT (old_release_FCB i s) = o_PT s"
    "o_FT (old_release_FCB i s) = o_FT s" "o_FCB_freelist (old_release_FCB i s) = o_FCB_freelist s @ [i]"
    by (simp_all add: old_release_FCB_def)
  show ?thesis
  proof (rule ofiles_invI)
    show "distinct (xs @ [i])" "set (xs @ [i]) \<inter> (R - {i}) = {}" using I(2,3) i by auto
    have e: "set (xs @ [i]) \<union> (R - {i}) = set xs \<union> R" using i by auto
    show "(j \<in> set (xs @ [i]) \<union> (R - {i}) \<longleftrightarrow> ocount (old_release_FCB i s) held j = 0)
        \<and> 0 \<le> ocount (old_release_FCB i s) held j \<and> ocount (old_release_FCB i s) held j < 2 ^ 32" if "j < n_proc (old_release_FCB i s)" for j
      using that I(5,6) [of j] unfolding e by (simp add: c fr)
    show "j < n_proc (old_release_FCB i s)" if "j \<in> set (xs @ [i]) \<union> (R - {i})" for j using that I(4) [of j] unfolding e by (simp add: fr)
    show "f_refcount (o_FT (old_release_FCB i s) j) = of_int (ocount (old_release_FCB i s) held j)"
      if "j < n_proc (old_release_FCB i s)" "j \<notin> set (xs @ [i])" for j using that I(7) [of j] by (simp add: c fr)
  qed (use I(1) I(8) fr in simp_all)
qed

interpretation ofiles: free_pool "\<lambda>s xs R. ofiles_inv s xs R held" "\<lambda>s. Some (old_acquire_FCB s)" old_release_FCB for held
proof (unfold_locales, goal_cases)
  case (1 s R)
  then show ?case using ofiles_invD(1) [OF 1] by (simp add: old_acquire_FCB_def)
next
  case (2 s x xs R)
  then show ?case using acquire_inv [OF 2] by blast
next
  case (3 s xs R i)
  then show ?case by (rule old_release_inv)
next
  case (4 s xs R)
  then show ?case using ofiles_invD(2,3) [OF 4] by blast
qed

text \<open>The states that differ in the file table, the free list and the tables of file ids only, and where the streams of
  the FCBs are the same.\<close>

definition ft_only :: "okernel \<Rightarrow> okernel \<Rightarrow> bool" where
  "ft_only s s' \<longleftrightarrow> s' = s\<lparr>o_FT := o_FT s', o_FCB_freelist := o_FCB_freelist s', o_PT := o_PT s'\<rparr>
     \<and> (\<forall>i. (o_FT s' i)\<lparr>f_refcount := f_refcount (o_FT s i)\<rparr> = o_FT s i)
     \<and> (\<forall>p. (o_PT s' p)\<lparr>q_FIDT := q_FIDT (o_PT s p)\<rparr> = o_PT s p)"

lemma ft_only_refl [simp]: "ft_only s s"
  by (simp add: ft_only_def)

lemma ft_only_trans:
  assumes "ft_only s t" and "ft_only t u"
  shows "ft_only s u"
proof -
  have a: "t = s\<lparr>o_FT := o_FT t, o_FCB_freelist := o_FCB_freelist t, o_PT := o_PT t\<rparr>"
    "\<And>i. (o_FT t i)\<lparr>f_refcount := f_refcount (o_FT s i)\<rparr> = o_FT s i" "\<And>p. (o_PT t p)\<lparr>q_FIDT := q_FIDT (o_PT s p)\<rparr> = o_PT s p"
    using assms(1) by (simp_all add: ft_only_def)
  have b: "u = t\<lparr>o_FT := o_FT u, o_FCB_freelist := o_FCB_freelist u, o_PT := o_PT u\<rparr>"
    "\<And>i. (o_FT u i)\<lparr>f_refcount := f_refcount (o_FT t i)\<rparr> = o_FT t i" "\<And>p. (o_PT u p)\<lparr>q_FIDT := q_FIDT (o_PT t p)\<rparr> = o_PT t p"
    using assms(2) by (simp_all add: ft_only_def)
  have "u = s\<lparr>o_FT := o_FT u, o_FCB_freelist := o_FCB_freelist u, o_PT := o_PT u\<rparr>" by (subst b(1), subst a(1)) simp
  moreover have "(o_FT u i)\<lparr>f_refcount := f_refcount (o_FT s i)\<rparr> = o_FT s i" for i
  proof -
    have t: "o_FT t i = (o_FT u i)\<lparr>f_refcount := f_refcount (o_FT t i)\<rparr>" by (simp only: b(2))
    have "(o_FT t i)\<lparr>f_refcount := f_refcount (o_FT s i)\<rparr> = (o_FT u i)\<lparr>f_refcount := f_refcount (o_FT s i)\<rparr>" by (subst t) simp
    then show ?thesis using a(2) [of i] by simp
  qed
  moreover have "(o_PT u p)\<lparr>q_FIDT := q_FIDT (o_PT s p)\<rparr> = o_PT s p" for p
  proof -
    have t: "o_PT t p = (o_PT u p)\<lparr>q_FIDT := q_FIDT (o_PT t p)\<rparr>" by (simp only: b(3))
    have "(o_PT t p)\<lparr>q_FIDT := q_FIDT (o_PT s p)\<rparr> = (o_PT u p)\<lparr>q_FIDT := q_FIDT (o_PT s p)\<rparr>" by (subst t) simp
    then show ?thesis using a(3) [of p] by simp
  qed
  ultimately show ?thesis unfolding ft_only_def by blast
qed

lemma ft_only_fields:
  assumes "ft_only s s'"
  shows "n_proc s' = n_proc s" "n_fileid s' = n_fileid s" "curproc s' = curproc s" "curptcb s' = curptcb s" "pipes s' = pipes s"
    "sockets s' = sockets s" "requests s' = requests s" "procinfos s' = procinfos s" "PORT_MAP s' = PORT_MAP s" "fresh s' = fresh s"
    "ptcbs s' = ptcbs s" "pcb_freelist s' = pcb_freelist s" "o_devtable s' = o_devtable s" "n_serial s' = n_serial s"
    "f_streamobj (o_FT s' i) = f_streamobj (o_FT s i)" "f_streamfunc (o_FT s' i) = f_streamfunc (o_FT s i)"
    "q_pstate (o_PT s' p) = q_pstate (o_PT s p)" "q_parent (o_PT s' p) = q_parent (o_PT s p)"
    "q_children_list (o_PT s' p) = q_children_list (o_PT s p)" "q_exited_list (o_PT s' p) = q_exited_list (o_PT s p)"
proof -
  have a: "s' = s\<lparr>o_FT := o_FT s', o_FCB_freelist := o_FCB_freelist s', o_PT := o_PT s'\<rparr>" using assms by (simp add: ft_only_def)
  show "n_proc s' = n_proc s" "n_fileid s' = n_fileid s" "curproc s' = curproc s" "curptcb s' = curptcb s" "pipes s' = pipes s"
    "sockets s' = sockets s" "requests s' = requests s" "procinfos s' = procinfos s" "PORT_MAP s' = PORT_MAP s" "fresh s' = fresh s"
    "ptcbs s' = ptcbs s" "pcb_freelist s' = pcb_freelist s" "o_devtable s' = o_devtable s" "n_serial s' = n_serial s"
    by (subst a, simp)+
  have b: "(o_FT s' i)\<lparr>f_refcount := f_refcount (o_FT s i)\<rparr> = o_FT s i" "(o_PT s' p)\<lparr>q_FIDT := q_FIDT (o_PT s p)\<rparr> = o_PT s p"
    using assms by (simp_all add: ft_only_def)
  show "f_streamobj (o_FT s' i) = f_streamobj (o_FT s i)" "f_streamfunc (o_FT s' i) = f_streamfunc (o_FT s i)"
    by (subst b(1) [symmetric], simp)+
  show "q_pstate (o_PT s' p) = q_pstate (o_PT s p)" "q_parent (o_PT s' p) = q_parent (o_PT s p)"
    "q_children_list (o_PT s' p) = q_children_list (o_PT s p)" "q_exited_list (o_PT s' p) = q_exited_list (o_PT s p)"
    by (subst b(2) [symmetric], simp)+
qed

lemma ft_only_steps:
  "ft_only s (set_oFIDT p f v s)" "ft_only s (old_FCB_incref i s)" "ft_only s (old_release_FCB i s)"
  "ft_only s (fst (old_acquire_FCB s))"
  by (simp_all add: ft_only_def set_oFIDT_def upd_opcb_def old_FCB_incref_def upd_ofcb_def old_release_FCB_def old_acquire_FCB_def
      split: list.splits)

definition ofree_fids :: "okernel \<Rightarrow> nat list" where
  "ofree_fids s = filter (\<lambda>f. q_FIDT (o_PT s (curproc s)) f = None) [0..<n_fileid s]"

lemma old_find_fids_eq:
  "old_find_fids n fidt f num =
     (let fs = filter (\<lambda>f. fidt f = None) [f..<n] in if num \<le> length fs then Some (take num fs) else None)"
proof (induction num arbitrary: f)
  case (Suc num)
  show ?case
  proof (cases "first_from (\<lambda>f. fidt f = None) f n")
    case None
    then show ?thesis using filter_upt_first_from [of "\<lambda>f. fidt f = None" f n] by simp
  next
    case (Some g)
    then show ?thesis using filter_upt_first_from [of "\<lambda>f. fidt f = None" f n] Suc.IH [of "g + 1"] by (simp add: Let_def)
  qed
qed simp

lemma old_acquire_FCBs_eq:
  assumes "ofiles_inv s xs R held"
  shows "\<exists>s'. old_acquire_FCBs num s = (s', take num xs, num \<le> length xs)
    \<and> ofiles_inv s' (drop num xs) (R \<union> set (take num xs)) held \<and> ft_only s s' \<and> o_PT s' = o_PT s"
  using assms
proof (induction num arbitrary: s xs R)
  case (Suc num)
  show ?case
  proof (cases xs)
    case Nil
    then have "old_acquire_FCB s = (s, None)" using ofiles_invD(1) [OF Suc.prems] by (simp add: old_acquire_FCB_def)
    then show ?thesis using Nil Suc.prems by simp
  next
    case (Cons x ys)
    let ?t = "upd_ofcb x (\<lambda>f. f\<lparr>f_refcount := 0\<rparr>) (s\<lparr>o_FCB_freelist := ys\<rparr>)"
    note A = acquire_inv [OF Suc.prems [unfolded Cons]]
    have ft: "ft_only s ?t" "o_PT ?t = o_PT s" using ft_only_steps(4) [of s] A(1) by (simp, simp add: upd_ofcb_def)
    from Suc.IH [OF A(2)] obtain s' where s': "old_acquire_FCBs num ?t = (s', take num ys, num \<le> length ys)"
      "ofiles_inv s' (drop num ys) (insert x R \<union> set (take num ys)) held" "ft_only ?t s'" "o_PT s' = o_PT ?t" by blast
    have "R \<union> set (take (Suc num) xs) = insert x R \<union> set (take num ys)" by (auto simp: Cons)
    then show ?thesis using A(1) s' ft_only_trans [OF ft(1) s'(3)] ft(2) by (auto simp: Cons)
  qed
qed simp

text \<open>A file id that was free and now leads to FCB \<open>i\<close>.\<close>

lemma share_inv:
  assumes inv: "ofiles_inv s xs R held" and p: "p < n_proc s" and f: "f < n_fileid s" "q_FIDT (o_PT s p) f = None"
    and i: "i < n_proc s" "i \<notin> set xs" "ocount s held i + 1 < 2 ^ 32"
  shows "ofiles_inv (old_FCB_incref i (set_oFIDT p f (Some i) s)) xs (R - {i}) held"
proof -
  have inv1: "ofiles_inv (set_oFIDT p f (Some i) s) xs R (moved s p f (Some i) held)"
    by (rule set_oFIDT_inv [OF inv p f(1)]) (use i in simp)
  have c: "ocount (set_oFIDT p f (Some i) s) (moved s p f (Some i) held) i + 1 < 2 ^ 32"
    using ocount_set_oFIDT [OF p f(1), of "Some i" held i] i(3) by simp
  have h: "(moved s p f (Some i) held)(i := moved s p f (Some i) held i + 1) = held" using f(2) by (auto simp: moved_def fun_eq_iff)
  show ?thesis using incref_inv [OF inv1, of i] i c unfolding h by simp
qed

lemma old_enter_inv:
  assumes inv: "ofiles_inv s xs R held" and p: "p < n_proc s" and f: "f < n_fileid s" "q_FIDT (o_PT s p) f = None" and i: "i \<in> R"
  shows "ofiles_inv (old_FCB_incref i (set_oFIDT p f (Some i) s)) xs (R - {i}) held"
proof -
  note I = ofiles_invD [OF inv]
  have "i < n_proc s" "i \<notin> set xs" "ocount s held i = 0" using I(3) I(4,5) [of i] i by auto
  then show ?thesis by (intro share_inv [OF inv p f]) simp_all
qed

text \<open>The last loop of \<open>FCB_reserve\<close>.\<close>

abbreviation enter_files :: "nat \<Rightarrow> nat list \<Rightarrow> nat list \<Rightarrow> okernel \<Rightarrow> okernel" where
  "enter_files p fs is \<equiv> fold (\<lambda>(f, i) s. old_FCB_incref i (set_oFIDT p f (Some i) s)) (zip fs is)"

lemma enter_files_inv:
  "ofiles_inv s xs (set is) held \<Longrightarrow> p < n_proc s \<Longrightarrow> distinct fs \<Longrightarrow> distinct is \<Longrightarrow> length fs = length is \<Longrightarrow>
   (\<forall>f\<in>set fs. f < n_fileid s \<and> q_FIDT (o_PT s p) f = None) \<Longrightarrow>
   ofiles_inv (enter_files p fs is s) xs {} held \<and> ft_only s (enter_files p fs is s)
     \<and> (\<forall>q. q_FIDT (o_PT (enter_files p fs is s) q) = (if q = p then (q_FIDT (o_PT s p))(fs [\<mapsto>] is) else q_FIDT (o_PT s q)))"
proof (induction "is" arbitrary: fs s)
  case (Cons i "is")
  from Cons.prems(5) obtain g gs where fs: "fs = g # gs" by (cases fs) auto
  let ?t = "old_FCB_incref i (set_oFIDT p g (Some i) s)"
  have "ofiles_inv ?t xs (set (i # is) - {i}) held"
    using Cons.prems fs by (intro old_enter_inv) auto
  then have inv: "ofiles_inv ?t xs (set is) held" using Cons.prems(4) by simp
  have ft: "ft_only s ?t" using ft_only_trans [OF ft_only_steps(1) ft_only_steps(2)] .
  have "ofiles_inv (enter_files p gs is ?t) xs {} held \<and> ft_only ?t (enter_files p gs is ?t)
     \<and> (\<forall>q. q_FIDT (o_PT (enter_files p gs is ?t) q) = (if q = p then (q_FIDT (o_PT ?t p))(gs [\<mapsto>] is) else q_FIDT (o_PT ?t q)))"
    using Cons.prems(2-6) fs inv by (intro Cons.IH) auto
  then show ?case using ft_only_trans [OF ft] fs by (auto simp: fun_upd_def [symmetric])
qed simp

lemma reserve_enough:
  assumes inv: "ofiles_inv s xs {} held" and cur: "curproc s < n_proc s" and n: "num \<le> length (ofree_fids s)" "num \<le> length xs"
  shows "\<exists>s'. old_FCB_reserve num s = (s', Some (take num (ofree_fids s), take num xs)) \<and> ofiles_inv s' (drop num xs) {} held
    \<and> ft_only s s' \<and> (\<forall>q. q_FIDT (o_PT s' q) = (if q = curproc s then (q_FIDT (o_PT s q))(take num (ofree_fids s) [\<mapsto>] take num xs)
        else q_FIDT (o_PT s q)))"
proof -
  let ?fs = "take num (ofree_fids s)" and ?is = "take num xs" and ?p = "curproc s"
  obtain t where t: "old_acquire_FCBs num s = (t, ?is, True)" "ofiles_inv t (drop num xs) (set ?is) held" "ft_only s t" "o_PT t = o_PT s"
    using old_acquire_FCBs_eq [OF inv, of num] n(2) by auto
  note F = ft_only_fields [OF t(3)]
  have fs: "distinct ?fs" "length ?fs = length ?is" "\<forall>f\<in>set ?fs. f < n_fileid t \<and> q_FIDT (o_PT t ?p) f = None"
    using n F t(4) by (auto simp: ofree_fids_def distinct_take dest: in_set_takeD)
  have d: "distinct ?is" using ofiles_invD(2) [OF inv] by simp
  note E = enter_files_inv [OF t(2) _ fs(1) d fs(2,3)]
  have "old_FCB_reserve num s = (enter_files ?p ?fs ?is t, Some (?fs, ?is))"
    using n(1) t(1) by (simp add: old_FCB_reserve_def old_find_fids_eq ofree_fids_def Let_def)
  then show ?thesis using E cur F(1) t(4) ft_only_trans [OF t(3)] by auto
qed

lemma reserve_not_enough:
  assumes inv: "ofiles_inv s xs {} held" and n: "\<not> (num \<le> length (ofree_fids s) \<and> num \<le> length xs)"
  shows "\<exists>s'. old_FCB_reserve num s = (s', None) \<and> ofiles_inv s' (if num \<le> length (ofree_fids s) then rev xs else xs) {} held
    \<and> ft_only s s' \<and> o_PT s' = o_PT s"
proof (cases "num \<le> length (ofree_fids s)")
  case False
  then show ?thesis using inv by (simp add: old_FCB_reserve_def old_find_fids_eq ofree_fids_def Let_def)
next
  case True
  then have l: "length xs < num" using n by simp
  obtain t where t: "old_acquire_FCBs num s = (t, xs, False)" "ofiles_inv t [] (set xs) held" "ft_only s t" "o_PT t = o_PT s"
    using old_acquire_FCBs_eq [OF inv, of num] l by auto
  let ?u = "fold old_release_FCB (rev xs) t"
  have "ofiles_inv ?u ([] @ rev xs) (set xs - set (rev xs)) held"
    using ofiles_invD(2) [OF inv] by (intro ofiles.release_all t(2)) auto
  then have inv': "ofiles_inv ?u (rev xs) {} held" by simp
  have rel: "ft_only t (fold old_release_FCB ys t) \<and> o_PT (fold old_release_FCB ys t) = o_PT t" for ys t
  proof (induction ys arbitrary: t)
    case (Cons y ys)
    then show ?case using ft_only_trans [OF ft_only_steps(3) [of t y]] by (simp add: old_release_FCB_def)
  qed simp
  have "old_FCB_reserve num s = (?u, None)"
    using True t(1) by (simp add: old_FCB_reserve_def old_find_fids_eq ofree_fids_def Let_def)
  then show ?thesis using inv' rel [of t "rev xs"] ft_only_trans [OF t(3)] t(4) True by auto
qed

section \<open>Closing and duplicating\<close>

text \<open>An FCB a file id leads to is in use.\<close>

lemma used_fcb:
  assumes inv: "ofiles_inv s xs {} H" and p: "p < n_proc s" and f: "f < n_fileid s" "q_FIDT (o_PT s p) f = Some i" and rm: "room (n_proc s * n_fileid s) H"
  shows "i < n_proc s" "i \<notin> set xs" "1 \<le> ocount s H i"
proof -
  note I = ofiles_invD [OF inv]
  show i: "i < n_proc s" by (rule I(8) [OF p f])
  have "(p, f) \<in> orefs s i" using p f by (simp add: orefs_def)
  then have "0 < card (orefs s i)" using orefs_bounded(1) [of s i] card_gt_0_iff by blast
  moreover have "0 \<le> H i" using rm by (rule roomD)
  ultimately show "1 \<le> ocount s H i" by (simp add: ocount_def)
  then show "i \<notin> set xs" using I(5) [OF i] by auto
qed

text \<open>There is room for one more reference to any FCB as long as some file id does not lead to it.\<close>

lemma room_for_reference:
  assumes "room (n_proc s * n_fileid s) H" and "p < n_proc s" and "f < n_fileid s" and "q_FIDT (o_PT s p) f \<noteq> Some i"
  shows "ocount s H i + 1 < 2 ^ 32"
proof -
  have "insert (p, f) (orefs s i) \<subseteq> {..<n_proc s} \<times> {..<n_fileid s}" using assms by (auto simp: orefs_def)
  then have "card (insert (p, f) (orefs s i)) \<le> card ({..<n_proc s} \<times> {..<n_fileid s})" by (intro card_mono) auto
  moreover have "(p, f) \<notin> orefs s i" using assms by (simp add: orefs_def)
  ultimately have "card (orefs s i) + 1 \<le> n_proc s * n_fileid s"
    using orefs_bounded(1) [of s i] by (simp add: card_cartesian_product)
  then have "int (card (orefs s i)) + 1 \<le> int (n_proc s * n_fileid s)" by linarith
  moreover have "int (n_proc s * n_fileid s) + H i < 2 ^ 32" using assms(1) by (rule roomD)
  ultimately show ?thesis unfolding ocount_def by linarith
qed

text \<open>The reference of a file id is given back and the file id then redirected, to nothing or to an FCB that has gained a
  reference.\<close>

lemma decref_entry_inv:
  assumes inv: "ofiles_inv s xs {} H" and p: "p < n_proc s" and f: "f < n_fileid s" "q_FIDT (o_PT s p) f = Some j"
    and rm: "room (n_proc s * n_fileid s) H" and run: "old_FCB_decref j s = Some (t, r)"
  shows "\<exists>ys. ofiles_inv t ys {} (H(j := H j - 1)) \<and> (set ys = set xs \<or> set ys = insert j (set xs))
     \<and> ofiles_inv (set_oFIDT p f None t) ys {} H"
    and "n_proc t = n_proc s" "n_fileid t = n_fileid s" "curproc t = curproc s" "o_PT t = o_PT s" "pcb_freelist t = pcb_freelist s"
proof -
  note U = used_fcb [OF inv p f rm]
  note D = decref_inv [OF inv U(1,2) _ run]
  show fr: "n_proc t = n_proc s" "n_fileid t = n_fileid s" "curproc t = curproc s" "o_PT t = o_PT s" "pcb_freelist t = pcb_freelist s"
    using D(2-6) by simp_all
  let ?ys = "if ocount s H j = 1 then xs @ [j] else xs"
  have "ofiles_inv t ?ys {} (H(j := H j - 1))" by (rule D(1)) simp
  then have t: "ofiles_inv t ?ys {} (H(j := H j - 1))" by simp
  have h: "moved t p f None (H(j := H j - 1)) = H" using f(2) fr(4) by (auto simp: moved_def fun_eq_iff)
  have "ofiles_inv (set_oFIDT p f None t) ?ys {} H"
    using set_oFIDT_inv [OF t, of p f None] p f(1) fr unfolding h by simp
  then show "\<exists>ys. ofiles_inv t ys {} (H(j := H j - 1)) \<and> (set ys = set xs \<or> set ys = insert j (set xs))
     \<and> ofiles_inv (set_oFIDT p f None t) ys {} H" using t by (intro exI [of _ ?ys]) auto
qed

lemma get_fcb_SomeD:
  assumes "get_fcb fd s = Some i"
  shows "0 \<le> fd" "nat fd < n_fileid s" "q_FIDT (o_PT s (curproc s)) (nat fd) = Some i"
  using assms by (auto simp: get_fcb_def split: if_splits)

lemma ofiles_okD:
  assumes "ofiles_with H s"
  obtains xs where "ofiles_inv s xs {} H" "o_FCB_freelist s = xs" "curproc s < n_proc s" "room (n_proc s * n_fileid s) H"
  using assms by (auto simp: ofiles_with_def)

lemma ofiles_okI:
  "ofiles_inv s xs {} H \<Longrightarrow> curproc s < n_proc s \<Longrightarrow> room (n_proc s * n_fileid s) H \<Longrightarrow> ofiles_with H s"
  using ofiles_invD(1) by (auto simp: ofiles_with_def)

lemma old_sys_Close_ok:
  assumes "ofiles_with H s" and "old_sys_Close fd s = Some (s', r)"
  shows "ofiles_with H s'"
proof (cases "get_fcb fd s")
  case None
  then show ?thesis using assms by (simp add: old_sys_Close_def)
next
  case (Some i)
  note G = get_fcb_SomeD [OF Some]
  obtain xs where s: "ofiles_inv s xs {} H" "curproc s < n_proc s" "room (n_proc s * n_fileid s) H" using assms(1) by (rule ofiles_okD)
  note U = used_fcb [OF s(1,2) G(2,3) s(3)]
  let ?t = "set_oFIDT (curproc s) (nat fd) None s" and ?h = "H(i := H i + 1)"
  have run: "old_FCB_decref i ?t = Some (s', r)" using assms(2) Some by (simp add: old_sys_Close_def)
  have h: "moved s (curproc s) (nat fd) None H = ?h" using G(3) by (auto simp: moved_def fun_eq_iff)
  have t: "ofiles_inv ?t xs {} ?h" using set_oFIDT_inv [OF s(1,2) G(2), of None] unfolding h by simp
  note D = decref_inv [OF t _ U(2) _ run]
  have "?h(i := ?h i - 1) = H" by auto
  then obtain ys where "ofiles_inv s' ys {} H" using D(1) U(1) by auto
  then show ?thesis using s(2,3) D(2-4) U(1) by (intro ofiles_okI) simp_all
qed

lemma sys_Dup2_ok:
  assumes "ofiles_with H s" and "sys_Dup2 oldfd newfd s = Some (s', r)"
  shows "ofiles_with H s'"
proof (cases "oldfd < 0 \<or> newfd < 0 \<or> oldfd \<ge> int (n_fileid s) \<or> newfd \<ge> int (n_fileid s) \<or> get_fcb oldfd s = None
    \<or> get_fcb oldfd s = get_fcb newfd s")
  case True
  then show ?thesis using assms by (auto simp: sys_Dup2_def Let_def split: if_splits option.splits)
next
  case False
  then obtain i where i: "get_fcb oldfd s = Some i" "get_fcb newfd s \<noteq> Some i" and b: "0 \<le> newfd" "nat newfd < n_fileid s" by auto
  note G = get_fcb_SomeD [OF i(1)]
  let ?p = "curproc s" and ?f = "nat newfd"
  have nf: "get_fcb newfd s = q_FIDT (o_PT s ?p) ?f" using b by (simp add: get_fcb_def nat_less_iff)
  obtain xs where s: "ofiles_inv s xs {} H" "?p < n_proc s" "room (n_proc s * n_fileid s) H" using assms(1) by (rule ofiles_okD)
  note U = used_fcb [OF s(1,2) G(2,3) s(3)]
  have room: "ocount s H i + 1 < 2 ^ 32" by (rule room_for_reference [OF s(3,2) b(2)]) (use i(2) nf in simp)
  show ?thesis
  proof (cases "get_fcb newfd s")
    case None
    then have "s' = set_oFIDT ?p ?f (Some i) (old_FCB_incref i s)"
      using assms(2) False i by (simp add: sys_Dup2_def)
    also have "\<dots> = old_FCB_incref i (set_oFIDT ?p ?f (Some i) s)"
      by (simp add: old_FCB_incref_def upd_ofcb_def set_oFIDT_def upd_opcb_def)
    finally have eq: "s' = old_FCB_incref i (set_oFIDT ?p ?f (Some i) s)" .
    have "ofiles_inv s' xs ({} - {i}) H" unfolding eq using U room None nf by (intro share_inv s(1,2) b(2)) simp_all
    then show ?thesis using s(2,3) by (intro ofiles_okI) (simp_all add: eq)
  next
    case (Some j)
    with assms(2) False i obtain t r' where run: "old_FCB_decref j s = Some (t, r')"
      and s': "s' = set_oFIDT (curproc t) ?f (Some i) (old_FCB_incref i t)"
      by (auto simp: sys_Dup2_def Let_def split: Option.bind_splits)
    have nj: "q_FIDT (o_PT s ?p) ?f = Some j" "i \<noteq> j" using Some nf i(2) by auto
    note E = decref_entry_inv [OF s(1,2) b(2) nj(1) s(3) run]
    obtain ys where ys: "ofiles_inv (set_oFIDT ?p ?f None t) ys {} H" "set ys = set xs \<or> set ys = insert j (set xs)"
      using E(1) by blast
    let ?t = "set_oFIDT ?p ?f None t"
    have eq: "s' = old_FCB_incref i (set_oFIDT ?p ?f (Some i) ?t)"
      unfolding s' E(4) by (simp add: old_FCB_incref_def upd_ofcb_def set_oFIDT_def upd_opcb_def)
    have "orefs ?t i = orefs s i" using E(2,3,5) nj by (auto simp: orefs_def split: if_splits)
    then have "ocount ?t H i + 1 < 2 ^ 32" using room by (simp add: ocount_def)
    then have "ofiles_inv s' ys ({} - {i}) H"
      unfolding eq using U ys nj(2) E(2,3) b(2) s(2) by (intro share_inv) auto
    then show ?thesis using s(2,3) E(2-4) by (intro ofiles_okI) (simp_all add: eq)
  qed
qed

end
