(* ===== verification/Old_Files_Ops.thy ===== *)
theory Old_Files_Ops
  imports Old_Files
begin

text \<open>
  Every system call of the earlier kernel that works on files keeps the file table consistent and leaves
  everything about processes alone but the file ids of the caller.
\<close>

section \<open>Operations that open files\<close>

lemma upd_ofcb_simps [simp]:
  "n_proc (upd_ofcb i g s) = n_proc s" "n_fileid (upd_ofcb i g s) = n_fileid s" "curproc (upd_ofcb i g s) = curproc s"
  "o_PT (upd_ofcb i g s) = o_PT s" "sockets (upd_ofcb i g s) = sockets s" "pipes (upd_ofcb i g s) = pipes s"
  "requests (upd_ofcb i g s) = requests s" "PORT_MAP (upd_ofcb i g s) = PORT_MAP s" "fresh (upd_ofcb i g s) = fresh s"
  "o_FT (upd_ofcb i g s) = (o_FT s)(i := g (o_FT s i))" "o_FCB_freelist (upd_ofcb i g s) = o_FCB_freelist s"
  "pcb_freelist (upd_ofcb i g s) = pcb_freelist s"
  by (simp_all add: upd_ofcb_def)

lemma upd_socket_simps [simp]:
  "n_proc (upd_socket k g s) = n_proc s" "n_fileid (upd_socket k g s) = n_fileid s" "curproc (upd_socket k g s) = curproc s"
  "o_PT (upd_socket k g s) = o_PT s" "o_FT (upd_socket k g s) = o_FT s" "pipes (upd_socket k g s) = pipes s"
  "requests (upd_socket k g s) = requests s" "PORT_MAP (upd_socket k g s) = PORT_MAP s" "fresh (upd_socket k g s) = fresh s"
  "sockets (upd_socket k g s) = (sockets s)(k := map_option g (sockets s k))" "o_FCB_freelist (upd_socket k g s) = o_FCB_freelist s"
  "pcb_freelist (upd_socket k g s) = pcb_freelist s"
  by (simp_all add: upd_socket_def)

lemma map_upds_nth:
  "distinct fs \<Longrightarrow> length fs = length is \<Longrightarrow> j < length fs \<Longrightarrow> (m(fs [\<mapsto>] is)) (fs ! j) = Some (is ! j)"
proof (induction fs arbitrary: "is" m j)
  case (Cons f fs)
  from Cons.prems(2) obtain i is' where i: "is = i # is'" by (cases "is") auto
  show ?case
  proof (cases j)
    case 0
    then show ?thesis using Cons.prems by (simp add: i map_upds_apply_nontin)
  next
    case (Suc n)
    then have "((m(f \<mapsto> i))(fs [\<mapsto>] is')) (fs ! n) = Some (is' ! n)" using Cons.prems by (intro Cons.IH) (simp_all add: i)
    then show ?thesis unfolding i Suc map_upds_Cons nth_Cons_Suc .
  qed
qed simp

text \<open>What every operation on files leaves alone: everything about processes but the file ids of the caller.\<close>

definition procs_same :: "okernel \<Rightarrow> okernel \<Rightarrow> bool" where
  "procs_same s s' \<longleftrightarrow> n_proc s' = n_proc s \<and> n_fileid s' = n_fileid s \<and> curproc s' = curproc s \<and> pcb_freelist s' = pcb_freelist s
     \<and> (\<forall>p. (o_PT s' p)\<lparr>q_FIDT := q_FIDT (o_PT s p)\<rparr> = o_PT s p)
     \<and> (\<forall>p. p \<noteq> curproc s \<longrightarrow> q_FIDT (o_PT s' p) = q_FIDT (o_PT s p))"

lemma procs_same_refl [simp]: "procs_same s s"
  by (simp add: procs_same_def)

lemma procs_same_files: "ofiles_same s t \<Longrightarrow> procs_same r t = procs_same r s"
  by (simp add: procs_same_def ofiles_same_def)

lemma procs_same_fields:
  assumes "procs_same s s'"
  shows "q_pstate (o_PT s' p) = q_pstate (o_PT s p)" "q_parent (o_PT s' p) = q_parent (o_PT s p)"
proof -
  have b: "(o_PT s' p)\<lparr>q_FIDT := q_FIDT (o_PT s p)\<rparr> = o_PT s p" using assms by (simp add: procs_same_def)
  show "q_pstate (o_PT s' p) = q_pstate (o_PT s p)" "q_parent (o_PT s' p) = q_parent (o_PT s p)"
    by (subst b [symmetric], simp)+
qed

lemma procs_same_set_oFIDT: "procs_same s t \<Longrightarrow> procs_same s (set_oFIDT (curproc s) f v t)"
  by (simp add: procs_same_def set_oFIDT_def upd_opcb_def)

lemma procs_same_ft_only:
  "ft_only s s' \<Longrightarrow> (\<And>p. p \<noteq> curproc s \<Longrightarrow> q_FIDT (o_PT s' p) = q_FIDT (o_PT s p)) \<Longrightarrow> procs_same s s'"
  unfolding procs_same_def using ft_only_fields(1-3,12) [of s s'] by (auto simp only: ft_only_def)

lemma reserve_ok:
  assumes ok: "ofiles_with H s" and run: "old_FCB_reserve num s = (s', r)"
  shows "ofiles_with H s' \<and> procs_same s s'
    \<and> (\<forall>fid fcb. r = Some (fid, fcb) \<longrightarrow> length fid = num \<and> length fcb = num \<and> distinct fid \<and> distinct fcb
        \<and> (\<forall>j<num. fid ! j < n_fileid s \<and> q_FIDT (o_PT s' (curproc s)) (fid ! j) = Some (fcb ! j)))"
proof -
  obtain xs where s: "ofiles_inv s xs {} H" "curproc s < n_proc s" "room (n_proc s * n_fileid s) H" using ok by (rule ofiles_okD)
  show ?thesis
  proof (cases "num \<le> length (ofree_fids s) \<and> num \<le> length xs")
    case True
    let ?fs = "take num (ofree_fids s)" and ?is = "take num xs"
    obtain t where t: "old_FCB_reserve num s = (t, Some (?fs, ?is))" "ofiles_inv t (drop num xs) {} H" "ft_only s t"
      "\<forall>q. q_FIDT (o_PT t q) = (if q = curproc s then (q_FIDT (o_PT s q))(?fs [\<mapsto>] ?is) else q_FIDT (o_PT s q))"
      using reserve_enough [OF s(1,2)] True by blast
    note F = ft_only_fields [OF t(3)]
    have "ofiles_with H t" using t(2) s(2,3) F by (intro ofiles_okI) simp_all
    moreover have "procs_same s t" using t(3,4) by (intro procs_same_ft_only) simp_all
    moreover have d: "distinct ?fs" "distinct ?is" "length ?fs = num" "length ?is = num"
      using True ofiles_invD(2) [OF s(1)] by (simp_all add: ofree_fids_def distinct_take)
    have "?fs ! j < n_fileid s \<and> q_FIDT (o_PT t (curproc s)) (?fs ! j) = Some (?is ! j)" if j: "j < num" for j
    proof -
      have "?fs ! j \<in> set ?fs" using j d(3) nth_mem by metis
      then have "?fs ! j < n_fileid s" by (auto simp: ofree_fids_def dest: in_set_takeD)
      moreover have "((q_FIDT (o_PT s (curproc s)))(?fs [\<mapsto>] ?is)) (?fs ! j) = Some (?is ! j)"
        by (rule map_upds_nth) (use d j in simp_all)
      ultimately show ?thesis using t(4) by simp
    qed
    ultimately show ?thesis using run t(1) d by auto
  next
    case False
    then obtain t where t: "old_FCB_reserve num s = (t, None)" "ofiles_inv t (if num \<le> length (ofree_fids s) then rev xs else xs) {} H"
      "ft_only s t" "o_PT t = o_PT s" using reserve_not_enough [OF s(1)] by blast
    note F = ft_only_fields [OF t(3)]
    have "ofiles_with H t" using t(2) s(2,3) F by (intro ofiles_okI) simp_all
    moreover have "procs_same s t" using t(3,4) by (intro procs_same_ft_only) simp_all
    ultimately show ?thesis using run t(1) by simp
  qed
qed

lemma decref_frame:
  assumes "old_FCB_decref i s = Some (s', r)"
  shows "n_proc s' = n_proc s" "n_fileid s' = n_fileid s" "curproc s' = curproc s" "o_PT s' = o_PT s" "pcb_freelist s' = pcb_freelist s"
proof -
  let ?t = "upd_ofcb i (\<lambda>f. f\<lparr>f_refcount := f_refcount f - 1\<rparr>) s"
  have "ofiles_same ?t s' \<or> (\<exists>u. ofiles_same ?t u \<and> s' = old_release_FCB i u)"
  proof (cases "f_refcount (o_FT ?t i) = 0")
    case True
    with assms obtain u where "old_call_Close (f_streamfunc (o_FT ?t i)) (f_streamobj (o_FT ?t i)) ?t = Some (u, r)" "s' = old_release_FCB i u"
      by (auto simp: old_FCB_decref_def Let_def split: Option.bind_splits)
    then show ?thesis using old_call_Close_same by blast
  next
    case False
    then show ?thesis using assms by (simp add: old_FCB_decref_def Let_def)
  qed
  then show "n_proc s' = n_proc s" "n_fileid s' = n_fileid s" "curproc s' = curproc s" "o_PT s' = o_PT s" "pcb_freelist s' = pcb_freelist s"
    by (auto simp: ofiles_same_def old_release_FCB_def)
qed

lemma old_sys_Close_procs:
  assumes "old_sys_Close fd s = Some (s', r)"
  shows "procs_same s s'"
proof (cases "get_fcb fd s")
  case (Some i)
  with assms have run: "old_FCB_decref i (set_oFIDT (curproc s) (nat fd) None s) = Some (s', r)" by (simp add: old_sys_Close_def)
  show ?thesis using procs_same_set_oFIDT [of s s "nat fd" None] decref_frame [OF run] by (simp add: procs_same_def)
qed (use assms in \<open>simp add: old_sys_Close_def\<close>)

lemma sys_Dup2_procs:
  assumes "sys_Dup2 oldfd newfd s = Some (s', r)"
  shows "procs_same s s'"
proof -
  have "s' = s \<or> (\<exists>i t. s' = set_oFIDT (curproc t) (nat newfd) (Some i) (old_FCB_incref i t)
      \<and> (t = s \<or> (\<exists>j r'. old_FCB_decref j s = Some (t, r'))))"
    using assms by (fastforce simp: sys_Dup2_def Let_def split: if_splits option.splits Option.bind_splits)
  then show ?thesis
  proof
    assume "\<exists>i t. s' = set_oFIDT (curproc t) (nat newfd) (Some i) (old_FCB_incref i t)
      \<and> (t = s \<or> (\<exists>j r'. old_FCB_decref j s = Some (t, r')))"
    then obtain i t where t: "s' = set_oFIDT (curproc t) (nat newfd) (Some i) (old_FCB_incref i t)"
      "t = s \<or> (\<exists>j r'. old_FCB_decref j s = Some (t, r'))" by blast
    have fr: "n_proc t = n_proc s" "n_fileid t = n_fileid s" "curproc t = curproc s" "o_PT t = o_PT s" "pcb_freelist t = pcb_freelist s"
      using t(2) decref_frame by blast+
    have "procs_same s (old_FCB_incref i t)" using fr by (simp add: procs_same_def old_FCB_incref_def)
    from procs_same_set_oFIDT [OF this] show ?thesis by (simp add: t(1) fr)
  qed simp
qed

text \<open>The calls that make a stream on reserved FCBs.\<close>

lemma ofiles_ok_upd_streams [simp]:
  assumes "\<And>f. f_refcount (g f) = f_refcount f"
  shows "ofiles_same s (upd_ofcb i g t) = ofiles_same s t"
  using assms by (auto simp: ofiles_same_def)

lemma keeps_files: "ofiles_with H s' \<and> procs_same s s' \<Longrightarrow> ofiles_same s' t \<Longrightarrow> ofiles_with H t \<and> procs_same s t"
  using ofiles_ok_same procs_same_files by blast

lemma new_pipe_same: "new_pipe m h s = (t, r) \<Longrightarrow> ofiles_same s t"
  by (auto simp: new_pipe_def split: option.splits)

lemma sys_Pipe_ok:
  assumes "ofiles_with H s" and "sys_Pipe m h s = Some (s', r, v)"
  shows "ofiles_with H s' \<and> procs_same s s'"
proof -
  obtain t res where t: "old_FCB_reserve 2 s = (t, res)" by (cases "old_FCB_reserve 2 s")
  have "ofiles_same t s'"
  proof (cases res)
    case (Some x)
    obtain u k where u: "new_pipe m h t = (u, k)" by (cases "new_pipe m h t")
    have "ofiles_same t u" by (rule new_pipe_same [OF u])
    then show ?thesis using assms(2) t u Some
      by (cases x) (auto simp: sys_Pipe_def split: Option.bind_splits)
  qed (use assms(2) t in \<open>simp add: sys_Pipe_def\<close>)
  then show ?thesis using reserve_ok [OF assms(1) t] keeps_files by blast
qed

lemma sys_Socket_ok:
  assumes "ofiles_with H s" and "sys_Socket port s = (s', r)"
  shows "ofiles_with H s' \<and> procs_same s s'"
proof (cases "port < 0 \<or> port > MAX_PORT")
  case True
  then show ?thesis using assms by (simp add: sys_Socket_def)
next
  case False
  obtain t res where t: "old_FCB_reserve 1 s = (t, res)" by (cases "old_FCB_reserve 1 s")
  have "ofiles_same t s'"
    using assms(2) t False by (auto simp: sys_Socket_def socket_cb_init_def Let_def split: option.splits)
  then show ?thesis using reserve_ok [OF assms(1) t] keeps_files by blast
qed

lemma sys_OpenInfo_ok:
  assumes "ofiles_with H s" and "sys_OpenInfo junk s = (s', r)"
  shows "ofiles_with H s' \<and> procs_same s s'"
proof -
  obtain t res where t: "old_FCB_reserve 1 s = (t, res)" by (cases "old_FCB_reserve 1 s")
  have "ofiles_same t s'" using assms(2) t by (auto simp: sys_OpenInfo_def Let_def split: option.splits)
  then show ?thesis using reserve_ok [OF assms(1) t] keeps_files by blast
qed

text \<open>\<open>FCB_unreserve\<close> takes one entry out of the tables; its count is not looked at any more.\<close>

lemma unreserve_ok:
  assumes ok: "ofiles_with H s" and f: "f < n_fileid s" "q_FIDT (o_PT s (curproc s)) f = Some i" and one: "ocount s H i = 1"
  shows "\<exists>t. old_FCB_unreserve [f] [i] s = Some t \<and> ofiles_with H t \<and> procs_same s t"
proof -
  obtain xs where s: "ofiles_inv s xs {} H" "curproc s < n_proc s" "room (n_proc s * n_fileid s) H" using ok by (rule ofiles_okD)
  note U = used_fcb [OF s(1,2) f s(3)]
  let ?t = "set_oFIDT (curproc s) f None s"
  have h: "moved s (curproc s) f None H = H(i := H i + 1)" using f(2) by (auto simp: moved_def fun_eq_iff)
  have t: "ofiles_inv ?t xs {} (H(i := H i + 1))" using set_oFIDT_inv [OF s(1,2) f(1), of None] unfolding h by simp
  note I = ofiles_invD [OF t]
  have c: "ocount ?t (H(i := H i + 1)) i = 1" using ocount_set_oFIDT [OF s(2) f(1), of None H i] one unfolding h by simp
  have cz: "ocount ?t H j = (if j = i then 0 else ocount ?t (H(i := H i + 1)) j)" for j using c by (simp add: ocount_def)
  let ?u = "old_release_FCB i ?t"
  have cu: "ocount ?u H j = ocount ?t H j" for j by (simp add: ocount_def orefs_def old_release_FCB_def)
  have fr: "n_proc ?u = n_proc s" "n_fileid ?u = n_fileid s" "o_FCB_freelist ?u = xs @ [i]" "o_FT ?u = o_FT ?t" "o_PT ?u = o_PT ?t" "curproc ?u = curproc s"
    using I(1) by (simp_all add: old_release_FCB_def)
  have "ofiles_inv ?u (xs @ [i]) {} H"
  proof (rule ofiles_invI)
    show "distinct (xs @ [i])" "set (xs @ [i]) \<inter> {} = {}" using I(2) U(2) by auto
    show "j < n_proc ?u" if "j \<in> set (xs @ [i]) \<union> {}" for j using that U(1) I(4) [of j] by (auto simp: fr)
    show "(j \<in> set (xs @ [i]) \<union> {} \<longleftrightarrow> ocount ?u H j = 0) \<and> 0 \<le> ocount ?u H j \<and> ocount ?u H j < 2 ^ 32"
      if "j < n_proc ?u" for j
      using that I(5,6) [of j] unfolding cu cz by (cases "j = i") (simp_all add: fr)
    show "f_refcount (o_FT ?u j) = of_int (ocount ?u H j)" if "j < n_proc ?u" "j \<notin> set (xs @ [i])" for j
      using that I(7) [of j] unfolding cu cz by (simp add: fr)
    show "j < n_proc ?u" if "p < n_proc ?u" "g < n_fileid ?u" "q_FIDT (o_PT ?u p) g = Some j" for p g j
      using I(8) [of p g j] that by (simp add: fr)
  qed (simp add: fr)
  then have "ofiles_with H ?u" using s(2,3) by (intro ofiles_okI) (simp_all add: fr)
  moreover have "procs_same s ?u"
    using procs_same_set_oFIDT [of s s f None] by (simp add: procs_same_def old_release_FCB_def)
  moreover have "old_FCB_unreserve [f] [i] s = Some ?u" using f(2) by (simp add: old_FCB_unreserve_def Let_def)
  ultimately show ?thesis by blast
qed

lemma reserve_one_count:
  assumes ok: "ofiles_with H s" and run: "old_FCB_reserve 1 s = (t, Some (fid, fcb))"
  shows "ofiles_with H t" "procs_same s t" "\<exists>f i. fid = [f] \<and> fcb = [i] \<and> f < n_fileid t \<and> q_FIDT (o_PT t (curproc t)) f = Some i \<and> ocount t H i = 1"
proof -
  note R = reserve_ok [OF ok run]
  show "ofiles_with H t" "procs_same s t" using R by simp_all
  obtain xs where s: "ofiles_inv s xs {} H" "curproc s < n_proc s" and rm: "room (n_proc s * n_fileid s) H" using ok by (rule ofiles_okD)
  have "1 \<le> length (ofree_fids s) \<and> 1 \<le> length xs" using reserve_not_enough [OF s(1), of 1] run by fastforce
  then obtain f fs i ys where l: "ofree_fids s = f # fs" "xs = i # ys" by (cases "ofree_fids s"; cases xs) auto
  with reserve_enough [OF s, of 1] run have t: "fid = [f]" "fcb = [i]" "ft_only s t"
    "q_FIDT (o_PT t q) = (if q = curproc s then (q_FIDT (o_PT s q))(f \<mapsto> i) else q_FIDT (o_PT s q))" for q by auto
  note F = ft_only_fields [OF t(3)]
  have f: "f < n_fileid s" using l(1) by (auto simp: ofree_fids_def dest!: arg_cong [of _ _ set])
  have "i < n_proc s" "ocount s H i = 0" using ofiles_invD(4,5) [OF s(1), of i] l(2) by auto
  then have "card (orefs s i) = 0" and h: "H i = 0" using roomD(1) [OF rm, of i] unfolding ocount_def by linarith+
  then have e: "orefs s i = {}" using orefs_bounded(1) [of s i] by simp
  have "orefs t i = {(curproc s, f)}"
  proof (rule set_eqI)
    fix x
    show "x \<in> orefs t i \<longleftrightarrow> x \<in> {(curproc s, f)}"
      using e s(2) f F(1,2) t(4) by (cases x) (auto simp: orefs_def split: if_splits)
  qed
  then have "ocount t H i = 1" using h by (simp add: ocount_def)
  then show "\<exists>f i. fid = [f] \<and> fcb = [i] \<and> f < n_fileid t \<and> q_FIDT (o_PT t (curproc t)) f = Some i \<and> ocount t H i = 1"
    using t f F(2,3) by simp
qed

lemma procs_same_trans: "procs_same s t \<Longrightarrow> procs_same t u \<Longrightarrow> procs_same s u"
proof -
  assume a: "procs_same s t" and b: "procs_same t u"
  have "(o_PT u p)\<lparr>q_FIDT := q_FIDT (o_PT s p)\<rparr> = o_PT s p" for p
  proof -
    have t: "o_PT t p = (o_PT u p)\<lparr>q_FIDT := q_FIDT (o_PT t p)\<rparr>" using b by (simp add: procs_same_def)
    have "(o_PT t p)\<lparr>q_FIDT := q_FIDT (o_PT s p)\<rparr> = (o_PT u p)\<lparr>q_FIDT := q_FIDT (o_PT s p)\<rparr>" by (subst t) simp
    then show ?thesis using a by (simp add: procs_same_def)
  qed
  then show ?thesis using a b by (simp add: procs_same_def)
qed

lemma old_open_stream_ok:
  assumes "ofiles_with H s" and run: "old_open_stream major minor s = Some (s', r)"
  shows "ofiles_with H s' \<and> procs_same s s'"
proof -
  obtain t res where t: "old_FCB_reserve 1 s = (t, res)" by (cases "old_FCB_reserve 1 s")
  note R = reserve_ok [OF assms(1) t]
  show ?thesis
  proof (cases res)
    case None
    then show ?thesis using R run t by (simp add: old_open_stream_def)
  next
    case (Some x)
    then obtain fid fcb where x: "res = Some (fid, fcb)" by (cases x) auto
    obtain f i where o: "fid = [f]" "fcb = [i]" "f < n_fileid t" "q_FIDT (o_PT t (curproc t)) f = Some i" "ocount t H i = 1"
      using reserve_one_count(3) [OF assms(1) t [unfolded x]] by blast
    have T: "ofiles_with H t" "procs_same s t" using R by simp_all
    obtain d where d: "old_device_open major minor t = Some d" using run t x by (auto simp: old_open_stream_def split: Option.bind_splits)
    show ?thesis
    proof (cases d)
      case None
      then have "old_FCB_unreserve [f] [i] t = Some s'" using run t x d o by (auto simp: old_open_stream_def split: Option.bind_splits)
      then show ?thesis using unreserve_ok [OF T(1) o(3-5)] procs_same_trans [OF T(2)] by auto
    next
      case (Some y)
      then have "ofiles_same t s'" using run t x d by (cases y) (auto simp: old_open_stream_def)
      then show ?thesis using T keeps_files by blast
    qed
  qed
qed

section \<open>Reading and writing\<close>

text \<open>A part of a transfer: during it the rest of the system leaves the tables alone.\<close>

definition undisturbed :: "io_env \<Rightarrow> bool" where
  "undisturbed e \<longleftrightarrow> (\<forall>r. Nothing r \<in> set (io_rx e) \<longrightarrow> (\<forall>s. ofiles_same s (r s))) \<and> (\<forall>r. Busy r \<in> set (io_tx e) \<longrightarrow> (\<forall>s. ofiles_same s (r s)))"

lemma old_serial_read_loop_same:
  "old_serial_read_loop n count es s = Some (s', c, bs) \<Longrightarrow> \<forall>r. Nothing r \<in> set es \<longrightarrow> (\<forall>s. ofiles_same s (r s)) \<Longrightarrow> ofiles_same s s'"
proof (induction n count es s arbitrary: c bs rule: old_serial_read_loop.induct)
  case (2 n count b es s)
  then show ?case by (auto split: if_splits Option.bind_splits)
next
  case (3 n count r es s)
  then show ?case using ofiles_same_trans [of s "r s" s'] by (auto split: if_splits)
qed (auto split: if_splits)

lemma old_serial_write_loop_same:
  "old_serial_write_loop d bs count es s = Some (s', c) \<Longrightarrow> \<forall>r. Busy r \<in> set es \<longrightarrow> (\<forall>s. ofiles_same s (r s)) \<Longrightarrow> ofiles_same s s'"
proof (induction d bs count es s rule: old_serial_write_loop.induct)
  case (3 dcb b bs count es s)
  then show ?case using ofiles_same_trans [of s "s\<lparr>sent := (sent s)(d_devno (o_serial_dcb s dcb) := sent s (d_devno (o_serial_dcb s dcb)) @ [b])\<rparr>" s']
    by (auto simp: Let_def)
next
  case (4 dcb b bs count r es s)
  then show ?case using ofiles_same_trans [of s "r s" s'] by (auto split: if_splits)
qed auto

lemma ofiles_same_preempt [simp]: "ofiles_same (s\<lparr>preempt := b\<rparr>) t = ofiles_same s t"
  by (simp add: ofiles_same_def)

lemma pipe_calls_same:
  "read_from_pipe k n rs s = Some (s', r, bs) \<Longrightarrow> ofiles_same s s'" "write_to_pipe k buf rs s = Some (s', v) \<Longrightarrow> ofiles_same s s'"
  by (auto simp: read_from_pipe_def write_to_pipe_def split: option.splits Option.bind_splits)

lemma socket_calls_same:
  "socket_read k n rs s = Some (s', r, bs) \<Longrightarrow> ofiles_same s s'" "socket_write k buf rs s = Some (s', v) \<Longrightarrow> ofiles_same s s'"
  by (auto simp: socket_read_def socket_write_def dest: pipe_calls_same split: option.splits Option.bind_splits if_splits)

lemma procinfo_read_same: "procinfo_read k s = Some (s', r, i) \<Longrightarrow> ofiles_same s s'"
  by (auto simp: procinfo_read_def Let_def split: option.splits Option.bind_splits if_splits)

lemma old_call_Read_same: "old_call_Read fo obj n e s = Some (s', r, d) \<Longrightarrow> undisturbed e \<Longrightarrow> ofiles_same s s'"
  by (induction fo obj n e s rule: old_call_Read.induct)
     (auto simp: undisturbed_def old_nulldev_read_def old_serial_read_def dest: pipe_calls_same socket_calls_same procinfo_read_same
       dest!: old_serial_read_loop_same split: Option.bind_splits)

lemma old_call_Write_same: "old_call_Write fo obj buf e s = Some (s', r) \<Longrightarrow> undisturbed e \<Longrightarrow> ofiles_same s s'"
  by (induction fo obj buf e s rule: old_call_Write.induct)
     (auto simp: undisturbed_def old_serial_write_def dest: pipe_calls_same socket_calls_same
       dest!: old_serial_write_loop_same split: Option.bind_splits)

text \<open>A call takes a reference while it works on the stream, and gives it back at its end. In between the count is ahead of the
  file ids by the calls in progress.\<close>

lemma room_take: "room n H \<Longrightarrow> int n + H i + 1 < 2 ^ 32 \<Longrightarrow> room n (H(i := H i + 1))"
  by (auto simp: room_def add_nonneg_nonneg)

lemma room_give: "room n H \<Longrightarrow> 1 \<le> H i \<Longrightarrow> room n (H(i := H i - 1))"
  unfolding room_def by (smt (verit) fun_upd_apply)

lemma io_begin_ok:
  assumes ok: "ofiles_with H s" and fd: "get_fcb fd s = Some i" and more: "int (n_proc s * n_fileid s) + H i + 1 < 2 ^ 32"
  shows "ofiles_with (H(i := H i + 1)) (old_FCB_incref i s)" "i < n_proc s"
proof -
  obtain xs where s: "ofiles_inv s xs {} H" "curproc s < n_proc s" "room (n_proc s * n_fileid s) H" using ok by (rule ofiles_okD)
  note G = get_fcb_SomeD [OF fd]
  note U = used_fcb [OF s(1,2) G(2,3) s(3)]
  have "int (card (orefs s i)) \<le> int (n_proc s * n_fileid s)" using orefs_bounded(2) [of s i] by (simp only: of_nat_le_iff)
  then have "ocount s H i + 1 < 2 ^ 32" using more unfolding ocount_def by linarith
  from incref_inv [OF s(1) U(1,2) this] have "ofiles_inv (old_FCB_incref i s) xs {} (H(i := H i + 1))" by simp
  then show "ofiles_with (H(i := H i + 1)) (old_FCB_incref i s)" using s(2) room_take [OF s(3) more] by (intro ofiles_okI) simp_all
  show "i < n_proc s" by (rule U(1))
qed

lemma io_end_ok:
  assumes ok: "ofiles_with H s" and i: "i < n_proc s" "1 \<le> H i" and run: "old_FCB_decref i s = Some (s', r)"
  shows "ofiles_with (H(i := H i - 1)) s'"
proof -
  obtain xs where s: "ofiles_inv s xs {} H" "curproc s < n_proc s" "room (n_proc s * n_fileid s) H" using ok by (rule ofiles_okD)
  have "1 \<le> ocount s H i" using i(2) by (simp add: ocount_def)
  then have "i \<notin> set xs" using ofiles_invD(5) [OF s(1) i(1)] by auto
  note D = decref_inv [OF s(1) i(1) this _ run]
  show ?thesis using D(1) D(2-4) s(2) room_give [OF s(3) i(2)] by (intro ofiles_okI) simp_all
qed

section \<open>Sockets\<close>

lemma sys_Listen_same: "sys_Listen sock s = Some (s', r) \<Longrightarrow> ofiles_same s s'"
  by (auto simp: sys_Listen_def Let_def split: if_splits Option.bind_splits option.splits)

lemma sys_ShutDown_same:
  assumes "sys_ShutDown sock how s = Some (s', r)"
  shows "ofiles_same s s'"
proof -
  show ?thesis using assms
    by (auto simp: sys_ShutDown_def dest!: same_close_reader same_close_writer split: if_splits Option.bind_splits)
       (blast intro: ofiles_same_trans)
qed

lemma accept_connect_same:
  assumes "accept_connect m1 m2 h req i s = Some s'"
  shows "ofiles_same s s'"
proof -
  have "ofiles_same s (fst (new_pipe m h t)) = ofiles_same s t" for s t m
    by (simp add: new_pipe_def split: option.splits)
  then show ?thesis using assms
    by (auto simp: accept_connect_def Let_def case_prod_beta split: Option.bind_splits)
qed

lemma accept_request_cases:
  assumes "accept_request m1 m2 h k port s = Some (s', r)"
  shows "s' = drop_ref k s \<or> (\<exists>g port v f. sys_Socket port (upd_socket k g s) = (v, f)
      \<and> (s' = drop_ref k v \<or> (\<exists>req i w. accept_connect m1 m2 h req i v = Some w \<and> s' = drop_ref k w)))"
proof (rule disjCI)
  assume n: "\<not> (\<exists>g port v f. sys_Socket port (upd_socket k g s) = (v, f)
      \<and> (s' = drop_ref k v \<or> (\<exists>req i w. accept_connect m1 m2 h req i v = Some w \<and> s' = drop_ref k w)))"
  then have n: "s' \<noteq> drop_ref k (fst (sys_Socket port (upd_socket k g s)))"
    "accept_connect m1 m2 h req i (fst (sys_Socket port (upd_socket k g s))) = Some w \<Longrightarrow> s' \<noteq> drop_ref k w" for g port req i w
    by (metis surjective_pairing)+
  show "s' = drop_ref k s"
    using assms n by (auto simp: accept_request_def case_prod_beta Let_def split: if_splits Option.bind_splits list.splits) blast
qed

lemma sys_Accept_ok:
  assumes "ofiles_with H s" and "sys_Accept m1 m2 h lsock [] s = Some (s', r)"
  shows "ofiles_with H s' \<and> procs_same s s'"
proof (cases "ofiles_same s s'")
  case True
  then show ?thesis using assms(1) keeps_files [of H s s s'] by simp
next
  case False
  let ?t = "\<lambda>k. upd_socket k (\<lambda>c. c\<lparr>s_refcount := s_refcount c + 1\<rparr>) s"
  obtain k port where acc: "accept_request m1 m2 h k port (?t k) = Some (s', r)"
    using assms(2) False by (auto simp: sys_Accept_def Let_def split: if_splits Option.bind_splits option.splits)
  have dr: "ofiles_same x (drop_ref k y) = ofiles_same x y" for x y by (simp add: drop_ref_def)
  have "s' \<noteq> drop_ref k (?t k)" using False dr by auto
  then obtain g port v f where v: "sys_Socket port (upd_socket k g (?t k)) = (v, f)"
      "s' = drop_ref k v \<or> (\<exists>req i w. accept_connect m1 m2 h req i v = Some w \<and> s' = drop_ref k w)"
    using accept_request_cases [OF acc] by blast
  have "ofiles_same v s'" using v(2) accept_connect_same dr by (metis ofiles_same_refl)
  moreover have "ofiles_with H (upd_socket k g (?t k)) \<and> procs_same s (upd_socket k g (?t k))"
    using keeps_files [of H s s "upd_socket k g (?t k)"] assms(1) by simp
  then have "ofiles_with H v \<and> procs_same s v" using sys_Socket_ok [OF _ v(1)] procs_same_trans by blast
  ultimately show ?thesis using keeps_files by blast
qed

end
