(* ===== verification/Old_Tree.thy ===== *)
theory Old_Tree
  imports Old_Files_Ops
begin

text \<open>
  The process table of the earlier kernel as a tree with a free list, apart from everything else: states, parents, the
  lists of children and of exited children, and the free list that runs through the \<open>parent\<close> fields. Creating,
  reaping and exiting keep it well formed.
\<close>

section \<open>The free list\<close>

fun free_chain :: "(nat \<Rightarrow> nat option) \<Rightarrow> nat option \<Rightarrow> nat list \<Rightarrow> bool" where
  "free_chain par fl [] \<longleftrightarrow> fl = None"
| "free_chain par fl (p # ps) \<longleftrightarrow> fl = Some p \<and> free_chain par (par p) ps"

lemma free_chain_cong: "(\<And>p. p \<in> set ps \<Longrightarrow> par' p = par p) \<Longrightarrow> free_chain par' fl ps = free_chain par fl ps"
  by (induction ps arbitrary: fl) auto

lemma free_chain_upd: "p \<notin> set ps \<Longrightarrow> free_chain (par(p := v)) fl ps = free_chain par fl ps"
  by (rule free_chain_cong) auto

section \<open>The table\<close>

definition table_inv :: "nat \<Rightarrow> (nat \<Rightarrow> pid_state) \<Rightarrow> (nat \<Rightarrow> nat option) \<Rightarrow> (nat \<Rightarrow> nat list) \<Rightarrow> (nat \<Rightarrow> nat list) \<Rightarrow> nat option \<Rightarrow> nat list \<Rightarrow> bool" where
  "table_inv n pst par ch ex fl ps \<longleftrightarrow>
     free_chain par fl ps \<and> distinct ps \<and> (\<forall>p. p \<in> set ps \<longleftrightarrow> p < n \<and> pst p = FREE)
     \<and> (\<forall>p<n. distinct (ch p) \<and> distinct (ex p))
     \<and> (\<forall>p c. p < n \<longrightarrow> (c \<in> set (ch p) \<longleftrightarrow> c < n \<and> pst c \<noteq> FREE \<and> par c = Some p))
     \<and> (\<forall>p c. p < n \<longrightarrow> (c \<in> set (ex p) \<longleftrightarrow> c < n \<and> pst c = ZOMBIE \<and> par c = Some p))
     \<and> (\<forall>p q. p < n \<longrightarrow> pst p \<noteq> FREE \<longrightarrow> par p = Some q \<longrightarrow> q < n \<and> pst q = ALIVE \<and> q \<noteq> p)
     \<and> (\<forall>p<n. pst p \<noteq> FREE \<longrightarrow> (par p = None \<longleftrightarrow> p \<le> 1))"

lemma table_invD:
  assumes "table_inv n pst par ch ex fl ps"
  shows "free_chain par fl ps" "distinct ps" "\<And>p. p \<in> set ps \<longleftrightarrow> p < n \<and> pst p = FREE"
    "\<And>p. p < n \<Longrightarrow> distinct (ch p) \<and> distinct (ex p)"
    "\<And>p c. p < n \<Longrightarrow> c \<in> set (ch p) \<longleftrightarrow> c < n \<and> pst c \<noteq> FREE \<and> par c = Some p"
    "\<And>p c. p < n \<Longrightarrow> c \<in> set (ex p) \<longleftrightarrow> c < n \<and> pst c = ZOMBIE \<and> par c = Some p"
    "\<And>p q. p < n \<Longrightarrow> pst p \<noteq> FREE \<Longrightarrow> par p = Some q \<Longrightarrow> q < n \<and> pst q = ALIVE \<and> q \<noteq> p"
    "\<And>p. p < n \<Longrightarrow> pst p \<noteq> FREE \<Longrightarrow> par p = None \<longleftrightarrow> p \<le> 1"
  using assms unfolding table_inv_def by - (elim conjE, metis)+

lemma table_invI:
  assumes "free_chain par fl ps" "distinct ps" "\<And>p. p \<in> set ps \<longleftrightarrow> p < n \<and> pst p = FREE"
    "\<And>p. p < n \<Longrightarrow> distinct (ch p) \<and> distinct (ex p)"
    "\<And>p c. p < n \<Longrightarrow> c \<in> set (ch p) \<longleftrightarrow> c < n \<and> pst c \<noteq> FREE \<and> par c = Some p"
    "\<And>p c. p < n \<Longrightarrow> c \<in> set (ex p) \<longleftrightarrow> c < n \<and> pst c = ZOMBIE \<and> par c = Some p"
    "\<And>p q. p < n \<Longrightarrow> pst p \<noteq> FREE \<Longrightarrow> par p = Some q \<Longrightarrow> q < n \<and> pst q = ALIVE \<and> q \<noteq> p"
    "\<And>p. p < n \<Longrightarrow> pst p \<noteq> FREE \<Longrightarrow> par p = None \<longleftrightarrow> p \<le> 1"
  shows "table_inv n pst par ch ex fl ps"
proof -
  have "\<forall>p. p \<in> set ps \<longleftrightarrow> p < n \<and> pst p = FREE" "\<forall>p<n. distinct (ch p) \<and> distinct (ex p)"
    "\<forall>p c. p < n \<longrightarrow> (c \<in> set (ch p) \<longleftrightarrow> c < n \<and> pst c \<noteq> FREE \<and> par c = Some p)"
    "\<forall>p c. p < n \<longrightarrow> (c \<in> set (ex p) \<longleftrightarrow> c < n \<and> pst c = ZOMBIE \<and> par c = Some p)"
    "\<forall>p q. p < n \<longrightarrow> pst p \<noteq> FREE \<longrightarrow> par p = Some q \<longrightarrow> q < n \<and> pst q = ALIVE \<and> q \<noteq> p"
    "\<forall>p<n. pst p \<noteq> FREE \<longrightarrow> (par p = None \<longleftrightarrow> p \<le> 1)"
    using assms(3-8) by metis+
  with assms(1,2) show ?thesis unfolding table_inv_def by (intro conjI)
qed

text \<open>Only processes that are alive have children.\<close>

lemma no_children:
  assumes "table_inv n pst par ch ex fl ps" and "p < n" and "pst p \<noteq> ALIVE"
  shows "ch p = []" "ex p = []"
proof -
  have "c \<notin> set (ch p)" for c 
    using table_invD(5) [OF assms(1,2), of c] table_invD(7) [OF assms(1), of c p] assms(3) by auto
  then show "ch p = []" by (cases "ch p") auto
  have "c \<notin> set (ex p)" for c
    using table_invD(6) [OF assms(1,2), of c] table_invD(7) [OF assms(1), of c p] assms(3) by auto
  then show "ex p = []" by (cases "ex p") auto
qed

lemma table_create:
  assumes inv: "table_inv n pst par ch ex fl (p # ps)"
    and par': "if p \<le> 1 then parent' = None else \<exists>q<n. parent' = Some q \<and> pst q = ALIVE"
  shows "table_inv n (pst(p := ALIVE)) (par(p := parent')) (case parent' of None \<Rightarrow> ch | Some q \<Rightarrow> ch(q := p # ch q)) ex (par p) ps"
proof -
  note I = table_invD [OF inv]
  have p: "p < n" "pst p = FREE" "p \<notin> set ps" "fl = Some p" "free_chain par (par p) ps" using I(1,2) I(3) [of p] by auto
  have np: "par c \<noteq> Some p" if "c < n" "pst c \<noteq> FREE" for c using I(7) [OF that] p(2) by fastforce
  let ?ch = "case parent' of None \<Rightarrow> ch | Some q \<Rightarrow> ch(q := p # ch q)"
  have q: "parent' \<noteq> Some p" "parent' = None \<longleftrightarrow> p \<le> 1" "\<And>q. parent' = Some q \<Longrightarrow> q < n \<and> pst q = ALIVE"
    using par' p(2) by (auto split: if_splits)
  have sch: "set (?ch x) = (if parent' = Some x then insert p (set (ch x)) else set (ch x))" for x by (auto split: option.splits)
  have dch: "distinct (?ch x)" if x: "x < n" for x
    using I(4) [OF x] I(5) [OF x, of p] p(2) by (auto split: option.splits)
  show ?thesis
  proof (rule table_invI)
    show "free_chain (par(p := parent')) (par p) ps" using p(3,5) by (simp add: free_chain_upd)
    show "distinct ps" using I(2) by simp
    show "x \<in> set ps \<longleftrightarrow> x < n \<and> (pst(p := ALIVE)) x = FREE" for x using I(3) [of x] p(3) by auto
  next
    fix x assume x: "x < n"
    show "distinct (?ch x) \<and> distinct (ex x)" using dch [OF x] I(4) [OF x] by simp
    show "c \<in> set (?ch x) \<longleftrightarrow> c < n \<and> (pst(p := ALIVE)) c \<noteq> FREE \<and> (par(p := parent')) c = Some x" for c
      unfolding sch using I(5) [OF x, of c] p(1,2) by (cases "c = p") auto
    show "c \<in> set (ex x) \<longleftrightarrow> c < n \<and> (pst(p := ALIVE)) c = ZOMBIE \<and> (par(p := parent')) c = Some x" for c
      using I(6) [OF x, of c] p(2) by (cases "c = p") auto
    assume f: "(pst(p := ALIVE)) x \<noteq> FREE"
    show "(par(p := parent')) x = None \<longleftrightarrow> x \<le> 1" using f q(2) I(8) [OF x] by (cases "x = p") auto
    fix y assume "(par(p := parent')) x = Some y"
    then show "y < n \<and> (pst(p := ALIVE)) y = ALIVE \<and> y \<noteq> x"
      using f q I(7) [OF x, of y] np [OF x] by (cases "x = p") auto
  qed
qed

lemma table_reap:
  assumes inv: "table_inv n pst par ch ex fl ps" and c: "c < n" "pst c = ZOMBIE"
  shows "table_inv n (pst(c := FREE)) (par(c := fl)) (\<lambda>q. removeAll c (ch q)) (\<lambda>q. removeAll c (ex q)) (Some c) (c # ps)"
proof -
  note I = table_invD [OF inv]
  have n: "c \<notin> set ps" using I(3) [of c] c(2) by simp
  have np: "par x \<noteq> Some c" if "x < n" "pst x \<noteq> FREE" for x using I(7) [OF that] c(2) by fastforce
  show ?thesis
  proof (rule table_invI)
    show "free_chain (par(c := fl)) (Some c) (c # ps)" using I(1) n by (simp add: free_chain_upd)
    show "distinct (c # ps)" using I(2) n by simp
    show "x \<in> set (c # ps) \<longleftrightarrow> x < n \<and> (pst(c := FREE)) x = FREE" for x using I(3) [of x] c by auto
  next
    fix x assume x: "x < n"
    show "distinct (removeAll c (ch x)) \<and> distinct (removeAll c (ex x))" using I(4) [OF x] by (simp add: distinct_removeAll)
    show "y \<in> set (removeAll c (ch x)) \<longleftrightarrow> y < n \<and> (pst(c := FREE)) y \<noteq> FREE \<and> (par(c := fl)) y = Some x" for y
      using I(5) [OF x, of y] by auto
    show "y \<in> set (removeAll c (ex x)) \<longleftrightarrow> y < n \<and> (pst(c := FREE)) y = ZOMBIE \<and> (par(c := fl)) y = Some x" for y
      using I(6) [OF x, of y] by auto
    assume "(pst(c := FREE)) x \<noteq> FREE"
    then have f: "pst x \<noteq> FREE" "x \<noteq> c" by (auto split: if_splits)
    show "(par(c := fl)) x = None \<longleftrightarrow> x \<le> 1" using f I(8) [OF x] by simp
    fix y assume "(par(c := fl)) x = Some y"
    then show "y < n \<and> (pst(c := FREE)) y = ALIVE \<and> y \<noteq> x" using f I(7) [OF x, of y] np [OF x] by auto
  qed
qed

text \<open>A process other than the initial one exits: its children go to process 1, and it to its parent.\<close>

lemma table_exit:
  assumes inv: "table_inv n pst par ch ex fl ps" and p: "p < n" "pst p = ALIVE" "p \<noteq> 1" and init: "1 < n" "pst 1 = ALIVE"
    and par: "par p = Some q"
  shows "table_inv n (pst(p := ZOMBIE)) (\<lambda>x. if x \<in> set (ch p) then Some 1 else par x)
     (ch(p := [], 1 := rev (ch p) @ ch 1))
     (let e = ex(p := [], 1 := ex 1 @ ex p) in e(q := p # e q)) fl ps"
proof -
  note I = table_invD [OF inv]
  have q: "q < n" "pst q = ALIVE" "q \<noteq> p" using I(7) [OF p(1) _ par] p(2) by auto
  let ?pst = "pst(p := ZOMBIE)" and ?par = "\<lambda>x. if x \<in> set (ch p) then Some 1 else par x"
  let ?ch = "ch(p := [], 1 := rev (ch p) @ ch 1)" and ?e = "ex(p := [], 1 := ex 1 @ ex p)"
  note chp = I(5) [OF p(1)] and exp = I(6) [OF p(1)] and ch1 = I(5) [OF init(1)] and ex1 = I(6) [OF init(1)]
  have n1: "p \<notin> set (ch p)" "1 \<notin> set (ch p)" using chp [of p] chp [of 1] q(3) par I(8) [OF init(1)] init(2) by auto
  have n2: "p \<notin> set (ex x)" if "x < n" for x using I(6) [OF that, of p] p(2) by simp
  have parp: "?par p = Some q" using n1(1) par by simp
  have "x \<notin> set (ch 1)" if "x \<in> set (ch p)" for x using that chp [of x] ch1 [of x] p(3) by auto
  moreover have "x \<notin> set (ex 1)" if "x \<in> set (ex p)" for x using that exp [of x] ex1 [of x] p(3) by auto
  ultimately have d1: "distinct (rev (ch p) @ ch 1)" "distinct (ex 1 @ ex p)" using I(4) [OF init(1)] I(4) [OF p(1)] by auto
  have se: "c \<in> set (?e x) \<longleftrightarrow> c < n \<and> pst c = ZOMBIE \<and> ?par c = Some x" if x: "x < n" for x c
    using I(6) [OF x, of c] exp [of c] chp [of c] ex1 [of c] p(3) by (cases "x = p"; cases "x = 1") auto
  have sc: "c \<in> set (?ch x) \<longleftrightarrow> c < n \<and> pst c \<noteq> FREE \<and> ?par c = Some x" if x: "x < n" for x c
    using I(5) [OF x, of c] chp [of c] ch1 [of c] p(3) by (cases "x = p"; cases "x = 1") auto
  have de: "distinct (?e x)" if "x < n" for x using I(4) [OF that] d1(2) by simp
  have pe: "p \<notin> set (?e x)" if "x < n" for x using n2 that p(1) init(1) by simp
  show ?thesis
    unfolding Let_def
  proof (rule table_invI)
    have "?par x = par x" if "x \<in> set ps" for x using that I(3) [of x] chp [of x] by auto
    then show "free_chain ?par fl ps" using I(1) free_chain_cong [of ps ?par par fl] by blast
    show "distinct ps" using I(2) .
    show "x \<in> set ps \<longleftrightarrow> x < n \<and> ?pst x = FREE" for x using I(3) [of x] p(2) by auto
  next
    fix x assume x: "x < n"
    show "distinct (?ch x) \<and> distinct ((?e(q := p # ?e q)) x)"

    proof
      show "distinct (?ch x)" using I(4) [OF x] d1(1) by simp
      show "distinct ((?e(q := p # ?e q)) x)" using de [OF x] de [OF q(1)] pe [OF q(1)] by (cases "x = q") (simp_all del: fun_upd_apply add: fun_upd_same fun_upd_other)
    qed
    show "c \<in> set (?ch x) \<longleftrightarrow> c < n \<and> ?pst c \<noteq> FREE \<and> ?par c = Some x" for c unfolding sc [OF x] using p(2) by auto
    have m: "c \<in> set ((?e(q := p # ?e q)) x) \<longleftrightarrow> (x = q \<and> c = p) \<or> (c < n \<and> pst c = ZOMBIE \<and> ?par c = Some x)" for c
      unfolding se [OF x, symmetric] by (cases "x = q") (simp_all only: fun_upd_same fun_upd_other set_simps insert_iff simp_thms)
    show "c \<in> set ((?e(q := p # ?e q)) x) \<longleftrightarrow> c < n \<and> ?pst c = ZOMBIE \<and> ?par c = Some x" for c
      unfolding m
    proof (cases "c = p")
      case True
      then show "((x = q \<and> c = p) \<or> (c < n \<and> pst c = ZOMBIE \<and> ?par c = Some x)) = (c < n \<and> ?pst c = ZOMBIE \<and> ?par c = Some x)"
        using p(1,2) n1(1) par by auto
    qed simp
    assume "?pst x \<noteq> FREE"
    then have f: "pst x \<noteq> FREE" using p(2) by (auto split: if_splits)
    show "?par x = None \<longleftrightarrow> x \<le> 1" using I(8) [OF x f] chp [of x] by auto
    fix y assume y: "?par x = Some y"
    show "y < n \<and> ?pst y = ALIVE \<and> y \<noteq> x"
    proof (cases "x \<in> set (ch p)")
      case True
      then have "y = 1" using y by simp
      then show ?thesis using init p(3) True n1(2) by auto
    next
      case False
      then have "par x = Some y" "y \<noteq> p" using y chp [of x] x f by auto
      then show ?thesis using I(7) [OF x f] by simp
    qed
  qed
qed

text \<open>The initial process exits, without children.\<close>

lemma table_exit_init:
  assumes inv: "table_inv n pst par ch ex fl ps" and p: "1 < n" "pst 1 = ALIVE" and c: "ch 1 = []"
  shows "table_inv n (pst(1 := ZOMBIE)) par ch ex fl ps"
proof -
  note I = table_invD [OF inv]
  have no: "par x \<noteq> Some 1" if "x < n" "pst x \<noteq> FREE" for x using I(5) [OF p(1), of x] that c by auto
  have p1: "par 1 = None" using I(8) [OF p(1)] p(2) by simp
  show ?thesis
  proof (rule table_invI)
    show "x \<in> set ps \<longleftrightarrow> x < n \<and> (pst(1 := ZOMBIE)) x = FREE" for x using I(3) [of x] p(2) by auto
  next
    fix x assume x: "x < n"
    show "c \<in> set (ch x) \<longleftrightarrow> c < n \<and> (pst(1 := ZOMBIE)) c \<noteq> FREE \<and> par c = Some x" for c using I(5) [OF x, of c] p p1 by auto
    show "c \<in> set (ex x) \<longleftrightarrow> c < n \<and> (pst(1 := ZOMBIE)) c = ZOMBIE \<and> par c = Some x" for c using I(6) [OF x, of c] p p1 by auto
    assume "(pst(1 := ZOMBIE)) x \<noteq> FREE"
    then have f: "pst x \<noteq> FREE" using p(2) by (auto split: if_splits)
    show "par x = None \<longleftrightarrow> x \<le> 1" using I(8) [OF x f] .
    fix y assume "par x = Some y"
    then show "y < n \<and> (pst(1 := ZOMBIE)) y = ALIVE \<and> y \<noteq> x" using I(7) [OF x f] no [OF x f] by auto
  qed (use I(1,2) I(4) in blast)+
qed

end
