(* ===== verification/Old_Proc_Props.thy ===== *)
theory Old_Proc_Props
  imports Old_Tree
begin

text \<open>
  The earlier kernel as a system of calls: file table, process tree and free list stay consistent under every call
  that does not wait. Creating processes, exiting, waiting, joining, and the information streams.
\<close>

section \<open>The invariant\<close>

definition otable :: "okernel \<Rightarrow> nat list \<Rightarrow> bool" where
  "otable s ps \<longleftrightarrow> table_inv (n_proc s) (\<lambda>p. q_pstate (o_PT s p)) (\<lambda>p. q_parent (o_PT s p)) (\<lambda>p. q_children_list (o_PT s p))
     (\<lambda>p. q_exited_list (o_PT s p)) (pcb_freelist s) ps"

text \<open>A process that is not alive has no files.\<close>

definition no_files :: "okernel \<Rightarrow> bool" where
  "no_files s \<longleftrightarrow> (\<forall>p<n_proc s. q_pstate (o_PT s p) \<noteq> ALIVE \<longrightarrow> (\<forall>f<n_fileid s. q_FIDT (o_PT s p) f = None))"

definition osys_with :: "(nat \<Rightarrow> int) \<Rightarrow> okernel \<Rightarrow> bool" where
  "osys_with H s \<longleftrightarrow> ofiles_with H s \<and> (\<exists>ps. otable s ps) \<and> no_files s"

abbreviation osys_ok :: "okernel \<Rightarrow> bool" where "osys_ok \<equiv> osys_with no_holds"

abbreviation cur_alive :: "okernel \<Rightarrow> bool" where
  "cur_alive s \<equiv> q_pstate (o_PT s (curproc s)) = ALIVE"

lemma procs_same_lists:
  assumes "procs_same s s'"
  shows "q_children_list (o_PT s' p) = q_children_list (o_PT s p)" "q_exited_list (o_PT s' p) = q_exited_list (o_PT s p)"
proof -
  have b: "(o_PT s' p)\<lparr>q_FIDT := q_FIDT (o_PT s p)\<rparr> = o_PT s p" using assms by (simp add: procs_same_def)
  show "q_children_list (o_PT s' p) = q_children_list (o_PT s p)" "q_exited_list (o_PT s' p) = q_exited_list (o_PT s p)"
    by (subst b [symmetric], simp)+
qed

lemma osys_files:
  assumes "osys_with H s" and "cur_alive s" and "ofiles_with H s' \<and> procs_same s s'"
  shows "osys_with H s'"
proof -
  have ps: "procs_same s s'" using assms(3) by blast
  note F = procs_same_fields [OF ps] procs_same_lists [OF ps]
  have g: "n_proc s' = n_proc s" "n_fileid s' = n_fileid s" "pcb_freelist s' = pcb_freelist s"
    "p \<noteq> curproc s \<Longrightarrow> q_FIDT (o_PT s' p) = q_FIDT (o_PT s p)" for p using ps by (simp_all add: procs_same_def)
  have "otable s' xs = otable s xs" for xs by (simp add: otable_def F g)
  moreover have "q_FIDT (o_PT s' p) f = None" if "p < n_proc s" "f < n_fileid s" "q_pstate (o_PT s p) \<noteq> ALIVE" for p f
  proof -
    have "p \<noteq> curproc s" using that assms(2) by auto
    from g(4) [OF this] show ?thesis using that assms(1) by (simp add: osys_with_def no_files_def)
  qed
  then have "no_files s'" using F(1) g(1,2) by (simp add: no_files_def)
  ultimately show ?thesis using assms by (auto simp: osys_with_def)
qed

section \<open>Creating a process\<close>

lemma ofiles_inv_cong:
  assumes "n_proc t = n_proc s" "n_fileid t = n_fileid s" "o_FCB_freelist t = o_FCB_freelist s" "\<And>i. f_refcount (o_FT t i) = f_refcount (o_FT s i)"
    "\<And>p. q_FIDT (o_PT t p) = q_FIDT (o_PT s p)"
  shows "ofiles_inv t xs R held = ofiles_inv s xs R held"
proof -
  have "orefs t i = orefs s i" for i using assms by (simp add: orefs_def)
  then have "ocount t held i = ocount s held i" for i by (simp add: ocount_def)
  then show ?thesis unfolding ofiles_inv_def using assms by simp
qed

lemma upd_opcb_simps [simp]:
  "n_proc (upd_opcb p g s) = n_proc s" "n_fileid (upd_opcb p g s) = n_fileid s" "curproc (upd_opcb p g s) = curproc s"
  "o_FT (upd_opcb p g s) = o_FT s" "o_FCB_freelist (upd_opcb p g s) = o_FCB_freelist s" "pcb_freelist (upd_opcb p g s) = pcb_freelist s"
  "fresh (upd_opcb p g s) = fresh s" "ptcbs (upd_opcb p g s) = ptcbs s" "curptcb (upd_opcb p g s) = curptcb s" "woken (upd_opcb p g s) = woken s"
  "process_count (upd_opcb p g s) = process_count s" "procinfos (upd_opcb p g s) = procinfos s"
  "o_PT (upd_opcb p g s) = (o_PT s)(p := g (o_PT s p))"
  by (simp_all add: upd_opcb_def)

text \<open>The file ids are copied one after the other, each with one more reference.\<close>

lemma ft_only_inherit: "ft_only s (inherit_file cur p i s)"
  unfolding inherit_file_def Let_def using ft_only_steps(1) ft_only_trans [OF ft_only_steps(1) ft_only_steps(2)] by (auto split: option.splits)

lemma inherit_all:
  assumes inv: "ofiles_inv s xs {} H" and b: "room (n_proc s * n_fileid s) H" and p: "p < n_proc s" "cur < n_proc s" "p \<noteq> cur"
    and none: "\<And>f. f < n_fileid s \<Longrightarrow> q_FIDT (o_PT s p) f = None" and m: "m \<le> n_fileid s"
  shows "ofiles_inv (fold (inherit_file cur p) [0..<m] s) xs {} H \<and> ft_only s (fold (inherit_file cur p) [0..<m] s)
    \<and> (\<forall>q. q \<noteq> p \<longrightarrow> q_FIDT (o_PT (fold (inherit_file cur p) [0..<m] s) q) = q_FIDT (o_PT s q))
    \<and> (\<forall>f. q_FIDT (o_PT (fold (inherit_file cur p) [0..<m] s) p) f = (if f < m then q_FIDT (o_PT s cur) f else q_FIDT (o_PT s p) f))"
  using m
proof (induction m)
  case 0
  then show ?case using inv by simp
next
  case (Suc m)
  let ?t = "fold (inherit_file cur p) [0..<m] s" and ?c = "q_FIDT (o_PT s cur) m"
  have IH: "ofiles_inv ?t xs {} H" "ft_only s ?t" "\<forall>q. q \<noteq> p \<longrightarrow> q_FIDT (o_PT ?t q) = q_FIDT (o_PT s q)"
    "\<forall>f. q_FIDT (o_PT ?t p) f = (if f < m then q_FIDT (o_PT s cur) f else q_FIDT (o_PT s p) f)" using Suc by simp_all
  note F = ft_only_fields [OF IH(2)]
  have c: "q_FIDT (o_PT ?t cur) m = ?c" "q_FIDT (o_PT ?t p) m = None" using IH(3,4) p(3) none Suc.prems by auto
  have st: "inherit_file cur p m ?t = (case ?c of None \<Rightarrow> set_oFIDT p m None ?t | Some f \<Rightarrow> old_FCB_incref f (set_oFIDT p m (Some f) ?t))"
    using c by (simp add: inherit_file_def Let_def split: option.splits)
  have inv': "ofiles_inv (inherit_file cur p m ?t) xs {} H"
  proof (cases ?c)
    case None
    have "moved ?t p m None H = H" using c(2) by (simp add: moved_def fun_eq_iff)
    then show ?thesis using set_oFIDT_inv [OF IH(1), of p m None] p(1) Suc.prems F(1,2) None st by simp
  next
    case (Some f)
    have m: "m < n_fileid ?t" "p < n_proc ?t" "cur < n_proc ?t" using Suc.prems p F(1,2) by simp_all
    have rm: "room (n_proc ?t * n_fileid ?t) H" using b F(1,2) by simp
    have "q_FIDT (o_PT ?t cur) m = Some f" using c(1) Some by simp
    note U = used_fcb [OF IH(1) m(3,1) this rm]
    have "ocount ?t H f + 1 < 2 ^ 32" by (rule room_for_reference [of _ H p m]) (use b F(1,2) m c(2) in simp_all)
    then have "ofiles_inv (old_FCB_incref f (set_oFIDT p m (Some f) ?t)) xs ({} - {f}) H"
      by (intro share_inv IH(1) m U(1,2) c(2))
    then show ?thesis using st Some by simp
  qed
  have "q_FIDT (o_PT (inherit_file cur p m ?t) q) = (if q = p then (q_FIDT (o_PT ?t p))(m := ?c) else q_FIDT (o_PT ?t q))" for q
    unfolding st by (simp split: option.splits)
  then show ?case using inv' ft_only_trans [OF IH(2) ft_only_inherit [of ?t cur p m]] IH(3,4) by (simp add: less_Suc_eq)
qed

text \<open>States that agree on everything the invariant looks at.\<close>

definition same_tables :: "okernel \<Rightarrow> okernel \<Rightarrow> bool" where
  "same_tables s t \<longleftrightarrow> n_proc t = n_proc s \<and> n_fileid t = n_fileid s \<and> curproc t = curproc s \<and> pcb_freelist t = pcb_freelist s
     \<and> o_FT t = o_FT s \<and> o_FCB_freelist t = o_FCB_freelist s
     \<and> (\<forall>p. q_pstate (o_PT t p) = q_pstate (o_PT s p) \<and> q_parent (o_PT t p) = q_parent (o_PT s p)
          \<and> q_children_list (o_PT t p) = q_children_list (o_PT s p) \<and> q_exited_list (o_PT t p) = q_exited_list (o_PT s p)
          \<and> q_FIDT (o_PT t p) = q_FIDT (o_PT s p))"

lemma same_tables_ok:
  assumes "same_tables s t"
  shows "osys_with H t = osys_with H s"
proof -
  note S = assms [unfolded same_tables_def]
  have "ofiles_inv t xs R held = ofiles_inv s xs R held" for xs R held by (rule ofiles_inv_cong) (use S in simp_all)
  then have "ofiles_with H t = ofiles_with H s" using S by (simp add: ofiles_with_def)
  moreover have "otable t ps = otable s ps" for ps using S by (simp add: otable_def)
  moreover have "no_files t = no_files s" using S by (simp add: no_files_def)
  ultimately show ?thesis by (simp add: osys_with_def)
qed

lemma osys_okI:
  "ofiles_inv s xs {} H \<Longrightarrow> curproc s < n_proc s \<Longrightarrow> room (n_proc s * n_fileid s) H \<Longrightarrow> otable s ps \<Longrightarrow> no_files s \<Longrightarrow> osys_with H s"
  unfolding osys_with_def using ofiles_okI by blast

lemma osys_okD:
  assumes "osys_with H s"
  obtains xs ps where "ofiles_inv s xs {} H" "curproc s < n_proc s" "room (n_proc s * n_fileid s) H" "otable s ps" "no_files s"
  using assms unfolding osys_with_def by (metis ofiles_okD)

lemma free_chain_Some: "free_chain par fl ps \<Longrightarrow> fl = Some p \<Longrightarrow> \<exists>ps'. ps = p # ps'"
  by (cases ps) auto

text \<open>The table after \<open>acquire_PCB\<close> and the choice of the parent.\<close>

lemma exec_parent_ok:
  assumes ok: "osys_with H s" and alive: "cur_alive s" and acq: "old_acquire_PCB s = (s1, Some p)"
  shows "osys_with H (old_exec_parent p s1)"
proof -
  obtain xs ps where s: "ofiles_inv s xs {} H" "curproc s < n_proc s" "room (n_proc s * n_fileid s) H" "otable s ps" "no_files s"
    using ok by (rule osys_okD)
  have s1: "s1 = (upd_opcb p (\<lambda>c. c\<lparr>q_pstate := ALIVE\<rparr>) s)\<lparr>pcb_freelist := q_parent (o_PT s p), process_count := process_count s + 1\<rparr>"
    and fl: "pcb_freelist s = Some p" using acq by (auto simp: old_acquire_PCB_def Let_def split: option.splits)
  obtain qs where qs: "ps = p # qs" using free_chain_Some [OF table_invD(1) [OF s(4) [unfolded otable_def]] fl] by blast
  have p: "p < n_proc s" "q_pstate (o_PT s p) = FREE" using table_invD(3) [OF s(4) [unfolded otable_def], of p] qs by auto
  have ne: "p \<noteq> curproc s" using p(2) alive by auto
  have none: "q_FIDT (o_PT s p) f = None" if "f < n_fileid s" for f using s(5) p that by (simp add: no_files_def)
  let ?par = "if p \<le> 1 then None else Some (curproc s)"
  let ?t = "case ?par of None \<Rightarrow> upd_opcb p (\<lambda>c. c\<lparr>q_parent := None\<rparr>) s1
     | Some q \<Rightarrow> upd_opcb q (\<lambda>c. c\<lparr>q_children_list := p # q_children_list c\<rparr>) (upd_opcb p (\<lambda>c. c\<lparr>q_parent := Some q\<rparr>) s1)"
  have tf: "n_proc ?t = n_proc s" "n_fileid ?t = n_fileid s" "curproc ?t = curproc s" "o_FCB_freelist ?t = o_FCB_freelist s"
    "o_FT ?t = o_FT s" "pcb_freelist ?t = q_parent (o_PT s p)" "q_FIDT (o_PT ?t x) = q_FIDT (o_PT s x)" for x by (simp_all add: s1)
  have inv: "ofiles_inv ?t xs {} H" using s(1) by (subst ofiles_inv_cong [of _ s]) (simp_all only: tf)
  have pa: "if p \<le> 1 then ?par = None else \<exists>q<n_proc s. ?par = Some q \<and> q_pstate (o_PT s q) = ALIVE" using s(2) alive by simp
  have a: "(\<lambda>x. q_pstate (o_PT ?t x)) = (\<lambda>x. q_pstate (o_PT s x))(p := ALIVE)"
    "(\<lambda>x. q_parent (o_PT ?t x)) = (\<lambda>x. q_parent (o_PT s x))(p := ?par)"
    "(\<lambda>x. q_exited_list (o_PT ?t x)) = (\<lambda>x. q_exited_list (o_PT s x))" using ne by (auto simp: s1 fun_eq_iff)
  have b: "(\<lambda>x. q_children_list (o_PT ?t x)) = (case ?par of None \<Rightarrow> (\<lambda>x. q_children_list (o_PT s x))
      | Some q \<Rightarrow> (\<lambda>x. q_children_list (o_PT s x))(q := p # q_children_list (o_PT s q)))" using ne by (auto simp: s1 fun_eq_iff)
  have tab: "otable ?t qs"
    using table_create [OF s(4) [unfolded otable_def qs] pa] unfolding otable_def a b tf by simp
  have files: "no_files ?t" using s(5) tf(1,2,7) by (simp add: no_files_def s1)
  show ?thesis
  proof (cases "p \<le> 1")
    case True
    then have "old_exec_parent p s1 = ?t" by (simp add: old_exec_parent_def old_get_pid_def)
    then show ?thesis using osys_okI [OF inv] tf s(2,3) tab files by simp
  next
    case False
    let ?u = "fold (inherit_file (curproc s) p) [0..<n_fileid s] ?t"
    have e: "old_exec_parent p s1 = ?u" using False by (simp add: old_exec_parent_def old_get_pid_def Let_def s1)
    have U: "ofiles_inv ?u xs {} H" "ft_only ?t ?u" "\<forall>q. q \<noteq> p \<longrightarrow> q_FIDT (o_PT ?u q) = q_FIDT (o_PT ?t q)"
      using inherit_all [of ?t xs H p "curproc s" "n_fileid s"] inv tf s(2,3) p(1) ne none by simp_all
    note F = ft_only_fields [OF U(2)]
    have "otable ?u qs = otable ?t qs"
    proof -
      have b: "(o_PT ?u x)\<lparr>q_FIDT := q_FIDT (o_PT ?t x)\<rparr> = o_PT ?t x" for x using U(2) by (simp add: ft_only_def)
      have "q_children_list (o_PT ?u x) = q_children_list (o_PT ?t x)" "q_exited_list (o_PT ?u x) = q_exited_list (o_PT ?t x)" for x
        using arg_cong [OF b [of x], of q_children_list] arg_cong [OF b [of x], of q_exited_list] by simp_all
      then show ?thesis unfolding otable_def F by simp
    qed
    moreover have "no_files ?u" unfolding no_files_def F
    proof (intro allI impI)
      fix x f assume x: "x < n_proc ?t" "q_pstate (o_PT ?t x) \<noteq> ALIVE" "f < n_fileid ?t"
      then have "x \<noteq> p" using fun_cong [OF a(1), of p] by auto
      with U(3) have "q_FIDT (o_PT ?u x) = q_FIDT (o_PT ?t x)" by blast
      moreover have "q_FIDT (o_PT ?t x) f = None" using files x unfolding no_files_def by blast
      ultimately show "q_FIDT (o_PT ?u x) f = None" by (rule trans [OF fun_cong])
    qed
    ultimately show ?thesis unfolding e using osys_okI [OF U(1)] tf F s(2,3) tab by simp
  qed
qed

lemma old_sys_Exec_ok:
  assumes "osys_with H s" and "cur_alive s" and "old_sys_Exec call al ar s = Some (s', r)"
  shows "osys_with H s'"
proof (cases "old_acquire_PCB s")
  case (Pair s1 res)
  show ?thesis
  proof (cases res)
    case None
    then show ?thesis using assms Pair by (auto simp: old_sys_Exec_def old_acquire_PCB_def Let_def split: option.splits)
  next
    case (Some p)
    have "same_tables (old_exec_parent p s1) s'"
      using assms(3) Pair Some
      by (auto simp: old_sys_Exec_def old_create_ptcb_def old_wakeup_def Let_def same_tables_def split: Option.bind_splits if_splits)
    then show ?thesis using same_tables_ok exec_parent_ok [OF assms(1,2)] Pair Some by blast
  qed
qed

section \<open>Reaping a child\<close>

lemma cleanup_ok:
  assumes ok: "osys_with H s" and c: "c < n_proc s" "q_pstate (o_PT s c) = ZOMBIE"
  shows "osys_with H (fst (old_cleanup_zombie c s))"
proof -
  obtain xs ps where s: "ofiles_inv s xs {} H" "curproc s < n_proc s" "room (n_proc s * n_fileid s) H" "otable s ps" "no_files s"
    using ok by (rule osys_okD)
  let ?t = "fst (old_cleanup_zombie c s)"
  have tf: "n_proc ?t = n_proc s" "n_fileid ?t = n_fileid s" "curproc ?t = curproc s" "o_FCB_freelist ?t = o_FCB_freelist s"
    "o_FT ?t = o_FT s" "pcb_freelist ?t = Some c" "q_FIDT (o_PT ?t x) = q_FIDT (o_PT s x)" for x
    by (simp_all add: old_cleanup_zombie_def old_release_PCB_def unlink_child_def)
  have a: "(\<lambda>x. q_pstate (o_PT ?t x)) = (\<lambda>x. q_pstate (o_PT s x))(c := FREE)"
    "(\<lambda>x. q_parent (o_PT ?t x)) = (\<lambda>x. q_parent (o_PT s x))(c := pcb_freelist s)"
    "(\<lambda>x. q_children_list (o_PT ?t x)) = (\<lambda>x. removeAll c (q_children_list (o_PT s x)))"
    "(\<lambda>x. q_exited_list (o_PT ?t x)) = (\<lambda>x. removeAll c (q_exited_list (o_PT s x)))"
    by (auto simp: old_cleanup_zombie_def old_release_PCB_def unlink_child_def fun_eq_iff)
  have "otable ?t (c # ps)" unfolding otable_def tf a by (rule table_reap [OF s(4) [unfolded otable_def] c])
  moreover have "ofiles_inv ?t xs {} H" using s(1) by (subst ofiles_inv_cong [of _ s]) (simp_all only: tf)
  moreover have "no_files ?t"
    unfolding no_files_def tf using s(5) c fun_cong [OF a(1)] by (metis fun_upd_other no_files_def pid_state.distinct(5))
  ultimately show ?thesis using osys_okI tf s(2,3) by simp
qed

lemma old_sys_WaitChild_ok:
  assumes ok: "osys_with H s" and run: "old_sys_WaitChild cpid [] s = Some (s', r, st)"
  shows "osys_with H s'"
proof -
  obtain xs ps where s: "ofiles_inv s xs {} H" "curproc s < n_proc s" "room (n_proc s * n_fileid s) H" "otable s ps" "no_files s"
    using ok by (rule osys_okD)
  have ex: "q_exited_list (o_PT s (curproc s)) = c # cs \<Longrightarrow> c < n_proc s" for c cs
    using table_invD(6) [OF s(4) [unfolded otable_def] s(2), of c] by simp
  have "s' = s \<or> (\<exists>c<n_proc s. q_pstate (o_PT s c) = ZOMBIE \<and> s' = fst (old_cleanup_zombie c s))"
  proof (cases "cpid = NOPROC")
    case True
    then show ?thesis using run ex
      by (fastforce simp: old_sys_WaitChild_def wait_for_any_child_def case_prod_beta Let_def split: if_splits list.splits Option.bind_splits)
  next
    case False
    have z: "q_pstate (o_PT s c) \<noteq> FREE \<Longrightarrow> q_pstate (o_PT s c) \<noteq> ALIVE \<Longrightarrow> q_pstate (o_PT s c) = ZOMBIE" for c
      by (cases "q_pstate (o_PT s c)") auto
    show ?thesis using run False z [of "nat cpid"]
      by (fastforce simp: old_sys_WaitChild_def wait_for_specific_child_def old_get_pcb_def case_prod_beta Let_def
          split: if_splits option.splits Option.bind_splits)
  qed
  then show ?thesis using cleanup_ok ok by blast
qed

section \<open>Exit\<close>

text \<open>The loop that hands the children of \<open>cur\<close> over to the initial process.\<close>

lemma reparent_loop:
  assumes "cur \<noteq> i"
  shows "fold (\<lambda>child s.
       let s = upd_opcb cur (\<lambda>c. c\<lparr>q_children_list := tl (q_children_list c)\<rparr>) s;
           s = upd_opcb child (\<lambda>c. c\<lparr>q_parent := Some i\<rparr>) s
       in upd_opcb i (\<lambda>c. c\<lparr>q_children_list := child # q_children_list c\<rparr>) s) cs s =
     s\<lparr>o_PT := (\<lambda>x. (o_PT s x)\<lparr>q_children_list := (if x = cur then drop (length cs) (q_children_list (o_PT s x))
          else if x = i then rev cs @ q_children_list (o_PT s x) else q_children_list (o_PT s x)),
        q_parent := (if x \<in> set cs then Some i else q_parent (o_PT s x))\<rparr>)\<rparr>"
  using assms
proof (induction cs arbitrary: s)
  case Nil
  have e: "(\<lambda>x. (o_PT s x)\<lparr>q_children_list := (if x = cur then drop (length []) (q_children_list (o_PT s x))
          else if x = i then rev [] @ q_children_list (o_PT s x) else q_children_list (o_PT s x)),
        q_parent := (if x \<in> set [] then Some i else q_parent (o_PT s x))\<rparr>) = o_PT s" by (rule ext) simp
  show ?case unfolding e by simp
next
  case (Cons c cs)
  then show ?case by (auto simp: Let_def upd_opcb_def fun_eq_iff drop_Suc tl_drop)
qed

text \<open>Closing every file of the current process.\<close>

lemma close_files_loop:
  assumes "ofiles_with H s" and "m \<le> n_fileid s"
    and "for_each (\<lambda>i s. case q_FIDT (o_PT s (curproc s)) i of None \<Rightarrow> Some s
            | Some f \<Rightarrow> do { (t, r) \<leftarrow> old_FCB_decref f s; Some (set_oFIDT (curproc s) i None t) }) [0..<m] s = Some u"
  shows "ofiles_with H u \<and> procs_same s u \<and> (\<forall>f<m. q_FIDT (o_PT u (curproc s)) f = None)"
  using assms
proof (induction m arbitrary: u)
  case (Suc m)
  let ?body = "\<lambda>i s. case q_FIDT (o_PT s (curproc s)) i of None \<Rightarrow> Some s
            | Some f \<Rightarrow> do { (t, r) \<leftarrow> old_FCB_decref f s; Some (set_oFIDT (curproc s) i None t) }"
  from Suc.prems(3) obtain t where t: "for_each ?body [0..<m] s = Some t" "?body m t = Some u"
    by (auto simp: for_each_append split: Option.bind_splits)
  have IH: "ofiles_with H t" "procs_same s t" "\<forall>f<m. q_FIDT (o_PT t (curproc s)) f = None" using Suc.IH [OF Suc.prems(1) _ t(1)] Suc.prems(2) by simp_all
  have P: "n_proc t = n_proc s" "n_fileid t = n_fileid s" "curproc t = curproc s" using IH(2) by (simp_all add: procs_same_def)
  show ?case
  proof (cases "q_FIDT (o_PT t (curproc t)) m")
    case None
    then show ?thesis using t(2) IH P by (auto simp: less_Suc_eq)
  next
    case (Some f)
    then obtain v r where v: "old_FCB_decref f t = Some (v, r)" "u = set_oFIDT (curproc t) m None v" using t(2) by (auto split: Option.bind_splits)
    obtain xs where i: "ofiles_inv t xs {} H" "curproc t < n_proc t" "room (n_proc t * n_fileid t) H" using IH(1) by (rule ofiles_okD)
    have m: "m < n_fileid t" using Suc.prems(2) P(2) by simp
    note E = decref_entry_inv [OF i(1,2) m Some i(3) v(1)]
    have "ofiles_with H u" using E i(2,3) unfolding v(2) by (auto intro: ofiles_okI)
    moreover have "procs_same t v" using decref_frame [OF v(1)] by (simp add: procs_same_def)
    then have "procs_same t u" unfolding v(2) by (rule procs_same_set_oFIDT)
    then have "procs_same s u" by (rule procs_same_trans [OF IH(2)])
    moreover have "q_FIDT (o_PT u (curproc s)) g = None" if "g < Suc m" for g
      using that IH(3) E(5) by (auto simp: v(2) P less_Suc_eq)
    ultimately show ?thesis by blast
  qed
qed (simp add: procs_same_def)

lemma exit_close_files_ok:
  assumes "ofiles_with H s" and "cur = curproc s" and "exit_close_files cur s = Some u"
  shows "ofiles_with H u \<and> procs_same s u \<and> (\<forall>f<n_fileid s. q_FIDT (o_PT u cur) f = None)"
proof -
  have loop: "for_each (\<lambda>i s. case q_FIDT (o_PT s cur) i of None \<Rightarrow> Some s
        | Some f \<Rightarrow> do { (s, r) \<leftarrow> old_FCB_decref f s; Some (set_oFIDT cur i None s) }) is t
      = for_each (\<lambda>i s. case q_FIDT (o_PT s (curproc s)) i of None \<Rightarrow> Some s
            | Some f \<Rightarrow> do { (t, r) \<leftarrow> old_FCB_decref f s; Some (set_oFIDT (curproc s) i None t) }) is t" if "curproc t = cur" for "is" t
    using that
  proof (induction "is" arbitrary: t)
    case (Cons i "is")
    then show ?case by (auto split: option.splits Option.bind_splits dest: decref_frame(3))
  qed simp
  have "curproc s = cur" using assms(2) by simp
  from close_files_loop [OF assms(1) le_refl assms(3) [unfolded exit_close_files_def loop [OF this]]]
  show ?thesis unfolding assms(2) .
qed

text \<open>\<open>exit_reparent\<close> as a change of the tree.\<close>

lemma exit_reparent_tree:
  assumes cur: "cur \<noteq> 1" "cur \<notin> set (q_children_list (o_PT s cur))" and run: "exit_reparent cur s = Some t"
  shows "\<exists>q. q_parent (o_PT s cur) = Some q \<and> (\<lambda>x. q_pstate (o_PT t x)) = (\<lambda>x. q_pstate (o_PT s x))
    \<and> (\<lambda>x. q_parent (o_PT t x)) = (\<lambda>x. if x \<in> set (q_children_list (o_PT s cur)) then Some 1 else q_parent (o_PT s x))
    \<and> (\<lambda>x. q_children_list (o_PT t x)) = (\<lambda>x. q_children_list (o_PT s x))(cur := [],
         1 := rev (q_children_list (o_PT s cur)) @ q_children_list (o_PT s 1))
    \<and> (\<lambda>x. q_exited_list (o_PT t x)) = (let e = (\<lambda>x. q_exited_list (o_PT s x))(cur := [], 1 := q_exited_list (o_PT s 1) @ q_exited_list (o_PT s cur))
         in e(q := cur # e q))"
    and "n_proc t = n_proc s" "n_fileid t = n_fileid s" "curproc t = curproc s" "o_FCB_freelist t = o_FCB_freelist s"
    "o_FT t = o_FT s" "pcb_freelist t = pcb_freelist s" "q_FIDT (o_PT t x) = q_FIDT (o_PT s x)" "q_exitval (o_PT t x) = q_exitval (o_PT s x)"
proof -
  have q1: "old_get_pcb 1 s = Some 1" using run by (auto simp: exit_reparent_def old_get_pcb_def split: if_splits)
  define cs where "cs = q_children_list (o_PT s cur)"
  define u where "u = s\<lparr>o_PT := (\<lambda>x. (o_PT s x)\<lparr>q_children_list := (if x = cur then drop (length cs) (q_children_list (o_PT s x))
          else if x = 1 then rev cs @ q_children_list (o_PT s x) else q_children_list (o_PT s x)),
        q_parent := (if x \<in> set cs then Some 1 else q_parent (o_PT s x))\<rparr>)\<rparr>"
  define v where "v = (if q_exited_list (o_PT u cur) \<noteq> [] then
       upd_opcb 1 (\<lambda>c. c\<lparr>q_exited_list := q_exited_list c @ q_exited_list (o_PT u cur), q_child_exit := []\<rparr>) (upd_opcb cur (\<lambda>c. c\<lparr>q_exited_list := []\<rparr>) u)
     else u)"
  have t: "do { par \<leftarrow> q_parent (o_PT v cur); Some (upd_opcb par (\<lambda>c. c\<lparr>q_exited_list := cur # q_exited_list c, q_child_exit := []\<rparr>) v) } = Some t"
    using run unfolding exit_reparent_def q1 bind.bind_lunit reparent_loop [OF cur(1)] cs_def [symmetric] u_def [symmetric]
    unfolding Let_def v_def .
  have uf: "q_exited_list (o_PT u x) = q_exited_list (o_PT s x)" "q_pstate (o_PT u x) = q_pstate (o_PT s x)" "q_FIDT (o_PT u x) = q_FIDT (o_PT s x)"
    "q_parent (o_PT u x) = (if x \<in> set cs then Some 1 else q_parent (o_PT s x))"
    "q_children_list (o_PT u x) = (if x = cur then [] else if x = 1 then rev cs @ q_children_list (o_PT s x) else q_children_list (o_PT s x))"
    "n_proc u = n_proc s" "n_fileid u = n_fileid s" "curproc u = curproc s" "o_FCB_freelist u = o_FCB_freelist s" "o_FT u = o_FT s"
    "pcb_freelist u = pcb_freelist s" for x
    using cur(1) by (simp_all add: u_def cs_def)
  have vf: "q_exited_list (o_PT v x) = (if x = cur then [] else if x = 1 then q_exited_list (o_PT s 1) @ q_exited_list (o_PT s cur) else q_exited_list (o_PT s x))"
    "q_pstate (o_PT v x) = q_pstate (o_PT u x)" "q_FIDT (o_PT v x) = q_FIDT (o_PT u x)" "q_parent (o_PT v x) = q_parent (o_PT u x)"
    "q_children_list (o_PT v x) = q_children_list (o_PT u x)" "n_proc v = n_proc u" "n_fileid v = n_fileid u" "curproc v = curproc u"
    "o_FCB_freelist v = o_FCB_freelist u" "o_FT v = o_FT u" "pcb_freelist v = pcb_freelist u" for x
    using cur(1) by (auto simp: v_def uf)
  obtain q where q: "q_parent (o_PT v cur) = Some q" "t = upd_opcb q (\<lambda>c. c\<lparr>q_exited_list := cur # q_exited_list c, q_child_exit := []\<rparr>) v"
    using t by (auto split: Option.bind_splits)
  have qp: "q_parent (o_PT s cur) = Some q" using q(1) cur(2) by (simp add: vf uf cs_def)
  show "n_proc t = n_proc s" "n_fileid t = n_fileid s" "curproc t = curproc s" "o_FCB_freelist t = o_FCB_freelist s"
    "o_FT t = o_FT s" "pcb_freelist t = pcb_freelist s" "q_FIDT (o_PT t x) = q_FIDT (o_PT s x)"
    by (simp_all add: q(2) vf uf)
  show "q_exitval (o_PT t x) = q_exitval (o_PT s x)" by (simp add: q(2) v_def u_def)
  show "\<exists>q. q_parent (o_PT s cur) = Some q \<and> (\<lambda>x. q_pstate (o_PT t x)) = (\<lambda>x. q_pstate (o_PT s x))
    \<and> (\<lambda>x. q_parent (o_PT t x)) = (\<lambda>x. if x \<in> set (q_children_list (o_PT s cur)) then Some 1 else q_parent (o_PT s x))
    \<and> (\<lambda>x. q_children_list (o_PT t x)) = (\<lambda>x. q_children_list (o_PT s x))(cur := [],
         1 := rev (q_children_list (o_PT s cur)) @ q_children_list (o_PT s 1))
    \<and> (\<lambda>x. q_exited_list (o_PT t x)) = (let e = (\<lambda>x. q_exited_list (o_PT s x))(cur := [], 1 := q_exited_list (o_PT s 1) @ q_exited_list (o_PT s cur))
         in e(q := cur # e q))"
  proof (intro exI [of _ q] conjI qp)
    show "(\<lambda>x. q_pstate (o_PT t x)) = (\<lambda>x. q_pstate (o_PT s x))" by (simp add: fun_eq_iff q(2) vf uf)
    show "(\<lambda>x. q_parent (o_PT t x)) = (\<lambda>x. if x \<in> set (q_children_list (o_PT s cur)) then Some 1 else q_parent (o_PT s x))"
      by (simp add: fun_eq_iff q(2) vf uf cs_def)
    show "(\<lambda>x. q_children_list (o_PT t x)) = (\<lambda>x. q_children_list (o_PT s x))(cur := [],
         1 := rev (q_children_list (o_PT s cur)) @ q_children_list (o_PT s 1))" using cur(1) by (auto simp: fun_eq_iff q(2) vf uf cs_def)
    show "(\<lambda>x. q_exited_list (o_PT t x)) = (let e = (\<lambda>x. q_exited_list (o_PT s x))(cur := [], 1 := q_exited_list (o_PT s 1) @ q_exited_list (o_PT s cur))
         in e(q := cur # e q))" using cur(1) by (auto simp: fun_eq_iff q(2) vf uf)
  qed
qed

lemma exit_finish:
  assumes ok: "ofiles_with H s" "no_files s" "cur = curproc s" and tab: "otable (upd_opcb cur (\<lambda>c. c\<lparr>q_pstate := ZOMBIE\<rparr>) s) ps"
    and run: "exit_close_files cur (upd_opcb cur (\<lambda>c. c\<lparr>q_args := None\<rparr>) s) = Some u"
  shows "osys_with H (upd_opcb cur (\<lambda>c. c\<lparr>q_main_thread := None, q_pstate := ZOMBIE\<rparr>) u)"
proof -
  let ?s = "upd_opcb cur (\<lambda>c. c\<lparr>q_args := None\<rparr>) s" and ?u = "upd_opcb cur (\<lambda>c. c\<lparr>q_main_thread := None, q_pstate := ZOMBIE\<rparr>) u"
  have i: "ofiles_inv ?s xs {} H = ofiles_inv s xs {} H" for xs by (rule ofiles_inv_cong) simp_all
  have "ofiles_with H ?s" using ok(1) by (simp add: ofiles_with_def i)
  from exit_close_files_ok [OF this _ run] ok(3)
  have C: "ofiles_with H u" "procs_same ?s u" "\<And>f. f < n_fileid s \<Longrightarrow> q_FIDT (o_PT u cur) f = None" by simp_all
  note F = procs_same_fields [OF C(2)] procs_same_lists [OF C(2)]
  have g: "n_proc u = n_proc s" "n_fileid u = n_fileid s" "curproc u = curproc s" "pcb_freelist u = pcb_freelist s"
    "p \<noteq> cur \<Longrightarrow> q_FIDT (o_PT u p) = q_FIDT (o_PT s p)" for p using C(2) ok(3) by (simp_all add: procs_same_def)
  obtain ys where y: "ofiles_inv u ys {} H" "curproc u < n_proc u" "room (n_proc u * n_fileid u) H" using C(1) by (rule ofiles_okD)
  have "ofiles_inv ?u ys {} H" using y(1) by (subst ofiles_inv_cong [of _ u]) simp_all
  moreover have "(\<lambda>x. q_pstate (o_PT ?u x)) = (\<lambda>x. q_pstate (o_PT (upd_opcb cur (\<lambda>c. c\<lparr>q_pstate := ZOMBIE\<rparr>) s) x))"
    "(\<lambda>x. q_parent (o_PT ?u x)) = (\<lambda>x. q_parent (o_PT (upd_opcb cur (\<lambda>c. c\<lparr>q_pstate := ZOMBIE\<rparr>) s) x))"
    "(\<lambda>x. q_children_list (o_PT ?u x)) = (\<lambda>x. q_children_list (o_PT (upd_opcb cur (\<lambda>c. c\<lparr>q_pstate := ZOMBIE\<rparr>) s) x))"
    "(\<lambda>x. q_exited_list (o_PT ?u x)) = (\<lambda>x. q_exited_list (o_PT (upd_opcb cur (\<lambda>c. c\<lparr>q_pstate := ZOMBIE\<rparr>) s) x))"
    by (auto simp: fun_eq_iff F)
  then have "otable ?u ps" using tab unfolding otable_def by (simp only: upd_opcb_simps g)
  moreover have "no_files ?u" using ok(2) C(3) by (auto simp: no_files_def g F)
  ultimately show ?thesis using osys_okI y(2,3) by simp
qed

text \<open>The guard that the initial process is alive stands for the use the system makes of it: it exits last, after it
  has waited for everybody.\<close>

definition init_alive :: "okernel \<Rightarrow> bool" where
  "init_alive s \<longleftrightarrow> 1 < n_proc s \<and> q_pstate (o_PT s 1) = ALIVE"

lemma exit_process_ok:
  assumes ok: "osys_with H s" and alive: "cur_alive s" "init_alive s" and run: "exit_process (curproc s) s = Some s'"
  shows "osys_with H s'"
proof -
  let ?cur = "curproc s"
  obtain xs ps where s: "ofiles_inv s xs {} H" "?cur < n_proc s" "room (n_proc s * n_fileid s) H" "otable s ps" "no_files s"
    using ok by (rule osys_okD)
  note T = s(4) [unfolded otable_def]
  obtain t u where t: "(if old_get_pid (Some ?cur) \<noteq> 1 then exit_reparent ?cur s else Some s) = Some t"
    "q_children_list (o_PT t ?cur) = []" "exit_close_files ?cur (upd_opcb ?cur (\<lambda>c. c\<lparr>q_args := None\<rparr>) t) = Some u"
    "s' = upd_opcb ?cur (\<lambda>c. c\<lparr>q_main_thread := None, q_pstate := ZOMBIE\<rparr>) u"
    using run by (auto simp: exit_process_def exit_free_ptcbs_def Let_def split: Option.bind_splits if_splits)
  let ?z = "upd_opcb ?cur (\<lambda>c. c\<lparr>q_pstate := ZOMBIE\<rparr>)"
  have "otable (?z t) ps \<and> ofiles_with H t \<and> no_files t \<and> ?cur = curproc t"
  proof (cases "?cur = 1")
    case True
    then have ts: "t = s" using t(1) by (simp add: old_get_pid_def)
    have a: "(\<lambda>x. q_pstate (o_PT (?z s) x)) = (\<lambda>x. q_pstate (o_PT s x))(1 := ZOMBIE)" "(\<lambda>x. q_parent (o_PT (?z s) x)) = (\<lambda>x. q_parent (o_PT s x))"
      "(\<lambda>x. q_children_list (o_PT (?z s) x)) = (\<lambda>x. q_children_list (o_PT s x))" "(\<lambda>x. q_exited_list (o_PT (?z s) x)) = (\<lambda>x. q_exited_list (o_PT s x))"
      using True by (auto simp: fun_eq_iff)
    have "otable (?z s) ps" unfolding otable_def a
      using table_exit_init [OF T] alive(2) t(2) True by (simp add: init_alive_def ts)
    then show ?thesis using ts ok s(5) by (simp add: osys_with_def)
  next
    case False
    then have r: "exit_reparent ?cur s = Some t" using t(1) by (simp add: old_get_pid_def)
    have nc: "?cur \<notin> set (q_children_list (o_PT s ?cur))"
      using table_invD(5,7) [OF T s(2), of ?cur] alive(1) by auto
    note R = exit_reparent_tree [OF False nc r]
    from R(1) obtain q where q: "q_parent (o_PT s ?cur) = Some q" "(\<lambda>x. q_pstate (o_PT t x)) = (\<lambda>x. q_pstate (o_PT s x))"
      "(\<lambda>x. q_parent (o_PT t x)) = (\<lambda>x. if x \<in> set (q_children_list (o_PT s ?cur)) then Some 1 else q_parent (o_PT s x))"
      "(\<lambda>x. q_children_list (o_PT t x)) = (\<lambda>x. q_children_list (o_PT s x))(?cur := [], 1 := rev (q_children_list (o_PT s ?cur)) @ q_children_list (o_PT s 1))"
      "(\<lambda>x. q_exited_list (o_PT t x)) = (let e = (\<lambda>x. q_exited_list (o_PT s x))(?cur := [], 1 := q_exited_list (o_PT s 1) @ q_exited_list (o_PT s ?cur))
         in e(q := ?cur # e q))" by blast
    have a: "(\<lambda>x. q_pstate (o_PT (?z t) x)) = (\<lambda>x. q_pstate (o_PT s x))(?cur := ZOMBIE)" "(\<lambda>x. q_parent (o_PT (?z t) x)) = (\<lambda>x. q_parent (o_PT t x))"
      "(\<lambda>x. q_children_list (o_PT (?z t) x)) = (\<lambda>x. q_children_list (o_PT t x))" "(\<lambda>x. q_exited_list (o_PT (?z t) x)) = (\<lambda>x. q_exited_list (o_PT t x))"
      using fun_cong [OF q(2)] by (auto simp: fun_eq_iff)
    have z: "n_proc (?z t) = n_proc s" "pcb_freelist (?z t) = pcb_freelist s" using R(2,7) by simp_all
    have "otable (?z t) ps"
      unfolding otable_def a q(3-5) z
      using table_exit [OF T s(2) _ False _ _ q(1)] alive by (simp add: init_alive_def)
    moreover have "ofiles_inv t xs {} H" using s(1) by (subst ofiles_inv_cong [of _ s]) (simp_all only: R)
    then have "ofiles_with H t" using ofiles_okI s(2,3) R by simp
    moreover have "no_files t" using s(5) fun_cong [OF q(2)] by (simp add: no_files_def R)
    ultimately show ?thesis using R(4) by simp
  qed
  then show ?thesis using exit_finish [OF _ _ _ _ t(3)] t(4) by blast
qed

text \<open>The tree after the last thread of a process other than the initial one has exited.\<close>

lemma exit_process_tree:
  assumes ok: "osys_with H s" and alive: "cur_alive s" and cur: "curproc s \<noteq> 1" and run: "exit_process (curproc s) s = Some s'"
  shows "q_pstate (o_PT s' (curproc s)) = ZOMBIE" "p \<noteq> curproc s \<Longrightarrow> q_pstate (o_PT s' p) = q_pstate (o_PT s p)"
    "q_parent (o_PT s' p) = (if p \<in> set (q_children_list (o_PT s (curproc s))) then Some 1 else q_parent (o_PT s p))"
    "q_children_list (o_PT s' 1) = rev (q_children_list (o_PT s (curproc s))) @ q_children_list (o_PT s 1)"
    "q_exitval (o_PT s' p) = q_exitval (o_PT s p)" "f < n_fileid s \<Longrightarrow> q_FIDT (o_PT s' (curproc s)) f = None"
    "n_proc s' = n_proc s" "curproc s \<notin> set (q_children_list (o_PT s (curproc s)))"
proof -
  let ?cur = "curproc s"
  obtain ps where s: "?cur < n_proc s" "otable s ps" using ok by (rule osys_okD)
  obtain t u where t: "exit_reparent ?cur s = Some t" "exit_close_files ?cur (upd_opcb ?cur (\<lambda>c. c\<lparr>q_args := None\<rparr>) t) = Some u"
    "s' = upd_opcb ?cur (\<lambda>c. c\<lparr>q_main_thread := None, q_pstate := ZOMBIE\<rparr>) u"
    using run cur by (auto simp: exit_process_def exit_free_ptcbs_def old_get_pid_def Let_def split: Option.bind_splits if_splits)
  show nc: "?cur \<notin> set (q_children_list (o_PT s ?cur))"
    using table_invD(5,7) [OF s(2) [unfolded otable_def] s(1), of ?cur] alive by auto
  note R = exit_reparent_tree [OF cur nc t(1)]
  let ?t = "upd_opcb ?cur (\<lambda>c. c\<lparr>q_args := None\<rparr>) t"
  have "ofiles_inv ?t xs {} H = ofiles_inv s xs {} H" for xs by (rule ofiles_inv_cong) (use R in simp_all)
  then have "ofiles_with H ?t" using ok R by (simp add: osys_with_def ofiles_with_def)
  from exit_close_files_ok [OF this _ t(2)] R(3,4)
  have C: "procs_same ?t u" "\<And>f. f < n_fileid s \<Longrightarrow> q_FIDT (o_PT u ?cur) f = None" by simp_all
  note F = procs_same_fields [OF C(1)] procs_same_lists [OF C(1)]
  have b: "(o_PT u x)\<lparr>q_FIDT := q_FIDT (o_PT ?t x)\<rparr> = o_PT ?t x" for x using C(1) by (simp add: procs_same_def)
  have ev: "q_exitval (o_PT u x) = q_exitval (o_PT ?t x)" for x using arg_cong [OF b [of x], of q_exitval] by simp
  from R(1) have e: "(\<lambda>x. q_pstate (o_PT t x)) = (\<lambda>x. q_pstate (o_PT s x))"
    "(\<lambda>x. q_parent (o_PT t x)) = (\<lambda>x. if x \<in> set (q_children_list (o_PT s ?cur)) then Some 1 else q_parent (o_PT s x))"
    "(\<lambda>x. q_children_list (o_PT t x)) = (\<lambda>x. q_children_list (o_PT s x))(?cur := [], 1 := rev (q_children_list (o_PT s ?cur)) @ q_children_list (o_PT s 1))"
    by blast+
  have q: "q_pstate (o_PT t x) = q_pstate (o_PT s x)" "q_parent (o_PT t x) = (if x \<in> set (q_children_list (o_PT s ?cur)) then Some 1 else q_parent (o_PT s x))"
    "q_children_list (o_PT t 1) = rev (q_children_list (o_PT s ?cur)) @ q_children_list (o_PT s 1)" for x
    using fun_cong [OF e(1), of x] fun_cong [OF e(2), of x] fun_cong [OF e(3), of 1] by simp_all
  show "q_pstate (o_PT s' ?cur) = ZOMBIE" "p \<noteq> ?cur \<Longrightarrow> q_pstate (o_PT s' p) = q_pstate (o_PT s p)"
    "q_parent (o_PT s' p) = (if p \<in> set (q_children_list (o_PT s ?cur)) then Some 1 else q_parent (o_PT s p))"
    "q_children_list (o_PT s' 1) = rev (q_children_list (o_PT s ?cur)) @ q_children_list (o_PT s 1)"
    "q_exitval (o_PT s' p) = q_exitval (o_PT s p)" "f < n_fileid s \<Longrightarrow> q_FIDT (o_PT s' ?cur) f = None" "n_proc s' = n_proc s"
    using q C(2) cur C(1) R(2) R(9) by (auto simp: t(3) F ev procs_same_def)
qed

lemma old_sys_ThreadExit_ok:
  assumes ok: "osys_with H s" and alive: "cur_alive s" "init_alive s" and run: "old_sys_ThreadExit v s = Some s'"
  shows "osys_with H s'"
proof -
  let ?t = "upd_opcb (curproc s) (\<lambda>c. c\<lparr>q_thread_count := q_thread_count c - 1\<rparr>)
      (upd_optcb (curptcb s) (\<lambda>c. c\<lparr>t_exitval := v, t_exited := True, t_exit_cv := []\<rparr>) s)"
  obtain t where t: "same_tables s t" "s' = t \<or> exit_process (curproc s) t = Some s'"
  proof
    show "same_tables s ?t" by (simp add: same_tables_def upd_optcb_def)
    have "curproc (upd_optcb i g s) = curproc s" for i g by (simp add: upd_optcb_def)
    then show "s' = ?t \<or> exit_process (curproc s) ?t = Some s'"
      using run by (auto simp: old_sys_ThreadExit_def Let_def split: Option.bind_splits if_splits)
  qed
  have S: "curproc t = curproc s" "n_proc t = n_proc s" "q_pstate (o_PT t p) = q_pstate (o_PT s p)" for p
    using t(1) by (simp_all add: same_tables_def)
  have "osys_with H t" "cur_alive t" "init_alive t" using same_tables_ok [OF t(1)] ok alive S by (simp_all add: init_alive_def)
  then show ?thesis using exit_process_ok [of H t s'] t(2) S(1) by auto
qed

end
