(* ===== verification/Old_System.thy ===== *)
theory Old_System
  imports Old_Proc_Props
begin

text \<open>
  The earlier kernel as a step relation. A system call that waits gives the kernel up in the middle, so a step is a call that
  does not wait, or a part of one that does: the work up to a wait, or from the last wait to the end. Between the parts of one
  call the other processes make their own steps.
\<close>

section \<open>The state\<close>

text \<open>The kernel, with the FCBs that the calls of \<open>Read\<close> and \<open>Write\<close> in progress have in their local variable \<open>fcb\<close>, one entry for
  each call. Each of them holds a reference.\<close>

type_synonym osystem = "nat list \<times> okernel"

definition holds :: "nat list \<Rightarrow> nat \<Rightarrow> int" where
  "holds L i = int (count_list L i)"

lemma holds_Nil [simp]: "holds [] = no_holds"
  by (simp add: holds_def fun_eq_iff)

lemma holds_Cons: "holds (i # L) = (holds L)(i := holds L i + 1)"
  by (auto simp: holds_def fun_eq_iff)

lemma holds_remove1: "i \<in> set L \<Longrightarrow> holds (remove1 i L) = (holds L)(i := holds L i - 1)"
proof -
  have "i \<in> set L \<Longrightarrow> int (count_list (remove1 i L) j) = (if j = i then int (count_list L i) - 1 else int (count_list L j))" for j
    by (induction L) auto
  then show "i \<in> set L \<Longrightarrow> ?thesis" by (auto simp: holds_def fun_eq_iff)
qed

lemma holds_member: "i \<in> set L \<Longrightarrow> 1 \<le> holds L i"
  by (induction L) (auto simp: holds_def)

text \<open>The tables are consistent, where the reference count of an FCB is the number of file ids and of calls in progress.\<close>

fun osystem_ok :: "osystem \<Rightarrow> bool" where
  "osystem_ok (L, s) \<longleftrightarrow> osys_with (holds L) s \<and> set L \<subseteq> {..<n_proc s}"

section \<open>The steps\<close>

text \<open>The end of \<open>ThreadJoin\<close>, after its loop.\<close>

definition join_end :: "nat \<Rightarrow> okernel \<Rightarrow> (okernel \<times> int \<times> int option) option" where
  "join_end tid s = do {
     c \<leftarrow> ptcbs s tid;
     if t_detached c then Some (s, -1, None)
     else do {
       let s = upd_optcb tid (\<lambda>c. c\<lparr>t_refcount := t_refcount c - 1\<rparr>) s;
       let v = t_exitval c;
       c \<leftarrow> ptcbs s tid;
       if t_refcount c = 0 then
         (let s = s\<lparr>o_PT := (\<lambda>q. (o_PT s q)\<lparr>q_ptcb_list := removeAll tid (q_ptcb_list (o_PT s q))\<rparr>)\<rparr>
          in Some (s\<lparr>ptcbs := (ptcbs s)(tid := None)\<rparr>, 0, Some v))
       else Some (s, 0, Some v) } }"

text \<open>In \<open>Read\<close> and \<open>Write\<close> (\<open>o_begin\<close> to \<open>o_end\<close>) the stream function and the stream are the local variables \<open>devread\<close> and
  \<open>sobj\<close>: here they, the size and the waits of a part are anything. \<open>o_reap\<close> is the end of a \<open>WaitChild\<close> for one child: the child
  is a zombie. It may have been reaped by somebody else in the meantime and its PCB be free; that end of the call is not a step
  here, it breaks the free list (theory Old_Calls). A process exits while the initial process is
  alive. \<open>o_preempt\<close> is a driver that switches the interrupts off or on.\<close>

inductive ostep :: "osystem \<Rightarrow> osystem \<Rightarrow> bool" where
  o_switch: "p < n_proc s \<Longrightarrow> q_pstate (o_PT s p) = ALIVE \<Longrightarrow> ostep (L, s) (L, s\<lparr>curproc := p, curptcb := t\<rparr>)"
| o_preempt: "ostep (L, s) (L, s\<lparr>preempt := b\<rparr>)"
| o_Open: "cur_alive s \<Longrightarrow> old_open_stream d m s = Some (s', r) \<Longrightarrow> ostep (L, s) (L, s')"
| o_begin: "cur_alive s \<Longrightarrow> get_fcb fd s = Some i \<Longrightarrow> int (n_proc s * n_fileid s) + holds L i + 1 < 2 ^ 32 \<Longrightarrow>
    ostep (L, s) (i # L, old_FCB_incref i s)"
| o_Read: "cur_alive s \<Longrightarrow> L \<noteq> [] \<Longrightarrow> undisturbed e \<Longrightarrow> old_call_Read fo obj n e s = Some (s', r, x) \<Longrightarrow> ostep (L, s) (L, s')"
| o_Write: "cur_alive s \<Longrightarrow> L \<noteq> [] \<Longrightarrow> undisturbed e \<Longrightarrow> old_call_Write fo obj buf e s = Some (s', r) \<Longrightarrow> ostep (L, s) (L, s')"
| o_end: "cur_alive s \<Longrightarrow> i \<in> set L \<Longrightarrow> old_FCB_decref i s = Some (s', r) \<Longrightarrow> ostep (L, s) (remove1 i L, s')"
| o_Close: "cur_alive s \<Longrightarrow> old_sys_Close fd s = Some (s', r) \<Longrightarrow> ostep (L, s) (L, s')"
| o_Dup2: "cur_alive s \<Longrightarrow> sys_Dup2 fd fd' s = Some (s', r) \<Longrightarrow> ostep (L, s) (L, s')"
| o_Pipe: "cur_alive s \<Longrightarrow> sys_Pipe mem h s = Some (s', r, ends) \<Longrightarrow> ostep (L, s) (L, s')"
| o_Socket: "cur_alive s \<Longrightarrow> sys_Socket port s = (s', r) \<Longrightarrow> ostep (L, s) (L, s')"
| o_Listen: "cur_alive s \<Longrightarrow> sys_Listen fd s = Some (s', r) \<Longrightarrow> ostep (L, s) (L, s')"
| o_Accept: "cur_alive s \<Longrightarrow> ostep (L, s) (L, upd_socket k (\<lambda>c. c\<lparr>s_refcount := s_refcount c + 1\<rparr>) s)"
| o_accepted: "cur_alive s \<Longrightarrow> accept_request m1 m2 h k port s = Some (s', r) \<Longrightarrow> ostep (L, s) (L, s')"
| o_Connect: "cur_alive s \<Longrightarrow> connect_enqueue k j s = Some (s', req) \<Longrightarrow> ostep (L, s) (L, s')"
| o_connected: "cur_alive s \<Longrightarrow> ostep (L, s) (L, drop_ref k s)"
| o_ShutDown: "cur_alive s \<Longrightarrow> sys_ShutDown fd how s = Some (s', r) \<Longrightarrow> ostep (L, s) (L, s')"
| o_OpenInfo: "cur_alive s \<Longrightarrow> sys_OpenInfo junk s = (s', r) \<Longrightarrow> ostep (L, s) (L, s')"
| o_Exec: "cur_alive s \<Longrightarrow> old_sys_Exec call al ar s = Some (s', r) \<Longrightarrow> ostep (L, s) (L, s')"
| o_WaitAny: "cur_alive s \<Longrightarrow> wait_for_any_child [] s = Some (s', v) \<Longrightarrow> ostep (L, s) (L, s')"
| o_reap: "cur_alive s \<Longrightarrow> c < n_proc s \<Longrightarrow> q_pstate (o_PT s c) = ZOMBIE \<Longrightarrow> ostep (L, s) (L, fst (old_cleanup_zombie c s))"
| o_CreateThread: "cur_alive s \<Longrightarrow> old_sys_CreateThread tsk al ar s = (s', tid) \<Longrightarrow> ostep (L, s) (L, s')"
| o_ThreadJoin: "cur_alive s \<Longrightarrow> ostep (L, s) (L, upd_optcb tid (\<lambda>c. c\<lparr>t_refcount := t_refcount c + 1\<rparr>) s)"
| o_joined: "cur_alive s \<Longrightarrow> join_end tid s = Some (s', v) \<Longrightarrow> ostep (L, s) (L, s')"
| o_ThreadDetach: "cur_alive s \<Longrightarrow> old_sys_ThreadDetach tid s = Some (s', r) \<Longrightarrow> ostep (L, s) (L, s')"
| o_Exit: "cur_alive s \<Longrightarrow> ostep (L, s) (L, upd_opcb (curproc s) (\<lambda>c. c\<lparr>q_exitval := xv\<rparr>) s)"
| o_ThreadExit: "cur_alive s \<Longrightarrow> init_alive s \<Longrightarrow> old_sys_ThreadExit xv s = Some s' \<Longrightarrow> ostep (L, s) (L, s')"

inductive_cases ostepE: "ostep s s'"

section \<open>Every step keeps the tables consistent\<close>

lemma osys_same: "osys_with H s \<Longrightarrow> cur_alive s \<Longrightarrow> ofiles_same s s' \<Longrightarrow> osys_with H s'"
  using osys_files [of H s s'] keeps_files [of H s s s'] by (simp add: osys_with_def)

lemma osys_switch: "osys_with H s \<Longrightarrow> p < n_proc s \<Longrightarrow> osys_with H (s\<lparr>curproc := p, curptcb := t\<rparr>)"
proof -
  assume s: "osys_with H s" "p < n_proc s"
  have "ofiles_inv (s\<lparr>curproc := p, curptcb := t\<rparr>) xs R held = ofiles_inv s xs R held" for xs R held by (rule ofiles_inv_cong) simp_all
  then show ?thesis using s by (auto simp: osys_with_def ofiles_with_def otable_def no_files_def)
qed

lemma osys_ofiles: "osys_with H s \<Longrightarrow> ofiles_with H s"
  by (simp add: osys_with_def)

text \<open>The references change and the process tables do not.\<close>

lemma osys_held:
  assumes "osys_with H s" and "ofiles_with H' s'"
    and "n_proc s' = n_proc s" "n_fileid s' = n_fileid s" "o_PT s' = o_PT s" "pcb_freelist s' = pcb_freelist s"
  shows "osys_with H' s'"
  using assms by (simp add: osys_with_def otable_def no_files_def)

lemma osys_begin:
  assumes "osys_with (holds L) s" and "get_fcb fd s = Some i" and "int (n_proc s * n_fileid s) + holds L i + 1 < 2 ^ 32"
  shows "osys_with (holds (i # L)) (old_FCB_incref i s)" "i < n_proc s"
proof -
  note B = io_begin_ok [OF osys_ofiles [OF assms(1)] assms(2,3)]
  show "osys_with (holds (i # L)) (old_FCB_incref i s)" unfolding holds_Cons
    by (rule osys_held [OF assms(1) B(1)]) (simp_all, simp add: old_FCB_incref_def)
  show "i < n_proc s" by (rule B(2))
qed

lemma osys_end:
  assumes "osys_with (holds L) s" and "i \<in> set L" and "i < n_proc s" and "old_FCB_decref i s = Some (s', r)"
  shows "osys_with (holds (remove1 i L)) s'"
  unfolding holds_remove1 [OF assms(2)]
  by (rule osys_held [OF assms(1) io_end_ok [OF osys_ofiles [OF assms(1)] assms(3) holds_member [OF assms(2)] assms(4)] decref_frame(1,2,4,5) [OF assms(4)]])

lemma drop_ref_same [simp]: "ofiles_same s (drop_ref k t) = ofiles_same s t"
  by (simp add: drop_ref_def)

lemma connect_enqueue_same: "connect_enqueue k j s = Some (t, req) \<Longrightarrow> ofiles_same s t"
  by (auto simp: connect_enqueue_def Let_def split: Option.bind_splits)

lemma accept_request_ok:
  assumes "ofiles_with H s" and "accept_request m1 m2 h k port s = Some (s', r)"
  shows "ofiles_with H s' \<and> procs_same s s'"
  using accept_request_cases [OF assms(2)]
proof
  assume "s' = drop_ref k s"
  then show ?thesis using keeps_files [of H s s s'] assms(1) by simp
next
  assume "\<exists>g port v f. sys_Socket port (upd_socket k g s) = (v, f)
      \<and> (s' = drop_ref k v \<or> (\<exists>req i w. accept_connect m1 m2 h req i v = Some w \<and> s' = drop_ref k w))"
  then obtain g port v f where v: "sys_Socket port (upd_socket k g s) = (v, f)"
      "s' = drop_ref k v \<or> (\<exists>req i w. accept_connect m1 m2 h req i v = Some w \<and> s' = drop_ref k w)" by blast
  have g: "ofiles_with H (upd_socket k g s)" "procs_same s (upd_socket k g s)" using keeps_files [of H s s "upd_socket k g s"] assms(1) by simp_all
  then have "ofiles_with H v \<and> procs_same s v" using sys_Socket_ok [OF g(1) v(1)] procs_same_trans by blast
  moreover have "ofiles_same v s'" using v(2) accept_connect_same by (metis drop_ref_same ofiles_same_refl)
  ultimately show ?thesis by (rule keeps_files)
qed

lemma thread_calls_tables:
  "old_sys_CreateThread tsk al ar s = (s', tid) \<Longrightarrow> same_tables s s'" "old_sys_ThreadDetach t s = Some (s', r) \<Longrightarrow> same_tables s s'"
  "join_end t s = Some (s', v) \<Longrightarrow> same_tables s s'" "same_tables s (upd_optcb t g s)"
  "same_tables s (upd_opcb (curproc s) (\<lambda>c. c\<lparr>q_exitval := xv\<rparr>) s)"
  by (auto simp: old_sys_CreateThread_def old_create_ptcb_def old_wakeup_def old_sys_ThreadDetach_def join_end_def upd_optcb_def same_tables_def Let_def
      split: if_splits Option.bind_splits)

lemma exited_child:
  assumes "osys_with H s" and "q_exited_list (o_PT s (curproc s)) = c # cs"
  shows "c < n_proc s"
proof -
  obtain ps where "otable s ps" "curproc s < n_proc s" using assms(1) by (rule osys_okD)
  then show ?thesis using table_invD(6) [of "n_proc s" _ _ _ _ _ ps "curproc s" c] assms(2) unfolding otable_def by fastforce
qed

lemma wait_for_any_ok:
  assumes "osys_with H s" and "wait_for_any_child [] s = Some (s', v)"
  shows "osys_with H s'"
proof -
  have "s' = s \<or> (\<exists>c cs. q_exited_list (o_PT s (curproc s)) = c # cs \<and> q_pstate (o_PT s c) = ZOMBIE \<and> s' = fst (old_cleanup_zombie c s))"
    using assms(2) by (auto simp: wait_for_any_child_def case_prod_beta Let_def split: if_splits list.splits Option.bind_splits)
  then show ?thesis using cleanup_ok [OF assms(1)] exited_child [OF assms(1)] assms(1) by blast
qed

lemmas files_steps = osys_files [OF _ _ old_open_stream_ok [OF osys_ofiles]] osys_files [OF _ _ sys_Pipe_ok [OF osys_ofiles]]
  osys_files [OF _ _ sys_Socket_ok [OF osys_ofiles]] osys_files [OF _ _ sys_OpenInfo_ok [OF osys_ofiles]]
  osys_files [OF _ _ accept_request_ok [OF osys_ofiles]] osys_files [OF _ _ conjI [OF old_sys_Close_ok [OF osys_ofiles] old_sys_Close_procs]]
  osys_files [OF _ _ conjI [OF sys_Dup2_ok [OF osys_ofiles] sys_Dup2_procs]]

lemmas same_steps = sys_Listen_same sys_ShutDown_same connect_enqueue_same old_call_Read_same old_call_Write_same

text \<open>The calls in progress stay the same, and so does the size of the tables.\<close>

lemma ostep_tables:
  assumes "ostep (L, s) (L', s')" and "osys_with (holds L) s" and "set L \<subseteq> {..<n_proc s}"
  shows "osys_with (holds L') s' \<and> set L' \<subseteq> {..<n_proc s}"
  using assms
proof (cases rule: ostep.cases)
  case (o_begin fd i)
  then show ?thesis using osys_begin [of L s fd i] assms(2,3) by auto
next
  case (o_end i r)
  then show ?thesis using osys_end [of L s i s' r] assms(2,3) set_remove1_subset [of i L] by auto
next
  case (o_switch p t)
  then show ?thesis using osys_switch assms(2,3) by blast
next
  case (o_preempt b)
  have "same_tables s s'" unfolding o_preempt by (simp add: same_tables_def)
  then show ?thesis using same_tables_ok assms(2,3) o_preempt by blast
next
  case (o_Accept k)
  then show ?thesis using osys_same [OF assms(2), of s'] assms(3) by simp
next
  case (o_connected k)
  then show ?thesis using osys_same [OF assms(2), of s'] assms(3) by simp
qed (use assms(2,3) in \<open>blast intro: files_steps osys_same [OF _ _ same_steps(1)] osys_same [OF _ _ same_steps(2)] osys_same [OF _ _ same_steps(3)]
  osys_same [OF _ _ same_steps(4)] osys_same [OF _ _ same_steps(5)]
  old_sys_Exec_ok old_sys_ThreadExit_ok wait_for_any_ok cleanup_ok thread_calls_tables [THEN same_tables_ok, THEN iffD2]\<close>)+

text \<open>No step changes the size of the tables.\<close>

lemma for_each_frame:
  "for_each f xs s = Some t \<Longrightarrow> (\<And>x s t. f x s = Some t \<Longrightarrow> g t = g s) \<Longrightarrow> g t = g s"
  by (induction xs arbitrary: s) (auto split: Option.bind_splits)

lemma exit_close_files_n_proc: "exit_close_files cur s = Some t \<Longrightarrow> n_proc t = n_proc s"
  unfolding exit_close_files_def by (erule for_each_frame) (auto split: option.splits Option.bind_splits dest: decref_frame(1))

lemma exit_reparent_n_proc: "exit_reparent cur s = Some t \<Longrightarrow> n_proc t = n_proc s"
  by (auto simp: exit_reparent_def Let_def fold_frame [where g = n_proc] split: Option.bind_splits if_splits)

lemma ThreadExit_n_proc: "old_sys_ThreadExit v s = Some t \<Longrightarrow> n_proc t = n_proc s"
  by (auto simp: old_sys_ThreadExit_def exit_process_def exit_free_ptcbs_def upd_optcb_def Let_def split: Option.bind_splits if_splits
      dest!: exit_close_files_n_proc exit_reparent_n_proc)

lemma Exec_n_proc: "old_sys_Exec call al ar s = Some (t, r) \<Longrightarrow> n_proc t = n_proc s"
proof -
  have "n_proc (fold (inherit_file c p) fs u) = n_proc u" for c p fs u
    by (rule fold_frame) (use ft_only_fields(1) [OF ft_only_inherit] in simp)
  then show "old_sys_Exec call al ar s = Some (t, r) \<Longrightarrow> n_proc t = n_proc s"
    by (auto simp: old_sys_Exec_def old_acquire_PCB_def old_exec_parent_def old_create_ptcb_def old_wakeup_def Let_def split: option.splits Option.bind_splits if_splits)
qed

lemma procs_same_n_proc: "P \<and> procs_same s t \<Longrightarrow> n_proc t = n_proc s"
  by (simp add: procs_same_def)

lemma tables_n_proc: "same_tables s t \<Longrightarrow> n_proc t = n_proc s" "ofiles_same s t \<Longrightarrow> n_proc t = n_proc s"
  by (simp_all add: same_tables_def ofiles_same_def)

lemma cleanup_n_proc: "n_proc (fst (old_cleanup_zombie c s)) = n_proc s"
  by (simp add: old_cleanup_zombie_def old_release_PCB_def unlink_child_def)

lemma wait_for_any_n_proc: "wait_for_any_child [] s = Some (t, v) \<Longrightarrow> n_proc t = n_proc s"
  using cleanup_n_proc by (auto simp: wait_for_any_child_def case_prod_beta Let_def split: if_splits list.splits Option.bind_splits)

lemmas n_proc_steps = procs_same_n_proc [OF old_open_stream_ok [OF osys_ofiles]] procs_same_n_proc [OF sys_Pipe_ok [OF osys_ofiles]]
  procs_same_n_proc [OF sys_Socket_ok [OF osys_ofiles]] procs_same_n_proc [OF sys_OpenInfo_ok [OF osys_ofiles]]
  procs_same_n_proc [OF accept_request_ok [OF osys_ofiles]] procs_same_n_proc [OF conjI [OF old_sys_Close_ok [OF osys_ofiles] old_sys_Close_procs]]
  procs_same_n_proc [OF conjI [OF sys_Dup2_ok [OF osys_ofiles] sys_Dup2_procs]]
  same_steps [THEN tables_n_proc(2)] thread_calls_tables [THEN tables_n_proc(1)]
  decref_frame(1) Exec_n_proc ThreadExit_n_proc wait_for_any_n_proc cleanup_n_proc

lemma ostep_n_proc:
  assumes "ostep (L, s) (L', s')" and "osys_with (holds L) s"
  shows "n_proc s' = n_proc s"
  using assms
proof (cases rule: ostep.cases)
  case (o_connected k)
  then show ?thesis using tables_n_proc(2) [of s s'] by simp
qed (use assms(2) in \<open>(simp; fail) | (blast intro: n_proc_steps)\<close>)+

lemma ostep_keeps: "ostep x y \<Longrightarrow> osystem_ok x \<Longrightarrow> osystem_ok y"
  using ostep_tables ostep_n_proc by (cases x; cases y) simp

interpretation okern: invariant_system ostep osystem_ok
  by unfold_locales (rule ostep_keeps)

end
