(* ===== verification/Old_Boot.thy ===== *)
theory Old_Boot
  imports Old_System
begin

text \<open>
  The boot of the earlier kernel establishes the invariant, so it holds in every state the kernel reaches.
\<close>

section \<open>The process table at boot\<close>

definition blank_PCB :: "nat \<Rightarrow> old_PCB \<Rightarrow> bool" where
  "blank_PCB n c \<longleftrightarrow> q_pstate c = FREE \<and> q_children_list c = [] \<and> q_exited_list c = [] \<and> (\<forall>f<n. q_FIDT c f = None)"

lemma clear_FIDT:
  "q_FIDT (o_PT (fold (\<lambda>i. set_oFIDT p i None) is s) q) = (\<lambda>f. if q = p \<and> f \<in> set is then None else q_FIDT (o_PT s q) f)"
  by (induction "is" arbitrary: s) (auto simp: fun_eq_iff)

lemma clear_FIDT_rest:
  "(o_PT (fold (\<lambda>i. set_oFIDT p i None) is s) q)\<lparr>q_FIDT := x\<rparr> = (o_PT s q)\<lparr>q_FIDT := x\<rparr>"
  "n_proc (fold (\<lambda>i. set_oFIDT p i None) is s) = n_proc s" "n_fileid (fold (\<lambda>i. set_oFIDT p i None) is s) = n_fileid s"
  "curproc (fold (\<lambda>i. set_oFIDT p i None) is s) = curproc s"
  by (induction "is" arbitrary: s) (auto simp: set_oFIDT_def)

lemma old_initialize_PCB_simps [simp]:
  "n_proc (old_initialize_PCB p s) = n_proc s" "n_fileid (old_initialize_PCB p s) = n_fileid s" "curproc (old_initialize_PCB p s) = curproc s"
  by (simp_all add: old_initialize_PCB_def clear_FIDT_rest)

lemma old_initialize_PCB_blank: "blank_PCB (n_fileid s) (o_PT (old_initialize_PCB p s) p)"
proof -
  have c: "q_pstate (o_PT (fold (\<lambda>i. set_oFIDT p i None) is t) q) = q_pstate (o_PT t q)" for "is" t q
    using arg_cong [OF clear_FIDT_rest(1) [of undefined p "is" t q], of q_pstate] by simp
  show ?thesis by (simp add: blank_PCB_def old_initialize_PCB_def Let_def clear_FIDT c)
qed

lemma old_initialize_PCB_other: "q \<noteq> p \<Longrightarrow> blank_PCB n (o_PT s q) \<Longrightarrow> blank_PCB n (o_PT (old_initialize_PCB p s) q)"
proof -
  assume q: "q \<noteq> p" and b: "blank_PCB n (o_PT s q)"
  let ?t = "upd_opcb p (\<lambda>c. c\<lparr>q_pstate := FREE, q_argl := 0, q_args := None\<rparr>) s" and ?f = "fold (\<lambda>i. set_oFIDT p i None) [0..<n_fileid s]"
  note E = clear_FIDT_rest(1) [of undefined p "[0..<n_fileid s]" ?t q]
  have "q_pstate (o_PT (?f ?t) q) = q_pstate (o_PT s q)" "q_children_list (o_PT (?f ?t) q) = q_children_list (o_PT s q)"
    "q_exited_list (o_PT (?f ?t) q) = q_exited_list (o_PT s q)" "q_FIDT (o_PT (?f ?t) q) = q_FIDT (o_PT s q)"
    using q arg_cong [OF E, of q_pstate] arg_cong [OF E, of q_children_list] arg_cong [OF E, of q_exited_list] by (simp_all add: clear_FIDT)
  then show ?thesis using b q by (simp add: blank_PCB_def old_initialize_PCB_def Let_def)
qed

lemma initialize_PCBs:
  "(\<forall>p<m. blank_PCB (n_fileid s) (o_PT (fold old_initialize_PCB [0..<m] s) p))
   \<and> n_proc (fold old_initialize_PCB [0..<m] s) = n_proc s \<and> n_fileid (fold old_initialize_PCB [0..<m] s) = n_fileid s
   \<and> curproc (fold old_initialize_PCB [0..<m] s) = curproc s"
proof (induction m)
  case (Suc m)
  let ?t = "fold old_initialize_PCB [0..<m] s"
  have "blank_PCB (n_fileid s) (o_PT (old_initialize_PCB m ?t) p)" if "p < Suc m" for p
    using that Suc old_initialize_PCB_blank [of ?t m] old_initialize_PCB_other [of p m "n_fileid s" ?t] by (cases "p = m") auto
  then show ?case using Suc by simp
qed simp

text \<open>Linking makes a free list of the table.\<close>

lemma link_chain:
  fixes s :: okernel
  defines "step \<equiv> \<lambda>p s. (upd_opcb p (\<lambda>c. c\<lparr>q_parent := pcb_freelist s\<rparr>) s)\<lparr>pcb_freelist := Some p\<rparr>"
  assumes "free_chain (\<lambda>p. q_parent (o_PT s p)) (pcb_freelist s) ps" and "distinct (xs @ ps)"
  shows "free_chain (\<lambda>p. q_parent (o_PT (fold step xs s) p)) (pcb_freelist (fold step xs s)) (rev xs @ ps)
    \<and> (\<forall>n p. blank_PCB n (o_PT (fold step xs s) p) = blank_PCB n (o_PT s p)) \<and> n_proc (fold step xs s) = n_proc s
    \<and> n_fileid (fold step xs s) = n_fileid s \<and> curproc (fold step xs s) = curproc s"
  using assms(2,3)
proof (induction xs arbitrary: s ps)
  case (Cons x xs)
  let ?s = "step x s"
  have "free_chain (\<lambda>p. q_parent (o_PT ?s p)) (pcb_freelist ?s) (x # ps)"
    using Cons.prems free_chain_upd [of x ps "\<lambda>p. q_parent (o_PT s p)" "pcb_freelist s" "pcb_freelist s"]
    by (auto simp: step_def if_distrib fun_upd_def cong: if_cong)
  from Cons.IH [OF this] Cons.prems(2) show ?case by (auto simp: step_def blank_PCB_def)
qed simp

lemma link_free_table:
  assumes "\<forall>p<n_proc s. blank_PCB (n_fileid s) (o_PT s p)"
  shows "otable (link_free_PCBs s) [0..<n_proc s]" "\<forall>p<n_proc s. blank_PCB (n_fileid s) (o_PT (link_free_PCBs s) p)"
    "n_proc (link_free_PCBs s) = n_proc s" "n_fileid (link_free_PCBs s) = n_fileid s" "curproc (link_free_PCBs s) = curproc s"
proof -
  let ?t = "link_free_PCBs s"
  have "free_chain (\<lambda>p. q_parent (o_PT ?t p)) (pcb_freelist ?t) (rev (rev [0..<n_proc s]) @ [])
    \<and> (\<forall>n p. blank_PCB n (o_PT ?t p) = blank_PCB n (o_PT (s\<lparr>pcb_freelist := None\<rparr>) p)) \<and> n_proc ?t = n_proc (s\<lparr>pcb_freelist := None\<rparr>)
    \<and> n_fileid ?t = n_fileid (s\<lparr>pcb_freelist := None\<rparr>) \<and> curproc ?t = curproc (s\<lparr>pcb_freelist := None\<rparr>)"
    unfolding link_free_PCBs_def by (rule link_chain) simp_all
  then have L: "free_chain (\<lambda>p. q_parent (o_PT ?t p)) (pcb_freelist ?t) [0..<n_proc s]" "\<And>n p. blank_PCB n (o_PT ?t p) = blank_PCB n (o_PT s p)"
    "n_proc ?t = n_proc s" "n_fileid ?t = n_fileid s" "curproc ?t = curproc s" by simp_all
  show "n_proc ?t = n_proc s" "n_fileid ?t = n_fileid s" "curproc ?t = curproc s" by (rule L)+
  show b: "\<forall>p<n_proc s. blank_PCB (n_fileid s) (o_PT ?t p)" using assms L(2) by simp
  then show "otable ?t [0..<n_proc s]" using L(1) unfolding otable_def L(3) by (intro table_invI) (auto simp: blank_PCB_def)
qed

section \<open>The idle process and the initial process\<close>

lemma old_initialize_processes_ok:
  assumes n: "0 < n_proc s"
  shows "\<exists>t. old_initialize_processes s = Some t \<and> otable t [1..<n_proc s] \<and> q_pstate (o_PT t 0) = ALIVE
    \<and> (\<forall>p<n_proc s. \<forall>f<n_fileid s. q_FIDT (o_PT t p) f = None)
    \<and> n_proc t = n_proc s \<and> n_fileid t = n_fileid s \<and> curproc t = curproc s"
proof -
  let ?i = "fold old_initialize_PCB [0..<n_proc s] s"
  let ?u = "(link_free_PCBs ?i)\<lparr>process_count := 0\<rparr>"
  have I: "\<forall>p<n_proc ?i. blank_PCB (n_fileid ?i) (o_PT ?i p)" "n_proc ?i = n_proc s" "n_fileid ?i = n_fileid s" "curproc ?i = curproc s"
    using initialize_PCBs [of "n_proc s" s] by simp_all
  have U: "otable ?u (0 # [1..<n_proc s])" "\<forall>p<n_proc s. blank_PCB (n_fileid s) (o_PT ?u p)" "n_proc ?u = n_proc s" "n_fileid ?u = n_fileid s"
    "curproc ?u = curproc s"
    using link_free_table [OF I(1)] I(2-4) n by (simp_all add: otable_def upt_conv_Cons)
  have fl: "pcb_freelist ?u = Some 0" using table_invD(1) [OF U(1) [unfolded otable_def]] by simp
  let ?t = "upd_opcb 0 (\<lambda>c. c\<lparr>q_pstate := ALIVE, q_parent := None, q_main_task := None, q_argl := 0, q_args := Some []\<rparr>)
      (?u\<lparr>pcb_freelist := q_parent (o_PT ?u 0), process_count := 1\<rparr>)"
  have "old_sys_Exec None 0 None ?u = Some (?t, 0)"
    using fl by (simp add: old_sys_Exec_def old_acquire_PCB_def old_exec_parent_def old_get_pid_def old_copy_args_def Let_def upd_opcb_def comp_def)
  then have run: "old_initialize_processes s = Some ?t" by (simp add: old_initialize_processes_def)
  have a: "(\<lambda>x. q_pstate (o_PT ?t x)) = (\<lambda>x. q_pstate (o_PT ?u x))(0 := ALIVE)" "(\<lambda>x. q_parent (o_PT ?t x)) = (\<lambda>x. q_parent (o_PT ?u x))(0 := None)"
    "(\<lambda>x. q_children_list (o_PT ?t x)) = (\<lambda>x. q_children_list (o_PT ?u x))" "(\<lambda>x. q_exited_list (o_PT ?t x)) = (\<lambda>x. q_exited_list (o_PT ?u x))"
    by (auto simp: fun_eq_iff)
  have f: "n_proc ?t = n_proc ?u" "pcb_freelist ?t = q_parent (o_PT ?u 0)" by simp_all
  have "otable ?t [1..<n_proc s]"
    unfolding otable_def a f using table_create [OF U(1) [unfolded otable_def], of None] by simp
  then show ?thesis using run U by (intro exI [of _ ?t]) (simp add: blank_PCB_def)
qed

lemma old_initialize_devices_frame [simp]:
  "n_proc (old_initialize_devices s) = n_proc s" "n_fileid (old_initialize_devices s) = n_fileid s" "curproc (old_initialize_devices s) = curproc s"
  "o_PT (old_initialize_devices s) = o_PT s" "pcb_freelist (old_initialize_devices s) = pcb_freelist s"
  by (simp_all add: old_initialize_devices_def Let_def fold_frame [where g = n_proc] fold_frame [where g = n_fileid]
      fold_frame [where g = curproc] fold_frame [where g = o_PT] fold_frame [where g = pcb_freelist])

lemma old_initialize_files_frame [simp]:
  "n_proc (old_initialize_files s) = n_proc s" "n_fileid (old_initialize_files s) = n_fileid s" "curproc (old_initialize_files s) = curproc s"
  "o_PT (old_initialize_files s) = o_PT s" "pcb_freelist (old_initialize_files s) = pcb_freelist s"
  by (simp_all add: old_initialize_files_def fold_frame [where g = n_proc] fold_frame [where g = n_fileid]
      fold_frame [where g = curproc] fold_frame [where g = o_PT] fold_frame [where g = pcb_freelist])

lemma old_initialize_files_list: "o_FCB_freelist (old_initialize_files s) = [0..<n_proc s]"
proof -
  have "o_FCB_freelist (fold (\<lambda>i s. (upd_ofcb i (\<lambda>f. f\<lparr>f_refcount := 0\<rparr>) s)\<lparr>o_FCB_freelist := o_FCB_freelist s @ [i]\<rparr>) xs t) = o_FCB_freelist t @ xs"
    for xs t by (induction xs arbitrary: t) simp_all
  then show ?thesis by (simp add: old_initialize_files_def)
qed

lemma old_initialize_files_ok:
  assumes "\<forall>p<n_proc s. \<forall>f<n_fileid s. q_FIDT (o_PT s p) f = None"
  shows "ofiles_inv (old_initialize_files s) [0..<n_proc s] {} no_holds"
proof -
  have "orefs (old_initialize_files s) i = {}" for i using assms by (auto simp: orefs_def)
  then have c: "ocount (old_initialize_files s) no_holds i = 0" for i by (simp add: ocount_def)
  show ?thesis by (rule ofiles_invI) (use assms in \<open>auto simp: old_initialize_files_list c\<close>)
qed

lemma exec_root:
  assumes "pcb_freelist s = Some p" and "p \<le> 1" and "old_copy_args al ar = Some block"
  shows "\<exists>t. old_sys_Exec call al ar s = Some (t, int p) \<and> n_proc t = n_proc s \<and> curproc t = curproc s
    \<and> (\<forall>q. q_pstate (o_PT t q) = (if q = p then ALIVE else q_pstate (o_PT s q))) \<and> (\<forall>q. q_FIDT (o_PT t q) = q_FIDT (o_PT s q))
    \<and> o_FCB_freelist t = o_FCB_freelist s \<and> n_fileid t = n_fileid s"
proof -
  have "old_get_pid (Some p) = int p" "int p \<le> 1" using assms(2) by (simp_all add: old_get_pid_def)
  then show ?thesis using assms
    by (cases call) (simp_all add: old_sys_Exec_def old_acquire_PCB_def old_exec_parent_def old_create_ptcb_def old_wakeup_def Let_def)
qed

definition boot_ready :: "(okernel \<Rightarrow> okernel) \<Rightarrow> int \<Rightarrow> u8 list option \<Rightarrow> okernel \<Rightarrow> bool" where
  "boot_ready init_sched al ar s \<longleftrightarrow> 1 < n_proc s \<and> n_proc s * n_fileid s < 2 ^ 32 \<and> curproc s = 0 \<and> old_copy_args al ar \<noteq> None
     \<and> (\<forall>t. same_tables t (init_sched t))"

lemma old_boot_ok:
  assumes "boot_ready init_sched al ar s"
  shows "\<exists>t. old_boot_tinyos_kernel init_sched call al ar s = Some t \<and> osys_ok t \<and> init_alive t \<and> cur_alive t \<and> curproc t = 0
    \<and> (\<forall>p<n_proc s. \<forall>f<n_fileid s. q_FIDT (o_PT t p) f = None) \<and> o_FCB_freelist t = [0..<n_proc s] \<and> n_proc t = n_proc s \<and> n_fileid t = n_fileid s"
proof -
  note B = assms [unfolded boot_ready_def]
  obtain p where p: "old_initialize_processes s = Some p" "otable p [1..<n_proc s]" "q_pstate (o_PT p 0) = ALIVE"
    "\<forall>q<n_proc s. \<forall>f<n_fileid s. q_FIDT (o_PT p q) f = None" "n_proc p = n_proc s" "n_fileid p = n_fileid s" "curproc p = curproc s"
    using old_initialize_processes_ok [of s] B by auto
  let ?f = "old_initialize_files (old_initialize_devices p)"
  have inv: "ofiles_inv ?f [0..<n_proc s] {} no_holds"
    using old_initialize_files_ok [of "old_initialize_devices p"] p(4-6) by simp
  have "osys_ok ?f" by (rule osys_okI [OF inv _ _ _]) (use B p in \<open>simp_all add: otable_def no_files_def\<close>)
  moreover have S: "same_tables ?f (init_sched ?f)" using B by blast
  ultimately have i: "osys_ok (init_sched ?f)" "cur_alive (init_sched ?f)" "pcb_freelist (init_sched ?f) = Some 1" "n_proc (init_sched ?f) = n_proc s"
    "curproc (init_sched ?f) = 0"
    using same_tables_ok [OF S] B p table_invD(1) [OF p(2) [unfolded otable_def]] by (simp_all add: same_tables_def upt_conv_Cons)
  let ?i = "init_sched ?f"
  obtain block where "old_copy_args al ar = Some block" using B by blast
  from exec_root [OF i(3) le_refl this, of call] obtain t where t: "old_sys_Exec call al ar ?i = Some (t, 1)" "n_proc t = n_proc s" "curproc t = 0"
    "\<And>q. q_pstate (o_PT t q) = (if q = 1 then ALIVE else q_pstate (o_PT ?i q))"
    and tf: "\<And>q. q_FIDT (o_PT t q) = q_FIDT (o_PT ?i q)" "o_FCB_freelist t = o_FCB_freelist ?i" "n_fileid t = n_fileid ?i" using i(4,5) by auto
  have tf': "\<And>q. q_FIDT (o_PT t q) = q_FIDT (o_PT p q)" "o_FCB_freelist t = [0..<n_proc s]" "n_fileid t = n_fileid s"
    using tf S p(5,6) by (simp_all add: same_tables_def old_initialize_files_list)
  have "osys_ok t" by (rule old_sys_Exec_ok [OF i(1,2) t(1)])
  moreover have "init_alive t" "cur_alive t" using t(2-4) i(2,5) B by (simp_all add: init_alive_def)
  ultimately show ?thesis using t(1-3) p(1,4) tf' by (intro exI [of _ t]) (simp add: old_boot_tinyos_kernel_def)
qed

section \<open>Every reachable state\<close>

text \<open>C17. The earlier kernel boots and stays consistent, with the calls of all processes interleaved at their waits. With at least
  two processes in the table, a table of file ids whose references fit in the counter, and a scheduler that leaves the tables
  alone, \<open>boot_tinyos_kernel\<close> gives process 1 to the initial task. After that the processes make the steps of \<open>ostep\<close> in any order: the
  calls that do not wait, and the parts into which the waits cut the others. In every state reached, the free list of FCBs holds
  exactly the FCBs nobody refers to, and a reference count is the number of file ids that lead to the FCB plus the
  number of calls of \<open>Read\<close> and \<open>Write\<close> in progress on it (\<open>holds\<close>), so that a stream closed in the middle of a transfer stays until its
  end; the free list of PCBs is a chain through exactly the free PCBs; the lists of children and of exited children hold exactly
  the processes, respectively zombies, whose parent is this process; a parent is alive; and a process that is not alive has
  no files. Left out, as the rules of \<open>ostep\<close> say, are the end of a wait for one child that somebody else has reaped in the
  meantime, which breaks the free list, a thread that exits after the initial process has, and more calls in progress
  than the counter holds.\<close>

theorem old_kernel_consistent:
  assumes "boot_ready init_sched al ar s"
  shows "\<exists>t. old_boot_tinyos_kernel init_sched call al ar s = Some t \<and> init_alive t
    \<and> (\<forall>L u. ostep\<^sup>*\<^sup>* ([], t) (L, u) \<longrightarrow> osys_with (holds L) u)"
proof -
  obtain t where t: "old_boot_tinyos_kernel init_sched call al ar s = Some t" "osys_ok t" "init_alive t" using old_boot_ok [OF assms, of call] by blast
  have "osys_with (holds L) u" if "ostep\<^sup>*\<^sup>* ([], t) (L, u)" for L u using okern.reachable_keeps [OF that] t(2) by simp
  then show ?thesis using t by blast
qed

definition blank_okernel :: okernel where
  "blank_okernel = \<lparr>n_proc = 8, n_fileid = 4,
     o_FT = (\<lambda>i. \<lparr>f_refcount = 7, f_streamobj = Null_obj, f_streamfunc = nulldev_ops\<rparr>), o_FCB_freelist = [],
     o_PT = (\<lambda>p. \<lparr>q_pstate = ALIVE, q_parent = None, q_exitval = 0, q_main_thread = None, q_main_task = None, q_argl = 0, q_args = None,
        q_children_list = [], q_exited_list = [], q_child_exit = [], q_FIDT = (\<lambda>_. Some 9), q_ptcb_list = [], q_thread_count = 1\<rparr>),
     pcb_freelist = None, process_count = 8, ptcbs = (\<lambda>_. None), woken = [], curproc = 0, curptcb = 0, pipes = (\<lambda>_. None),
     sockets = (\<lambda>_. None), requests = (\<lambda>_. None), procinfos = (\<lambda>_. None), PORT_MAP = (\<lambda>_. None), fresh = 20, n_serial = 1,
     o_devtable = (\<lambda>d. \<lparr>d_type = d, d_devnum = 0, d_fops = nulldev_ops\<rparr>),
     o_serial_dcb = (\<lambda>i. \<lparr>d_devno = i, d_spinlock = False, d_rx_ready = []\<rparr>), o_handler = (\<lambda>_. None), preempt = True, sent = (\<lambda>_. [])\<rparr>"

lemma blank_okernel_ready: "boot_ready id 0 None blank_okernel"
  by (simp add: boot_ready_def blank_okernel_def old_copy_args_def same_tables_def)

text \<open>The initial process opens an information stream and starts to read from it; another thread of it closes the file id. The
  FCB is kept for the read by one reference, without a file id.\<close>

lemma close_during_read:
  assumes ok: "ofiles_ok s" and cur: "cur_alive s" and free: "ofree_fids s \<noteq> []" "o_FCB_freelist s \<noteq> []"
    and small: "int (n_proc s * n_fileid s) + 1 < 2 ^ 32"
  shows "\<exists>i u. ostep\<^sup>*\<^sup>* ([], s) ([i], u) \<and> orefs u i = {} \<and> f_refcount (o_FT u i) = 1"
proof -
  obtain xs where s: "ofiles_inv s xs {} no_holds" "o_FCB_freelist s = xs" "curproc s < n_proc s" using ok by (rule ofiles_okD)
  obtain t fid fcb where t: "old_FCB_reserve 1 s = (t, Some (fid, fcb))"
    using reserve_enough [OF s(1,3), of 1] free s(2) by (cases "ofree_fids s"; cases xs) auto
  note R = reserve_one_count [OF ok t]
  obtain f i where f: "fid = [f]" "fcb = [i]" "f < n_fileid t" "q_FIDT (o_PT t (curproc t)) f = Some i" "ocount t no_holds i = 1" using R(3) by blast
  have P: "n_proc t = n_proc s" "n_fileid t = n_fileid s" "curproc t = curproc s" "cur_alive t"
    using R(2) procs_same_fields(1) [OF R(2)] cur by (simp_all add: procs_same_def)
  obtain ys where inv: "ofiles_inv t ys {} no_holds" "room (n_proc t * n_fileid t) no_holds" "curproc t < n_proc t" using R(1) by (rule ofiles_okD)
  note U = used_fcb [OF inv(1,3) f(3,4) inv(2)]
  have rc: "f_refcount (o_FT t i) = 1" using ofiles_invD(7) [OF inv(1) U(1,2)] f(5) by simp
  have "card (orefs t i) = 1" "(curproc t, f) \<in> orefs t i" using f(3-5) inv(3) by (simp_all add: ocount_def orefs_def)
  then have o: "orefs t i = {(curproc t, f)}" by (auto simp: card_1_singleton_iff)
  define v where "v = fst (sys_OpenInfo undefined s)"
  have v: "v = upd_ofcb i (\<lambda>g. g\<lparr>f_streamobj := Procinfo_obj (fresh t), f_streamfunc := procinfo_ops\<rparr>)
      (t\<lparr>procinfos := (procinfos t)(fresh t \<mapsto> \<lparr>info = undefined, cursor = 1\<rparr>), fresh := fresh t + 1\<rparr>)"
    using t f(1,2) by (simp add: v_def sys_OpenInfo_def Let_def)
  have 1: "ostep ([], s) ([], v)" by (rule o_OpenInfo [OF cur, of undefined _ "snd (sys_OpenInfo undefined s)"]) (simp add: v_def)
  have g: "get_fcb (int f) v = Some i" "cur_alive v" "n_proc v = n_proc s" "n_fileid v = n_fileid s" using f(3,4) P by (simp_all add: get_fcb_def v)
  have 2: "ostep ([], v) ([i], old_FCB_incref i v)" by (rule o_begin [OF g(2,1)]) (use small g in simp)
  let ?w = "old_FCB_incref i v"
  let ?c = "set_oFIDT (curproc t) f None ?w"
  let ?u = "upd_ofcb i (\<lambda>f. f\<lparr>f_refcount := f_refcount f - 1\<rparr>) ?c"
  have "get_fcb (int f) ?w = Some i" "curproc ?w = curproc t" using f(3,4) by (simp_all add: get_fcb_def v)
  moreover have "f_refcount (o_FT ?u i) = 1" using rc by (simp add: v)
  ultimately have "old_sys_Close (int f) ?w = Some (?u, 0)" by (simp add: old_sys_Close_def old_FCB_decref_def Let_def)
  moreover have "cur_alive ?w" using g(2) by simp
  ultimately have 3: "ostep ([i], ?w) ([i], ?u)" by (intro o_Close)
  have "orefs ?u i = {}" using o by (auto simp: orefs_def v split: if_splits)
  moreover have "f_refcount (o_FT ?u i) = 1" using rc by (simp add: v)
  moreover have "ostep\<^sup>*\<^sup>* ([], s) ([i], ?u)" using 1 2 3 by (meson r_into_rtranclp rtranclp_trans)
  ultimately show ?thesis by blast
qed

theorem old_kernel_consistent_witness:
  "\<exists>t i u. old_boot_tinyos_kernel id (Some 5) 0 None blank_okernel = Some t \<and> ostep\<^sup>*\<^sup>* ([], t) ([i], u)
    \<and> osys_with (holds [i]) u \<and> orefs u i = {} \<and> f_refcount (o_FT u i) = 1"
proof -
  obtain t where t: "old_boot_tinyos_kernel id (Some 5) 0 None blank_okernel = Some t" "init_alive t"
    "\<And>L u. ostep\<^sup>*\<^sup>* ([], t) (L, u) \<Longrightarrow> osys_with (holds L) u"
    using old_kernel_consistent [OF blank_okernel_ready, of "Some 5"] by blast
  let ?s = "t\<lparr>curproc := 1, curptcb := 20\<rparr>"
  have s: "ostep ([], t) ([], ?s)" by (rule o_switch) (use t(2) in \<open>simp_all add: init_alive_def\<close>)
  have f: "(\<forall>f<4. q_FIDT (o_PT t 1) f = None) \<and> o_FCB_freelist t = [0..<8] \<and> n_fileid t = 4 \<and> n_proc t = 8"
    using old_boot_ok [OF blank_okernel_ready, of "Some 5"] t(1) by (auto simp: blank_okernel_def)
  have "ofiles_ok ?s" using t(3) [OF r_into_rtranclp [of ostep, OF s]] by (simp add: osys_with_def)
  moreover have "cur_alive ?s" using t(2) by (simp add: init_alive_def)
  moreover have "ofree_fids ?s \<noteq> []" "o_FCB_freelist ?s \<noteq> []" using f by (simp_all add: ofree_fids_def)
  moreover have "int (n_proc ?s * n_fileid ?s) + 1 < 2 ^ 32" using f by simp
  ultimately obtain i u where u: "ostep\<^sup>*\<^sup>* ([], ?s) ([i], u)" "orefs u i = {} \<and> f_refcount (o_FT u i) = 1" using close_during_read by blast
  from converse_rtranclp_into_rtranclp [of ostep, OF s u(1)] have "ostep\<^sup>*\<^sup>* ([], t) ([i], u)" .
  with t(1) t(3) [OF this] u(2) show ?thesis by blast
qed

section \<open>The whole boot call\<close>

text \<open>\<open>boot\<close> keeps its arguments in \<open>boot_rec\<close>, initialises the hardware and runs \<open>boot_tinyos_kernel\<close> on every core, where core 0 initialises the
  kernel before all of them enter the scheduler. The hardware and the scheduler of that kernel are parameters.\<close>

record boot_rec =
  init_task :: "Task option"
  boot_argl :: int
  boot_args :: "u8 list option"

definition old_boot_core :: "(okernel \<Rightarrow> okernel) \<Rightarrow> (okernel \<Rightarrow> okernel option) \<Rightarrow> nat \<Rightarrow> boot_rec \<Rightarrow> okernel \<Rightarrow> okernel option" where
  "old_boot_core init_sched run_sched core_id b s = do {
     s \<leftarrow> (if core_id = 0 then old_boot_tinyos_kernel init_sched (init_task b) (boot_argl b) (boot_args b) s else Some s);
     run_sched s }"

definition old_boot ::
    "(nat \<Rightarrow> okernel \<Rightarrow> okernel) \<Rightarrow> (okernel \<Rightarrow> okernel) \<Rightarrow> (okernel \<Rightarrow> okernel option) \<Rightarrow> nat \<Rightarrow> nat \<Rightarrow> Task option \<Rightarrow> int \<Rightarrow> u8 list option
     \<Rightarrow> okernel \<Rightarrow> okernel option" where
  "old_boot bios init_sched run_sched core_id nterm boot_task al ar s =
     old_boot_core init_sched run_sched core_id \<lparr>init_task = boot_task, boot_argl = al, boot_args = ar\<rparr> (bios nterm s)"

lemma old_boot_consistent:
  assumes "boot_ready init_sched al ar (bios nterm s)" and "\<And>t u. run_sched t = Some u \<Longrightarrow> ostep\<^sup>*\<^sup>* ([], t) ([], u)"
    and "old_boot bios init_sched run_sched 0 nterm call al ar s = Some u"
  shows "osys_ok u"
proof -
  obtain t where t: "old_boot_tinyos_kernel init_sched call al ar (bios nterm s) = Some t" "osys_ok t" using old_boot_ok [OF assms(1)] by blast
  then have "run_sched t = Some u" using assms(3) by (simp add: old_boot_def old_boot_core_def)
  then show ?thesis using okern.reachable_keeps [OF assms(2), of t u] t(2) by simp
qed

end
