(* ===== verification/Old_Socket_Props.thy ===== *)
theory Old_Socket_Props
  imports Old_Files_Ops
begin

text \<open>
  Sockets of the earlier kernel: \<open>Connect\<close> and \<open>Accept\<close> meet and leave two connected peers, a connection is a pair of
  bounded queues, what shutting a direction down does, and what a request that has timed out leaves behind.
\<close>

section \<open>New sockets\<close>

lemma get_fcb_upd [simp]: "get_fcb fd (upd_socket k g s) = get_fcb fd s" "get_fcb fd (upd_ofcb i h s) = get_fcb fd s"
  "get_fcb fd (s\<lparr>pipes := x\<rparr>) = get_fcb fd s" "get_fcb fd (s\<lparr>sockets := y\<rparr>) = get_fcb fd s"
  by (simp_all add: get_fcb_def)

lemma sys_Socket_new:
  assumes inv: "ofiles_inv s (c # xs) {} held" and cur: "curproc s < n_proc s" and f: "ofree_fids s = f # fs"
    and port: "0 \<le> port" "port \<le> MAX_PORT"
  shows "\<exists>s'. sys_Socket port s = (s', int f) \<and> ofiles_inv s' xs {} held
    \<and> q_FIDT (o_PT s' (curproc s)) = (q_FIDT (o_PT s (curproc s)))(f \<mapsto> c) \<and> (\<forall>q. q \<noteq> curproc s \<longrightarrow> q_FIDT (o_PT s' q) = q_FIDT (o_PT s q))
    \<and> sockets s' = (sockets s)(fresh s \<mapsto> \<lparr>s_refcount = 0, s_fcb = c, s_type = SOCKET_UNBOUND, s_port = port, s_union = unbound_s\<rparr>)
    \<and> fresh s' = fresh s + 1 \<and> pipes s' = pipes s \<and> requests s' = requests s \<and> PORT_MAP s' = PORT_MAP s \<and> curproc s' = curproc s
    \<and> n_fileid s' = n_fileid s \<and> n_proc s' = n_proc s \<and> f_streamobj (o_FT s' c) = Socket_obj (fresh s) \<and> f_streamfunc (o_FT s' c) = socket_ops
    \<and> (\<forall>i. i \<noteq> c \<longrightarrow> f_streamobj (o_FT s' i) = f_streamobj (o_FT s i) \<and> f_streamfunc (o_FT s' i) = f_streamfunc (o_FT s i))"
proof -
  obtain t where t: "old_FCB_reserve 1 s = (t, Some ([f], [c]))" "ofiles_inv t xs {} held" "ft_only s t"
    "\<forall>q. q_FIDT (o_PT t q) = (if q = curproc s then (q_FIDT (o_PT s q))(f \<mapsto> c) else q_FIDT (o_PT s q))"
    using reserve_enough [OF inv cur, of 1] f by auto
  note F = ft_only_fields [OF t(3)]
  let ?k = "fresh t"
  let ?s1 = "t\<lparr>sockets := (sockets t)(?k \<mapsto> \<lparr>s_refcount = 0, s_fcb = 0, s_type = SOCKET_UNBOUND, s_port = port, s_union = unbound_s\<rparr>),
        fresh := ?k + 1\<rparr>"
  let ?s' = "upd_ofcb c (\<lambda>f. f\<lparr>f_streamobj := Socket_obj ?k, f_streamfunc := socket_ops\<rparr>) (upd_socket ?k (\<lambda>x. x\<lparr>s_fcb := c\<rparr>) ?s1)"
  have eq: "sys_Socket port s = (?s', int f)"
    using port t(1) by (simp add: sys_Socket_def socket_cb_init_def Let_def)
  have "ofiles_same t ?s'" by (simp add: ofiles_same_def)
  from ofiles_inv_same [OF this] have "ofiles_inv ?s' xs {} held" using t(2) by blast
  then show ?thesis unfolding eq using t(4) F by (intro exI [of _ ?s']) simp
qed

text \<open>Without a free file id or FCB, or for a port out of range, nothing happens.\<close>

lemma sys_Socket_fails:
  assumes inv: "ofiles_inv s xs {} held" and bad: "port < 0 \<or> MAX_PORT < port \<or> ofree_fids s = [] \<or> xs = []"
  shows "\<exists>s'. sys_Socket port s = (s', NOFILE) \<and> ft_only s s' \<and> o_PT s' = o_PT s"
proof (cases "port < 0 \<or> MAX_PORT < port")
  case True
  then show ?thesis by (auto simp: sys_Socket_def)
next
  case False
  then have "\<not> (1 \<le> length (ofree_fids s) \<and> 1 \<le> length xs)" using bad by auto
  from reserve_not_enough [OF inv this] show ?thesis using False by (auto simp: sys_Socket_def)
qed

section \<open>A connection is a pair of bounded queues\<close>

text \<open>The sockets \<open>a\<close> and \<open>b\<close> are the two ends of a connection, with the bytes \<open>xs\<close> on their way to \<open>a\<close> and \<open>ys\<close> on
  their way to \<open>b\<close>.\<close>

definition open_pipe :: "pipe_cb \<Rightarrow> bool" where
  "open_pipe p \<longleftrightarrow> p_reader p \<noteq> None \<and> p_writer p \<noteq> None"

definition connected :: "okernel \<Rightarrow> nat \<Rightarrow> nat \<Rightarrow> u8 list \<Rightarrow> u8 list \<Rightarrow> bool" where
  "connected s a b xs ys \<longleftrightarrow> (\<exists>ca cb to_a to_b p q. a \<noteq> b \<and> to_a \<noteq> to_b
     \<and> sockets s a = Some ca \<and> s_type ca = SOCKET_PEER \<and> s_union ca = peer_s (Some to_b) (Some to_a)
     \<and> sockets s b = Some cb \<and> s_type cb = SOCKET_PEER \<and> s_union cb = peer_s (Some to_a) (Some to_b)
     \<and> pipes s to_a = Some p \<and> open_pipe p \<and> pipe_inv p xs \<and> pipes s to_b = Some q \<and> open_pipe q \<and> pipe_inv q ys)"

lemma connectedE:
  assumes "connected s a b xs ys"
  obtains ca cb ta tb p q where "a \<noteq> b" "ta \<noteq> tb"
    "sockets s a = Some ca" "s_type ca = SOCKET_PEER" "s_union ca = peer_s (Some tb) (Some ta)"
    "sockets s b = Some cb" "s_type cb = SOCKET_PEER" "s_union cb = peer_s (Some ta) (Some tb)"
    "pipes s ta = Some p" "open_pipe p" "pipe_inv p xs" "pipes s tb = Some q" "open_pipe q" "pipe_inv q ys"
  using assms unfolding connected_def by blast

lemma connectedI:
  assumes "a \<noteq> b" "ta \<noteq> tb"
    "sockets s a = Some ca" "s_type ca = SOCKET_PEER" "s_union ca = peer_s (Some tb) (Some ta)"
    "sockets s b = Some cb" "s_type cb = SOCKET_PEER" "s_union cb = peer_s (Some ta) (Some tb)"
    "pipes s ta = Some p" "open_pipe p" "pipe_inv p xs" "pipes s tb = Some q" "open_pipe q" "pipe_inv q ys"
  shows "connected s a b xs ys"
  using assms unfolding connected_def by blast

lemma connected_sym: "connected s a b xs ys \<Longrightarrow> connected s b a ys xs"
  by (elim connectedE) (rule connectedI, simp_all)

lemma connected_cong:
  "sockets t a = sockets s a \<Longrightarrow> sockets t b = sockets s b \<Longrightarrow> pipes t = pipes s \<Longrightarrow> connected t a b xs ys = connected s a b xs ys"
  by (simp add: connected_def)

lemma connected_write:
  assumes "connected s a b xs ys" and "length ys < 4096" and "length buf < 2 ^ 32"
  shows "\<exists>s'. socket_write (Some a) buf rs s = Some (s', int (min (length buf) (4096 - length ys)))
     \<and> connected s' a b xs (ys @ take (4096 - length ys) buf)"
proof -
  obtain ca cb ta tb p q where c: "a \<noteq> b" "ta \<noteq> tb" "sockets s a = Some ca" "s_type ca = SOCKET_PEER" "s_union ca = peer_s (Some tb) (Some ta)"
    "sockets s b = Some cb" "s_type cb = SOCKET_PEER" "s_union cb = peer_s (Some ta) (Some tb)"
    "pipes s ta = Some p" "open_pipe p" "pipe_inv p xs" "pipes s tb = Some q" "open_pipe q" "pipe_inv q ys"
    using assms(1) by (rule connectedE)
  obtain i j where o: "p_reader q = Some i" "p_writer q = Some j" using c(13) by (auto simp: open_pipe_def)
  from pipe_write_queue [OF c(14) o(1), of j buf rs] assms o obtain q' where
    q': "pipe_write (Some q) buf rs = Some (Some q', int (min (length buf) (4096 - length ys)))"
      "pipe_inv q' (ys @ take (4096 - length ys) buf)" "p_reader q' = Some i" "p_writer q' = Some j" by blast
  let ?s = "s\<lparr>pipes := (pipes s)(tb \<mapsto> q')\<rparr>"
  have "socket_write (Some a) buf rs s = Some (?s, int (min (length buf) (4096 - length ys)))"
    using c q'(1) by (simp add: socket_write_def write_to_pipe_def)
  moreover have "connected ?s a b xs (ys @ take (4096 - length ys) buf)"
    by (rule connectedI [OF c(1,2)]) (use c q' in \<open>simp_all add: open_pipe_def\<close>)
  ultimately show ?thesis by blast
qed

lemma connected_read:
  assumes "connected s a b xs ys" and "xs \<noteq> []"
  shows "\<exists>s'. socket_read (Some a) n rs s = Some (s', int (min (unat n) (length xs)), take (unat n) xs)
     \<and> connected s' a b (drop (unat n) xs) ys"
proof -
  obtain ca cb ta tb p q where c: "a \<noteq> b" "ta \<noteq> tb" "sockets s a = Some ca" "s_type ca = SOCKET_PEER" "s_union ca = peer_s (Some tb) (Some ta)"
    "sockets s b = Some cb" "s_type cb = SOCKET_PEER" "s_union cb = peer_s (Some ta) (Some tb)"
    "pipes s ta = Some p" "open_pipe p" "pipe_inv p xs" "pipes s tb = Some q" "open_pipe q" "pipe_inv q ys"
    using assms(1) by (rule connectedE)
  obtain i where o: "p_reader p = Some i" "p_writer p \<noteq> None" using c(10) by (auto simp: open_pipe_def)
  from pipe_read_queue [OF c(11) o(1) assms(2), of n rs] obtain p' where
    p': "pipe_read (Some p) n rs = Some (Some p', int (min (unat n) (length xs)), take (unat n) xs)"
      "pipe_inv p' (drop (unat n) xs)" "p_reader p' = Some i" "p_writer p' = p_writer p" by blast
  let ?s = "s\<lparr>pipes := (pipes s)(ta \<mapsto> p')\<rparr>"
  have "socket_read (Some a) n rs s = Some (?s, int (min (unat n) (length xs)), take (unat n) xs)"
    using c p'(1) by (simp add: socket_read_def read_from_pipe_def)
  moreover have "connected ?s a b (drop (unat n) xs) ys"
    by (rule connectedI [OF c(1,2)]) (use c p' o in \<open>simp_all add: open_pipe_def\<close>)
  ultimately show ?thesis by blast
qed

section \<open>Accepting a request\<close>

lemma new_pipe_eq:
  "\<exists>p. (\<forall>s. new_pipe True h s = (s\<lparr>pipes := (pipes s)(fresh s \<mapsto> p), fresh := fresh s + 1\<rparr>, Some (fresh s))) \<and> pipe_inv p []"
proof -
  obtain p where p: "pipe_init True None None h = Some p" by (simp add: pipe_init_def case_prod_beta)
  then show ?thesis using fresh_pipe(1) [OF p] by (intro exI [of _ p]) (simp add: new_pipe_def)
qed

lemma accept_connect_eq:
  assumes "requests s req = Some rq" and "f_streamobj (o_FT s pf) = Socket_obj a" and "sockets s a = Some ca" and "sockets s b = Some cb"
    and "c_peer rq = b" and "a \<noteq> b"
  shows "\<exists>s'. accept_connect True True h req pf s = Some s' \<and> connected s' a b [] []
    \<and> (\<forall>x. x \<noteq> a \<and> x \<noteq> b \<longrightarrow> sockets s' x = sockets s x)
    \<and> (\<exists>r. requests s' = (requests s)(req \<mapsto> r) \<and> admitted r \<and> c_peer r = b)
    \<and> PORT_MAP s' = PORT_MAP s \<and> o_FT s' = o_FT s \<and> o_PT s' = o_PT s \<and> ofiles_same s s' \<and> fresh s' = fresh s + 2"
proof -
  obtain p where p: "\<And>s. new_pipe True h s = (s\<lparr>pipes := (pipes s)(fresh s \<mapsto> p), fresh := fresh s + 1\<rparr>, Some (fresh s))" "pipe_inv p []"
    using new_pipe_eq [of h] by blast
  let ?k = "fresh s" and ?r = "rq\<lparr>admitted := True, connected_cv := tl (connected_cv rq)\<rparr>"
  let ?p1 = "p\<lparr>p_reader := Some (s_fcb ca), p_writer := Some (s_fcb cb)\<rparr>" and ?p2 = "p\<lparr>p_reader := Some (s_fcb cb), p_writer := Some (s_fcb ca)\<rparr>"
  let ?s = "s\<lparr>requests := (requests s)(req \<mapsto> ?r), pipes := (pipes s)(?k \<mapsto> ?p1, Suc ?k \<mapsto> ?p2), fresh := ?k + 2,
      sockets := (sockets s)(a \<mapsto> ca\<lparr>s_type := SOCKET_PEER, s_union := peer_s (Some (Suc ?k)) (Some ?k)\<rparr>,
                             b \<mapsto> cb\<lparr>s_type := SOCKET_PEER, s_union := peer_s (Some ?k) (Some (Suc ?k))\<rparr>)\<rparr>"
  have eq: "accept_connect True True h req pf s = Some ?s"
    using assms by (simp add: accept_connect_def p(1) Let_def upd_socket_def fun_upd_twist)
  have "connected ?s a b [] []"
    by (rule connectedI [OF assms(6), where ta = ?k and tb = "Suc ?k" and p = ?p1 and q = ?p2
          and ca = "ca\<lparr>s_type := SOCKET_PEER, s_union := peer_s (Some (Suc ?k)) (Some ?k)\<rparr>"
          and cb = "cb\<lparr>s_type := SOCKET_PEER, s_union := peer_s (Some ?k) (Some (Suc ?k))\<rparr>"])
       (use assms p(2) in \<open>simp_all add: open_pipe_def\<close>)
  moreover have "\<exists>r. requests ?s = (requests s)(req \<mapsto> r) \<and> admitted r \<and> c_peer r = b" using assms(5) by (intro exI [of _ ?r]) simp
  moreover have "ofiles_same s ?s" "PORT_MAP ?s = PORT_MAP s" "o_FT ?s = o_FT s" "o_PT ?s = o_PT s" "fresh ?s = fresh s + 2"
    "\<forall>x. x \<noteq> a \<and> x \<noteq> b \<longrightarrow> sockets ?s x = sockets s x" by simp_all
  ultimately show ?thesis using eq by blast
qed

text \<open>Socket \<open>k\<close> listens on a port, with requests \<open>q\<close>.\<close>

definition listening :: "okernel \<Rightarrow> nat \<Rightarrow> int \<Rightarrow> nat list \<Rightarrow> bool" where
  "listening s k port q \<longleftrightarrow> 0 < port \<and> port < MAX_PORT \<and> PORT_MAP s port = Some k
     \<and> (\<exists>c cv. sockets s k = Some c \<and> s_type c = SOCKET_LISTENER \<and> s_port c = port \<and> s_union c = listener_s q cv)"

text \<open>The addresses \<open>malloc\<close> has not given out are unused.\<close>

definition heap_ok :: "okernel \<Rightarrow> bool" where
  "heap_ok s \<longleftrightarrow> (\<forall>k\<ge>fresh s. sockets s k = None \<and> pipes s k = None \<and> requests s k = None)"

text \<open>The process that calls can reach socket \<open>k\<close> through a file id.\<close>

definition socket_fid :: "okernel \<Rightarrow> int \<Rightarrow> nat \<Rightarrow> bool" where
  "socket_fid s fd k \<longleftrightarrow> (\<exists>i. get_fcb fd s = Some i \<and> f_streamobj (o_FT s i) = Socket_obj k)"

lemma socket_fidD:
  assumes "socket_fid s fd k"
  obtains i where "0 \<le> fd" "\<not> fd > int (n_fileid s) - 1" "get_fcb fd s = Some i" "f_streamobj (o_FT s i) = Socket_obj k"
  using assms by (auto simp: socket_fid_def get_fcb_def split: if_splits)

text \<open>\<open>Accept\<close> with a request in the queue: it does not wait, and gets a new socket before it looks at the request.\<close>

lemma accept_first_request:
  assumes l: "listening s k port (req # reqs)" and fd: "socket_fid s lsock k" and hp: "heap_ok s"
    and inv: "ofiles_inv s (c # xs) {} held" and cur: "curproc s < n_proc s" and f: "ofree_fids s = f # fs"
  shows "\<exists>t lc cv. sys_Accept m1 m2 h lsock rs s = do { u \<leftarrow> accept_connect m1 m2 h req c t; Some (drop_ref k u, int f) }
    \<and> ofiles_inv t xs {} held \<and> q_FIDT (o_PT t (curproc s)) f = Some c
    \<and> f_streamobj (o_FT t c) = Socket_obj (fresh s) \<and> f_streamfunc (o_FT t c) = socket_ops
    \<and> sockets s k = Some lc \<and> s_type lc = SOCKET_LISTENER \<and> s_port lc = port \<and> k < fresh s
    \<and> sockets t = (sockets s)(k \<mapsto> lc\<lparr>s_refcount := s_refcount lc + 1, s_union := listener_s reqs cv\<rparr>,
        fresh s \<mapsto> \<lparr>s_refcount = 0, s_fcb = c, s_type = SOCKET_UNBOUND, s_port = port, s_union = unbound_s\<rparr>)
    \<and> requests t = requests s \<and> PORT_MAP t = PORT_MAP s"
proof -
  obtain lc cv where lc: "0 < port" "port < MAX_PORT" "PORT_MAP s port = Some k" "sockets s k = Some lc" "s_type lc = SOCKET_LISTENER"
    "s_port lc = port" "s_union lc = listener_s (req # reqs) cv" using l by (auto simp: listening_def)
  obtain i where i: "0 \<le> lsock" "\<not> lsock > int (n_fileid s) - 1" "get_fcb lsock s = Some i" "f_streamobj (o_FT s i) = Socket_obj k"
    using fd by (rule socket_fidD)
  have kb: "k < fresh s" using hp lc(4) by (auto simp: heap_ok_def not_less [symmetric])
  let ?s1 = "upd_socket k (\<lambda>c. c\<lparr>s_refcount := s_refcount c + 1\<rparr>) s"
  let ?s2 = "upd_socket k (\<lambda>c. c\<lparr>s_union := set_queue reqs (s_union c)\<rparr>) ?s1"
  have wait: "accept_wait k port rs ?s1 = Some ?s1"
    using lc by (cases rs) (simp_all add: must_wait_def)
  have "ofiles_same s ?s2" by simp
  then have inv2: "ofiles_inv ?s2 (c # xs) {} held" using inv by (simp only: ofiles_inv_same)
  have f2: "ofree_fids ?s2 = f # fs" "curproc ?s2 < n_proc ?s2" using f cur by (simp_all add: ofree_fids_def)
  obtain t where t: "sys_Socket port ?s2 = (t, int f)" "ofiles_inv t xs {} held" "q_FIDT (o_PT t (curproc s)) = (q_FIDT (o_PT s (curproc s)))(f \<mapsto> c)"
    "sockets t = (sockets ?s2)(fresh s \<mapsto> \<lparr>s_refcount = 0, s_fcb = c, s_type = SOCKET_UNBOUND, s_port = port, s_union = unbound_s\<rparr>)"
    "requests t = requests s" "PORT_MAP t = PORT_MAP s" "curproc t = curproc s" "n_fileid t = n_fileid s"
    "f_streamobj (o_FT t c) = Socket_obj (fresh s)" "f_streamfunc (o_FT t c) = socket_ops"
    using sys_Socket_new [OF inv2 f2(2,1), of port] lc(1,2) by auto
  have fn: "f < n_fileid s" using f by (auto simp: ofree_fids_def dest!: arg_cong [of _ _ set])
  have gf: "get_fcb (int f) t = Some c" using t(3,7,8) fn by (simp add: get_fcb_def)
  have acc: "sys_Accept m1 m2 h lsock rs s = do { u \<leftarrow> accept_connect m1 m2 h req c t; Some (drop_ref k u, int f) }"
    using i lc wait t(1) gf by (simp add: sys_Accept_def accept_request_def port_entry_def Let_def)
  show ?thesis
    by (intro exI [of _ t] exI [of _ lc] exI [of _ cv]) (use acc t lc kb in simp)
qed

lemma accept_next:
  assumes l: "listening s k port (req # reqs)" and fd: "socket_fid s lsock k" and hp: "heap_ok s"
    and rq: "requests s req = Some rq" "c_peer rq = b" "sockets s b = Some cb" "b \<noteq> k"
    and inv: "ofiles_inv s (c # xs) {} held" and cur: "curproc s < n_proc s" and f: "ofree_fids s = f # fs"
  shows "\<exists>s'. sys_Accept True True h lsock rs s = Some (s', int f) \<and> connected s' (fresh s) b [] [] \<and> listening s' k port reqs
    \<and> (\<exists>r. requests s' = (requests s)(req \<mapsto> r) \<and> admitted r)
    \<and> map_option s_refcount (sockets s' k) = map_option s_refcount (sockets s k)
    \<and> q_FIDT (o_PT s' (curproc s)) f = Some c \<and> f_streamobj (o_FT s' c) = Socket_obj (fresh s) \<and> f_streamfunc (o_FT s' c) = socket_ops
    \<and> ofiles_inv s' xs {} held"
proof -
  obtain t lc cv where t: "sys_Accept True True h lsock rs s = do { u \<leftarrow> accept_connect True True h req c t; Some (drop_ref k u, int f) }"
    "ofiles_inv t xs {} held" "q_FIDT (o_PT t (curproc s)) f = Some c"
    "f_streamobj (o_FT t c) = Socket_obj (fresh s)" "f_streamfunc (o_FT t c) = socket_ops"
    "sockets s k = Some lc" "s_type lc = SOCKET_LISTENER" "s_port lc = port" "k < fresh s"
    "sockets t = (sockets s)(k \<mapsto> lc\<lparr>s_refcount := s_refcount lc + 1, s_union := listener_s reqs cv\<rparr>,
        fresh s \<mapsto> \<lparr>s_refcount = 0, s_fcb = c, s_type = SOCKET_UNBOUND, s_port = port, s_union = unbound_s\<rparr>)"
    "requests t = requests s" "PORT_MAP t = PORT_MAP s"
    using accept_first_request [OF l fd hp inv cur f, of True True h rs] by blast
  have b: "b < fresh s" using hp rq(3) by (auto simp: heap_ok_def not_less [symmetric])
  have ta: "sockets t (fresh s) = Some \<lparr>s_refcount = 0, s_fcb = c, s_type = SOCKET_UNBOUND, s_port = port, s_union = unbound_s\<rparr>"
    "sockets t b = Some cb" "sockets t k = Some (lc\<lparr>s_refcount := s_refcount lc + 1, s_union := listener_s reqs cv\<rparr>)" "fresh s \<noteq> b"
    using t(9,10) b rq by simp_all
  from accept_connect_eq [OF rq(1) [folded t(11)] t(4) ta(1,2) rq(2) ta(4), of h] obtain u r where
    u: "accept_connect True True h req c t = Some u" "connected u (fresh s) b [] []" "\<forall>x. x \<noteq> fresh s \<and> x \<noteq> b \<longrightarrow> sockets u x = sockets t x"
      "requests u = (requests t)(req \<mapsto> r)" "admitted r" "PORT_MAP u = PORT_MAP t" "o_FT u = o_FT t" "o_PT u = o_PT t" "ofiles_same t u" by blast
  have uk: "sockets u k = Some (lc\<lparr>s_refcount := s_refcount lc + 1, s_union := listener_s reqs cv\<rparr>)" using u(3) ta(3) t(9) rq(4) by simp
  let ?s' = "drop_ref k u"
  have "connected ?s' (fresh s) b [] []"
    using u(2) connected_cong [of ?s' "fresh s" u b] t(9) rq(4) by (simp add: drop_ref_def)
  moreover have "listening ?s' k port reqs" using l t(7,8,12) uk u(6) by (simp add: listening_def drop_ref_def)
  moreover have "ofiles_inv ?s' xs {} held"
    using t(2) ofiles_inv_same [OF u(9)] ofiles_inv_same [of u ?s'] by (simp add: drop_ref_def)
  moreover have "map_option s_refcount (sockets ?s' k) = map_option s_refcount (sockets s k)" using uk t(6) by (simp add: drop_ref_def)
  ultimately show ?thesis using t u by (intro exI [of _ ?s']) (auto simp: drop_ref_def)
qed

text \<open>A request whose socket has been freed.\<close>

lemma accept_freed:
  assumes l: "listening s k port (req # reqs)" and fd: "socket_fid s lsock k" and hp: "heap_ok s"
    and rq: "requests s req = Some rq" "sockets s (c_peer rq) = None" "c_peer rq < fresh s"
    and inv: "ofiles_inv s (c # xs) {} held" and cur: "curproc s < n_proc s" and f: "ofree_fids s = f # fs"
  shows "sys_Accept m1 m2 h lsock rs s = None"
proof -
  obtain t lc cv where t: "sys_Accept m1 m2 h lsock rs s = do { u \<leftarrow> accept_connect m1 m2 h req c t; Some (drop_ref k u, int f) }"
    "f_streamobj (o_FT t c) = Socket_obj (fresh s)" "sockets s k = Some lc"
    "sockets t = (sockets s)(k \<mapsto> lc\<lparr>s_refcount := s_refcount lc + 1, s_union := listener_s reqs cv\<rparr>,
        fresh s \<mapsto> \<lparr>s_refcount = 0, s_fcb = c, s_type = SOCKET_UNBOUND, s_port = port, s_union = unbound_s\<rparr>)"
    "requests t = requests s"
    using accept_first_request [OF l fd hp inv cur f, of m1 m2 h rs] by blast
  have "sockets t (c_peer rq) = None" using t(3,4) rq by auto
  then have "accept_connect m1 m2 h req c t = None"
    using rq(1) t(2,5) by (cases "sockets t (fresh s)") (simp_all add: accept_connect_def Let_def)
  then show ?thesis using t(1) by simp
qed

section \<open>Connecting\<close>

text \<open>What happens while the client waits in \<open>Connect\<close>: process \<open>sv\<close> runs and accepts a connection.\<close>

definition server_accepts :: "nat \<Rightarrow> c_heap \<Rightarrow> int \<Rightarrow> opause" where
  "server_accepts sv h lsock s =
     (case sys_Accept True True h lsock [] (s\<lparr>curproc := sv\<rparr>) of
        Some (s', r) \<Rightarrow> s'\<lparr>curproc := curproc s\<rparr>
      | None \<Rightarrow> s)"

lemma ofiles_inv_curproc [simp]: "ofiles_inv (s\<lparr>curproc := p\<rparr>) xs R held = ofiles_inv s xs R held"
  by (simp add: ofiles_inv_def ocount_def orefs_def)

lemma connect_enqueue_eq:
  assumes l: "listening s k port q" and hp: "heap_ok s"
  shows "\<exists>s'. connect_enqueue k b s = Some (s', fresh s) \<and> listening s' k port (q @ [fresh s]) \<and> heap_ok s' \<and> ofiles_same s s'
    \<and> requests s' = (requests s)(fresh s \<mapsto> \<lparr>admitted = False, c_peer = b, connected_cv = COND_INIT\<rparr>)
    \<and> fresh s' = fresh s + 1 \<and> o_FT s' = o_FT s \<and> o_PT s' = o_PT s \<and> pipes s' = pipes s \<and> (\<forall>x. x \<noteq> k \<longrightarrow> sockets s' x = sockets s x)
    \<and> map_option s_refcount (sockets s' k) = map_option (\<lambda>c. s_refcount c + 1) (sockets s k) \<and> PORT_MAP s' = PORT_MAP s"
proof -
  obtain lc cv where lc: "0 < port" "port < MAX_PORT" "PORT_MAP s port = Some k" "sockets s k = Some lc" "s_type lc = SOCKET_LISTENER"
    "s_port lc = port" "s_union lc = listener_s q cv" using l by (auto simp: listening_def)
  let ?s' = "s\<lparr>sockets := (sockets s)(k \<mapsto> lc\<lparr>s_refcount := s_refcount lc + 1, s_union := listener_s (q @ [fresh s]) (tl cv)\<rparr>),
      requests := (requests s)(fresh s \<mapsto> \<lparr>admitted = False, c_peer = b, connected_cv = COND_INIT\<rparr>), fresh := fresh s + 1\<rparr>"
  have eq: "connect_enqueue k b s = Some (?s', fresh s)"
    using lc by (simp add: connect_enqueue_def Let_def upd_socket_def)
  have "k < fresh s" using hp lc(4) by (auto simp: heap_ok_def not_less [symmetric])
  then have "heap_ok ?s'" using hp by (auto simp: heap_ok_def)
  moreover have "listening ?s' k port (q @ [fresh s])" using lc by (simp add: listening_def)
  ultimately show ?thesis unfolding eq using lc(4) by (intro exI [of _ ?s']) simp
qed

text \<open>The checks of \<open>Connect\<close> before it makes a request.\<close>

lemma sys_Connect_request:
  assumes l: "listening s k port q" and port: "port < MAX_PORT - 1" and fd: "socket_fid s sock b"
    and b: "sockets s b = Some cb" "s_type cb = SOCKET_UNBOUND"
  shows "sys_Connect sock port rs s = do {
      (s, req) \<leftarrow> connect_enqueue k b s;
      s \<leftarrow> connect_wait req rs s;
      c_socket \<leftarrow> sockets s k;
      request \<leftarrow> requests s req;
      Some (drop_ref k s, if admitted request then 0 else -1) }"
proof -
  obtain i where i: "0 \<le> sock" "\<not> sock > int (n_fileid s) - 1" "get_fcb sock s = Some i" "f_streamobj (o_FT s i) = Socket_obj b"
    using fd by (rule socket_fidD)
  show ?thesis using l port i b by (auto simp: sys_Connect_def listening_def port_entry_def NOPORT_def)
qed

section \<open>Properties\<close>

text \<open>C20. A client and a server meet. With a socket listening on a port, without pending requests, a client that calls
  \<open>Connect\<close> with an unbound socket and a server process that calls \<open>Accept\<close> while the client waits (and has a free file
  id and FCB) become connected: \<open>Connect\<close> returns 0, the new file id of the server leads to a new socket, this socket
  and the one of the client are the ends of a connection with nothing in transit, the listener goes on listening
  with an empty queue and its reference count is what it was.\<close>

theorem connect_meets_accept:
  assumes l: "listening s k port []" and port: "port < MAX_PORT - 1" and hp: "heap_ok s" and ok: "ofiles_ok s"
    and cl: "socket_fid s sock b" "sockets s b = Some cb" "s_type cb = SOCKET_UNBOUND"
    and sv: "sv < n_proc s" "socket_fid (s\<lparr>curproc := sv\<rparr>) lsock k" "ofree_fids (s\<lparr>curproc := sv\<rparr>) = f # fs"
    and free: "o_FCB_freelist s = c # xs"
  shows "\<exists>s' a. sys_Connect sock port [(server_accepts sv h lsock, True)] s = Some (s', 0) \<and> connected s' a b [] []
    \<and> q_FIDT (o_PT s' sv) f = Some c \<and> f_streamobj (o_FT s' c) = Socket_obj a \<and> f_streamfunc (o_FT s' c) = socket_ops
    \<and> listening s' k port [] \<and> map_option s_refcount (sockets s' k) = map_option s_refcount (sockets s k)
    \<and> curproc s' = curproc s"
proof -
  have kb: "b \<noteq> k" using l cl by (auto simp: listening_def)
  obtain t where t: "connect_enqueue k b s = Some (t, fresh s)" "listening t k port [fresh s]" "heap_ok t" "ofiles_same s t"
    "requests t = (requests s)(fresh s \<mapsto> \<lparr>admitted = False, c_peer = b, connected_cv = COND_INIT\<rparr>)"
    "o_FT t = o_FT s" "o_PT t = o_PT s" "\<forall>x. x \<noteq> k \<longrightarrow> sockets t x = sockets s x"
    "map_option s_refcount (sockets t k) = map_option (\<lambda>c. s_refcount c + 1) (sockets s k)"
    using connect_enqueue_eq [OF l hp, of b] by auto
  have sm: "n_proc t = n_proc s" "n_fileid t = n_fileid s" "curproc t = curproc s" using t(4) by (simp_all add: ofiles_same_def)
  let ?t = "t\<lparr>curproc := sv\<rparr>"
  have inv: "ofiles_inv ?t (c # xs) {} no_holds" using ok free ofiles_inv_same [OF t(4)] by (simp add: ofiles_with_def)
  have gf: "get_fcb lsock ?t = get_fcb lsock (s\<lparr>curproc := sv\<rparr>)" by (simp add: get_fcb_def t(7) sm)
  have pre: "listening ?t k port [fresh s]" "socket_fid ?t lsock k" "heap_ok ?t" "curproc ?t < n_proc ?t" "ofree_fids ?t = f # fs"
    using t(2,3) sv sm by (simp_all add: listening_def socket_fid_def gf heap_ok_def ofree_fids_def t(6,7))
  have rq: "requests ?t (fresh s) = Some \<lparr>admitted = False, c_peer = b, connected_cv = COND_INIT\<rparr>" "sockets ?t b = Some cb"
    using t(5,8) kb cl(2) by simp_all
  from accept_next [OF pre(1-3) rq(1) _ rq(2) kb inv pre(4,5), of h "[]"] obtain u r where
    u: "sys_Accept True True h lsock [] ?t = Some (u, int f)" "connected u (fresh ?t) b [] []" "listening u k port []"
      "requests u = (requests ?t)(fresh s \<mapsto> r)" "admitted r" "map_option s_refcount (sockets u k) = map_option s_refcount (sockets ?t k)"
      "q_FIDT (o_PT u sv) f = Some c" "f_streamobj (o_FT u c) = Socket_obj (fresh ?t)" "f_streamfunc (o_FT u c) = socket_ops" by auto
  let ?u = "u\<lparr>curproc := curproc s\<rparr>"
  have "server_accepts sv h lsock t = ?u" using u(1) sm by (simp add: server_accepts_def)
  then have wait: "connect_wait (fresh s) [(server_accepts sv h lsock, True)] t = Some ?u" using t(5) u(4,5) by simp
  obtain uc where uc: "sockets u k = Some uc" using u(3) by (auto simp: listening_def)
  have eq: "sys_Connect sock port [(server_accepts sv h lsock, True)] s = Some (drop_ref k ?u, 0)"
    unfolding sys_Connect_request [OF l port cl] t(1) bind.bind_lunit prod.case wait using uc u(4,5) by simp
  have ka: "fresh ?t \<noteq> k" using t(2,3) by (auto simp: listening_def heap_ok_def)
  have "connected (drop_ref k ?u) (fresh ?t) b [] []"
    using u(2) connected_cong [of "drop_ref k ?u" "fresh ?t" u b] ka kb by (simp add: drop_ref_def)
  moreover have "listening (drop_ref k ?u) k port []" using u(3) by (auto simp: listening_def drop_ref_def)
  moreover have "map_option s_refcount (sockets (drop_ref k ?u) k) = map_option s_refcount (sockets s k)"
    using u(6) t(9) uc by (cases "sockets s k"; cases "sockets t k") (auto simp: drop_ref_def)
  ultimately show ?thesis using eq u(7-9) by (intro exI [of _ "drop_ref k ?u"] exI [of _ "fresh ?t"]) (simp add: drop_ref_def)
qed

text \<open>C21. A connection is two bounded queues, one in each direction. Between two connected sockets, a write at one end
  to a direction that is not full appends as many bytes as fit to the queue towards the other end and returns their
  number; a read at the other end returns the oldest bytes, at most as many as asked for, and removes them; the
  other direction is not affected. So what one end writes is what the other end reads, in order.\<close>

theorem connection_is_two_queues:
  assumes "connected s a b xs ys"
  shows "(length ys < 4096 \<and> length buf < 2 ^ 32 \<longrightarrow>
       (\<exists>s'. socket_write (Some a) buf rs s = Some (s', int (min (length buf) (4096 - length ys)))
          \<and> connected s' a b xs (ys @ take (4096 - length ys) buf)))
    \<and> (ys \<noteq> [] \<longrightarrow> (\<exists>s'. socket_read (Some b) n rs s = Some (s', int (min (unat n) (length ys)), take (unat n) ys)
          \<and> connected s' a b xs (drop (unat n) ys)))
    \<and> (buf \<noteq> [] \<and> length buf \<le> 4096 \<and> ys = [] \<longrightarrow>
       (\<exists>s' s''. socket_write (Some a) buf rs s = Some (s', int (length buf))
          \<and> socket_read (Some b) 4096 rs s' = Some (s'', int (length buf), buf) \<and> connected s'' a b xs []))"
proof (intro conjI impI)
  assume "length ys < 4096 \<and> length buf < 2 ^ 32"
  then show "\<exists>s'. socket_write (Some a) buf rs s = Some (s', int (min (length buf) (4096 - length ys)))
      \<and> connected s' a b xs (ys @ take (4096 - length ys) buf)" using connected_write [OF assms] by blast
next
  assume "ys \<noteq> []"
  then show "\<exists>s'. socket_read (Some b) n rs s = Some (s', int (min (unat n) (length ys)), take (unat n) ys)
      \<and> connected s' a b xs (drop (unat n) ys)"
    using connected_read [OF connected_sym [OF assms]] connected_sym by blast
next
  assume b: "buf \<noteq> [] \<and> length buf \<le> 4096 \<and> ys = []"
  then obtain s' where s': "socket_write (Some a) buf rs s = Some (s', int (length buf))" "connected s' a b xs buf"
    using connected_write [OF assms, of buf rs] by auto
  from connected_read [OF connected_sym [OF s'(2)], of 4096 rs] b obtain s'' where
    "socket_read (Some b) 4096 rs s' = Some (s'', int (length buf), buf)" "connected s'' b a [] xs" by auto
  then show "\<exists>s' s''. socket_write (Some a) buf rs s = Some (s', int (length buf))
      \<and> socket_read (Some b) 4096 rs s' = Some (s'', int (length buf), buf) \<and> connected s'' a b xs []"
    using s'(1) connected_sym by blast
qed

section \<open>Listening\<close>

text \<open>\<open>Listen\<close> on every branch. For a file id that is not open it returns -1. For a socket it returns -1 and changes
  nothing when the socket has no port, when the port has a listener, or when the socket is not unbound; otherwise it
  returns 0, the socket listens on its port with no requests, and every other listener goes on listening. The port
  \<open>MAX_PORT\<close>, which \<open>Socket\<close> accepts, is outside the array: \<open>Listen\<close> then has no defined result.\<close>

theorem listen_on_every_branch:
  assumes "socket_fid s sock k" and "sockets s k = Some c" and "0 \<le> s_port c" and "s_port c \<le> MAX_PORT"
  shows "(get_fcb bad s = None \<longrightarrow> sys_Listen bad s = Some (s, -1))
    \<and> (if s_port c = NOPORT then sys_Listen sock s = Some (s, -1)
       else if s_port c = MAX_PORT then sys_Listen sock s = None
       else if PORT_MAP s (s_port c) \<noteq> None \<or> s_type c \<noteq> SOCKET_UNBOUND then sys_Listen sock s = Some (s, -1)
       else \<exists>s'. sys_Listen sock s = Some (s', 0) \<and> listening s' k (s_port c) []
          \<and> (\<forall>k' port q. listening s k' port q \<longrightarrow> listening s' k' port q)
          \<and> ofiles_same s s')"
proof (rule conjI)
  show "get_fcb bad s = None \<longrightarrow> sys_Listen bad s = Some (s, -1)" by (simp add: sys_Listen_def)
  obtain i where i: "0 \<le> sock" "\<not> sock > int (n_fileid s) - 1" "get_fcb sock s = Some i" "f_streamobj (o_FT s i) = Socket_obj k"
    using assms(1) by (rule socket_fidD)
  have eq: "sys_Listen sock s = (if s_port c = NOPORT then Some (s, -1) else do {
      used \<leftarrow> port_entry (s_port c) s;
      if used \<noteq> None \<or> s_type c \<noteq> SOCKET_UNBOUND then Some (s, -1)
      else Some (upd_socket k (\<lambda>c. c\<lparr>s_type := SOCKET_LISTENER, s_union := listener_s [] COND_INIT\<rparr>)
          (s\<lparr>PORT_MAP := (PORT_MAP s)(s_port c := Some k)\<rparr>), 0) })"
    using i assms(2) by (simp add: sys_Listen_def Let_def cong: if_cong)
  let ?s = "upd_socket k (\<lambda>c. c\<lparr>s_type := SOCKET_LISTENER, s_union := listener_s [] COND_INIT\<rparr>) (s\<lparr>PORT_MAP := (PORT_MAP s)(s_port c := Some k)\<rparr>)"
  show "if s_port c = NOPORT then sys_Listen sock s = Some (s, -1)
       else if s_port c = MAX_PORT then sys_Listen sock s = None
       else if PORT_MAP s (s_port c) \<noteq> None \<or> s_type c \<noteq> SOCKET_UNBOUND then sys_Listen sock s = Some (s, -1)
       else \<exists>s'. sys_Listen sock s = Some (s', 0) \<and> listening s' k (s_port c) []
          \<and> (\<forall>k' port q. listening s k' port q \<longrightarrow> listening s' k' port q) \<and> ofiles_same s s'"
  proof (cases "s_port c = NOPORT \<or> s_port c = MAX_PORT \<or> PORT_MAP s (s_port c) \<noteq> None \<or> s_type c \<noteq> SOCKET_UNBOUND")
    case True
    then show ?thesis using assms(3,4) unfolding eq by (auto simp: port_entry_def)
  next
    case False
    then have p: "0 < s_port c" "s_port c < MAX_PORT" "PORT_MAP s (s_port c) = None" "s_type c = SOCKET_UNBOUND" "s_port c \<noteq> NOPORT"
      using assms(3,4) by (auto simp: NOPORT_def)
    have "sys_Listen sock s = Some (?s, 0)" unfolding eq using p by (simp add: port_entry_def)
    moreover have "listening ?s k (s_port c) []" using p assms(2) by (simp add: listening_def)
    moreover have "listening ?s k' port q" if "listening s k' port q" for k' port q
      using that p assms(2) by (auto simp: listening_def)
    moreover have "ofiles_same s ?s" by simp
    ultimately have "\<exists>s'. sys_Listen sock s = Some (s', 0) \<and> listening s' k (s_port c) []
          \<and> (\<forall>k' port q. listening s k' port q \<longrightarrow> listening s' k' port q) \<and> ofiles_same s s'" by blast
    moreover have "\<not> s_port c = NOPORT" "\<not> s_port c = MAX_PORT" "\<not> (PORT_MAP s (s_port c) \<noteq> None \<or> s_type c \<noteq> SOCKET_UNBOUND)"
      using p by simp_all
    ultimately show ?thesis by (simp only: if_False)
  qed
qed

section \<open>Shutting down\<close>

lemma sys_ShutDown_peer:
  assumes "socket_fid s sock a" and "sockets s a = Some ca" and "s_union ca = peer_s w r"
  shows "sys_ShutDown sock SHUTDOWN_READ s = do { s \<leftarrow> close_reader r s; Some (upd_socket a (\<lambda>c. c\<lparr>s_union := peer_s w None\<rparr>) s, 0) }"
    and "sys_ShutDown sock SHUTDOWN_WRITE s = do { s \<leftarrow> close_writer w s; Some (upd_socket a (\<lambda>c. c\<lparr>s_union := peer_s None r\<rparr>) s, 0) }"
    and "how \<notin> {SHUTDOWN_READ, SHUTDOWN_WRITE, SHUTDOWN_BOTH} \<Longrightarrow> sys_ShutDown sock how s = Some (s, -1)"
proof -
  obtain i where i: "0 \<le> sock" "\<not> sock > int (n_fileid s) - 1" "get_fcb sock s = Some i" "f_streamobj (o_FT s i) = Socket_obj a"
    using assms(1) by (rule socket_fidD)
  show "sys_ShutDown sock SHUTDOWN_READ s = do { s \<leftarrow> close_reader r s; Some (upd_socket a (\<lambda>c. c\<lparr>s_union := peer_s w None\<rparr>) s, 0) }"
    "sys_ShutDown sock SHUTDOWN_WRITE s = do { s \<leftarrow> close_writer w s; Some (upd_socket a (\<lambda>c. c\<lparr>s_union := peer_s None r\<rparr>) s, 0) }"
    "how \<notin> {SHUTDOWN_READ, SHUTDOWN_WRITE, SHUTDOWN_BOTH} \<Longrightarrow> sys_ShutDown sock how s = Some (s, -1)"
    using i assms(2,3) by (simp_all add: sys_ShutDown_def SHUTDOWN_READ_def SHUTDOWN_WRITE_def SHUTDOWN_BOTH_def)
qed

lemma read_all_then_end:
  assumes "pipe_inv q ys" and "p_reader q = Some i" and "p_writer q = None"
  shows "\<exists>q'. pipe_read (Some q) 4096 rs = Some (Some q', int (length ys), ys) \<and> pipe_read (Some q') n rs' = Some (Some q', 0, [])"
proof (cases "ys = []")
  case True
  then show ?thesis using pipe_read_end assms by auto
next
  case False
  have "min 4096 (length ys) = length ys" "take 4096 ys = ys" "drop 4096 ys = []" using pipe_inv_count(1) [OF assms(1)] by simp_all
  with pipe_read_queue [OF assms(1,2) False, of 4096 rs] obtain q' where
    "pipe_read (Some q) 4096 rs = Some (Some q', int (length ys), ys)" "pipe_inv q' []" "p_reader q' = Some i" "p_writer q' = None"
    using assms(3) by auto
  then show ?thesis using pipe_read_end [of q' i n rs'] by blast
qed

text \<open>Shutting one direction of a connection down. After \<open>ShutDown(A, SHUTDOWN_READ)\<close> a read at A returns -1 and
  so does a write at the other end B. After \<open>ShutDown(A, SHUTDOWN_WRITE)\<close> a write at A returns -1, and B still gets
  all the bytes that were on their way and then 0. Both calls return 0, also when they are repeated, and an unknown
  mode gives -1.\<close>

theorem shutdown_one_direction:
  assumes c: "connected s a b xs ys" and fd: "socket_fid s sock a"
  shows "(\<exists>s'. sys_ShutDown sock SHUTDOWN_READ s = Some (s', 0) \<and> socket_read (Some a) n rs s' = Some (s', -1, [])
       \<and> socket_write (Some b) buf rs s' = Some (s', -1) \<and> sys_ShutDown sock SHUTDOWN_READ s' = Some (s', 0))
    \<and> (\<exists>s'. sys_ShutDown sock SHUTDOWN_WRITE s = Some (s', 0) \<and> socket_write (Some a) buf rs s' = Some (s', -1)
       \<and> (\<exists>s''. socket_read (Some b) 4096 rs s' = Some (s'', int (length ys), ys) \<and> socket_read (Some b) n rs s'' = Some (s'', 0, []))
       \<and> sys_ShutDown sock SHUTDOWN_WRITE s' = Some (s', 0))
    \<and> sys_ShutDown sock 0 s = Some (s, -1)"
proof (intro conjI)
  obtain ca cb ta tb p q where c: "a \<noteq> b" "ta \<noteq> tb" "sockets s a = Some ca" "s_type ca = SOCKET_PEER" "s_union ca = peer_s (Some tb) (Some ta)"
    "sockets s b = Some cb" "s_type cb = SOCKET_PEER" "s_union cb = peer_s (Some ta) (Some tb)"
    "pipes s ta = Some p" "open_pipe p" "pipe_inv p xs" "pipes s tb = Some q" "open_pipe q" "pipe_inv q ys"
    using c by (rule connectedE)
  note S = sys_ShutDown_peer [OF fd c(3,5)]
  show "sys_ShutDown sock 0 s = Some (s, -1)" by (rule S(3)) (simp add: SHUTDOWN_READ_def SHUTDOWN_WRITE_def SHUTDOWN_BOTH_def)
  let ?p = "kernel_broadcast hasSpace_update (p\<lparr>p_reader := None\<rparr>)"
  let ?ca = "ca\<lparr>s_union := peer_s (Some tb) None\<rparr>"
  let ?s = "s\<lparr>pipes := (pipes s)(ta \<mapsto> ?p), sockets := (sockets s)(a \<mapsto> ?ca)\<rparr>"
  have "sys_ShutDown sock SHUTDOWN_READ s = Some (?s, 0)"
    unfolding S(1) using c(3,9,10) by (auto simp: close_reader_def pipe_reader_close_def Let_def upd_socket_def open_pipe_def)
  moreover have "socket_read (Some a) n rs ?s = Some (?s, -1, [])" using c(4) by (simp add: socket_read_def read_from_pipe_def pipe_read_def)
  moreover have "socket_write (Some b) buf rs ?s = Some (?s, -1)"
    using c(1,6-8) by (simp add: socket_write_def write_to_pipe_def pipe_write_def)
  moreover have "socket_fid ?s sock a" using fd by (simp add: socket_fid_def)
  then have "sys_ShutDown sock SHUTDOWN_READ ?s = Some (?s, 0)"
    by (subst sys_ShutDown_peer(1) [of ?s sock a ?ca "Some tb" None]) (simp_all add: close_reader_def upd_socket_def)
  ultimately show "\<exists>s'. sys_ShutDown sock SHUTDOWN_READ s = Some (s', 0) \<and> socket_read (Some a) n rs s' = Some (s', -1, [])
       \<and> socket_write (Some b) buf rs s' = Some (s', -1) \<and> sys_ShutDown sock SHUTDOWN_READ s' = Some (s', 0)" by blast
  let ?q = "kernel_broadcast hasData_update (q\<lparr>p_writer := None\<rparr>)"
  let ?cw = "ca\<lparr>s_union := peer_s None (Some ta)\<rparr>"
  let ?w = "s\<lparr>pipes := (pipes s)(tb \<mapsto> ?q), sockets := (sockets s)(a \<mapsto> ?cw)\<rparr>"
  obtain i where i: "p_reader q = Some i" using c(13) by (auto simp: open_pipe_def)
  have "sys_ShutDown sock SHUTDOWN_WRITE s = Some (?w, 0)"
    unfolding S(2) using c(3,12) i by (simp add: close_writer_def pipe_writer_close_def Let_def upd_socket_def)
  moreover have "socket_write (Some a) buf rs ?w = Some (?w, -1)" using c(4) by (simp add: socket_write_def write_to_pipe_def pipe_write_def)
  moreover have "\<exists>s''. socket_read (Some b) 4096 rs ?w = Some (s'', int (length ys), ys) \<and> socket_read (Some b) n rs s'' = Some (s'', 0, [])"
  proof -
    from read_all_then_end [of ?q ys i rs n rs] c(14) i obtain q' where
      "pipe_read (Some ?q) 4096 rs = Some (Some q', int (length ys), ys)" "pipe_read (Some q') n rs = Some (Some q', 0, [])" by auto
    then show ?thesis using c(1,6-8)
      by (intro exI [of _ "?w\<lparr>pipes := (pipes ?w)(tb \<mapsto> q')\<rparr>"]) (simp add: socket_read_def read_from_pipe_def)
  qed
  moreover have "socket_fid ?w sock a" using fd by (simp add: socket_fid_def)
  then have "sys_ShutDown sock SHUTDOWN_WRITE ?w = Some (?w, 0)"
    by (subst sys_ShutDown_peer(2) [of ?w sock a ?cw None "Some ta"]) (simp_all add: close_writer_def upd_socket_def)
  ultimately show "\<exists>s'. sys_ShutDown sock SHUTDOWN_WRITE s = Some (s', 0) \<and> socket_write (Some a) buf rs s' = Some (s', -1)
       \<and> (\<exists>s''. socket_read (Some b) 4096 rs s' = Some (s'', int (length ys), ys) \<and> socket_read (Some b) n rs s'' = Some (s'', 0, []))
       \<and> sys_ShutDown sock SHUTDOWN_WRITE s' = Some (s', 0)" by blast
qed

section \<open>A request that times out\<close>

text \<open>C27. A request that times out is not taken back. When nobody accepts before the timeout, \<open>Connect\<close> returns -1, but
  the request stays in the queue of the listener. Once the client has closed its socket, which frees it, the next
  \<open>Accept\<close> takes the request and uses the freed socket: it has no defined result.\<close>

theorem timed_out_request_dangles:
  assumes l: "listening s k port []" and port: "port < MAX_PORT - 1" and hp: "heap_ok s" and ok: "ofiles_ok s"
    and cl: "socket_fid s sock b" "sockets s b = Some cb" "s_type cb = SOCKET_UNBOUND" "s_refcount cb = 0"
    and sv: "sv < n_proc s" "socket_fid (s\<lparr>curproc := sv\<rparr>) lsock k" "ofree_fids (s\<lparr>curproc := sv\<rparr>) = f # fs"
    and free: "o_FCB_freelist s = c # xs"
  shows "\<exists>s' s'' r. sys_Connect sock port [(id, False)] s = Some (s', -1) \<and> listening s' k port [r]
    \<and> map_option c_peer (requests s' r) = Some b
    \<and> socket_close (Some b) s' = Some (s'', 0) \<and> sockets s'' b = None
    \<and> sys_Accept m1 m2 h lsock rs (s''\<lparr>curproc := sv\<rparr>) = None"
proof -
  have kb: "b \<noteq> k" using l cl by (auto simp: listening_def)
  obtain t where t: "connect_enqueue k b s = Some (t, fresh s)" "listening t k port ([] @ [fresh s])" "heap_ok t" "ofiles_same s t"
    "requests t = (requests s)(fresh s \<mapsto> \<lparr>admitted = False, c_peer = b, connected_cv = COND_INIT\<rparr>)" "fresh t = fresh s + 1"
    "o_FT t = o_FT s" "o_PT t = o_PT s" "\<forall>x. x \<noteq> k \<longrightarrow> sockets t x = sockets s x"
    using connect_enqueue_eq [OF l hp, of b] by blast
  have sm: "n_proc t = n_proc s" "n_fileid t = n_fileid s" "curproc t = curproc s" using t(4) by (simp_all add: ofiles_same_def)
  have wait: "connect_wait (fresh s) [(id, False)] t = Some t" using t(5) by simp
  obtain tc where tc: "sockets t k = Some tc" using t(2) by (auto simp: listening_def)
  let ?s' = "drop_ref k t" and ?r = "fresh s"
  have eq: "sys_Connect sock port [(id, False)] s = Some (?s', -1)"
    unfolding sys_Connect_request [OF l port cl(1-3)] t(1) bind.bind_lunit prod.case wait using tc t(5) by simp
  have l': "listening ?s' k port [?r]" using t(2) by (auto simp: listening_def drop_ref_def)
  let ?s'' = "?s'\<lparr>sockets := (sockets ?s')(b := None)\<rparr>" and ?u = "?s'\<lparr>sockets := (sockets ?s')(b := None), curproc := sv\<rparr>"
  have tb: "sockets ?s' b = Some cb" using t(9) kb cl(2) by (simp add: drop_ref_def)
  have close: "socket_close (Some b) ?s' = Some (?s'', 0)" using tb cl(3,4) by (simp add: socket_close_def)
  have b: "b < fresh s" using hp cl(2) by (auto simp: heap_ok_def not_less [symmetric])
  have "ofiles_same s ?s''" using t(4) by (simp add: drop_ref_def)
  then have inv: "ofiles_inv ?u (c # xs) {} no_holds" using ok free ofiles_inv_same [of s ?s''] by (simp add: ofiles_with_def)
  have gf: "get_fcb lsock ?u = get_fcb lsock (s\<lparr>curproc := sv\<rparr>)" by (simp add: get_fcb_def t(8) sm drop_ref_def)
  have fd: "socket_fid ?u lsock k" using sv(2) by (simp add: socket_fid_def gf) (simp add: drop_ref_def t(7))
  have hu: "heap_ok ?u" using t(3) by (simp add: heap_ok_def drop_ref_def)
  have lu: "listening ?u k port (?r # [])" using l' kb by (auto simp: listening_def)
  have fu: "ofree_fids ?u = f # fs" "curproc ?u < n_proc ?u" using sv(1,3) by (simp_all add: ofree_fids_def drop_ref_def t(8) sm)
  have "sys_Accept m1 m2 h lsock rs ?u = None"
    using accept_freed [OF lu fd hu _ _ _ inv fu(2,1), of "\<lparr>admitted = False, c_peer = b, connected_cv = COND_INIT\<rparr>" m1 m2 h rs] t(5,6) b
    by (simp add: drop_ref_def)
  then show ?thesis using eq l' close t(5)
    by (intro exI [of _ ?s'] exI [of _ ?s''] exI [of _ ?r]) (simp add: drop_ref_def)
qed

section \<open>Witnesses\<close>

text \<open>Process 1 listens on port 80 with socket 11, process 2 has the unbound socket 10.\<close>

definition net_kernel :: okernel where
  "net_kernel = \<lparr>n_proc = 8, n_fileid = 4,
     o_FT = (\<lambda>i. \<lparr>f_refcount = 1, f_streamobj = Socket_obj (10 + i), f_streamfunc = socket_ops\<rparr>), o_FCB_freelist = [2..<8],
     o_PT = (\<lambda>p. \<lparr>q_pstate = ALIVE, q_parent = None, q_exitval = 0, q_main_thread = None, q_main_task = None, q_argl = 0, q_args = None,
        q_children_list = [], q_exited_list = [], q_child_exit = [],
        q_FIDT = (if p = 1 then [0 \<mapsto> 1] else if p = 2 then [0 \<mapsto> 0] else (\<lambda>_. None)), q_ptcb_list = [], q_thread_count = 1\<rparr>),
     pcb_freelist = None, process_count = 8, ptcbs = (\<lambda>_. None), woken = [], curproc = 2, curptcb = 0, pipes = (\<lambda>_. None),
     sockets = [10 \<mapsto> \<lparr>s_refcount = 0, s_fcb = 0, s_type = SOCKET_UNBOUND, s_port = 0, s_union = unbound_s\<rparr>,
        11 \<mapsto> \<lparr>s_refcount = 0, s_fcb = 1, s_type = SOCKET_LISTENER, s_port = 80, s_union = listener_s [] []\<rparr>],
     requests = (\<lambda>_. None), procinfos = (\<lambda>_. None), PORT_MAP = [80 \<mapsto> 11], fresh = 20, n_serial = 0,
     o_devtable = (\<lambda>d. \<lparr>d_type = d, d_devnum = 0, d_fops = nulldev_ops\<rparr>),
     o_serial_dcb = (\<lambda>i. \<lparr>d_devno = i, d_spinlock = False, d_rx_ready = []\<rparr>), o_handler = (\<lambda>_. None), preempt = True, sent = (\<lambda>_. [])\<rparr>"

lemma net_kernel_files: "ofiles_ok net_kernel" "heap_ok net_kernel" "listening net_kernel 11 80 []"
  "socket_fid net_kernel 0 10" "socket_fid (net_kernel\<lparr>curproc := 1\<rparr>) 0 11" "ofree_fids (net_kernel\<lparr>curproc := 1\<rparr>) = [1, 2, 3]"
proof -
  have r: "orefs net_kernel i = (if i = 0 then {(2, 0)} else if i = 1 then {(1, 0)} else {})" for i
    by (auto simp: orefs_def net_kernel_def split: if_splits)
  have c: "ocount net_kernel no_holds i = (if i < 2 then 1 else 0)" for i by (simp add: ocount_def r)
  have "ofiles_inv net_kernel [2..<8] {} no_holds"
  proof (rule ofiles_invI)
    fix p f i assume "q_FIDT (o_PT net_kernel p) f = Some i"
    then show "i < n_proc net_kernel" by (auto simp: net_kernel_def split: if_splits)
  qed (use c in \<open>auto simp: net_kernel_def\<close>)
  then show "ofiles_ok net_kernel" by (rule ofiles_okI) (simp_all add: net_kernel_def)
  show "heap_ok net_kernel" "listening net_kernel 11 80 []" "socket_fid net_kernel 0 10" "socket_fid (net_kernel\<lparr>curproc := 1\<rparr>) 0 11"
    by (simp_all add: net_kernel_def heap_ok_def listening_def socket_fid_def get_fcb_def MAX_PORT_def)
  show "ofree_fids (net_kernel\<lparr>curproc := 1\<rparr>) = [1, 2, 3]" by (simp add: net_kernel_def ofree_fids_def upt_rec)
qed

lemma net_kernel_facts: "sockets net_kernel 10 = Some \<lparr>s_refcount = 0, s_fcb = 0, s_type = SOCKET_UNBOUND, s_port = 0, s_union = unbound_s\<rparr>"
  "1 < n_proc net_kernel" "o_FCB_freelist net_kernel = 2 # [3..<8]" "(80 :: int) < MAX_PORT - 1"
  by (simp_all add: net_kernel_def MAX_PORT_def upt_rec)

theorem connect_meets_accept_witness:
  "\<exists>s' a. sys_Connect 0 80 [(server_accepts 1 \<lparr>c_next = (\<lambda>_. None), c_prev = (\<lambda>_. None), c_char = (\<lambda>_. 0), c_brk = 0\<rparr> 0, True)] net_kernel
      = Some (s', 0) \<and> connected s' a 10 [] []"
  using connect_meets_accept [OF net_kernel_files(3) net_kernel_facts(4) net_kernel_files(2,1,4) net_kernel_facts(1) _
      net_kernel_facts(2) net_kernel_files(5,6) net_kernel_facts(3)] by fastforce

theorem timed_out_request_dangles_witness:
  "\<exists>s' s''. sys_Connect 0 80 [(id, False)] net_kernel = Some (s', -1) \<and> socket_close (Some 10) s' = Some (s'', 0)
    \<and> sys_Accept True True \<lparr>c_next = (\<lambda>_. None), c_prev = (\<lambda>_. None), c_char = (\<lambda>_. 0), c_brk = 0\<rparr> 0 [] (s''\<lparr>curproc := 1\<rparr>) = None"
  using timed_out_request_dangles [OF net_kernel_files(3) net_kernel_facts(4) net_kernel_files(2,1,4) net_kernel_facts(1) _ _
      net_kernel_facts(2) net_kernel_files(5,6) net_kernel_facts(3)] by fastforce

theorem listen_on_every_branch_witness: "sys_Listen 0 net_kernel = Some (net_kernel, -1)"
  using listen_on_every_branch [OF net_kernel_files(4) net_kernel_facts(1)] by (simp add: NOPORT_def MAX_PORT_def)

lemma some_connection: "\<exists>s. connected s 10 11 [] [] \<and> socket_fid s 0 10"
proof -
  obtain p where p: "pipe_inv p []" using new_pipe_eq by blast
  let ?p = "p\<lparr>p_reader := Some 0, p_writer := Some 0\<rparr>"
  let ?s = "net_kernel\<lparr>pipes := [5 \<mapsto> ?p, 6 \<mapsto> ?p], sockets :=
     [10 \<mapsto> \<lparr>s_refcount = 0, s_fcb = 0, s_type = SOCKET_PEER, s_port = 0, s_union = peer_s (Some 6) (Some 5)\<rparr>,
      11 \<mapsto> \<lparr>s_refcount = 0, s_fcb = 0, s_type = SOCKET_PEER, s_port = 0, s_union = peer_s (Some 5) (Some 6)\<rparr>]\<rparr>"
  have "connected ?s 10 11 [] []" using p by (simp add: connected_def open_pipe_def)
  moreover have "socket_fid ?s 0 10" using net_kernel_files(4) by (simp add: socket_fid_def)
  ultimately show ?thesis by blast
qed

theorem connection_is_two_queues_witness:
  "\<exists>s s' s''. connected s 10 11 [] [] \<and> socket_write (Some 10) [1, 2, 3] [] s = Some (s', 3)
    \<and> socket_read (Some 11) 4096 [] s' = Some (s'', 3, [1, 2, 3])"
proof -
  obtain s where s: "connected s 10 11 [] []" using some_connection by blast
  from connection_is_two_queues [OF s, of "[1, 2, 3]" "[]"] show ?thesis using s by fastforce
qed

theorem shutdown_one_direction_witness:
  "\<exists>s s'. connected s 10 11 [] [] \<and> sys_ShutDown 0 SHUTDOWN_WRITE s = Some (s', 0) \<and> socket_write (Some 10) [1] [] s' = Some (s', -1)"
proof -
  obtain s where s: "connected s 10 11 [] []" "socket_fid s 0 10" using some_connection by blast
  from shutdown_one_direction [OF s, of 0 "[]" "[1]"] show ?thesis using s(1) by blast
qed

end
