(* ===== verification/Old_Calls.thy ===== *)
theory Old_Calls
  imports Old_Boot Old_Socket_Props
begin

text \<open>
  What the calls of the earlier kernel do for its users: exit and wait, two waits for one child, join and detach,
  \<open>Dup2\<close>, \<open>Pipe\<close>, and the information streams.
\<close>

section \<open>Exit and wait\<close>

lemma exit_close_nothing:
  assumes "\<forall>f<n_fileid s. q_FIDT (o_PT s cur) f = None"
  shows "exit_close_files cur s = Some s"
proof -
  have "for_each (\<lambda>i s. case q_FIDT (o_PT s cur) i of None \<Rightarrow> Some s
      | Some f \<Rightarrow> do { (s, r) \<leftarrow> old_FCB_decref f s; Some (set_oFIDT cur i None s) }) is s = Some s"
    if "\<forall>f\<in>set is. q_FIDT (o_PT s cur) f = None" for "is"
    using that by (induction "is") simp_all
  then show ?thesis using assms by (simp add: exit_close_files_def)
qed

text \<open>The state in which the last thread of a process starts to take it down.\<close>

definition last_words :: "int \<Rightarrow> okernel \<Rightarrow> okernel" where
  "last_words v s = upd_opcb (curproc s) (\<lambda>c. c\<lparr>q_exitval := v, q_thread_count := 0\<rparr>)
     (upd_optcb (curptcb s) (\<lambda>c. c\<lparr>t_exitval := v, t_exited := True, t_exit_cv := []\<rparr>) s)"

lemma upd_optcb_simps [simp]:
  "n_proc (upd_optcb i g s) = n_proc s" "n_fileid (upd_optcb i g s) = n_fileid s" "curproc (upd_optcb i g s) = curproc s"
  "o_PT (upd_optcb i g s) = o_PT s" "curptcb (upd_optcb i g s) = curptcb s" "pcb_freelist (upd_optcb i g s) = pcb_freelist s"
  "o_FT (upd_optcb i g s) = o_FT s" "o_FCB_freelist (upd_optcb i g s) = o_FCB_freelist s"
  "ptcbs (upd_optcb i g s) = (ptcbs s)(i := map_option g (ptcbs s i))"
  by (simp_all add: upd_optcb_def)

lemma old_sys_Exit_last:
  assumes "curproc s \<noteq> 1" and "q_thread_count (o_PT s (curproc s)) = 1" and "ptcbs s (curptcb s) = Some c"
  shows "old_sys_Exit v rss s = exit_process (curproc s) (last_words v s)"
proof -
  have "upd_opcb p f (upd_optcb i g s) = upd_optcb i g (upd_opcb p f s)" for p f i g by (simp add: upd_opcb_def upd_optcb_def)
  moreover have "upd_opcb p f (upd_opcb p g s) = upd_opcb p (f \<circ> g) s" for p f g s by (simp add: upd_opcb_def comp_def)
  ultimately have "upd_opcb (curproc s) (\<lambda>c. c\<lparr>q_thread_count := q_thread_count c - 1\<rparr>)
      (upd_optcb (curptcb s) (\<lambda>c. c\<lparr>t_exitval := v, t_exited := True, t_exit_cv := []\<rparr>) (upd_opcb (curproc s) (\<lambda>c. c\<lparr>q_exitval := v\<rparr>) s))
    = last_words v s"
    using assms(2) by (simp add: last_words_def upd_opcb_def upd_optcb_def)
  then show ?thesis using assms by (simp add: old_sys_Exit_def old_sys_ThreadExit_def old_get_pid_def Let_def)
qed

lemma last_words_tables: "same_tables s (last_words v s)" "q_exitval (o_PT (last_words v s) (curproc s)) = v"
  "q_ptcb_list (o_PT (last_words v s) p) = q_ptcb_list (o_PT s p)"
  by (simp_all add: last_words_def same_tables_def)

lemma exit_process_returns:
  assumes "curproc s \<noteq> 1" and "init_alive s" and "q_parent (o_PT s (curproc s)) = Some q" "q \<noteq> curproc s"
    and "curproc s \<notin> set (q_children_list (o_PT s (curproc s)))"
    and "q_ptcb_list (o_PT s (curproc s)) \<noteq> []" and "\<forall>f<n_fileid s. q_FIDT (o_PT s (curproc s)) f = None"
  shows "\<exists>t. exit_process (curproc s) s = Some t"
proof -
  let ?cur = "curproc s"
  have g1: "old_get_pcb 1 s = Some 1" using assms(2) by (simp add: old_get_pcb_def init_alive_def)
  have "\<exists>t. exit_reparent ?cur s = Some t"
    unfolding exit_reparent_def g1 bind.bind_lunit reparent_loop [OF assms(1)] using assms(1,3,5) by (auto simp: Let_def)
  then obtain t where t: "exit_reparent ?cur s = Some t" by blast
  note R = exit_reparent_tree [OF assms(1,5) t]
  from R(1) have e: "(\<lambda>x. q_children_list (o_PT t x)) = (\<lambda>x. q_children_list (o_PT s x))(?cur := [], 1 := rev (q_children_list (o_PT s ?cur)) @ q_children_list (o_PT s 1))"
    "\<exists>p. q_parent (o_PT s ?cur) = Some p \<and> (\<lambda>x. q_exited_list (o_PT t x)) = (let e = (\<lambda>x. q_exited_list (o_PT s x))(?cur := [], 1 := q_exited_list (o_PT s 1) @ q_exited_list (o_PT s ?cur))
         in e(p := ?cur # e p))" by blast+
  have c: "q_children_list (o_PT t ?cur) = []" using fun_cong [OF e(1), of ?cur] assms(1) by simp
  have x: "q_exited_list (o_PT t ?cur) = []" using e(2) assms(1,3,4) by (auto simp: Let_def dest!: fun_cong [of _ _ ?cur])
  have pl: "q_ptcb_list (o_PT t ?cur) = q_ptcb_list (o_PT s ?cur)"
    using t unfolding exit_reparent_def g1 bind.bind_lunit reparent_loop [OF assms(1)] by (auto simp: Let_def split: Option.bind_splits if_splits)
  have cl: "exit_close_files ?cur (upd_opcb ?cur (\<lambda>c. c\<lparr>q_args := None\<rparr>) t) = Some (upd_opcb ?cur (\<lambda>c. c\<lparr>q_args := None\<rparr>) t)"
    by (rule exit_close_nothing) (use assms(7) R(3,8) in simp)
  show ?thesis using assms(1,6) t c x pl cl by (simp add: exit_process_def old_get_pid_def exit_free_ptcbs_def Let_def)
qed

text \<open>C22. What a process leaves with \<open>Exit\<close> is what its parent gets from \<open>WaitChild\<close>. When the last thread of a
  process other than the initial one calls \<open>Exit(v)\<close>, the process becomes a zombie without files, its children become
  children of the initial process, and \<open>WaitChild\<close> of its pid by its parent returns this pid at once with status \<open>v\<close>
  and frees the pid; the tables are consistent throughout. The exit is sure to come to its end
  when the process has no open files.\<close>

theorem old_exit_then_wait:
  assumes ok: "osys_ok s" "cur_alive s" "init_alive s" and cur: "curproc s \<noteq> 1" "q_thread_count (o_PT s (curproc s)) = 1"
    "q_ptcb_list (o_PT s (curproc s)) \<noteq> []" "ptcbs s (curptcb s) = Some c" and par: "q_parent (o_PT s (curproc s)) = Some q"
  shows "((\<forall>f<n_fileid s. q_FIDT (o_PT s (curproc s)) f = None) \<longrightarrow> (\<exists>t. old_sys_Exit v rss s = Some t))
    \<and> (\<forall>t. old_sys_Exit v rss s = Some t \<longrightarrow>
        q_pstate (o_PT t (curproc s)) = ZOMBIE \<and> (\<forall>f<n_fileid s. q_FIDT (o_PT t (curproc s)) f = None)
      \<and> (\<forall>x\<in>set (q_children_list (o_PT s (curproc s))). q_parent (o_PT t x) = Some 1 \<and> x \<in> set (q_children_list (o_PT t 1)))
      \<and> osys_ok t
      \<and> (\<exists>u. old_sys_WaitChild (int (curproc s)) [] (t\<lparr>curproc := q, curptcb := k\<rparr>) = Some (u, int (curproc s), Some v)
           \<and> q_pstate (o_PT u (curproc s)) = FREE \<and> osys_ok u))"
proof -
  let ?cur = "curproc s" and ?w = "last_words v s"
  note T = last_words_tables(1,2) [where s = s and v = v] last_words_tables(3) [where s = s and v = v]
  note S = T(1) [unfolded same_tables_def]
  obtain ps where tab: "?cur < n_proc s" "otable s ps" using ok(1) by (rule osys_okD)
  have q: "q < n_proc s" "q \<noteq> ?cur" using table_invD(7) [OF tab(2) [unfolded otable_def] tab(1) _ par] ok(2) by auto
  have w: "osys_ok ?w" "cur_alive ?w" "init_alive ?w" "curproc ?w = ?cur"
    using same_tables_ok [OF T(1)] ok S by (simp_all add: init_alive_def)
  have run: "old_sys_Exit v rss s = exit_process (curproc ?w) ?w" using old_sys_Exit_last [OF cur(1,2,4)] w(4) by simp
  have "\<exists>t. old_sys_Exit v rss s = Some t" if "\<forall>f<n_fileid s. q_FIDT (o_PT s ?cur) f = None"
  proof -
    have "?cur \<notin> set (q_children_list (o_PT s ?cur))" using table_invD(5,7) [OF tab(2) [unfolded otable_def] tab(1), of ?cur] ok(2) by auto
    then show ?thesis unfolding run using that cur(1,3) w(3,4) par q(2) S T(3) by (intro exit_process_returns) simp_all
  qed
  moreover have "q_pstate (o_PT t ?cur) = ZOMBIE \<and> (\<forall>f<n_fileid s. q_FIDT (o_PT t ?cur) f = None)
      \<and> (\<forall>x\<in>set (q_children_list (o_PT s ?cur)). q_parent (o_PT t x) = Some 1 \<and> x \<in> set (q_children_list (o_PT t 1))) \<and> osys_ok t
      \<and> (\<exists>u. old_sys_WaitChild (int ?cur) [] (t\<lparr>curproc := q, curptcb := k\<rparr>) = Some (u, int ?cur, Some v)
           \<and> q_pstate (o_PT u ?cur) = FREE \<and> osys_ok u)" if t: "old_sys_Exit v rss s = Some t" for t
  proof -
    have e: "exit_process (curproc ?w) ?w = Some t" using t run by simp
    have "curproc ?w \<noteq> 1" using w(4) cur(1) by simp
    note E = exit_process_tree [OF w(1,2) this e, unfolded w(4)]
    have tok: "osys_ok t" by (rule exit_process_ok [OF w(1-3) e])
    let ?t = "t\<lparr>curproc := q, curptcb := k\<rparr>"
    have n: "n_proc t = n_proc s" using E(7) S by simp
    have tt: "osys_ok ?t" by (rule osys_switch [OF tok]) (use n q(1) in simp)
    have p: "q_parent (o_PT t ?cur) = Some q" "q_exitval (o_PT t ?cur) = v" using E(3) [of ?cur] E(5) [of ?cur] E(8) par S T(2) by simp_all
    let ?u = "fst (old_cleanup_zombie ?cur ?t)"
    have W: "old_sys_WaitChild (int ?cur) [] ?t = Some (?u, int ?cur, Some v)"
      using E(1) p tab(1) n by (simp add: old_sys_WaitChild_def NOPROC_def wait_for_specific_child_def old_get_pcb_def old_cleanup_zombie_def)
    have "osys_ok ?u" by (rule cleanup_ok [OF tt]) (use E(1) n tab(1) in simp_all)
    moreover have "q_pstate (o_PT ?u ?cur) = FREE" by (simp add: old_cleanup_zombie_def old_release_PCB_def)
    moreover have "q_parent (o_PT t x) = Some 1 \<and> x \<in> set (q_children_list (o_PT t 1))" if "x \<in> set (q_children_list (o_PT s ?cur))" for x
      using that E(3) [of x] E(4) S by simp
    ultimately show ?thesis using E(1,6) tok W S by simp
  qed
  ultimately show ?thesis by blast
qed

section \<open>A small family\<close>

text \<open>Process 1 with the child 2 and its child 3; process 2 runs.\<close>

definition family :: okernel where
  "family = blank_okernel\<lparr>o_FCB_freelist := [0..<8], pcb_freelist := Some 4, process_count := 4, curproc := 2, curptcb := 20,
     ptcbs := [20 \<mapsto> \<lparr>t_task = None, t_argl = 0, t_args = None, t_exitval = 0, t_exited = False, t_detached = False, t_exit_cv = [], t_refcount = 0\<rparr>],
     fresh := 21,
     o_PT := (\<lambda>p. \<lparr>q_pstate = (if p < 4 then ALIVE else FREE),
        q_parent = (if p < 2 then None else if p < 4 then Some (p - 1) else if p < 7 then Some (p + 1) else None), q_exitval = 0,
        q_main_thread = None, q_main_task = None, q_argl = 0, q_args = None,
        q_children_list = (if p = 1 \<or> p = 2 then [p + 1] else []), q_exited_list = [], q_child_exit = [], q_FIDT = (\<lambda>_. None),
        q_ptcb_list = (if p = 2 then [20] else []), q_thread_count = 1\<rparr>)\<rparr>"

lemma less8: "(p :: nat) < 8 \<longleftrightarrow> p \<in> {0, 1, 2, 3, 4, 5, 6, 7}"
  by auto

lemma family_ok: "osys_ok family" "init_alive family"
proof -
  have r: "orefs family i = {}" for i by (simp add: orefs_def family_def)
  have "ofiles_inv family [0..<8] {} no_holds"
    by (rule ofiles_invI) (simp_all add: ocount_def r, simp_all add: family_def blank_okernel_def)
  moreover have "otable family [4, 5, 6, 7]"
    unfolding otable_def
    by (rule table_invI) (auto simp: family_def blank_okernel_def less8)
  ultimately show "osys_ok family" by (intro osys_okI) (simp_all add: family_def blank_okernel_def no_files_def)
  show "init_alive family" by (simp add: init_alive_def family_def blank_okernel_def)
qed

theorem old_exit_then_wait_witness:
  "\<exists>t u. old_sys_Exit 42 [] family = Some t \<and> q_parent (o_PT t 3) = Some 1
     \<and> old_sys_WaitChild 2 [] (t\<lparr>curproc := 1, curptcb := 0\<rparr>) = Some (u, 2, Some 42) \<and> q_pstate (o_PT u 2) = FREE \<and> osys_ok u"
proof -
  have f: "curproc family = 2" "cur_alive family" "q_thread_count (o_PT family 2) = 1" "q_ptcb_list (o_PT family 2) \<noteq> []" "q_parent (o_PT family 2) = Some 1"
    "\<forall>f<n_fileid family. q_FIDT (o_PT family 2) f = None" "q_children_list (o_PT family 2) = [3]" by (simp_all add: family_def)
  obtain c where c: "ptcbs family (curptcb family) = Some c" by (simp add: family_def)
  note T = old_exit_then_wait [OF family_ok(1) f(2) family_ok(2) _ _ _ c, of 1 42 "[]" 0, unfolded f(1)]
  from T f obtain t where "old_sys_Exit 42 [] family = Some t" by auto
  with T f show ?thesis by fastforce
qed

section \<open>Two waits for one child\<close>

text \<open>\<open>Exec\<close> takes the PCB at the head of the free list, whatever it is.\<close>

lemma exec_takes_head:
  assumes "pcb_freelist s = Some p" and "old_copy_args al ar \<noteq> None"
  shows "\<exists>t. old_sys_Exec call al ar s = Some (t, int p) \<and> pcb_freelist t = q_parent (o_PT s p) \<and> curproc t = curproc s
    \<and> q_pstate (o_PT t p) = ALIVE \<and> (1 < p \<longrightarrow> q_parent (o_PT t p) = Some (curproc s))"
proof -
  obtain a where A: "old_acquire_PCB s = (a, Some p)" "pcb_freelist a = q_parent (o_PT s p)" "curproc a = curproc s" "q_pstate (o_PT a p) = ALIVE"
    using assms(1) by (simp add: old_acquire_PCB_def Let_def)
  have ft: "ft_only u (fold (inherit_file q p) fs u)" for q fs u
    by (induction fs arbitrary: u) (auto intro: ft_only_trans ft_only_inherit)
  let ?e = "old_exec_parent p a"
  have E: "pcb_freelist ?e = pcb_freelist a" "curproc ?e = curproc a" "q_pstate (o_PT ?e p) = ALIVE" "1 < p \<longrightarrow> q_parent (o_PT ?e p) = Some (curproc s)"
    using A(2-4) by (auto simp: old_exec_parent_def old_get_pid_def Let_def ft_only_fields [OF ft])
  show ?thesis
  proof (cases call)
    case None
    then show ?thesis using A E assms(2) by (auto simp: old_sys_Exec_def old_get_pid_def Let_def)
  next
    case (Some x)
    then show ?thesis using A E assms(2) by (auto simp: old_sys_Exec_def old_get_pid_def old_create_ptcb_def old_wakeup_def Let_def)
  qed
qed

text \<open>C23. A child that two threads of its parent wait for is reaped twice. Suppose a thread waits for its living child
  \<open>c\<close>, and while it sleeps the child exits and another thread of the process reaps it with \<open>WaitChild\<close>. When the
  first thread goes on it sees that \<open>c\<close> is not alive and reaps it again: it returns \<open>c\<close> as well,
  the PCB of \<open>c\<close> becomes its own successor on the free list, and the tables are inconsistent. If the process then creates
  processes, the first and the second \<open>Exec\<close> both return the pid \<open>c\<close>, the second while the first process is alive; by then
  the link of the free list has been overwritten with the parent, and the third \<open>Exec\<close> takes the PCB of the calling process itself.\<close>

theorem double_wait_corrupts_freelist:
  assumes c: "c < n_proc s" "1 < c" "q_pstate (o_PT s c) = ALIVE" "q_parent (o_PT s c) = Some (curproc s)"
    and other: "old_sys_WaitChild (int c) [] u = Some (v, int c, Some st0)" "curproc u = curproc s" and r: "r s = v"
    and ar: "old_copy_args al ar \<noteq> None"
  shows "\<exists>t st t1 t2 t3. old_sys_WaitChild (int c) [r] s = Some (t, int c, st) \<and> pcb_freelist t = Some c \<and> q_parent (o_PT t c) = Some c
    \<and> \<not> osys_ok t
    \<and> old_sys_Exec call al ar t = Some (t1, int c) \<and> q_pstate (o_PT t1 c) = ALIVE
    \<and> old_sys_Exec call al ar t1 = Some (t2, int c)
    \<and> old_sys_Exec call al ar t2 = Some (t3, int (curproc s))"
proof -
  have v: "v = fst (old_cleanup_zombie c u)"
    using other(1) by (auto simp: old_sys_WaitChild_def NOPROC_def wait_for_specific_child_def old_get_pcb_def old_cleanup_zombie_def
        split: if_splits option.splits Option.bind_splits)
  have vf: "pcb_freelist v = Some c" "q_pstate (o_PT v c) = FREE" by (simp_all add: v old_cleanup_zombie_def old_release_PCB_def)
  let ?t = "fst (old_cleanup_zombie c v)"
  have W: "old_sys_WaitChild (int c) [r] s = Some (?t, int c, Some (q_exitval (o_PT v c)))"
    using c r vf(2) by (simp add: old_sys_WaitChild_def NOPROC_def wait_for_specific_child_def old_get_pcb_def old_cleanup_zombie_def)
  have t: "pcb_freelist ?t = Some c" "q_parent (o_PT ?t c) = Some c" "curproc ?t = curproc s"
    using vf(1) other(2) by (simp_all add: v old_cleanup_zombie_def old_release_PCB_def unlink_child_def)
  have "\<not> otable ?t ps" for ps
  proof
    assume "otable ?t ps"
    note I = this [unfolded otable_def]
    obtain qs where qs: "ps = c # qs" using free_chain_Some [OF table_invD(1) [OF I] t(1)] by blast
    then have "free_chain (\<lambda>p. q_parent (o_PT ?t p)) (Some c) qs" using table_invD(1) [OF I] t(2) by simp
    then have "c \<in> set qs" using free_chain_Some by fastforce
    then show False using table_invD(2) [OF I] qs by simp
  qed
  then have bad: "\<not> osys_ok ?t" by (simp add: osys_with_def)
  obtain t1 where t1: "old_sys_Exec call al ar ?t = Some (t1, int c)" "pcb_freelist t1 = Some c" "curproc t1 = curproc s" "q_pstate (o_PT t1 c) = ALIVE"
    "q_parent (o_PT t1 c) = Some (curproc s)" using exec_takes_head [OF t(1) ar, of call] t(2,3) c(2) by auto
  obtain t2 where t2: "old_sys_Exec call al ar t1 = Some (t2, int c)" "pcb_freelist t2 = Some (curproc s)"
    using exec_takes_head [OF t1(2) ar, of call] t1(5) by auto
  obtain t3 where "old_sys_Exec call al ar t2 = Some (t3, int (curproc s))" using exec_takes_head [OF t2(2) ar, of call] by auto
  then show ?thesis using W t(1,2) bad t1(1,4) t2(1) by blast
qed

theorem double_wait_corrupts_freelist_witness:
  "\<exists>t st t1 t2 t3. old_sys_WaitChild 3 [\<lambda>s. fst (old_cleanup_zombie 3 (upd_opcb 3 (\<lambda>c. c\<lparr>q_pstate := ZOMBIE\<rparr>) s))] family = Some (t, 3, st)
    \<and> old_sys_Exec (Some 9) 0 None t = Some (t1, 3) \<and> old_sys_Exec (Some 9) 0 None t1 = Some (t2, 3) \<and> old_sys_Exec (Some 9) 0 None t2 = Some (t3, 2)"
proof -
  let ?u = "upd_opcb 3 (\<lambda>c. c\<lparr>q_pstate := ZOMBIE\<rparr>) family"
  have u: "old_sys_WaitChild (int 3) [] ?u = Some (fst (old_cleanup_zombie 3 ?u), int 3, Some 0)"
    by (simp add: old_sys_WaitChild_def NOPROC_def wait_for_specific_child_def old_get_pcb_def old_cleanup_zombie_def family_def blank_okernel_def)
  have f: "3 < n_proc family" "1 < (3 :: nat)" "q_pstate (o_PT family 3) = ALIVE" "q_parent (o_PT family 3) = Some (curproc family)"
    "curproc ?u = curproc family" "curproc family = 2" by (simp_all add: family_def blank_okernel_def)
  have ar: "old_copy_args 0 None \<noteq> None" by (simp add: old_copy_args_def)
  show ?thesis using double_wait_corrupts_freelist [OF f(1-4) u f(5) _ ar,
      of "\<lambda>s. fst (old_cleanup_zombie 3 (upd_opcb 3 (\<lambda>c. c\<lparr>q_pstate := ZOMBIE\<rparr>) s))" "Some 9"] f(6) by auto
qed

section \<open>Joining and detaching threads\<close>

text \<open>Another thread of the process runs during a wait: it detaches \<open>tid\<close>, or it is \<open>tid\<close> and exits.\<close>

definition detached_meanwhile :: "nat \<Rightarrow> opause" where
  "detached_meanwhile tid t = (case old_sys_ThreadDetach tid t of Some (t', r) \<Rightarrow> t' | None \<Rightarrow> t)"

definition exited_meanwhile :: "nat \<Rightarrow> int \<Rightarrow> opause" where
  "exited_meanwhile tid v t = (case old_sys_ThreadExit v (t\<lparr>curptcb := tid\<rparr>) of Some t' \<Rightarrow> t'\<lparr>curptcb := curptcb t\<rparr> | None \<Rightarrow> t)"

text \<open>C24. \<open>ThreadJoin\<close> on a thread of the same process other than the caller, not detached. If the thread has exited, or
  exits while the caller waits and others of its process remain, the call returns 0 with the exit value, and the last
  of the joiners takes the PTCB out of the list of the process and frees it. If the thread
  is detached while the caller waits, the call returns -1 and leaves the count of joiners one too high, so that the
  PTCB is never freed by a join.\<close>

theorem old_join_returns:
  assumes t: "tid \<in> set (q_ptcb_list (o_PT s (curproc s)))" "curptcb s \<noteq> tid" "ptcbs s tid = Some c" "\<not> t_detached c"
  shows "(t_exited c \<longrightarrow> (\<exists>s'. old_sys_ThreadJoin tid [] s = Some (s', 0, Some (t_exitval c))
           \<and> ptcbs s' tid = (if t_refcount c = 0 then None else Some c)
           \<and> (tid \<in> set (q_ptcb_list (o_PT s' (curproc s))) \<longleftrightarrow> t_refcount c \<noteq> 0)))
    \<and> (\<not> t_exited c \<and> q_thread_count (o_PT s (curproc s)) \<noteq> 1 \<longrightarrow>
         (\<exists>s'. old_sys_ThreadJoin tid [exited_meanwhile tid v] s = Some (s', 0, Some v)
            \<and> (ptcbs s' tid = None \<longleftrightarrow> t_refcount c = 0)))
    \<and> (\<not> t_exited c \<longrightarrow> (\<exists>s' c'. old_sys_ThreadJoin tid [detached_meanwhile tid] s = Some (s', -1, None)
           \<and> ptcbs s' tid = Some c' \<and> t_detached c' \<and> t_refcount c' = t_refcount c + 1))"
proof (intro conjI impI)
  assume "t_exited c"
  then show "\<exists>s'. old_sys_ThreadJoin tid [] s = Some (s', 0, Some (t_exitval c))
           \<and> ptcbs s' tid = (if t_refcount c = 0 then None else Some c)
           \<and> (tid \<in> set (q_ptcb_list (o_PT s' (curproc s))) \<longleftrightarrow> t_refcount c \<noteq> 0)"
    using t by (simp add: old_sys_ThreadJoin_def old_sys_ThreadSelf_def Let_def)
next
  assume n: "\<not> t_exited c \<and> q_thread_count (o_PT s (curproc s)) \<noteq> 1"
  let ?s = "upd_optcb tid (\<lambda>c. c\<lparr>t_refcount := t_refcount c + 1\<rparr>) s"
  have "ptcbs (exited_meanwhile tid v ?s) tid = Some (c\<lparr>t_refcount := t_refcount c + 1, t_exitval := v, t_exited := True, t_exit_cv := []\<rparr>)"
    using t n by (simp add: exited_meanwhile_def old_sys_ThreadExit_def Let_def)
  then show "\<exists>s'. old_sys_ThreadJoin tid [exited_meanwhile tid v] s = Some (s', 0, Some v) \<and> (ptcbs s' tid = None \<longleftrightarrow> t_refcount c = 0)"
    using t n by (simp add: old_sys_ThreadJoin_def old_sys_ThreadSelf_def Let_def)
next
  assume n: "\<not> t_exited c"
  let ?s = "upd_optcb tid (\<lambda>c. c\<lparr>t_refcount := t_refcount c + 1\<rparr>) s"
  have "ptcbs (detached_meanwhile tid ?s) tid = Some (c\<lparr>t_refcount := t_refcount c + 1, t_detached := True, t_exit_cv := []\<rparr>)"
    using t n by (simp add: detached_meanwhile_def old_sys_ThreadDetach_def)
  then show "\<exists>s' c'. old_sys_ThreadJoin tid [detached_meanwhile tid] s = Some (s', -1, None)
           \<and> ptcbs s' tid = Some c' \<and> t_detached c' \<and> t_refcount c' = t_refcount c + 1"
    using t n by (simp add: old_sys_ThreadJoin_def old_sys_ThreadSelf_def)
qed

theorem old_join_returns_witness:
  "\<exists>s'. old_sys_ThreadJoin 20 [exited_meanwhile 20 7] (upd_opcb 2 (\<lambda>c. c\<lparr>q_thread_count := 2\<rparr>) family\<lparr>curptcb := 5\<rparr>) = Some (s', 0, Some 7)
    \<and> ptcbs s' 20 = None"
proof -
  let ?s = "upd_opcb 2 (\<lambda>c. c\<lparr>q_thread_count := 2\<rparr>) family\<lparr>curptcb := 5\<rparr>"
  obtain c where c: "ptcbs ?s 20 = Some c" "\<not> t_detached c" "\<not> t_exited c" "t_refcount c = 0" by (simp add: family_def)
  have "20 \<in> set (q_ptcb_list (o_PT ?s (curproc ?s)))" "curptcb ?s \<noteq> 20" "q_thread_count (o_PT ?s (curproc ?s)) \<noteq> 1" by (simp_all add: family_def)
  then show ?thesis using old_join_returns [OF _ _ c(1,2), of 7] c(3,4) by auto
qed

section \<open>Duplicating a file id\<close>

text \<open>C25. \<open>Dup2(oldfd, newfd)\<close> makes \<open>newfd\<close> a second name of the stream of \<open>oldfd\<close>. With both in range and \<open>oldfd\<close>
  open, when \<open>newfd\<close> is closed or already refers to this stream the call returns 0; whenever it returns
  (with the stream \<open>newfd\<close> had before given up) both ids lead to the FCB of \<open>oldfd\<close>, every other file id of every process is
  as before, the file table is consistent, and reads and writes through the two ids are the same.
  With an id out of range or \<open>oldfd\<close> closed it returns -1 and changes nothing.\<close>

theorem dup2_shares_the_stream:
  assumes ok: "ofiles_ok s"
  shows "if 0 \<le> oldfd \<and> 0 \<le> newfd \<and> oldfd < int (n_fileid s) \<and> newfd < int (n_fileid s) \<and> get_fcb oldfd s \<noteq> None
    then (get_fcb newfd s = None \<or> get_fcb newfd s = get_fcb oldfd s \<longrightarrow> sys_Dup2 oldfd newfd s \<noteq> None)
      \<and> (\<forall>s' r. sys_Dup2 oldfd newfd s = Some (s', r) \<longrightarrow> r = 0 \<and> ofiles_ok s'
          \<and> (\<forall>p f. q_FIDT (o_PT s' p) f = (if p = curproc s \<and> f = nat newfd then get_fcb oldfd s else q_FIDT (o_PT s p) f))
          \<and> (\<forall>n e. old_sys_Read newfd n e s' = old_sys_Read oldfd n e s') \<and> (\<forall>buf e. old_sys_Write newfd buf e s' = old_sys_Write oldfd buf e s'))
    else sys_Dup2 oldfd newfd s = Some (s, -1)"
proof (cases "0 \<le> oldfd \<and> 0 \<le> newfd \<and> oldfd < int (n_fileid s) \<and> newfd < int (n_fileid s) \<and> get_fcb oldfd s \<noteq> None")
  case True
  then obtain i where i: "get_fcb oldfd s = Some i" by blast
  have fd: "q_FIDT (o_PT s (curproc s)) (nat oldfd) = Some i" using get_fcb_SomeD [OF i] by simp
  have none: "sys_Dup2 oldfd newfd s \<noteq> None" if "get_fcb newfd s = None \<or> get_fcb newfd s = get_fcb oldfd s"
    using that True i by (auto simp: sys_Dup2_def Let_def)
  have some: "r = 0 \<and> ofiles_ok s' \<and> (\<forall>p f. q_FIDT (o_PT s' p) f = (if p = curproc s \<and> f = nat newfd then get_fcb oldfd s else q_FIDT (o_PT s p) f))
      \<and> (\<forall>n e. old_sys_Read newfd n e s' = old_sys_Read oldfd n e s') \<and> (\<forall>buf e. old_sys_Write newfd buf e s' = old_sys_Write oldfd buf e s')"
    if run: "sys_Dup2 oldfd newfd s = Some (s', r)" for s' r
  proof -
    have F: "r = 0 \<and> curproc s' = curproc s \<and> n_fileid s' = n_fileid s
        \<and> (\<forall>p f. q_FIDT (o_PT s' p) f = (if p = curproc s \<and> f = nat newfd then Some i else q_FIDT (o_PT s p) f))"
    proof (cases "get_fcb oldfd s = get_fcb newfd s")
      case eq: True
      have "s' = s \<and> r = 0" using run True i eq by (auto simp: sys_Dup2_def Let_def)
      moreover have "q_FIDT (o_PT s (curproc s)) (nat newfd) = Some i" using get_fcb_SomeD(3) [of newfd s i] eq i by simp
      ultimately show ?thesis by simp
    next
      case False
      then obtain t where t: "s' = set_oFIDT (curproc t) (nat newfd) (Some i) (old_FCB_incref i t)" "r = 0"
        "t = s \<or> (\<exists>j v. old_FCB_decref j s = Some (t, v))"
        using run True i by (fastforce simp: sys_Dup2_def Let_def split: option.splits Option.bind_splits if_splits)
      have "n_fileid t = n_fileid s" "curproc t = curproc s" "o_PT t = o_PT s" using t(3) decref_frame by blast+
      then show ?thesis using t(1,2) by simp
    qed
    have "get_fcb newfd s' = Some i" "get_fcb oldfd s' = Some i" using True F fd by (auto simp: get_fcb_def)
    then show ?thesis using F i sys_Dup2_ok [OF ok run] by (simp add: old_sys_Read_def old_sys_Write_def)
  qed
  show ?thesis unfolding if_P [OF True] using none some by blast
next
  case False
  then have "sys_Dup2 oldfd newfd s = Some (s, -1)" by (auto simp: sys_Dup2_def Let_def)
  then show ?thesis unfolding if_not_P [OF False] .
qed

theorem dup2_shares_the_stream_witness: "\<exists>s' r. sys_Dup2 0 3 net_kernel = Some (s', r) \<and> q_FIDT (o_PT s' 2) 3 = Some 0"
proof -
  have "get_fcb 0 net_kernel = Some 0" "get_fcb 3 net_kernel = None" "n_fileid net_kernel = 4" "curproc net_kernel = 2"
    by (simp_all add: net_kernel_def get_fcb_def)
  with dup2_shares_the_stream [OF net_kernel_files(1), of 0 3] show ?thesis by fastforce
qed

section \<open>The two ends of a pipe\<close>

text \<open>The FCBs that are in use for an end of a pipe fit: they lead to a pipe that names them as the end their operations
  are for.\<close>

definition pipe_typed :: "okernel \<Rightarrow> bool" where
  "pipe_typed s \<longleftrightarrow> (\<forall>i k e. i \<notin> set (o_FCB_freelist s) \<and> f_streamfunc (o_FT s i) = pipe_ops e \<and> f_streamobj (o_FT s i) = Pipe_obj k \<longrightarrow>
     (\<exists>p. pipes s k = Some p \<and> (case e of reader_fo \<Rightarrow> p_reader p = Some i | writer_fo \<Rightarrow> p_writer p = Some i)))"

text \<open>C28. \<open>Pipe\<close> makes a pipe whose ends fit. With two free file ids and FCBs, and memory, it returns 0 and the two lowest
  free file ids, which lead to two different FCBs, the first with the operations of a reader and the second with those of a
  writer, of one and the same new and empty pipe; the file table stays consistent and the ends of all pipes still
  fit. Without them it returns -1 and keeps every file id.\<close>

theorem sys_Pipe_typed:
  assumes ok: "ofiles_ok s" and typed: "pipe_typed s" and new: "\<forall>i. f_streamobj (o_FT s i) \<noteq> Pipe_obj (fresh s)"
  shows "if 2 \<le> length (ofree_fids s) \<and> 2 \<le> length (o_FCB_freelist s)
    then \<exists>s' c0 c1 q. sys_Pipe True h s = Some (s', Some (ofree_fids s ! 0, ofree_fids s ! 1), 0) \<and> c0 \<noteq> c1
        \<and> q_FIDT (o_PT s' (curproc s)) (ofree_fids s ! 0) = Some c0 \<and> q_FIDT (o_PT s' (curproc s)) (ofree_fids s ! 1) = Some c1
        \<and> f_streamfunc (o_FT s' c0) = pipe_ops reader_fo \<and> f_streamfunc (o_FT s' c1) = pipe_ops writer_fo
        \<and> f_streamobj (o_FT s' c0) = Pipe_obj (fresh s) \<and> f_streamobj (o_FT s' c1) = Pipe_obj (fresh s)
        \<and> pipes s' (fresh s) = Some q \<and> p_reader q = Some c0 \<and> p_writer q = Some c1 \<and> pipe_inv q [] \<and> pipe_typed s' \<and> ofiles_ok s'
    else \<exists>s'. sys_Pipe mem h s = Some (s', None, -1) \<and> o_PT s' = o_PT s"
proof -
  obtain xs where s: "ofiles_inv s xs {} no_holds" "o_FCB_freelist s = xs" "curproc s < n_proc s" using ok by (rule ofiles_okD)
  show ?thesis
  proof (cases "2 \<le> length (ofree_fids s) \<and> 2 \<le> length (o_FCB_freelist s)")
    case True
    obtain f0 f1 fs where fs: "ofree_fids s = f0 # f1 # fs" using True by (metis One_nat_def Suc_1 Suc_le_length_iff)
    obtain c0 c1 ys where xs: "xs = c0 # c1 # ys" using True s(2) by (metis One_nat_def Suc_1 Suc_le_length_iff)
    have "distinct (ofree_fids s)" by (simp add: ofree_fids_def)
    then have ne: "c0 \<noteq> c1" "f0 \<noteq> f1" using ofiles_invD(2) [OF s(1)] xs fs by auto
    have take2: "take 2 (ofree_fids s) = [f0, f1]" "take 2 xs = [c0, c1]" "drop 2 xs = ys" by (simp_all add: fs xs numeral_2_eq_2)
    obtain t where t: "old_FCB_reserve 2 s = (t, Some ([f0, f1], [c0, c1]))" "ofiles_inv t ys {} no_holds" "ft_only s t"
      "\<And>q. q_FIDT (o_PT t q) = (if q = curproc s then (q_FIDT (o_PT s q))([f0, f1] [\<mapsto>] [c0, c1]) else q_FIDT (o_PT s q))"
      using reserve_enough [OF s(1,3), of 2] True s(2) unfolding take2 by auto
    note F = ft_only_fields [OF t(3)]
    obtain q where q: "new_pipe True h t = (t\<lparr>pipes := (pipes t)(fresh t \<mapsto> q), fresh := fresh t + 1\<rparr>, Some (fresh t))" "pipe_inv q []"
      using new_pipe_eq by blast
    let ?q = "q\<lparr>p_reader := Some c0, p_writer := Some c1\<rparr>" and ?k = "fresh s"
    let ?s = "upd_ofcb c1 (\<lambda>f. f\<lparr>f_streamfunc := pipe_ops writer_fo, f_streamobj := Pipe_obj ?k\<rparr>)
        (upd_ofcb c0 (\<lambda>f. f\<lparr>f_streamfunc := pipe_ops reader_fo, f_streamobj := Pipe_obj ?k\<rparr>)
          (t\<lparr>pipes := (pipes s)(?k \<mapsto> ?q), fresh := ?k + 1\<rparr>))"
    have run: "sys_Pipe True h s = Some (?s, Some (f0, f1), 0)"
      using t(1) q(1) F(5,10) by (simp add: sys_Pipe_def Let_def upd_ofcb_def)
    have fl: "o_FCB_freelist ?s = ys" using ofiles_invD(1) [OF t(2)] by simp
    have "pipe_typed ?s"
      unfolding pipe_typed_def
    proof (intro allI impI)
      fix i k e assume a: "i \<notin> set (o_FCB_freelist ?s) \<and> f_streamfunc (o_FT ?s i) = pipe_ops e \<and> f_streamobj (o_FT ?s i) = Pipe_obj k"
      show "\<exists>p. pipes ?s k = Some p \<and> (case e of reader_fo \<Rightarrow> p_reader p = Some i | writer_fo \<Rightarrow> p_writer p = Some i)"
      proof (cases "i = c0 \<or> i = c1")
        case True
        then show ?thesis using a ne(1) by auto
      next
        case False
        then have "i \<notin> set (o_FCB_freelist s)" "f_streamfunc (o_FT s i) = pipe_ops e" "f_streamobj (o_FT s i) = Pipe_obj k"
          using a fl s(2) xs F(15,16) [of i] by auto
        moreover from this have "k \<noteq> ?k" using new by auto
        ultimately show ?thesis using typed by (simp add: pipe_typed_def)
      qed
    qed
    moreover have "pipe_inv ?q []" using q(2) by simp
    moreover have "q_FIDT (o_PT ?s (curproc s)) f0 = Some c0" "q_FIDT (o_PT ?s (curproc s)) f1 = Some c1" using t(4) ne(2) by simp_all
    moreover have "ofiles_ok ?s" using sys_Pipe_ok [OF ok run] by blast
    ultimately show ?thesis unfolding if_P [OF True] using run ne(1) fs
      by (intro exI [of _ ?s] exI [of _ c0] exI [of _ c1] exI [of _ ?q]) simp
  next
    case False
    then obtain t where "old_FCB_reserve 2 s = (t, None)" "o_PT t = o_PT s" using reserve_not_enough [OF s(1), of 2] s(2) by auto
    then show ?thesis unfolding if_not_P [OF False] by (simp add: sys_Pipe_def)
  qed
qed

theorem sys_Pipe_typed_witness:
  "\<exists>s'. sys_Pipe True \<lparr>c_next = (\<lambda>_. None), c_prev = (\<lambda>_. None), c_char = (\<lambda>_. 0), c_brk = 0\<rparr> family = Some (s', Some (0, 1), 0)
    \<and> pipe_typed s'"
proof -
  have "ofiles_ok family" "pipe_typed family" "\<forall>i. f_streamobj (o_FT family i) \<noteq> Pipe_obj (fresh family)" "ofree_fids family = [0, 1, 2, 3]"
    "length (o_FCB_freelist family) = 8"
    using family_ok(1) by (simp_all add: osys_with_def pipe_typed_def family_def blank_okernel_def ofree_fids_def upt_rec)
  then show ?thesis using sys_Pipe_typed [of family "\<lparr>c_next = (\<lambda>_. None), c_prev = (\<lambda>_. None), c_char = (\<lambda>_. 0), c_brk = 0\<rparr>"] by auto
qed

section \<open>Information streams\<close>

text \<open>A program that reads an information stream until the call returns 0 or less, with at most \<open>m\<close> calls: the value each call returns
  and what it stores.\<close>

fun read_infos :: "nat \<Rightarrow> nat \<Rightarrow> okernel \<Rightarrow> (int \<times> procinfo option) list option" where
  "read_infos 0 k s = None"
| "read_infos (Suc m) k s = do {
     (s, r, x) \<leftarrow> procinfo_read (Some k) s;
     if r \<le> 0 then Some [(r, x)] else do { rest \<leftarrow> read_infos m k s; Some ((r, x) # rest) } }"

definition info_of :: "okernel \<Rightarrow> nat \<Rightarrow> procinfo" where
  "info_of s p = \<lparr>i_pid = int p, i_ppid = old_get_pid (q_parent (o_PT s p)), i_alive = (q_pstate (o_PT s p) = ALIVE),
     i_thread_count = q_thread_count (o_PT s p), i_main_task = q_main_task (o_PT s p), i_argl = q_argl (o_PT s p), i_args = []\<rparr>"

definition args_readable :: "old_PCB \<Rightarrow> bool" where
  "args_readable c \<longleftrightarrow> q_argl c = 0 \<or> 0 < q_argl c \<and> q_args c \<noteq> None"

lemma copy_args_readable:
  "copy_args (q_args c) (if q_argl c > int PROCINFO_MAX_ARGS_SIZE then int PROCINFO_MAX_ARGS_SIZE else q_argl c) to = None \<longleftrightarrow> \<not> args_readable c"
  by (auto simp: copy_args_def args_readable_def PROCINFO_MAX_ARGS_SIZE_def split: Option.bind_splits)

text \<open>A result without the argument bytes, and the results for a list of processes.\<close>

definition sans_args :: "int \<times> procinfo option \<Rightarrow> int \<times> procinfo option" where
  "sans_args rx = (fst rx, map_option (\<lambda>i. i\<lparr>i_args := []\<rparr>) (snd rx))"

definition listing :: "okernel \<Rightarrow> nat list \<Rightarrow> (int \<times> procinfo option) list" where
  "listing s ps = map (\<lambda>p. (1, Some (info_of s p))) ps @ [(0, None)]"

lemma read_infos_from:
  assumes "procinfos s k = Some cb" and "cursor cb = int c" and "1 \<le> c" "c \<le> n_proc s" and "n_proc s - c < m"
  shows "if \<forall>p\<in>set [c..<n_proc s]. q_pstate (o_PT s p) \<noteq> FREE \<longrightarrow> args_readable (o_PT s p)
    then \<exists>is. read_infos m k s = Some is \<and> map sans_args is = listing s (filter (\<lambda>p. q_pstate (o_PT s p) \<noteq> FREE) [c..<n_proc s])
    else read_infos m k s = None"
  using assms
proof (induction m arbitrary: s cb c)
  case (Suc m)
  let ?P = "\<lambda>p. q_pstate (o_PT s p) \<noteq> FREE"
  note P = Suc.prems
  show ?case
  proof (cases "first_from ?P c (n_proc s)")
    case None
    then have none: "filter ?P [c..<n_proc s] = []" by (auto simp: filter_empty_conv first_from_None_iff)
    then have "read_infos (Suc m) k s = Some [(0, None)]" using P None by (cases "c = n_proc s") (auto simp: procinfo_read_def)
    then show ?thesis using none by (auto simp: filter_empty_conv listing_def sans_args_def)
  next
    case (Some d)
    have d: "c \<le> d" "d < n_proc s" "?P d" "\<And>p. c \<le> p \<Longrightarrow> p < d \<Longrightarrow> \<not> ?P p" using first_from_SomeD [OF Some] by auto
    have sp: "[c..<n_proc s] = [c..<d] @ d # [Suc d..<n_proc s]" using d(1,2) by (metis less_imp_le_nat upt_add_eq_append upt_conv_Cons le_add_diff_inverse)
    have fl: "filter ?P [c..<n_proc s] = d # filter ?P [Suc d..<n_proc s]" unfolding sp using d(3,4) by simp
    have al: "(\<forall>p\<in>set [c..<n_proc s]. ?P p \<longrightarrow> args_readable (o_PT s p)) \<longleftrightarrow>
        args_readable (o_PT s d) \<and> (\<forall>p\<in>set [Suc d..<n_proc s]. ?P p \<longrightarrow> args_readable (o_PT s p))"
      unfolding sp using d(3,4) by auto
    have cu: "\<not> (cursor cb < 1 \<or> cursor cb > int (n_proc s))" "cursor cb \<noteq> int (n_proc s)" "nat (cursor cb) = c" using P d(1,2) by auto
    show ?thesis
    proof (cases "args_readable (o_PT s d)")
      case False
      then have "procinfo_read (Some k) s = None" using P(1) cu Some copy_args_readable [of "o_PT s d"] by (simp add: procinfo_read_def Let_def)
      then show ?thesis using al False by auto
    next
      case True
      then obtain a where a: "copy_args (q_args (o_PT s d)) (if q_argl (o_PT s d) > int PROCINFO_MAX_ARGS_SIZE then int PROCINFO_MAX_ARGS_SIZE
          else q_argl (o_PT s d)) (i_args (info cb)) = Some a" using copy_args_readable [of "o_PT s d"] by fastforce
      let ?i = "(info_of s d)\<lparr>i_args := a\<rparr>"
      let ?s = "s\<lparr>procinfos := (procinfos s)(k \<mapsto> \<lparr>info = ?i, cursor = int d + 1\<rparr>)\<rparr>"
      have r: "procinfo_read (Some k) s = Some (?s, 1, Some ?i)" using P(1) cu Some a by (simp add: procinfo_read_def Let_def info_of_def)
      have io: "listing ?s = listing s" by (simp add: fun_eq_iff listing_def info_of_def)
      have e: "?i\<lparr>i_args := []\<rparr> = info_of s d" by (simp add: info_of_def)
      have "n_proc s - Suc d < m" using P(4,5) d(1,2) by linarith
      have IH: "if \<forall>p\<in>set [Suc d..<n_proc s]. ?P p \<longrightarrow> args_readable (o_PT s p)
        then \<exists>is. read_infos m k ?s = Some is \<and> map sans_args is = listing s (filter ?P [Suc d..<n_proc s])
        else read_infos m k ?s = None"
      proof -
        have sf: "o_PT ?s = o_PT s" "n_proc ?s = n_proc s" by simp_all
        have pr: "procinfos ?s k = Some \<lparr>info = ?i, cursor = int d + 1\<rparr>" "cursor \<lparr>info = ?i, cursor = int d + 1\<rparr> = int (Suc d)" "1 \<le> Suc d" by simp_all
        show ?thesis by (rule Suc.IH [OF pr, unfolded io sf]) (use d(2) \<open>n_proc s - Suc d < m\<close> in simp_all)
      qed
      have st: "read_infos (Suc m) k s = do { is \<leftarrow> read_infos m k ?s; Some ((1, Some ?i) # is) }" using r by simp
      show ?thesis
      proof (cases "\<forall>p\<in>set [Suc d..<n_proc s]. ?P p \<longrightarrow> args_readable (o_PT s p)")
        case rest: True
        then obtain l where l: "read_infos m k ?s = Some l" "map sans_args l = listing s (filter ?P [Suc d..<n_proc s])"
          using IH by auto
        have "read_infos (Suc m) k s = Some ((1, Some ?i) # l)" using st l(1) by simp
        moreover have "map sans_args ((1, Some ?i) # l) = listing s (filter ?P [c..<n_proc s])" unfolding fl using l(2) e by (simp add: listing_def sans_args_def)
        ultimately show ?thesis unfolding al using True rest by simp
      next
        case False
        then have "read_infos m k ?s = None" using IH by (simp only: if_False)
        then show ?thesis unfolding al using st False by simp
      qed
    qed
  qed
qed simp

text \<open>C26. An information stream lists the processes in use from pid 1 on; process 0, where the cursor never is, is not listed. Reading a
  stream that has just been opened, each read returns 1 (the documentation has the number of bytes) and stores the
  record of the next process that is not free, in the order of the pids, with its parent, whether it is alive, its threads, task
  and argument length; then a read returns 0 and stores nothing. That is at most as many reads as there are PCBs. It ends differently if
  some process from 1 on has arguments of positive length that are gone, as every zombie with arguments has: then a read copies
  from the null pointer.\<close>

theorem info_stream_lists_processes:
  assumes "procinfos s k = Some \<lparr>info = junk, cursor = 1\<rparr>" and "1 \<le> n_proc s"
  shows "if \<forall>p\<in>{1..<n_proc s}. q_pstate (o_PT s p) \<noteq> FREE \<longrightarrow> args_readable (o_PT s p)
    then \<exists>is. read_infos (n_proc s) k s = Some is
      \<and> map sans_args is = map (\<lambda>p. (1, Some (info_of s p))) (filter (\<lambda>p. q_pstate (o_PT s p) \<noteq> FREE) [1..<n_proc s]) @ [(0, None)]
    else read_infos (n_proc s) k s = None"
  using read_infos_from [OF assms(1), of 1 "n_proc s"] assms(2) unfolding listing_def by simp

theorem info_stream_lists_processes_witness:
  "\<exists>is. read_infos 8 21 (family\<lparr>procinfos := [21 \<mapsto> \<lparr>info = info_of family 0, cursor = 1\<rparr>]\<rparr>) = Some is
    \<and> map (\<lambda>(r, x). (r, map_option i_pid x)) is = [(1, Some 1), (1, Some 2), (1, Some 3), (0, None)]"
proof -
  let ?s = "family\<lparr>procinfos := [21 \<mapsto> \<lparr>info = info_of family 0, cursor = 1\<rparr>]\<rparr>"
  have f: "procinfos ?s 21 = Some \<lparr>info = info_of family 0, cursor = 1\<rparr>" "n_proc ?s = 8" "\<forall>p. args_readable (o_PT ?s p)"
    by (simp_all add: family_def blank_okernel_def args_readable_def)
  have "filter (\<lambda>p. q_pstate (o_PT ?s p) \<noteq> FREE) [1..<8] = [1, 2, 3]" by (simp add: family_def upt_rec)
  moreover from info_stream_lists_processes [OF f(1)] f(2,3)
  obtain l where "read_infos 8 21 ?s = Some l"
    "map sans_args l = map (\<lambda>p. (1, Some (info_of ?s p))) (filter (\<lambda>p. q_pstate (o_PT ?s p) \<noteq> FREE) [1..<8]) @ [(0, None)]" by auto
  ultimately have l: "read_infos 8 21 ?s = Some l" "map sans_args l = map (\<lambda>p. (1, Some (info_of ?s p))) [1, 2, 3] @ [(0, None)]" by simp_all
  have "map (\<lambda>(r, x). (r, map_option i_pid x)) l = map (\<lambda>(r, x). (r, map_option i_pid x)) (map sans_args l)"
    by (simp add: sans_args_def case_prod_beta option.map_comp comp_def)
  also have "\<dots> = [(1, Some 1), (1, Some 2), (1, Some 3), (0, None)]" unfolding l(2) by (simp add: info_of_def)
  finally have "map (\<lambda>(r, x). (r, map_option i_pid x)) l = [(1, Some 1), (1, Some 2), (1, Some 3), (0, None)]" .
  with l(1) show ?thesis by (intro exI [of _ l] conjI)
qed

end
