(* ===== verification/Old_Syscalls.thy ===== *)
theory Old_Syscalls
  imports Old_Calls
begin

text \<open>
  The system calls of the earlier kernel as programs see them: the list \<open>SYSCALLS\<close> of \<open>old/kernel_sys.h\<close>, each with its function \<open>sys_NAME\<close>
  and the waits it makes, and how these calls are made of the steps of theory Old_System.
\<close>

section \<open>The calls\<close>






section \<open>Every call is a run of steps\<close>










subsection \<open>The loops that wait\<close>






subsection \<open>The calls that wait\<close>










subsection \<open>Transfers\<close>














section \<open>Property\<close>






end
