(* ===== verification/Spec2Isabelle.thy ===== *)
theory Spec2Isabelle
  imports Startup First_Program Lib_Stubs Mutex Kernel_Lock Old_Syscalls
begin

text \<open>
  A verification of tinierOS, a preemptive kernel for the ATmega328P (an 8-bit AVR with 2 KB of RAM), and
  of parts of the earlier kernel it comes from, kept under \<open>old/\<close>.

  \<^bold>\<open>The program.\<close> \<open>src/arch/avr/startup.S\<close> clears the memory and calls \<open>main\<close>
  (\<open>src/kernel/kernel_init.c\<close>), which initialises the hardware (\<open>src/arch/avr/cpu.c\<close>), the scheduler
  (\<open>kernel_sched.c\<close>), the process table (\<open>kernel_proc.c\<close>), the file table (\<open>kernel_streams.c\<close>) and the
  devices (\<open>kernel_dev.c\<close>), creates the first process and enters the scheduler, which never returns while there are
  threads. User programs call the kernel through \<open>kernel_sys.c\<close>, with interrupts off. Threads are switched by
  \<open>yield\<close>, which the timer interrupt, a blocking call or the idle thread calls, and by the assembly
  routine of \<open>context.S\<close>. Every list of the kernel is a ring of \<open>include/util.h\<close>.

  \<^bold>\<open>Theories.\<close>
  \<^item> Prelude: types, generic lemmas, and the interfaces as locales: \<open>invariant_system\<close> (a step relation and
    what it keeps), \<open>slot_allocator\<close> (a table with a flag per slot), \<open>free_pool\<close> (a first-in first-out list of free
    objects). They are interpreted on the scheduler (\<open>sched\<close>), the thread pool (\<open>threads\<close>), the process table
    (\<open>procs\<close>), the file system (\<open>filesys\<close>) and the file table (\<open>files\<close>), and for the earlier kernel on its file table
    (\<open>ofiles\<close>), its system calls (\<open>okern\<close>) and its mutex (\<open>mtx\<close>). The locale \<open>scheduler\<close> of theory Kernel_Lock is the contract on which
    the kernel lock rests; it gives an \<open>invariant_system\<close> (\<open>klock\<close>) and is interpreted on \<open>kernel_sched.c\<close> (\<open>ks\<close>).
  \<^item> Rlist: the rings of \<open>util.h\<close> in an explicit store; \<open>rl_splice\<close> and every list operation against lists, with
    the locale \<open>intrusive_list\<close> and its interpretation. Rlist_Family: several lists over one store.
  \<^item> Cstring: \<open>src/lib/string.c\<close> and the argument vectors of \<open>util.h\<close> over byte memory.
  \<^item> Cpu: \<open>cpu.c\<close>: interrupts, timer, UART, initial stack frame. Context: \<open>context.S\<close>, instruction
    by instruction on registers and stack. Startup: \<open>startup.S\<close>, the reset code in the same way, and the vector table. Lib_Stubs: the
    stubs of \<open>src/lib\<close>, the checks of \<open>util.h\<close>, and the functions of \<open>cpu.c\<close> with empty bodies.
  \<^item> Kernel_State: control blocks, constants, the record \<open>kernel\<close> of all kernel variables. Sched:
    \<open>kernel_sched.c\<close>. Sched_Inv, Sched_Ops: the scheduler invariant and its preservation by every operation.
    Sched_Props: the kernel as a step relation and the scheduler's properties. Sched_Frame: what the scheduler does
    not touch (\<open>outside\<close>) and what its invariant depends on (\<open>inside\<close>); the other components rest on it.
  \<^item> Dev: \<open>kernel_dev.c\<close>. Streams: \<open>kernel_streams.c\<close>. Streams_Props: the invariant of the file table (free list,
    file id tables, reference counts) and the file system calls.
  \<^item> Proc: \<open>kernel_proc.c\<close>. Syscalls: \<open>kernel_sys.c\<close>, the start functions of threads and \<open>main\<close>. Proc_Props:
    \<open>Exec\<close>, \<open>Exit\<close>, \<open>WaitChild\<close> and the thread calls. Boot: from reset to the first process. First_Program:
    \<open>test_process\<close>, from reset to its output on the terminal, with busy polls and alarms.
  \<^item> Pipe, Pipe_Props: the pipes of \<open>old/kernel_pipe.c\<close> as a bounded queue. Condvar: condition variables and
    the kernel semaphore of \<open>old/kernel_cc.c\<close>, over a scheduler that is a parameter. Mutex: its spin locks, as steps of any number of
    threads. Kernel_Lock: the kernel lock, as the protocol \<open>lstep\<close> that any number of threads on any number of cores follow. Old_Syscalls: \<open>old/kernel_sys.h\<close>,
    the list of the system calls, and each call as a run of the steps of Old_System.
  \<^item> Old_Kernel: the state of the earlier kernel (record \<open>okernel\<close>: process table, file table, threads, pipes,
    sockets, information streams, devices), the file table of \<open>old/kernel_streams.c\<close> and \<open>Pipe\<close>. Old_Socket:
    \<open>old/kernel_socket.c\<close>. Old_Dev: \<open>old/kernel_dev.c\<close>. Old_Streams: the information streams of
    \<open>old/kernel_proc.c\<close> and the calls of \<open>old/kernel_streams.c\<close>. Old_Proc: \<open>old/kernel_proc.c\<close>,
    \<open>old/kernel_threads.c\<close> and the boot of \<open>old/kernel_init.c.old\<close>. Names that the present kernel has too carry the
    prefix \<open>old_\<close>.
  \<^item> Old_Files, Old_Files_Ops: the invariant of its file table, kept by every call on files. Old_Tree: the process
    table as a tree with a free list. Old_Proc_Props: both together, kept by \<open>Exec\<close>, \<open>WaitChild\<close> and exit. Old_System:
    all system calls as one step relation \<open>ostep\<close>. A call that waits is cut into parts at its waits, and other processes make their steps
    between the parts; the state has the references that the calls of \<open>Read\<close> and \<open>Write\<close> in progress hold.
    Old_Boot: boot establishes the invariant. Old_Socket_Props, Old_Calls: what the calls do.

  \<^bold>\<open>Conventions.\<close> An operation takes the kernel and returns it updated. \<open>None\<close> is a call that does not return: an
  endless loop, a failed assertion, a dereference of NULL. Loops that might not end are \<open>partial_function (option)\<close>, and
  the theorems say that they do end. Registers and memory are bytes at 16-bit addresses, and machine integers are
  words where they can wrap. \<open>yield\<close> goes from the call in one thread to the point where the next thread
  continues; what is left of the old thread is its \<open>frame\<close>. A call that waits gets the list of what other threads do
  during its waits as an argument (\<open>pause\<close>, \<open>opause\<close>, \<open>pipe_pause\<close>, \<open>cv_pause\<close>), and a call that polls the UART the list of
  what the polls find: there is no other fuel, and a theorem that such a call returns says how long the lists have to
  be. User programs are a parameter (\<open>program\<close>) of the two functions that call them.

  \<^bold>\<open>What is shown.\<close> Scheduler: in every reachable state a thread is queued if and only if it is ready and its context
  is saved; no assertion fails and no loop is endless; \<open>yield\<close> runs a ready thread of the highest priority with a full
  quantum; priorities stay in range; boosting, timeouts, blocking, waking and exiting do what they say. Context
  switch: a new thread enters its function, an old one resumes as it was left. Lists: every operation of \<open>util.h\<close>
  against lists (and, as a lemma, that \<open>rlist_pop_back\<close> empties its list). Files: free list and reference counts are consistent in
  every reachable state, reserving is all or nothing, open and close are a round trip, invalid descriptors are refused, a
  terminal write sends all bytes. Processes: \<open>Exec\<close> on every branch, exit and join, and two consequences of the
  configuration and of PTCBs that are never released. The reset code sets up the memory for C; booting reaches a
  state in which all invariants hold and the first process gets the core; its program says hello on the terminal.

  Earlier kernel: a pipe is a bounded queue, what closing does, signals wake the first sleeper, the mutex excludes and
  does not lock up, and the kernel lock admits one thread at a time, loses no wakeup and never fails, for every scheduler with the contract.
  The kernel boots, and in every state its steps lead to, file table, reference counts, process tree and free lists are
  consistent, also while transfers are in progress and their streams are closed by others; every system call, with what others do during
  its waits, is a run of these steps. The steps leave out three things: a wait for one child that ends after
  somebody else has reaped the child, an exit after that of the initial process, and more transfers at a time than the reference count can hold.
  What the first does is shown apart: the child is reaped twice, the free list of PCBs becomes cyclic, and processes share a PCB. \<open>Exit\<close> and
  \<open>WaitChild\<close> are a round trip, \<open>ThreadJoin\<close>, \<open>Dup2\<close> and \<open>Pipe\<close> do what they say, an information stream lists the
  processes from pid 1 on. \<open>Connect\<close> and \<open>Accept\<close> leave two connected sockets, a connection is a pair of bounded queues, \<open>ShutDown\<close>
  closes its direction, and a request that has timed out dangles.

  \<^bold>\<open>Parameters and bounds.\<close> \<open>MAX_PROC\<close> and \<open>MAX_FILEID\<close> of the earlier kernel are not in the repository with the
  values it was built with: they are the fields \<open>n_proc\<close> and \<open>n_fileid\<close>, and the theorems ask that their product is below
  \<open>2 ^ 32\<close>, so that a reference count cannot wrap. Its scheduler is not there either. In \<open>okernel\<close>, \<open>spawn_thread\<close> and \<open>wakeup\<close> leave a
  PTCB and a mark (\<open>old_create_ptcb\<close> writes the PTCB as the present \<open>create_ptcb\<close> does and always finds memory, \<open>old_wakeup\<close> records
  the thread), and hardware and scheduler are the parameters \<open>bios\<close>, \<open>init_sched\<close> and \<open>run_sched\<close> of the boot. Condition variables and the kernel
  lock take \<open>sleep_releasing\<close> and \<open>wakeup\<close> as the parameter \<open>sched\<close>; what signals do to the threads is shown with those of
  \<open>kernel_sched.c\<close>, which has at most two threads and one core, and the kernel lock for every scheduler that satisfies the locale
  \<open>scheduler\<close>. In the protocol of the kernel lock a step is a stretch of code that runs with \<open>kernel_mutex\<close> held.

  \<^bold>\<open>Not modelled.\<close> The section addresses of the linker script are the parameter \<open>link_map\<close> of the reset code, and that the variables of
  the kernel lie in \<open>.bss\<close> is the hypothesis \<open>bss_cleared\<close> of the boot theorems: the kernel state is a record, not bytes. Where the string
  literal of \<open>test_process\<close> lies is a hypothesis too: the script means to put it into RAM and leaves it in flash. Registers and stack pointer of the reset code
  are not cells of the data memory, although on the chip they are the addresses below 0x60; the sections of the script begin at 0x100. The time that
  the delays of \<open>main\<close> and \<open>test_process\<close> take is not modelled, only that they end and which alarms meet those of \<open>test_process\<close>. A new
  thread runs \<open>gain\<close> with interrupts on, and an alarm within it is not modelled. \<open>malloc\<close> of the list nodes of a pipe does
  not fail in the model; the code does not check it. The macros of \<open>old/kernel_sys.c\<close> that lock the kernel around every call are in the
  protocol of Kernel_Lock (the steps into and out of \<open>In_call\<close>), and what the calls do is in Old_System; the two are not joined into one state. The
  waits of a transfer on a pipe are an input of the transfer, not steps of others. \<open>tinyos.h\<close> and the other headers are declarations beyond what is
  named above. The scheduler of \<open>old/\<close>, the hardware layer it ran on and its test programs are not in the repository.
\<close>

end
